(* ===== verification/Prelude.thy ===== *)
theory Prelude
  imports Main "HOL-Library.Char_ord" "HOL-Library.List_Lexorder" "HOL-Library.Sublist"
begin

text \<open>
  What the components share: errors as the left summand of a sum with a sequencing
  operator, Python strings as lists of characters (a character is a code point below 256),
  the fragments of the Python standard library the sources call (\<open>str.isspace\<close>,
  \<open>str.lower\<close>, \<open>str.join\<close>, \<open>str.split\<close>-free searching, decimal rendering
  of integers, insertion-ordered de-duplication), and the lemma collections the component
  proofs use.
\<close>

section \<open>Collections\<close>

named_theorems result_simps \<open>rewriting of sequenced computations that may fail\<close>
named_theorems char_simps \<open>unfolding of the character classes\<close>
named_theorems model_defs \<open>definitions that a component unfolds freely\<close>

section \<open>Computations that may raise\<close>

type_synonym ('e, 'a) result = "'e + 'a"

fun rbind :: "('e, 'a) result \<Rightarrow> ('a \<Rightarrow> ('e, 'b) result) \<Rightarrow> ('e, 'b) result" where
  "rbind (Inl e) f = Inl e"
| "rbind (Inr x) f = f x"

lemma rbind_cong [fundef_cong]:
  "m = m' \<Longrightarrow> (\<And>x. m' = Inr x \<Longrightarrow> f x = g x) \<Longrightarrow> rbind m f = rbind m' g"
  by (cases m') auto

lemma rbind_eq_Inr [result_simps]: "rbind m f = Inr y \<longleftrightarrow> (\<exists>x. m = Inr x \<and> f x = Inr y)"
  by (cases m) auto

lemma rbind_eq_Inl [result_simps]:
  "rbind m f = Inl e \<longleftrightarrow> m = Inl e \<or> (\<exists>x. m = Inr x \<and> f x = Inl e)"
  by (cases m) auto

lemma rbind_assoc [result_simps]: "rbind (rbind m f) g = rbind m (\<lambda>x. rbind (f x) g)"
  by (cases m) auto

lemma rbind_Inr_right [simp]: "rbind m Inr = m"
  by (cases m) auto

fun rmap :: "('a \<Rightarrow> 'b) \<Rightarrow> ('e, 'a) result \<Rightarrow> ('e, 'b) result" where
  "rmap f (Inl e) = Inl e"
| "rmap f (Inr x) = Inr (f x)"

lemma rmap_eq_Inr [result_simps]: "rmap f m = Inr y \<longleftrightarrow> (\<exists>x. m = Inr x \<and> y = f x)"
  by (cases m) auto

lemma rmap_eq_Inl [result_simps]: "rmap f m = Inl e \<longleftrightarrow> m = Inl e"
  by (cases m) auto

lemma rmap_rmap [simp]: "rmap f (rmap g m) = rmap (\<lambda>x. f (g x)) m"
  by (cases m) auto

text \<open>Evaluating a list comprehension whose body may raise stops at the first error.\<close>

fun rmapM :: "('a \<Rightarrow> ('e, 'b) result) \<Rightarrow> 'a list \<Rightarrow> ('e, 'b list) result" where
  "rmapM f [] = Inr []"
| "rmapM f (x # xs) = rbind (f x) (\<lambda>y. rbind (rmapM f xs) (\<lambda>ys. Inr (y # ys)))"

lemma rmapM_cong [fundef_cong]:
  "xs = ys \<Longrightarrow> (\<And>x. x \<in> set ys \<Longrightarrow> f x = g x) \<Longrightarrow> rmapM f xs = rmapM g ys"
proof (induction ys arbitrary: xs)
  case Nil
  then show ?case by simp
next
  case (Cons y ys)
  from Cons.IH [OF refl] Cons.prems(2) have "rmapM f ys = rmapM g ys" by simp
  moreover have "f y = g y" using Cons.prems(2) by simp
  ultimately show ?case using Cons.prems(1) by simp
qed

lemma rmapM_Inr_iff:
  "(\<exists>ys. rmapM f xs = Inr ys) \<longleftrightarrow> (\<forall>x\<in>set xs. \<exists>y. f x = Inr y)"
  by (induction xs) (auto simp: result_simps)

lemma rmapM_InrD: "rmapM f xs = Inr ys \<Longrightarrow> list_all2 (\<lambda>x y. f x = Inr y) xs ys"
  by (induction xs arbitrary: ys) (auto simp: result_simps)

text \<open>A loop whose body may raise and that threads a state.\<close>

fun rfold :: "('a \<Rightarrow> 's \<Rightarrow> ('e, 's) result) \<Rightarrow> 'a list \<Rightarrow> 's \<Rightarrow> ('e, 's) result" where
  "rfold f [] s = Inr s"
| "rfold f (x # xs) s = rbind (f x s) (rfold f xs)"

lemma rfold_inv:
  assumes "rfold f xs s = Inr s'" "P s" "\<And>x s s'. x \<in> set xs \<Longrightarrow> P s \<Longrightarrow> f x s = Inr s' \<Longrightarrow> P s'"
  shows "P s'"
  using assms
proof (induction xs arbitrary: s)
  case (Cons x xs)
  then obtain s1 where s1: "f x s = Inr s1" "rfold f xs s1 = Inr s'" by (auto simp: result_simps)
  show ?case
  proof (rule Cons.IH [OF s1(2)])
    show "P s1" using Cons.prems(2,3) s1(1) by (meson list.set_intros(1))
  qed (use Cons.prems(3) in \<open>meson list.set_intros(2)\<close>)
qed simp

section \<open>Python strings\<close>

abbreviation code :: "char \<Rightarrow> nat" where
  "code c \<equiv> of_char c"

text \<open>\<open>str.isspace\<close> on the code points below 256.\<close>

definition py_isspace :: "char \<Rightarrow> bool" where
  "py_isspace c \<longleftrightarrow> code c \<in> {9, 10, 11, 12, 13, 28, 29, 30, 31, 32, 133, 160}"

definition is_upper :: "char \<Rightarrow> bool" where
  "is_upper c \<longleftrightarrow> 65 \<le> code c \<and> code c \<le> 90"

definition is_lower :: "char \<Rightarrow> bool" where
  "is_lower c \<longleftrightarrow> 97 \<le> code c \<and> code c \<le> 122"

definition is_digit :: "char \<Rightarrow> bool" where
  "is_digit c \<longleftrightarrow> 48 \<le> code c \<and> code c \<le> 57"

declare py_isspace_def [char_simps] is_upper_def [char_simps] is_lower_def [char_simps]
  is_digit_def [char_simps]

text \<open>\<open>str.lower\<close> on ASCII letters; the sources only call it on words of ASCII
  letters, digits and underscores, or compare against ASCII keywords.\<close>

definition lower_char :: "char \<Rightarrow> char" where
  "lower_char c = (if is_upper c then char_of (code c + 32) else c)"

definition py_lower :: "string \<Rightarrow> string" where
  "py_lower s = map lower_char s"

lemma py_lower_simps [simp]:
  "py_lower [] = []"
  "py_lower (c # cs) = lower_char c # py_lower cs"
  by (simp_all add: py_lower_def)

fun py_join :: "string \<Rightarrow> string list \<Rightarrow> string" where
  "py_join sep [] = []"
| "py_join sep [x] = x"
| "py_join sep (x # y # xs) = x @ sep @ py_join sep (y # xs)"

text \<open>\<open>str.strip\<close>.\<close>

definition py_strip :: "string \<Rightarrow> string" where
  "py_strip s = rev (dropWhile py_isspace (rev (dropWhile py_isspace s)))"

text \<open>\<open>needle in haystack\<close> and \<open>str.startswith\<close>.\<close>

definition py_contains :: "string \<Rightarrow> string \<Rightarrow> bool" where
  "py_contains needle s \<longleftrightarrow> (\<exists>i \<in> set [0..<Suc (length s)]. take (length needle) (drop i s) = needle)"

definition py_startswith :: "string \<Rightarrow> string \<Rightarrow> bool" where
  "py_startswith s p \<longleftrightarrow> take (length p) s = p"

lemma py_contains_iff_sublist: "py_contains needle s \<longleftrightarrow> sublist needle s"
proof
  assume "py_contains needle s"
  then obtain i where "take (length needle) (drop i s) = needle"
    by (auto simp: py_contains_def)
  then have "s = take i s @ needle @ drop (length needle) (drop i s)"
    by (metis append_take_drop_id)
  then show "sublist needle s" by (metis sublist_appendI)
next
  assume "sublist needle s"
  then obtain ps ss where s: "s = ps @ needle @ ss" by (auto simp: sublist_def)
  then have "take (length needle) (drop (length ps) s) = needle" by simp
  moreover have "length ps \<in> set [0..<Suc (length s)]" using s by simp
  ultimately show "py_contains needle s" unfolding py_contains_def by blast
qed

text \<open>\<open>str.find\<close>: the index of the first occurrence.\<close>

fun py_find :: "string \<Rightarrow> string \<Rightarrow> nat option" where
  "py_find needle [] = (if needle = [] then Some 0 else None)"
| "py_find needle (c # cs) =
     (if py_startswith (c # cs) needle then Some 0 else map_option Suc (py_find needle cs))"

lemma py_startswith_append [simp]: "py_startswith (p @ s) p"
  by (simp add: py_startswith_def)

lemma py_startswith_iff: "py_startswith s p \<longleftrightarrow> (\<exists>t. s = p @ t)"
  by (metis append_take_drop_id py_startswith_append py_startswith_def)

lemma py_contains_Cons:
  "py_contains needle (c # cs) \<longleftrightarrow> py_startswith (c # cs) needle \<or> py_contains needle cs"
  by (auto simp: py_contains_iff_sublist sublist_Cons_right py_startswith_iff prefix_def)

lemma py_find_prefix: "py_find p (p @ s) = Some 0"
proof (cases "p @ s")
  case (Cons c cs)
  then show ?thesis by (metis py_find.simps(2) py_startswith_append)
qed simp

lemma py_find_char: "c \<notin> set p \<Longrightarrow> py_find [c] (p @ c # s) = Some (length p)"
  by (induction p) (auto simp: py_startswith_def)

section \<open>Decimal rendering of integers\<close>

fun show_nat :: "nat \<Rightarrow> string" where
  "show_nat n =
     (if n < 10 then [char_of (48 + n)] else show_nat (n div 10) @ [char_of (48 + n mod 10)])"

declare show_nat.simps [simp del]

definition digit_val :: "char \<Rightarrow> nat" where
  "digit_val c = code c - 48"

definition read_nat :: "string \<Rightarrow> nat" where
  "read_nat s = foldl (\<lambda>n c. 10 * n + digit_val c) 0 s"

lemma code_char_of [simp]: "(n::nat) < 256 \<Longrightarrow> code (char_of n) = n"
  by simp

lemma is_digit_char_of: "(n::nat) < 10 \<Longrightarrow> is_digit (char_of (48 + n))"
  by (simp add: is_digit_def del: of_char_of)

lemma digit_val_char_of: "(n::nat) < 10 \<Longrightarrow> digit_val (char_of (48 + n)) = n"
  by (simp add: digit_val_def)

lemma show_nat_digits: "\<forall>c \<in> set (show_nat n). is_digit c"
proof (induction n rule: show_nat.induct)
  case (1 n)
  then show ?case
    by (subst show_nat.simps) (auto simp: is_digit_char_of)
qed

lemma show_nat_neq_Nil [simp]: "show_nat n \<noteq> []"
  by (subst show_nat.simps) simp

lemma read_show_nat [simp]: "read_nat (show_nat n) = n"
proof (induction n rule: show_nat.induct)
  case (1 n)
  then show ?case
    by (subst show_nat.simps) (auto simp: read_nat_def digit_val_char_of)
qed

lemma show_nat_inject [simp]: "show_nat m = show_nat n \<longleftrightarrow> m = n"
  by (metis read_show_nat)

section \<open>Lists in insertion order\<close>

text \<open>Appending the values not seen before, in order: the \<open>found\<close>/\<open>seen\<close> pattern of
  the sources and the key order of a Python dict.\<close>

definition add_new :: "'a list \<Rightarrow> 'a list \<Rightarrow> 'a list" where
  "add_new found vs = foldl (\<lambda>acc v. if v \<in> set acc then acc else acc @ [v]) found vs"

lemma add_new_simps [simp]:
  "add_new found [] = found"
  "add_new found (v # vs) = add_new (if v \<in> set found then found else found @ [v]) vs"
  by (simp_all add: add_new_def)

lemma set_add_new [simp]: "set (add_new found vs) = set found \<union> set vs"
  by (induction vs arbitrary: found) auto

lemma distinct_add_new [simp]: "distinct found \<Longrightarrow> distinct (add_new found vs)"
  by (induction vs arbitrary: found) auto

lemma sum_list_map_filter_card:
  "distinct xs \<Longrightarrow> length (filter P xs) = card {x \<in> set xs. P x}"
  by (metis distinct_card distinct_filter set_filter)

text \<open>\<open>sorted(set(xs))\<close>.\<close>

definition py_sorted_set :: "'a::linorder list \<Rightarrow> 'a list" where
  "py_sorted_set xs = sort (remdups xs)"

lemma py_sorted_set [simp]:
  "set (py_sorted_set xs) = set xs" "distinct (py_sorted_set xs)" "sorted (py_sorted_set xs)"
  by (simp_all add: py_sorted_set_def)

end
