(* ===== verification/Filter_Parser.thy ===== *)
theory Filter_Parser
  imports Prelude
begin

text \<open>
  The front half of \<open>src/shared/dataset_filter.py\<close>: caps, column whitelists, the
  abstract syntax, the tokenizer, the recursive-descent parser and \<open>parse_filter\<close>.
  The parser's cursor is the list of tokens still to be read (\<open>self._tokens[self._pos:]\<close>);
  reading past its end is the \<open>IndexError\<close> Python would raise. The mutual recursion of
  \<open>_parse_expr\<close> and \<open>_parse_term\<close> carries fuel; \<open>OutOfFuel\<close> is shown unreachable.
\<close>

section \<open>Caps and column whitelists\<close>

definition MAX_FILTER_CHARS :: nat where
  "MAX_FILTER_CHARS = 8000"

definition MAX_STRING_LITERALS :: nat where
  "MAX_STRING_LITERALS = 1000"

definition MAX_PAREN_DEPTH :: nat where
  "MAX_PAREN_DEPTH = 2"

definition ERROR_FRAGMENT_MAX :: nat where
  "ERROR_FRAGMENT_MAX = 64"

text \<open>The ORM columns the compiler can emit; the whitelists map grammar keywords to them.\<close>

datatype column =
  Col_dataset_urn | Col_origin | Col_platform_urn | Col_tag_urns | Col_glossary_term_urns
  | Col_is_primary

definition SCALAR_COLUMNS :: "(string \<times> column) list" where
  "SCALAR_COLUMNS =
     [(''dataset_urn'', Col_dataset_urn), (''origin'', Col_origin),
      (''platform_urn'', Col_platform_urn)]"

definition ARRAY_COLUMNS :: "(string \<times> column) list" where
  "ARRAY_COLUMNS =
     [(''tag_urns'', Col_tag_urns), (''glossary_term_urns'', Col_glossary_term_urns)]"

definition BOOL_COLUMNS :: "(string \<times> column) list" where
  "BOOL_COLUMNS = [(''is_primary'', Col_is_primary)]"

definition BOOL_LITERALS :: "(string \<times> bool) list" where
  "BOOL_LITERALS = [(''true'', True), (''false'', False)]"

definition in_dict :: "string \<Rightarrow> (string \<times> 'v) list \<Rightarrow> bool" where
  "in_dict k d \<longleftrightarrow> k \<in> fst ` set d"

lemma in_dict_map_of: "in_dict k d \<longleftrightarrow> (\<exists>v. map_of d k = Some v)"
  by (metis domD domI dom_map_of_conv_image_fst in_dict_def)

lemma in_SCALAR_COLUMNS:
  "in_dict c SCALAR_COLUMNS \<longleftrightarrow> c = ''dataset_urn'' \<or> c = ''origin'' \<or> c = ''platform_urn''"
  by (auto simp: in_dict_def SCALAR_COLUMNS_def)

lemma in_ARRAY_COLUMNS:
  "in_dict c ARRAY_COLUMNS \<longleftrightarrow> c = ''tag_urns'' \<or> c = ''glossary_term_urns''"
  by (auto simp: in_dict_def ARRAY_COLUMNS_def)

lemma in_BOOL_COLUMNS: "in_dict c BOOL_COLUMNS \<longleftrightarrow> c = ''is_primary''"
  by (auto simp: in_dict_def BOOL_COLUMNS_def)

lemma in_BOOL_LITERALS: "in_dict c BOOL_LITERALS \<longleftrightarrow> c = ''true'' \<or> c = ''false''"
  by (auto simp: in_dict_def BOOL_LITERALS_def)

lemmas column_simps = in_SCALAR_COLUMNS in_ARRAY_COLUMNS in_BOOL_COLUMNS in_BOOL_LITERALS

section \<open>Error values\<close>

text \<open>\<open>_safe\<close>: control characters replaced by a question mark, then truncated. The
  fragment keeps the text and whether the ellipsis was appended; \<open>repr\<close> of it is left
  out.\<close>

type_synonym fragment = "string \<times> bool"

definition is_ctrl :: "char \<Rightarrow> bool" where
  "is_ctrl c \<longleftrightarrow> code c < 32 \<or> code c = 127"

definition scrub_ctrl :: "string \<Rightarrow> string" where
  "scrub_ctrl s = map (\<lambda>c. if is_ctrl c then CHR ''?'' else c) s"

definition safe :: "string \<Rightarrow> fragment" where
  "safe v =
     (let scrubbed = scrub_ctrl v
      in if length scrubbed > ERROR_FRAGMENT_MAX
         then (take ERROR_FRAGMENT_MAX scrubbed, True) else (scrubbed, False))"

text \<open>One constructor per message of a \<open>raise DatasetFilterSyntaxError\<close>.\<close>

datatype filter_msg =
    Unexpected_character fragment
  | Unterminated_string_literal
  | Too_many_string_literals
  | Expected string
  | Expected_and_or_end
  | Mixed_and_or
  | Nesting_too_deep
  | Expected_in_after_not
  | Expected_in_after_literal
  | Scalar_not_array fragment
  | Boolean_not_array fragment
  | Unknown_array_column fragment
  | Array_column_misused fragment
  | Unknown_column fragment
  | Expected_operator
  | Expected_column_or_string
  | Bool_expected_eq
  | Bool_value_quoted
  | Bool_expected_literal
  | Text_too_long

datatype filter_error =
    DatasetFilterSyntaxError filter_msg nat
  | InvalidDatasetUrnError string
  | KeyError string
  | IndexError
  | AssertionError
  | OutOfFuel

section \<open>Abstract syntax\<close>

datatype bool_op = AND_op | OR_op

datatype node =
    Equals string string
  | NotEquals string string
  | InList string "string list"
  | NotInList string "string list"
  | ArrayContains string string
  | ArrayNotContains string string
  | BoolEquals string bool
  | BoolNode bool_op "node list"

datatype filter_ast = FilterAst (root: "node option")

definition is_empty :: "filter_ast \<Rightarrow> bool" where
  "is_empty ast \<longleftrightarrow> root ast = None"

section \<open>Tokenizer\<close>

datatype token_kind = T_ident | T_string | T_lpar | T_rpar | T_comma | T_eq | T_neq | T_eof

record token =
  kind :: token_kind
  val :: string
  position :: nat

abbreviation quote_char :: char where
  "quote_char \<equiv> CHR 0x27"

definition is_ident_start :: "char \<Rightarrow> bool" where
  "is_ident_start c \<longleftrightarrow> is_upper c \<or> is_lower c \<or> c = CHR ''_''"

definition is_ident_char :: "char \<Rightarrow> bool" where
  "is_ident_char c \<longleftrightarrow> is_ident_start c \<or> is_digit c"

declare is_ident_start_def [char_simps] is_ident_char_def [char_simps]

definition punct_kind :: "char \<Rightarrow> token_kind" where
  "punct_kind c =
     (if c = CHR ''('' then T_lpar else if c = CHR '')'' then T_rpar
      else if c = CHR '','' then T_comma else T_eq)"

text \<open>The inner loop over a string literal, from just after the opening quote: the value,
  the index after the closing quote and the text there, or \<open>None\<close> at the end of the text.\<close>

fun scan_string :: "nat \<Rightarrow> string \<Rightarrow> (string \<times> nat \<times> string) option" where
  "scan_string i [] = None"
| "scan_string i (c # cs) =
     (if c = quote_char then
        (case cs of
           [] \<Rightarrow> Some ([], i + 1, cs)
         | d # ds \<Rightarrow>
             if d = quote_char then
               map_option (\<lambda>(v, j, rest). (quote_char # v, j, rest)) (scan_string (i + 2) ds)
             else Some ([], i + 1, cs))
      else map_option (\<lambda>(v, j, rest). (c # v, j, rest)) (scan_string (i + 1) cs))"

lemma scan_string_shrinks:
  "scan_string i s = Some (v, j, rest) \<Longrightarrow> length rest < length s"
  by (induction i s arbitrary: v j rest rule: scan_string.induct)
    (fastforce split: if_splits list.splits)+

definition token_cons :: "token \<Rightarrow> (filter_error, token list) result \<Rightarrow> (filter_error, token list) result"
where
  "token_cons t r = rmap ((#) t) r"

function (sequential) tokenize_from ::
  "nat \<Rightarrow> nat \<Rightarrow> string \<Rightarrow> (filter_error, token list) result" where
  "tokenize_from i literals [] = Inr [\<lparr>kind = T_eof, val = [], position = i\<rparr>]"
| "tokenize_from i literals (ch # cs) =
     (if py_isspace ch then tokenize_from (i + 1) literals cs
      else if ch \<in> set ''(),='' then
        token_cons \<lparr>kind = punct_kind ch, val = [ch], position = i\<rparr>
          (tokenize_from (i + 1) literals cs)
      else if ch = CHR ''!'' then
        (case cs of
           [] \<Rightarrow> Inl (DatasetFilterSyntaxError (Unexpected_character (safe [ch])) i)
         | d # ds \<Rightarrow>
             if d = CHR ''='' then
               token_cons \<lparr>kind = T_neq, val = ''!='', position = i\<rparr>
                 (tokenize_from (i + 2) literals ds)
             else Inl (DatasetFilterSyntaxError (Unexpected_character (safe [ch])) i))
      else if ch = quote_char then
        (case scan_string (i + 1) cs of
           None \<Rightarrow> Inl (DatasetFilterSyntaxError Unterminated_string_literal i)
         | Some (v, j, rest) \<Rightarrow>
             if literals + 1 > MAX_STRING_LITERALS then
               Inl (DatasetFilterSyntaxError Too_many_string_literals i)
             else
               token_cons \<lparr>kind = T_string, val = v, position = i\<rparr>
                 (tokenize_from j (literals + 1) rest))
      else if is_ident_start ch then
        (let word = ch # takeWhile is_ident_char cs
         in token_cons \<lparr>kind = T_ident, val = word, position = i\<rparr>
              (tokenize_from (i + length word) literals (dropWhile is_ident_char cs)))
      else Inl (DatasetFilterSyntaxError (Unexpected_character (safe [ch])) i))"
  by pat_completeness auto
termination
  by (relation "measure (\<lambda>(i, literals, s). length s)")
    (auto dest!: scan_string_shrinks simp: less_Suc_eq_le length_dropWhile_le)

definition tokenize :: "string \<Rightarrow> (filter_error, token list) result" where
  "tokenize s = tokenize_from 0 0 s"

section \<open>Parser\<close>

definition peek :: "token list \<Rightarrow> (filter_error, token) result" where
  "peek ts = (case ts of [] \<Rightarrow> Inl IndexError | t # _ \<Rightarrow> Inr t)"

definition next_token :: "token list \<Rightarrow> (filter_error, token \<times> token list) result" where
  "next_token ts = (case ts of [] \<Rightarrow> Inl IndexError | t # rest \<Rightarrow> Inr (t, rest))"

definition at_keyword :: "string \<Rightarrow> token list \<Rightarrow> (filter_error, bool) result" where
  "at_keyword keyword ts =
     rmap (\<lambda>t. kind t = T_ident \<and> py_lower (val t) = keyword) (peek ts)"

definition expect ::
  "token_kind \<Rightarrow> string \<Rightarrow> token list \<Rightarrow> (filter_error, token \<times> token list) result" where
  "expect k what ts =
     rbind (peek ts) (\<lambda>t.
       if kind t \<noteq> k then Inl (DatasetFilterSyntaxError (Expected what) (position t))
       else next_token ts)"

lemma peek_Cons [simp]: "peek (t # ts) = Inr t"
  by (simp add: peek_def)

lemma next_token_Cons [simp]: "next_token (t # ts) = Inr (t, ts)"
  by (simp add: next_token_def)

lemma at_keyword_Cons [simp]:
  "at_keyword kw (t # ts) = Inr (kind t = T_ident \<and> py_lower (val t) = kw)"
  by (simp add: at_keyword_def)

lemma expect_Cons [simp]:
  "expect k what (t # ts) =
     (if kind t \<noteq> k then Inl (DatasetFilterSyntaxError (Expected what) (position t))
      else Inr (t, ts))"
  by (simp add: expect_def)


lemma next_token_eq_Inr [result_simps]: "next_token ts = Inr (t, rest) \<longleftrightarrow> ts = t # rest"
  by (cases ts) (auto simp: next_token_def)

lemma peek_eq_Inr [result_simps]: "peek ts = Inr t \<longleftrightarrow> (\<exists>rest. ts = t # rest)"
  by (cases ts) (auto simp: peek_def)

lemma expect_eq_Inr [result_simps]:
  "expect k what ts = Inr (t, rest) \<longleftrightarrow> ts = t # rest \<and> kind t = k"
  by (cases ts) (auto simp: expect_def peek_def)

lemma at_keyword_eq_Inr [result_simps]:
  "at_keyword kw ts = Inr b \<longleftrightarrow>
     (\<exists>t rest. ts = t # rest \<and> b = (kind t = T_ident \<and> py_lower (val t) = kw))"
  by (cases ts) (auto simp: at_keyword_def peek_def)

text \<open>The loop of \<open>_parse_value_list\<close> after the first value.\<close>

function value_loop :: "token list \<Rightarrow> (filter_error, string list \<times> token list) result" where
  "value_loop ts =
     rbind (peek ts) (\<lambda>t.
       if kind t \<noteq> T_comma then Inr ([], ts)
       else
         rbind (next_token ts) (\<lambda>(_, ts1).
         rbind (expect T_string ''a quoted string value'' ts1) (\<lambda>(v, ts2).
         rmap (\<lambda>(vs, rest). (val v # vs, rest)) (value_loop ts2))))"
  by pat_completeness auto
termination
  by (relation "measure length") (auto simp: result_simps)

declare value_loop.simps [simp del]

definition parse_value_list ::
  "token list \<Rightarrow> (filter_error, string list \<times> token list) result" where
  "parse_value_list ts =
     rbind (expect T_lpar ''an opening parenthesis after IN'' ts) (\<lambda>(_, ts1).
     rbind (expect T_string ''a quoted string value'' ts1) (\<lambda>(v, ts2).
     rbind (value_loop ts2) (\<lambda>(vs, ts3).
     rbind (expect T_rpar ''a closing parenthesis'' ts3) (\<lambda>(_, ts4).
     Inr (val v # vs, ts4)))))"

definition parse_bool_predicate ::
  "string \<Rightarrow> token list \<Rightarrow> (filter_error, node \<times> token list) result" where
  "parse_bool_predicate col ts =
     rbind (peek ts) (\<lambda>nxt.
       if kind nxt \<noteq> T_eq then Inl (DatasetFilterSyntaxError Bool_expected_eq (position nxt))
       else
         rbind (next_token ts) (\<lambda>(_, ts1).
         rbind (peek ts1) (\<lambda>v.
           if kind v = T_string then
             Inl (DatasetFilterSyntaxError Bool_value_quoted (position v))
           else if kind v \<noteq> T_ident \<or> \<not> in_dict (py_lower (val v)) BOOL_LITERALS then
             Inl (DatasetFilterSyntaxError Bool_expected_literal (position v))
           else
             rbind (next_token ts1) (\<lambda>(_, ts2).
               case map_of BOOL_LITERALS (py_lower (val v)) of
                 None \<Rightarrow> Inl (KeyError (py_lower (val v)))
               | Some b \<Rightarrow> Inr (BoolEquals col b, ts2)))))"

text \<open>The branch of \<open>_parse_predicate\<close> for \<open>string [NOT] IN array_col\<close>: the column,
  the \<open>IN\<close> before it, and the optional \<open>NOT\<close> before that.\<close>

definition parse_array_column ::
  "token \<Rightarrow> bool \<Rightarrow> token list \<Rightarrow> (filter_error, node \<times> token list) result" where
  "parse_array_column tok negated ts =
     rbind (expect T_ident ''an array column name'' ts) (\<lambda>(ct, ts1).
       let col = py_lower (val ct) in
       if \<not> in_dict col ARRAY_COLUMNS then
         (if in_dict col SCALAR_COLUMNS then
            Inl (DatasetFilterSyntaxError (Scalar_not_array (safe (val ct))) (position ct))
          else if in_dict col BOOL_COLUMNS then
            Inl (DatasetFilterSyntaxError (Boolean_not_array (safe (val ct))) (position ct))
          else
            Inl (DatasetFilterSyntaxError (Unknown_array_column (safe (val ct))) (position ct)))
       else if negated then Inr (ArrayNotContains col (val tok), ts1)
       else Inr (ArrayContains col (val tok), ts1))"

definition parse_in_array ::
  "token \<Rightarrow> bool \<Rightarrow> token list \<Rightarrow> (filter_error, node \<times> token list) result" where
  "parse_in_array tok negated ts =
     rbind (at_keyword ''in'' ts) (\<lambda>at_in.
       if \<not> at_in then
         rbind (peek ts) (\<lambda>t.
           Inl (DatasetFilterSyntaxError
                  (if negated then Expected_in_after_not else Expected_in_after_literal)
                  (position t)))
       else rbind (next_token ts) (\<lambda>(_, ts1). parse_array_column tok negated ts1))"

definition parse_array_predicate ::
  "token \<Rightarrow> token list \<Rightarrow> (filter_error, node \<times> token list) result" where
  "parse_array_predicate tok ts =
     rbind (at_keyword ''not'' ts) (\<lambda>negated.
       if negated then rbind (next_token ts) (\<lambda>(_, ts1). parse_in_array tok True ts1)
       else parse_in_array tok False ts)"

text \<open>The branch of \<open>_parse_predicate\<close> for a column name, which is already consumed: the
  comparison with one quoted value, the four operators a scalar column takes, and the
  choice of the column's kind.\<close>

definition parse_comparison ::
  "(string \<Rightarrow> string \<Rightarrow> node) \<Rightarrow> string \<Rightarrow> token list
     \<Rightarrow> (filter_error, node \<times> token list) result" where
  "parse_comparison mk col ts =
     rbind (next_token ts) (\<lambda>(_, ts1).
     rbind (expect T_string ''a quoted string value'' ts1) (\<lambda>(v, ts2).
     Inr (mk col (val v), ts2)))"

definition parse_scalar_predicate ::
  "string \<Rightarrow> token list \<Rightarrow> (filter_error, node \<times> token list) result" where
  "parse_scalar_predicate col ts =
     rbind (peek ts) (\<lambda>nxt.
       if kind nxt = T_eq then parse_comparison Equals col ts
       else if kind nxt = T_neq then parse_comparison NotEquals col ts
       else
         rbind (at_keyword ''in'' ts) (\<lambda>at_in.
         if at_in then
           rbind (next_token ts) (\<lambda>(_, ts1).
           rbind (parse_value_list ts1) (\<lambda>(vs, ts2). Inr (InList col vs, ts2)))
         else
           rbind (at_keyword ''not'' ts) (\<lambda>at_not.
           if at_not then
             rbind (next_token ts) (\<lambda>(_, ts1).
             rbind (at_keyword ''in'' ts1) (\<lambda>at_in1.
             if \<not> at_in1 then
               rbind (peek ts1) (\<lambda>t.
                 Inl (DatasetFilterSyntaxError Expected_in_after_not (position t)))
             else
               rbind (next_token ts1) (\<lambda>(_, ts2).
               rbind (parse_value_list ts2) (\<lambda>(vs, ts3). Inr (NotInList col vs, ts3)))))
           else Inl (DatasetFilterSyntaxError Expected_operator (position nxt)))))"

definition parse_column_predicate ::
  "token \<Rightarrow> token list \<Rightarrow> (filter_error, node \<times> token list) result" where
  "parse_column_predicate ct ts =
     (let col = py_lower (val ct) in
      if in_dict col BOOL_COLUMNS then parse_bool_predicate col ts
      else if \<not> in_dict col SCALAR_COLUMNS then
        (if in_dict col ARRAY_COLUMNS then
           Inl (DatasetFilterSyntaxError (Array_column_misused (safe (val ct))) (position ct))
         else Inl (DatasetFilterSyntaxError (Unknown_column (safe (val ct))) (position ct)))
      else parse_scalar_predicate col ts)"

definition parse_predicate ::
  "token list \<Rightarrow> (filter_error, node \<times> token list) result" where
  "parse_predicate ts =
     rbind (peek ts) (\<lambda>tok.
       if kind tok = T_string then
         rbind (next_token ts) (\<lambda>(_, ts1). parse_array_predicate tok ts1)
       else if kind tok = T_ident then
         rbind (next_token ts) (\<lambda>(ct, ts1). parse_column_predicate ct ts1)
       else Inl (DatasetFilterSyntaxError Expected_column_or_string (position tok)))"

text \<open>\<open>_parse_expr\<close>, its \<open>while\<close> loop over further operands, and \<open>_parse_term\<close>.\<close>

fun parse_expr :: "nat \<Rightarrow> nat \<Rightarrow> token list \<Rightarrow> (filter_error, node \<times> token list) result"
  and parse_operands ::
    "nat \<Rightarrow> nat \<Rightarrow> bool_op option \<Rightarrow> node list \<Rightarrow> token list
       \<Rightarrow> (filter_error, node \<times> token list) result"
  and parse_term :: "nat \<Rightarrow> nat \<Rightarrow> token list \<Rightarrow> (filter_error, node \<times> token list) result"
where
  "parse_expr 0 depth ts = Inl OutOfFuel"
| "parse_expr (Suc fuel) depth ts =
     rbind (parse_term fuel depth ts) (\<lambda>(node, ts1).
     parse_operands fuel depth None [node] ts1)"
| "parse_operands 0 depth op children ts = Inl OutOfFuel"
| "parse_operands (Suc fuel) depth op children ts =
     rbind (at_keyword ''and'' ts) (\<lambda>at_and.
     rbind (at_keyword ''or'' ts) (\<lambda>at_or.
     if at_and \<or> at_or then
       rbind (next_token ts) (\<lambda>(tok, ts1).
       let keyword = (if py_lower (val tok) = ''and'' then AND_op else OR_op) in
       if op \<noteq> None \<and> op \<noteq> Some keyword then
         Inl (DatasetFilterSyntaxError Mixed_and_or (position tok))
       else
         rbind (parse_term fuel depth ts1) (\<lambda>(node, ts2).
         parse_operands fuel depth (Some keyword) (children @ [node]) ts2))
     else
       (case op of
          None \<Rightarrow> (case children of [] \<Rightarrow> Inl IndexError | c # _ \<Rightarrow> Inr (c, ts))
        | Some o1 \<Rightarrow> Inr (BoolNode o1 children, ts))))"
| "parse_term 0 depth ts = Inl OutOfFuel"
| "parse_term (Suc fuel) depth ts =
     rbind (peek ts) (\<lambda>tok.
       if kind tok = T_lpar then
         if depth + 1 > MAX_PAREN_DEPTH then
           Inl (DatasetFilterSyntaxError Nesting_too_deep (position tok))
         else
           rbind (next_token ts) (\<lambda>(_, ts1).
           rbind (parse_expr fuel (depth + 1) ts1) (\<lambda>(node, ts2).
           rbind (expect T_rpar ''a closing parenthesis'' ts2) (\<lambda>(_, ts3).
           Inr (node, ts3))))
       else parse_predicate ts)"

definition parser_fuel :: "token list \<Rightarrow> nat" where
  "parser_fuel ts = 3 * length ts + 3"

definition parse :: "token list \<Rightarrow> (filter_error, filter_ast) result" where
  "parse ts =
     rbind (peek ts) (\<lambda>t.
       if kind t = T_eof then Inr (FilterAst None)
       else
         rbind (parse_expr (parser_fuel ts) 0 ts) (\<lambda>(node, ts1).
         rbind (peek ts1) (\<lambda>trailing.
           if kind trailing \<noteq> T_eof then
             Inl (DatasetFilterSyntaxError Expected_and_or_end (position trailing))
           else Inr (FilterAst (Some node)))))"

definition parse_filter :: "string option \<Rightarrow> (filter_error, filter_ast) result" where
  "parse_filter text =
     (let source = (case text of None \<Rightarrow> [] | Some s \<Rightarrow> s)
      in if length source > MAX_FILTER_CHARS then
           Inl (DatasetFilterSyntaxError Text_too_long MAX_FILTER_CHARS)
         else rbind (tokenize source) parse)"

end
