(* ===== verification/Filter_Safety.thy ===== *)
theory Filter_Safety
  imports Filter_Parser
begin

text \<open>
  What the front half of the filter compiler promises: every failure is a
  \<open>DatasetFilterSyntaxError\<close> with a position inside the text and a scrubbed, bounded
  fragment (never an index error, a key error or a parser that does not return), and every
  syntax tree it returns is well formed: whitelisted columns, two or more operands per
  \<open>BoolNode\<close>, groups nested at most \<open>MAX_PAREN_DEPTH\<close> deep.
\<close>

section \<open>Errors stay inside the text\<close>

definition safe_fragment :: "fragment \<Rightarrow> bool" where
  "safe_fragment f \<longleftrightarrow> length (fst f) \<le> ERROR_FRAGMENT_MAX \<and> (\<forall>c \<in> set (fst f). \<not> is_ctrl c)"

fun safe_msg :: "filter_msg \<Rightarrow> bool" where
  "safe_msg (Unexpected_character f) = safe_fragment f"
| "safe_msg (Scalar_not_array f) = safe_fragment f"
| "safe_msg (Boolean_not_array f) = safe_fragment f"
| "safe_msg (Unknown_array_column f) = safe_fragment f"
| "safe_msg (Array_column_misused f) = safe_fragment f"
| "safe_msg (Unknown_column f) = safe_fragment f"
| "safe_msg _ = True"

fun safe_error :: "nat \<Rightarrow> filter_error \<Rightarrow> bool" where
  "safe_error n (DatasetFilterSyntaxError m p) = (p \<le> n \<and> safe_msg m)"
| "safe_error n _ = False"

lemma scrub_ctrl_clean: "c \<in> set (scrub_ctrl s) \<Longrightarrow> \<not> is_ctrl c"
  by (auto simp: scrub_ctrl_def is_ctrl_def split: if_splits)

lemma safe_fragment_safe [simp]: "safe_fragment (safe v)"
  by (auto simp: safe_def safe_fragment_def Let_def dest: in_set_takeD scrub_ctrl_clean)

lemma safe_error_mono: "safe_error m e \<Longrightarrow> m \<le> n \<Longrightarrow> safe_error n e"
  by (cases e) auto

text \<open>A token list the tokenizer can hand over: it ends in the end-of-file token and no
  position exceeds the length of the text.\<close>

definition eof_term :: "nat \<Rightarrow> token list \<Rightarrow> bool" where
  "eof_term n ts \<longleftrightarrow> ts \<noteq> [] \<and> kind (last ts) = T_eof \<and> (\<forall>t \<in> set ts. position t \<le> n)"

lemma eof_term_tl: "eof_term n (t # ts) \<Longrightarrow> kind t \<noteq> T_eof \<Longrightarrow> eof_term n ts"
  by (cases ts) (auto simp: eof_term_def)

lemma eof_term_position: "eof_term n (t # ts) \<Longrightarrow> position t \<le> n"
  by (simp add: eof_term_def)

lemma eof_term_Cons: "eof_term n ts \<Longrightarrow> position t \<le> n \<Longrightarrow> eof_term n (t # ts)"
  by (simp add: eof_term_def)

lemma scan_string_position:
  "scan_string i s = Some (v, j, rest) \<Longrightarrow> j + length rest = i + length s"
  by (induction i s arbitrary: v j rest rule: scan_string.induct)
    (fastforce split: if_splits list.splits)+

definition tokens_safe :: "nat \<Rightarrow> (filter_error, token list) result \<Rightarrow> bool" where
  "tokens_safe n r \<longleftrightarrow> (case r of Inl e \<Rightarrow> safe_error n e | Inr ts \<Rightarrow> eof_term n ts)"

lemma tokens_safe_simps [simp]:
  "tokens_safe n (Inl e) = safe_error n e"
  "tokens_safe n (Inr ts) = eof_term n ts"
  by (simp_all add: tokens_safe_def)

lemma tokens_safe_cons:
  "tokens_safe n r \<Longrightarrow> position t \<le> n \<Longrightarrow> tokens_safe n (token_cons t r)"
  by (cases r) (simp_all add: token_cons_def eof_term_Cons)

lemma tokenize_from_safe: "tokens_safe (i + length s) (tokenize_from i lits s)"
proof (induction i lits s rule: tokenize_from.induct)
  case (1 i lits)
  show ?case by (simp add: eof_term_def)
next
  case (2 i lits ch cs)
  note tokenize_from.simps [simp del]
  let ?n = "i + length (ch # cs)"
  consider (space) "py_isspace ch"
    | (punct) "\<not> py_isspace ch" "ch \<in> set ''(),=''"
    | (bang) "\<not> py_isspace ch" "ch \<notin> set ''(),=''" "ch = CHR ''!''"
    | (quote) "\<not> py_isspace ch" "ch \<notin> set ''(),=''" "ch \<noteq> CHR ''!''" "ch = quote_char"
    | (word) "\<not> py_isspace ch" "ch \<notin> set ''(),=''" "ch \<noteq> CHR ''!''" "ch \<noteq> quote_char"
        "is_ident_start ch"
    | (bad) "\<not> py_isspace ch" "ch \<notin> set ''(),=''" "ch \<noteq> CHR ''!''" "ch \<noteq> quote_char"
        "\<not> is_ident_start ch"
    by blast
  then show ?case
  proof cases
    case space
    with "2.IH"(1) show ?thesis by (simp add: tokenize_from.simps(2))
  next
    case punct
    with "2.IH"(2) show ?thesis
      by (simp add: tokenize_from.simps(2) tokens_safe_cons)
  next
    case bang
    then show ?thesis
      using "2.IH"(3) by (auto simp: tokenize_from.simps(2) tokens_safe_cons split: list.splits)
  next
    case quote
    show ?thesis
    proof (cases "scan_string (i + 1) cs")
      case None
      with quote show ?thesis by (simp add: tokenize_from.simps(2))
    next
      case (Some r)
      obtain v j rest where r: "r = (v, j, rest)" by (cases r)
      from Some r have "j + length rest = ?n"
        by (auto dest: scan_string_position)
      with "2.IH"(4) [OF quote Some [unfolded r] refl refl] quote Some r show ?thesis
        by (auto simp: tokenize_from.simps(2) intro!: tokens_safe_cons)
    qed
  next
    case word
    have len: "i + length (ch # takeWhile is_ident_char cs)
        + length (dropWhile is_ident_char cs) = ?n"
      by (simp flip: length_append)
    from "2.IH"(5) [OF word refl, unfolded len] word show ?thesis
      by (simp add: tokenize_from.simps(2) Let_def tokens_safe_cons)
  next
    case bad
    then show ?thesis by (simp add: tokenize_from.simps(2))
  qed
qed

text \<open>The same for the parser's functions: they fail with a safe error or stop at a later
  token of the same list.\<close>

definition steps ::
  "nat \<Rightarrow> nat \<Rightarrow> (filter_error, 'a \<times> token list) result \<Rightarrow> bool" where
  "steps n k r \<longleftrightarrow>
     (case r of Inl e \<Rightarrow> safe_error n e | Inr (x, rest) \<Rightarrow> eof_term n rest \<and> length rest < k)"

lemma steps_simps [simp]:
  "steps n k (Inl e) = safe_error n e"
  "steps n k (Inr (x, rest)) \<longleftrightarrow> eof_term n rest \<and> length rest < k"
  by (simp_all add: steps_def)

lemma steps_rbind:
  assumes "steps n k m"
    and "\<And>x rest. m = Inr (x, rest) \<Longrightarrow> eof_term n rest \<Longrightarrow> length rest < k
           \<Longrightarrow> steps n k' (f (x, rest))"
  shows "steps n k' (rbind m f)"
  using assms by (cases m) auto

lemma steps_rmap:
  "steps n k m \<Longrightarrow> steps n k (rmap (\<lambda>(x, rest). (g x, rest)) m)"
  by (cases m) auto

lemma steps_mono: "steps n k r \<Longrightarrow> k \<le> k' \<Longrightarrow> steps n k' r"
  by (cases r) auto

lemma eof_termE:
  assumes "eof_term n ts"
  obtains t us where "ts = t # us" "position t \<le> n" "kind t \<noteq> T_eof \<Longrightarrow> eof_term n us"
proof (cases ts)
  case Nil
  with assms show ?thesis by (simp add: eof_term_def)
next
  case (Cons t us)
  with assms show ?thesis using that [of t us] eof_term_position eof_term_tl by blast
qed

lemma expect_steps:
  assumes "eof_term n ts" "k \<noteq> T_eof"
  shows "steps n (length ts) (expect k what ts)"
  using assms(1) by (rule eof_termE) (use assms(2) in auto)

lemma value_loop_steps: "eof_term n ts \<Longrightarrow> steps n (Suc (length ts)) (value_loop ts)"
proof (induction ts rule: value_loop.induct)
  case (1 ts)
  from "1.prems" obtain t us where ts: "ts = t # us" and "position t \<le> n"
    and us: "kind t \<noteq> T_eof \<Longrightarrow> eof_term n us" by (rule eof_termE) blast
  show ?case
  proof (cases "kind t = T_comma")
    case False
    with "1.prems" show ?thesis unfolding ts by (subst value_loop.simps) simp
  next
    case True
    with us have us: "eof_term n us" by simp
    have "steps n (Suc (length ts))
      (rbind (expect T_string ''a quoted string value'' us)
        (\<lambda>(v, ts2). rmap (\<lambda>(vs, rest). (val v # vs, rest)) (value_loop ts2)))"
    proof (rule steps_rbind [OF expect_steps [OF us]])
      fix v rest
      assume e: "expect T_string ''a quoted string value'' us = Inr (v, rest)"
        and rest: "eof_term n rest" "length rest < length us"
      have "steps n (Suc (length rest)) (value_loop rest)"
        using "1.IH" [of t "(t, us)" t us "(v, rest)" v rest] ts True e rest(1) by simp
      then have "steps n (Suc (length ts)) (value_loop rest)"
        by (rule steps_mono) (use rest(2) ts in simp)
      then show "steps n (Suc (length ts))
          (case (v, rest) of (v, ts2) \<Rightarrow>
             rmap (\<lambda>(vs, rest). (val v # vs, rest)) (value_loop ts2))"
        by (simp add: steps_rmap)
    qed simp
    with True show ?thesis unfolding ts by (subst value_loop.simps) simp
  qed
qed

lemma parse_value_list_steps:
  assumes "eof_term n ts"
  shows "steps n (length ts) (parse_value_list ts)"
  unfolding parse_value_list_def
  apply (rule steps_rbind [OF expect_steps [OF assms]], simp)
  apply (simp only: prod.case, rule steps_rbind [OF expect_steps], assumption, simp)
  apply (simp only: prod.case, rule steps_rbind [OF value_loop_steps], assumption)
  apply (simp only: prod.case, rule steps_rbind [OF expect_steps], assumption, simp)
  apply simp
  done

lemma parse_bool_predicate_steps:
  assumes "eof_term n ts"
  shows "steps n (length ts) (parse_bool_predicate col ts)"
proof -
  from assms obtain t us where ts: "ts = t # us" "position t \<le> n"
    and us: "kind t \<noteq> T_eof \<Longrightarrow> eof_term n us" by (rule eof_termE) blast
  show ?thesis
  proof (cases "kind t = T_eq")
    case True
    with us have "eof_term n us" by simp
    then obtain v ws where "us = v # ws" "position v \<le> n"
      and "kind v \<noteq> T_eof \<Longrightarrow> eof_term n ws" by (rule eof_termE) blast
    with ts True show ?thesis
      by (auto simp: parse_bool_predicate_def in_dict_map_of)
  qed (use ts in \<open>simp add: parse_bool_predicate_def\<close>)
qed

lemma parse_array_column_steps:
  assumes "eof_term n ts"
  shows "steps n (length ts) (parse_array_column tok negated ts)"
proof -
  from assms obtain t us where "ts = t # us" "position t \<le> n"
    and "kind t \<noteq> T_eof \<Longrightarrow> eof_term n us" by (rule eof_termE) blast
  then show ?thesis by (simp add: parse_array_column_def Let_def)
qed

lemma parse_in_array_steps:
  assumes "eof_term n ts"
  shows "steps n (length ts) (parse_in_array tok negated ts)"
proof -
  from assms obtain t us where ts: "ts = t # us" "position t \<le> n"
    and us: "kind t \<noteq> T_eof \<Longrightarrow> eof_term n us" by (rule eof_termE) blast
  then show ?thesis
    using steps_mono [OF parse_array_column_steps [of n us], of "length ts" tok negated]
    by (auto simp: parse_in_array_def)
qed

lemma parse_array_predicate_steps:
  assumes "eof_term n ts"
  shows "steps n (length ts) (parse_array_predicate tok ts)"
proof -
  from assms obtain t us where ts: "ts = t # us" "position t \<le> n"
    and us: "kind t \<noteq> T_eof \<Longrightarrow> eof_term n us" by (rule eof_termE) blast
  then show ?thesis
    using steps_mono [OF parse_in_array_steps [of n us], of "length ts" tok True]
      parse_in_array_steps [OF assms, of tok False]
    by (auto simp: parse_array_predicate_def)
qed

lemma parse_comparison_steps:
  assumes "eof_term n (t # us)" "kind t \<noteq> T_eof"
  shows "steps n (length (t # us)) (parse_comparison mk col (t # us))"
proof -
  from assms have "eof_term n us" by (rule eof_term_tl)
  from expect_steps [OF this, of T_string "''a quoted string value''"] show ?thesis
    by (auto simp: parse_comparison_def intro!: steps_rbind)
qed

lemma in_list_steps:
  assumes "eof_term n ts"
  shows "steps n (length ts) (rbind (parse_value_list ts) (\<lambda>(vs, ts2). Inr (mk col vs, ts2)))"
  using parse_value_list_steps [OF assms] by (rule steps_rbind) simp

lemma parse_scalar_predicate_steps:
  assumes "eof_term n ts"
  shows "steps n (length ts) (parse_scalar_predicate col ts)"
proof -
  from assms obtain t us where ts: "ts = t # us" "position t \<le> n"
    and us: "kind t \<noteq> T_eof \<Longrightarrow> eof_term n us" by (rule eof_termE) blast
  consider "kind t = T_eq \<or> kind t = T_neq"
    | (word) "kind t = T_ident" | "kind t \<noteq> T_eq" "kind t \<noteq> T_neq" "kind t \<noteq> T_ident" by blast
  then show ?thesis
  proof cases
    case 1
    with assms ts show ?thesis
      by (auto simp: parse_scalar_predicate_def intro!: parse_comparison_steps [simplified])
  next
    case word
    with us have us: "eof_term n us" by simp
    from us obtain v ws where v: "us = v # ws" "position v \<le> n"
      and ws: "kind v \<noteq> T_eof \<Longrightarrow> eof_term n ws" by (rule eof_termE) blast
    from word ts us v ws steps_mono [OF in_list_steps [OF us], of "length ts" InList col]
      steps_mono [OF in_list_steps [of n ws], of "length ts" NotInList col]
    show ?thesis by (auto simp: parse_scalar_predicate_def)
  qed (use ts in \<open>simp add: parse_scalar_predicate_def\<close>)
qed

lemma parse_column_predicate_steps:
  assumes "eof_term n ts" "position ct \<le> n"
  shows "steps n (length ts) (parse_column_predicate ct ts)"
  using assms parse_bool_predicate_steps [OF assms(1)] parse_scalar_predicate_steps [OF assms(1)]
  by (simp add: parse_column_predicate_def Let_def)

lemma parse_predicate_steps:
  assumes "eof_term n ts"
  shows "steps n (length ts) (parse_predicate ts)"
proof -
  from assms obtain t us where ts: "ts = t # us" "position t \<le> n"
    and us: "kind t \<noteq> T_eof \<Longrightarrow> eof_term n us" by (rule eof_termE) blast
  then show ?thesis
    using steps_mono [OF parse_array_predicate_steps [of n us], of "length ts" t]
      steps_mono [OF parse_column_predicate_steps [of n us t], of "length ts"]
    by (auto simp: parse_predicate_def)
qed

text \<open>Fuel of three per remaining token is always enough, so \<open>OutOfFuel\<close> is never the
  outcome.\<close>

lemma close_paren_steps:
  assumes "eof_term n ts"
  shows "steps n (length ts) (rbind (expect T_rpar what ts) (\<lambda>(_, ts3). Inr (node, ts3)))"
  using expect_steps [OF assms] by (rule steps_rbind) simp_all

lemma parser_steps:
  shows parse_expr_steps:
    "eof_term n ts \<Longrightarrow> 3 * length ts + 2 \<le> fuel \<Longrightarrow> steps n (length ts) (parse_expr fuel depth ts)"
  and parse_operands_steps:
    "eof_term n ts \<Longrightarrow> children \<noteq> [] \<Longrightarrow> 3 * length ts + 2 \<le> fuel
       \<Longrightarrow> steps n (Suc (length ts)) (parse_operands fuel depth op children ts)"
  and parse_term_steps:
    "eof_term n ts \<Longrightarrow> 3 * length ts + 1 \<le> fuel \<Longrightarrow> steps n (length ts) (parse_term fuel depth ts)"
proof (induction fuel arbitrary: depth ts op children)
  case 0
  {
    case 1
    then show ?case by simp
  next
    case 2
    then show ?case by simp
  next
    case 3
    then show ?case by simp
  }
next
  case (Suc fuel)
  {
    case 1
    have "steps n (length ts) (parse_term fuel depth ts)" using Suc.IH(3) 1 by simp
    then show ?case
      using 1 by (auto intro!: steps_rbind steps_mono [OF Suc.IH(2)])
  next
    case 2
    from 2(1) obtain t us where ts: "ts = t # us" "position t \<le> n"
      and us: "kind t \<noteq> T_eof \<Longrightarrow> eof_term n us" by (rule eof_termE) blast
    have more: "steps n (Suc (length ts))
        (rbind (parse_term fuel depth us) (\<lambda>(node, ts2).
           parse_operands fuel depth (Some kw) (children @ [node]) ts2))"
      if "kind t = T_ident" for kw
    proof -
      have "steps n (length us) (parse_term fuel depth us)"
        using Suc.IH(3) us ts 2(3) that by simp
      then show ?thesis
        using 2(3) ts by (auto intro!: steps_rbind steps_mono [OF Suc.IH(2)])
    qed
    show ?case
      using ts 2(1,2) more [of AND_op] more [of OR_op]
      by (auto simp: Let_def split: option.splits list.splits)
  next
    case 3
    from 3(1) obtain t us where ts: "ts = t # us" "position t \<le> n"
      and us: "kind t \<noteq> T_eof \<Longrightarrow> eof_term n us" by (rule eof_termE) blast
    show ?case
    proof (cases "kind t = T_lpar")
      case True
      have "steps n (length us) (parse_expr fuel (depth + 1) us)"
        using Suc.IH(1) us ts 3(2) True by simp
      then have "steps n (length ts) (rbind (parse_expr fuel (depth + 1) us) (\<lambda>(node, ts2).
           rbind (expect T_rpar ''a closing parenthesis'' ts2) (\<lambda>(_, ts3). Inr (node, ts3))))"
        by (rule steps_rbind) (auto simp: ts intro!: steps_mono [OF close_paren_steps])
      with True ts show ?thesis by simp
    next
      case False
      with ts parse_predicate_steps [OF 3(1)] show ?thesis by simp
    qed
  }
qed

lemma parse_safe:
  assumes ts: "eof_term n ts" and err: "parse ts = Inl e"
  shows "safe_error n e"
proof (cases "parse_expr (parser_fuel ts) 0 ts")
  case (Inl e')
  have "steps n (length ts) (parse_expr (parser_fuel ts) 0 ts)"
    using ts by (rule parse_expr_steps) (simp add: parser_fuel_def)
  moreover obtain t us where "ts = t # us" using ts by (rule eof_termE)
  ultimately show ?thesis using Inl err by (auto simp: parse_def split: if_splits)
next
  case (Inr r)
  have "steps n (length ts) (parse_expr (parser_fuel ts) 0 ts)"
    using ts by (rule parse_expr_steps) (simp add: parser_fuel_def)
  with Inr obtain node rest where r: "r = (node, rest)" and "eof_term n rest"
    by (cases r) auto
  then obtain t us where "rest = t # us" "position t \<le> n" by (auto elim: eof_termE)
  moreover obtain t' us' where "ts = t' # us'" using ts by (rule eof_termE)
  ultimately show ?thesis
    using err Inr r by (auto simp: parse_def split: if_splits)
qed

lemma parse_filter_safe:
  "parse_filter (Some s) = Inl e \<Longrightarrow> safe_error (length s) e"
  using tokenize_from_safe [of 0 s 0]
  by (auto simp: parse_filter_def tokenize_def Let_def result_simps dest: parse_safe
      split: if_splits)

section \<open>Every tree the parser returns is well formed\<close>

fun wf_pred :: "node \<Rightarrow> bool" where
  "wf_pred (Equals c v) = in_dict c SCALAR_COLUMNS"
| "wf_pred (NotEquals c v) = in_dict c SCALAR_COLUMNS"
| "wf_pred (InList c vs) = (in_dict c SCALAR_COLUMNS \<and> vs \<noteq> [])"
| "wf_pred (NotInList c vs) = (in_dict c SCALAR_COLUMNS \<and> vs \<noteq> [])"
| "wf_pred (ArrayContains c v) = in_dict c ARRAY_COLUMNS"
| "wf_pred (ArrayNotContains c v) = in_dict c ARRAY_COLUMNS"
| "wf_pred (BoolEquals c b) = in_dict c BOOL_COLUMNS"
| "wf_pred (BoolNode op cs) = False"

text \<open>\<open>wf_node d\<close>: at most \<open>d\<close> further levels of groups below.\<close>

fun is_group :: "node \<Rightarrow> bool" where
  "is_group (BoolNode op cs) = True"
| "is_group _ = False"

fun wf_node :: "nat \<Rightarrow> node \<Rightarrow> bool" where
  "wf_node d (BoolNode op cs) =
     (2 \<le> length cs \<and> (\<forall>c \<in> set cs. if is_group c then 0 < d \<and> wf_node (d - 1) c else wf_pred c))"
| "wf_node d node = wf_pred node"

definition wf_operand :: "nat \<Rightarrow> node \<Rightarrow> bool" where
  "wf_operand d c \<longleftrightarrow> (if is_group c then 0 < d \<and> wf_node (d - 1) c else wf_pred c)"

definition wf_ast :: "filter_ast \<Rightarrow> bool" where
  "wf_ast ast \<longleftrightarrow> (case root ast of None \<Rightarrow> True | Some node \<Rightarrow> wf_node MAX_PAREN_DEPTH node)"

lemma wf_node_pred: "\<not> is_group c \<Longrightarrow> wf_node d c = wf_pred c"
  by (cases c) auto

lemma wf_pred_not_group: "wf_pred c \<Longrightarrow> \<not> is_group c"
  by (cases c) auto

lemma wf_node_BoolNode [simp]:
  "wf_node d (BoolNode op cs) \<longleftrightarrow> 2 \<le> length cs \<and> (\<forall>c \<in> set cs. wf_operand d c)"
  by (simp add: wf_operand_def)

declare wf_node.simps(1) [simp del]

lemma wf_node_mono: "wf_node d node \<Longrightarrow> d \<le> d' \<Longrightarrow> wf_node d' node"
proof (induction node arbitrary: d d')
  case (BoolNode op cs)
  have "wf_operand d' c" if "c \<in> set cs" for c
    using that BoolNode.prems BoolNode.IH [OF that, of "d - 1" "d' - 1"]
    by (auto simp: wf_operand_def split: if_splits)
  with BoolNode.prems show ?case by simp
qed simp_all

lemma value_list_nonempty: "parse_value_list ts = Inr (vs, rest) \<Longrightarrow> vs \<noteq> []"
  by (auto simp: parse_value_list_def result_simps)

lemma parse_bool_predicate_wf:
  "parse_bool_predicate c ts = Inr (node, rest) \<Longrightarrow> in_dict c BOOL_COLUMNS \<Longrightarrow> wf_pred node"
  by (auto simp: parse_bool_predicate_def result_simps split: if_splits option.splits)

lemma parse_comparison_wf:
  "parse_comparison mk c ts = Inr (node, rest) \<Longrightarrow> \<exists>v. node = mk c v"
  by (auto simp: parse_comparison_def result_simps)

lemma parse_scalar_predicate_wf:
  assumes "parse_scalar_predicate c ts = Inr (node, rest)" "in_dict c SCALAR_COLUMNS"
  shows "wf_pred node"
proof (cases ts)
  case Nil
  with assms show ?thesis by (simp add: parse_scalar_predicate_def peek_def)
next
  case (Cons t us)
  with assms show ?thesis
    by (auto simp: parse_scalar_predicate_def rbind_eq_Inr next_token_eq_Inr
        dest!: value_list_nonempty parse_comparison_wf split: if_splits)
qed

lemma parse_array_column_wf:
  "parse_array_column tok neg ts = Inr (node, rest) \<Longrightarrow> wf_pred node"
  by (auto simp: parse_array_column_def rbind_eq_Inr Let_def split: if_splits)

lemma parse_in_array_wf: "parse_in_array tok neg ts = Inr (node, rest) \<Longrightarrow> wf_pred node"
  by (auto simp: parse_in_array_def rbind_eq_Inr split: if_splits dest: parse_array_column_wf)

lemma parse_array_predicate_wf:
  "parse_array_predicate tok ts = Inr (node, rest) \<Longrightarrow> wf_pred node"
  by (auto simp: parse_array_predicate_def rbind_eq_Inr split: if_splits dest: parse_in_array_wf)

lemma parse_column_predicate_wf:
  "parse_column_predicate ct ts = Inr (node, rest) \<Longrightarrow> wf_pred node"
  by (auto simp: parse_column_predicate_def Let_def split: if_splits
      dest: parse_bool_predicate_wf parse_scalar_predicate_wf)

lemma parse_predicate_wf: "parse_predicate ts = Inr (node, rest) \<Longrightarrow> wf_pred node"
  by (auto simp: parse_predicate_def rbind_eq_Inr split: if_splits
      dest: parse_array_predicate_wf parse_column_predicate_wf)

lemma parser_wf:
  shows parse_expr_wf:
    "parse_expr fuel depth ts = Inr (node, rest) \<Longrightarrow> wf_node (MAX_PAREN_DEPTH - depth) node"
  and parse_operands_wf:
    "parse_operands fuel depth op children ts = Inr (node, rest)
       \<Longrightarrow> \<forall>c \<in> set children. wf_operand (MAX_PAREN_DEPTH - depth) c
       \<Longrightarrow> (if op = None then length children = 1 else 2 \<le> length children)
       \<Longrightarrow> wf_node (MAX_PAREN_DEPTH - depth) node"
  and parse_term_wf:
    "parse_term fuel depth ts = Inr (node, rest) \<Longrightarrow> wf_operand (MAX_PAREN_DEPTH - depth) node"
proof (induction fuel arbitrary: depth ts op children node rest)
  case 0
  {
    case 1
    then show ?case by simp
  next
    case 2
    then show ?case by simp
  next
    case 3
    then show ?case by simp
  }
next
  case (Suc fuel)
  {
    case 1
    then show ?case by (auto simp: rbind_eq_Inr dest!: Suc.IH(3) intro: Suc.IH(2))
  next
    case 2
    show ?case
    proof (cases ts)
      case Nil
      with 2 show ?thesis by (simp add: at_keyword_def peek_def)
    next
      case (Cons t us)
      consider (more) kw nd us' where
          "parse_term fuel depth us = Inr (nd, us')"
          "parse_operands fuel depth (Some kw) (children @ [nd]) us' = Inr (node, rest)"
        | (single) "op = None" "children \<noteq> []" "node = hd children"
        | (group) o1 where "op = Some o1" "node = BoolNode o1 children"
        using 2(1) Cons
        by (fastforce simp: Let_def rbind_eq_Inr split: if_splits option.splits list.splits)
      then show ?thesis
      proof cases
        case more
        then show ?thesis
          using 2(2,3) Suc.IH(3) [OF more(1)] by (intro Suc.IH(2) [OF more(2)]) (auto split: if_splits)
      next
        case single
        then show ?thesis using 2(2) 
          by (cases children) (auto simp: wf_operand_def wf_node_pred intro: wf_node_mono split: if_splits)
      qed (use 2(2,3) in simp)
    qed
  next
    case 3
    show ?case
    proof (cases ts)
      case Nil
      with 3 show ?thesis by (simp add: peek_def)
    next
      case (Cons t us)
      with 3 show ?thesis
        by (auto simp: rbind_eq_Inr wf_operand_def wf_node_pred
            dest!: Suc.IH(1) parse_predicate_wf dest: wf_pred_not_group split: if_splits)
    qed
  }
qed

lemma parse_filter_wf:
  "parse_filter text = Inr ast \<Longrightarrow> wf_ast ast"
  using parse_expr_wf [where depth = 0]
  by (fastforce simp: parse_filter_def parse_def Let_def rbind_eq_Inr wf_ast_def split: if_splits)

text \<open>C1. \<open>parse_filter\<close> is total on every string: it returns a well-formed syntax tree
  (whitelisted columns only, at least two operands per group, groups nested at most two
  deep) or raises \<open>DatasetFilterSyntaxError\<close> whose position lies inside the text and
  whose quoted fragment is at most 64 characters with no control character. It never raises
  an index or key error and its recursion never runs out.\<close>

theorem parse_filter_total:
  "case parse_filter (Some s) of
     Inl e \<Rightarrow> \<exists>m p. e = DatasetFilterSyntaxError m p \<and> p \<le> length s \<and> safe_msg m
   | Inr ast \<Rightarrow> wf_ast ast"
proof (cases "parse_filter (Some s)")
  case (Inl e)
  from parse_filter_safe [OF Inl] Inl show ?thesis by (cases e) auto
next
  case (Inr ast)
  with parse_filter_wf show ?thesis by simp
qed

end
