(* ===== verification/Filter_Format.thy ===== *)
theory Filter_Format
  imports Filter_Safety
begin

text \<open>
  The canonical formatter of \<open>src/shared/dataset_filter.py\<close> (\<open>format_filter\<close>,
  \<open>_format_node\<close>, \<open>_format_operand\<close>, \<open>_format_predicate\<close>, \<open>_quote\<close>) and its
  round trip through the tokenizer and the parser. The proof goes through the lexemes of a
  syntax tree: the formatted text tokenizes to them, and the parser reads them back.
\<close>

section \<open>The formatter\<close>

definition INDENT :: string where
  "INDENT = ''    ''"

definition newline :: string where
  "newline = [CHR 0x0A]"

definition quote :: "string \<Rightarrow> string" where
  "quote v = quote_char # concat (map (\<lambda>c. if c = quote_char then [c, c] else [c]) v) @ [quote_char]"

fun op_text :: "bool_op \<Rightarrow> string" where
  "op_text AND_op = ''AND''"
| "op_text OR_op = ''OR''"

fun format_predicate :: "node \<Rightarrow> (filter_error, string) result" where
  "format_predicate (Equals c v) = Inr (c @ '' = '' @ quote v)"
| "format_predicate (NotEquals c v) = Inr (c @ '' != '' @ quote v)"
| "format_predicate (InList c vs) = Inr (c @ '' IN ('' @ py_join '', '' (map quote vs) @ '')'')"
| "format_predicate (NotInList c vs) =
     Inr (c @ '' NOT IN ('' @ py_join '', '' (map quote vs) @ '')'')"
| "format_predicate (ArrayContains c v) = Inr (quote v @ '' IN '' @ c)"
| "format_predicate (ArrayNotContains c v) = Inr (quote v @ '' NOT IN '' @ c)"
| "format_predicate (BoolEquals c b) = Inr (c @ '' = '' @ (if b then ''true'' else ''false''))"
| "format_predicate (BoolNode op cs) = Inl AssertionError"

definition pad :: "nat \<Rightarrow> string" where
  "pad indent = concat (replicate indent INDENT)"

lemma enumerate_child: "(p, c) \<in> set (enumerate k cs) \<Longrightarrow> c \<in> set cs"
  by (auto simp: in_set_enumerate_eq)

lemma size_child: "c \<in> set cs \<Longrightarrow> size c < size (BoolNode op cs)"
  by (induction cs) auto

function (sequential) format_node :: "node \<Rightarrow> nat \<Rightarrow> (filter_error, string) result"
  and format_operand :: "node \<Rightarrow> nat \<Rightarrow> (filter_error, string) result" where
  "format_node (BoolNode op cs) indent =
     rmap (py_join newline)
       (rmapM (\<lambda>(p, child).
          rmap (\<lambda>t. pad indent @ (if p = 0 then [] else op_text op @ '' '') @ t)
            (format_operand child indent)) (enumerate 0 cs))"
| "format_node node indent = rmap ((@) (pad indent)) (format_predicate node)"
| "format_operand (BoolNode op cs) indent =
     rmap (\<lambda>body. ''('' @ newline @ body @ newline @ pad indent @ '')'')
       (format_node (BoolNode op cs) (indent + 1))"
| "format_operand node indent = format_predicate node"
  by pat_completeness auto
termination
  by (relation "measure (\<lambda>x. case x of Inl (n, _) \<Rightarrow> 2 * size n | Inr (n, _) \<Rightarrow> 2 * size n + 1)")
    (auto dest!: enumerate_child size_child)

definition format_filter :: "string option \<Rightarrow> (filter_error, string) result" where
  "format_filter text =
     rbind (parse_filter text) (\<lambda>ast.
       case root ast of None \<Rightarrow> Inr [] | Some node \<Rightarrow> format_node node 0)"

section \<open>Lexemes of a syntax tree\<close>

type_synonym lexeme = "token_kind \<times> string"

definition kv :: "token \<Rightarrow> lexeme" where
  "kv t = (kind t, val t)"

fun lex_values :: "string list \<Rightarrow> lexeme list" where
  "lex_values [] = []"
| "lex_values [v] = [(T_string, v)]"
| "lex_values (v # w # vs) = (T_string, v) # (T_comma, '','') # lex_values (w # vs)"

fun lex_pred :: "node \<Rightarrow> lexeme list" where
  "lex_pred (Equals c v) = [(T_ident, c), (T_eq, ''=''), (T_string, v)]"
| "lex_pred (NotEquals c v) = [(T_ident, c), (T_neq, ''!=''), (T_string, v)]"
| "lex_pred (InList c vs) =
     [(T_ident, c), (T_ident, ''IN''), (T_lpar, ''('')] @ lex_values vs @ [(T_rpar, '')'')]"
| "lex_pred (NotInList c vs) =
     [(T_ident, c), (T_ident, ''NOT''), (T_ident, ''IN''), (T_lpar, ''('')] @ lex_values vs
       @ [(T_rpar, '')'')]"
| "lex_pred (ArrayContains c v) = [(T_string, v), (T_ident, ''IN''), (T_ident, c)]"
| "lex_pred (ArrayNotContains c v) =
     [(T_string, v), (T_ident, ''NOT''), (T_ident, ''IN''), (T_ident, c)]"
| "lex_pred (BoolEquals c b) =
     [(T_ident, c), (T_eq, ''=''), (T_ident, if b then ''true'' else ''false'')]"
| "lex_pred (BoolNode op cs) = []"

fun lex_operand :: "node \<Rightarrow> lexeme list" where
  "lex_operand (BoolNode op cs) =
     [(T_lpar, ''('')]
     @ tl (concat (map (\<lambda>c. (T_ident, op_text op) # lex_operand c) cs)) @ [(T_rpar, '')'')]"
| "lex_operand node = lex_pred node"

definition lex_tail :: "bool_op \<Rightarrow> node list \<Rightarrow> lexeme list" where
  "lex_tail op cs = concat (map (\<lambda>c. (T_ident, op_text op) # lex_operand c) cs)"

fun lex_node :: "node \<Rightarrow> lexeme list" where
  "lex_node (BoolNode op cs) = tl (lex_tail op cs)"
| "lex_node node = lex_pred node"

lemma lex_tail_simps [simp]:
  "lex_tail op [] = []"
  "lex_tail op (c # cs) = (T_ident, op_text op) # lex_operand c @ lex_tail op cs"
  by (simp_all add: lex_tail_def)

lemma lex_operand_pred: "\<not> is_group n \<Longrightarrow> lex_operand n = lex_pred n"
  by (cases n) auto

lemma lex_operand_group: "is_group n \<Longrightarrow> lex_operand n = (T_lpar, ''('') # lex_node n @ [(T_rpar, '')'')]"
  by (cases n) (auto simp: lex_tail_def)

lemma lex_node_pred: "\<not> is_group n \<Longrightarrow> lex_node n = lex_pred n"
  by (cases n) auto

definition strings :: "lexeme list \<Rightarrow> nat" where
  "strings ks = length (filter (\<lambda>k. fst k = T_string) ks)"

lemma strings_simps [simp]:
  "strings [] = 0"
  "strings (k # ks) = (if fst k = T_string then Suc (strings ks) else strings ks)"
  "strings (ks @ ls) = strings ks + strings ls"
  by (simp_all add: strings_def)

section \<open>The formatted text tokenizes to the lexemes\<close>

text \<open>\<open>lexes b s ks\<close>: in front of any text (one that does not start with an identifier
  character or a quote, when \<open>b\<close> is set) the tokenizer reads \<open>s\<close> as the lexemes \<open>ks\<close>.\<close>

fun closed :: "string \<Rightarrow> bool" where
  "closed [] = True"
| "closed (c # cs) = (\<not> is_ident_char c \<and> c \<noteq> quote_char)"

definition lexes :: "bool \<Rightarrow> string \<Rightarrow> lexeme list \<Rightarrow> bool" where
  "lexes b s ks \<longleftrightarrow>
     (\<forall>i l rest. l + strings ks \<le> MAX_STRING_LITERALS \<longrightarrow> (b \<longrightarrow> closed rest) \<longrightarrow>
        (\<exists>ts. map kv ts = ks \<and>
           tokenize_from i l (s @ rest)
             = rmap ((@) ts) (tokenize_from (i + length s) (l + strings ks) rest)))"

lemma rmap_append: "rmap ((@) (xs @ ys)) m = rmap (\<lambda>x. xs @ ys @ x) m"
  by (cases m) auto

lemma lexes_append:
  assumes "lexes b1 s1 k1" "lexes b2 s2 k2" "b1 \<Longrightarrow> s2 \<noteq> [] \<and> closed s2"
  shows "lexes b2 (s1 @ s2) (k1 @ k2)"
  unfolding lexes_def
proof (intro allI impI)
  fix i l rest
  assume l: "l + strings (k1 @ k2) \<le> MAX_STRING_LITERALS" and rest: "b2 \<longrightarrow> closed rest"
  have "b1 \<longrightarrow> closed (s2 @ rest)" using assms(3) by (cases s2) auto
  then obtain ts1 where 1: "map kv ts1 = k1"
      "tokenize_from i l (s1 @ s2 @ rest)
         = rmap ((@) ts1) (tokenize_from (i + length s1) (l + strings k1) (s2 @ rest))"
    using assms(1) l unfolding lexes_def by (metis add_lessD1 le_eq_less_or_eq add.assoc
        less_imp_le strings_simps(3) add_leE)
  obtain ts2 where 2: "map kv ts2 = k2"
      "tokenize_from (i + length s1) (l + strings k1) (s2 @ rest)
         = rmap ((@) ts2) (tokenize_from (i + length s1 + length s2) (l + strings k1 + strings k2) rest)"
    using assms(2) l rest unfolding lexes_def by (metis add.assoc strings_simps(3))
  show "\<exists>ts. map kv ts = k1 @ k2 \<and> tokenize_from i l ((s1 @ s2) @ rest)
      = rmap ((@) ts) (tokenize_from (i + length (s1 @ s2)) (l + strings (k1 @ k2)) rest)"
    using 1 2 by (intro exI [of _ "ts1 @ ts2"]) (simp add: add.assoc rmap_append)
qed

lemma lexes_weaken: "lexes False s ks \<Longrightarrow> lexes b s ks"
  by (simp add: lexes_def)

lemma lexes_Nil: "lexes False [] []"
  by (simp add: lexes_def) (metis append_Nil rmap.elims rmap.simps)

lemma lexes_space: "py_isspace c \<Longrightarrow> lexes False [c] []"
  using lexes_Nil by (simp add: lexes_def)

lemma rmap_append_single: "rmap ((#) t) m = rmap ((@) [t]) m"
  by (cases m) auto

lemma lexes_punct:
  assumes "c \<in> set ''(),=''"
  shows "lexes False [c] [(punct_kind c, [c])]"
proof -
  have "\<not> py_isspace c" "punct_kind c \<noteq> T_string" using assms by (auto simp: char_simps punct_kind_def)
  then show ?thesis
    unfolding lexes_def using assms
    by (auto simp: token_cons_def rmap_append_single kv_def
        intro!: exI [of _ "[\<lparr>kind = punct_kind c, val = [c], position = _\<rparr>]"])
qed

lemma lexes_neq: "lexes False ''!='' [(T_neq, ''!='')]"
  unfolding lexes_def
  by (auto simp: token_cons_def rmap_append_single kv_def char_simps
      intro!: exI [of _ "[\<lparr>kind = T_neq, val = ''!='', position = _\<rparr>]"])

lemma ident_start_plain:
  "is_ident_start c \<Longrightarrow>
     \<not> py_isspace c \<and> c \<notin> set ''(),='' \<and> c \<noteq> CHR ''!'' \<and> c \<noteq> quote_char"
  by (auto simp: char_simps)

lemma takeWhile_closed:
  "\<forall>c \<in> set cs. is_ident_char c \<Longrightarrow> closed rest \<Longrightarrow>
     takeWhile is_ident_char (cs @ rest) = cs \<and> dropWhile is_ident_char (cs @ rest) = rest"
  by (cases rest) (auto simp: takeWhile_append)

lemma lexes_ident:
  assumes "is_ident_start c" "\<forall>d \<in> set cs. is_ident_char d"
  shows "lexes True (c # cs) [(T_ident, c # cs)]"
  unfolding lexes_def
proof (intro allI impI)
  fix i l rest
  assume "True \<longrightarrow> closed rest"
  with takeWhile_closed [OF assms(2)] ident_start_plain [OF assms(1)] assms(1)
  show "\<exists>ts. map kv ts = [(T_ident, c # cs)] \<and> tokenize_from i l ((c # cs) @ rest)
      = rmap ((@) ts) (tokenize_from (i + length (c # cs)) (l + strings [(T_ident, c # cs)]) rest)"
    by (intro exI [of _ "[\<lparr>kind = T_ident, val = c # cs, position = i\<rparr>]"])
      (simp add: token_cons_def rmap_append_single kv_def Let_def)
qed

lemma scan_string_quoted:
  assumes "closed rest"
  shows "scan_string i (concat (map (\<lambda>c. if c = quote_char then [c, c] else [c]) v)
           @ quote_char # rest)
    = Some (v, i + length (concat (map (\<lambda>c. if c = quote_char then [c, c] else [c]) v)) + 1, rest)"
proof (induction v arbitrary: i)
  case Nil
  from assms show ?case by (cases rest) auto
next
  case (Cons c v)
  from Cons [of "i + 2"] Cons [of "i + 1"] show ?case by simp
qed

lemma lexes_quote: "lexes True (quote v) [(T_string, v)]"
  unfolding lexes_def
proof (intro allI impI)
  fix i l rest
  assume l: "l + strings [(T_string, v)] \<le> MAX_STRING_LITERALS" and rest: "True \<longrightarrow> closed rest"
  let ?e = "concat (map (\<lambda>c. if c = quote_char then [c, c] else [c]) v)"
  from rest have "scan_string (i + 1) (?e @ quote_char # rest) = Some (v, i + 1 + length ?e + 1, rest)"
    by (simp only: scan_string_quoted)
  moreover have "\<not> py_isspace quote_char" by (simp add: char_simps)
  ultimately show "\<exists>ts. map kv ts = [(T_string, v)] \<and> tokenize_from i l (quote v @ rest)
      = rmap ((@) ts) (tokenize_from (i + length (quote v)) (l + strings [(T_string, v)]) rest)"
    using l by (intro exI [of _ "[\<lparr>kind = T_string, val = v, position = i\<rparr>]"])
      (simp add: quote_def token_cons_def rmap_append_single kv_def)
qed

declare tokenize_from.simps(2) [simp del]

lemma lexes_spaces: "\<forall>c \<in> set s. py_isspace c \<Longrightarrow> lexes False s []"
proof (induction s)
  case (Cons c s)
  then show ?case using lexes_append [of False "[c]" "[]" False s "[]"] lexes_space by simp
qed (rule lexes_Nil)

lemma lexes_pad: "lexes False (pad indent) []"
  by (rule lexes_spaces) (auto simp: pad_def INDENT_def char_simps)

lemma lexes_newline: "lexes False newline []"
  by (rule lexes_spaces) (auto simp: newline_def char_simps)

lemma lexes_blank: "lexes False '' '' []"
  by (rule lexes_spaces) (auto simp: char_simps)

text \<open>The separators the formatter writes, with the blanks around them.\<close>

lemmas lexes_opening = lexes_punct [of "CHR ''(''", simplified punct_kind_def, simplified]
lemmas lexes_closing = lexes_punct [of "CHR '')''", simplified punct_kind_def, simplified]
lemmas lexes_comma = lexes_punct [of "CHR '',''", simplified punct_kind_def, simplified]
lemmas lexes_eq = lexes_punct [of "CHR ''=''", simplified punct_kind_def, simplified]

lemma lexes_word:
  assumes "w = ''IN'' \<or> w = ''NOT'' \<or> w = ''AND'' \<or> w = ''OR'' \<or> w = ''true'' \<or> w = ''false''
    \<or> in_dict w SCALAR_COLUMNS \<or> in_dict w ARRAY_COLUMNS \<or> in_dict w BOOL_COLUMNS"
  shows "lexes True w [(T_ident, w)]"
  using assms unfolding column_simps by (elim disjE) (simp_all add: lexes_ident char_simps)

lemma lexes_sep_word:
  assumes "w = ''IN'' \<or> w = ''NOT'' \<or> w = ''NOT IN''"
  shows "lexes False ('' '' @ w @ '' '')
    (if w = ''NOT IN'' then [(T_ident, ''NOT''), (T_ident, ''IN'')] else [(T_ident, w)])"
proof -
  have blank_after: "lexes False ('' '' @ u @ '' '') [(T_ident, u)]" if "u = ''IN'' \<or> u = ''NOT''" for u
    using lexes_append [OF lexes_blank lexes_append [OF lexes_word [of u] lexes_blank]] that
    by (auto simp: char_simps)
  have "lexes False ('' NOT '' @ ''IN'' @ '' '') [(T_ident, ''NOT''), (T_ident, ''IN'')]"
    using lexes_append [OF blank_after [of "''NOT''"] lexes_append [OF lexes_word [of "''IN''"] lexes_blank]]
    by (simp add: char_simps)
  with blank_after assms show ?thesis by auto
qed

lemma lexes_sep_eq: "lexes False '' = '' [(T_eq, ''='')]"
  using lexes_append [OF lexes_blank lexes_append [OF lexes_eq lexes_blank]] by simp

lemma lexes_sep_neq: "lexes False '' != '' [(T_neq, ''!='')]"
  using lexes_append [OF lexes_blank lexes_append [OF lexes_neq lexes_blank]] by simp

lemma lexes_sep_comma: "lexes False '', '' [(T_comma, '','')]"
  using lexes_append [OF lexes_comma lexes_blank] by simp

lemma lexes_sep_in_open: "lexes False '' IN ('' [(T_ident, ''IN''), (T_lpar, ''('')]"
  using lexes_append [OF lexes_sep_word [of "''IN''"] lexes_opening] by simp

lemma lexes_sep_not_in_open:
  "lexes False '' NOT IN ('' [(T_ident, ''NOT''), (T_ident, ''IN''), (T_lpar, ''('')]"
  using lexes_append [OF lexes_sep_word [of "''NOT IN''"] lexes_opening] by simp

lemma separator_chars [simp]:
  "\<not> is_ident_char (CHR '' '')" "\<not> is_ident_char (CHR '')'')" "\<not> is_ident_char (CHR '','')"
  "\<not> is_ident_char (CHR 0x0A)"
  by (simp_all add: char_simps)

lemma lexes_values: "vs \<noteq> [] \<Longrightarrow> lexes True (py_join '', '' (map quote vs)) (lex_values vs)"
proof (induction vs rule: lex_values.induct)
  case (3 v w vs)
  from 3 have "lexes True (py_join '', '' (map quote (w # vs))) (lex_values (w # vs))" by simp
  from lexes_append [OF lexes_quote [of v] lexes_append [OF lexes_sep_comma this]]
  show ?case by simp
qed (simp_all add: lexes_quote)

lemma lexes_value_list: "vs \<noteq> [] \<Longrightarrow>
   lexes False (py_join '', '' (map quote vs) @ '')'') (lex_values vs @ [(T_rpar, '')'')])"
  using lexes_append [OF lexes_values lexes_closing] by simp

lemma lexes_predicate:
  assumes "format_predicate n = Inr s" "wf_pred n"
  shows "lexes True s (lex_pred n)"
proof (cases n)
  case (Equals c v)
  with assms lexes_append [OF lexes_word [of c] lexes_append [OF lexes_sep_eq lexes_quote [of v]]]
  show ?thesis by auto
next
  case (NotEquals c v)
  with assms lexes_append [OF lexes_word [of c] lexes_append [OF lexes_sep_neq lexes_quote [of v]]]
  show ?thesis by auto
next
  case (InList c vs)
  with assms lexes_append [OF lexes_word [of c] lexes_append [OF lexes_sep_in_open lexes_value_list]]
  show ?thesis by (auto intro: lexes_weaken)
next
  case (NotInList c vs)
  with assms lexes_append [OF lexes_word [of c] lexes_append [OF lexes_sep_not_in_open lexes_value_list]]
  show ?thesis by (auto intro: lexes_weaken)
next
  case (ArrayContains c v)
  with assms lexes_append [OF lexes_quote [of v] lexes_append [OF lexes_sep_word [of "''IN''"] lexes_word [of c]]]
  show ?thesis by auto
next
  case (ArrayNotContains c v)
  with assms lexes_append [OF lexes_quote [of v] lexes_append [OF lexes_sep_word [of "''NOT IN''"] lexes_word [of c]]]
  show ?thesis by auto
next
  case (BoolEquals c b)
  with assms lexes_append [OF lexes_word [of c] lexes_append [OF lexes_sep_eq lexes_word [of "if b then ''true'' else ''false''"]]]
  show ?thesis by auto
next
  case (BoolNode op cs)
  with assms show ?thesis by simp
qed

lemma lexes_pad_predicate:
  "format_predicate n = Inr s \<Longrightarrow> wf_pred n \<Longrightarrow> lexes True (pad indent @ s) (lex_pred n)"
  using lexes_append [OF lexes_pad lexes_predicate] by simp

lemma lexes_lines:
  "list_all2 (lexes True) lines kss \<Longrightarrow> lines \<noteq> [] \<Longrightarrow> lexes True (py_join newline lines) (concat kss)"
proof (induction newline lines arbitrary: kss rule: py_join.induct)
  case (3 x y xs)
  then obtain k ks where k: "kss = k # ks" "lexes True x k" "list_all2 (lexes True) (y # xs) ks"
    by (auto simp: list_all2_Cons1)
  from 3 k(3) have "lexes True (py_join newline (y # xs)) (concat ks)" by simp
  from lexes_append [OF k(2) lexes_append [OF lexes_newline this]] show ?case
    by (simp add: k(1) newline_def)
qed (auto simp: list_all2_Cons1)

definition lex_line :: "bool_op \<Rightarrow> nat \<times> node \<Rightarrow> lexeme list" where
  "lex_line op pc =
     (if fst pc = 0 then lex_operand (snd pc) else (T_ident, op_text op) # lex_operand (snd pc))"

lemma lex_lines_tail: "concat (map (lex_line op) (enumerate (Suc k) cs)) = lex_tail op cs"
  by (induction cs arbitrary: k) (simp_all add: lex_line_def)

lemma lex_lines: "concat (map (lex_line op) (enumerate 0 cs)) = lex_node (BoolNode op cs)"
  by (cases cs) (simp_all add: lex_line_def lex_lines_tail [of _ 0, simplified])

lemma lexes_line:
  assumes "lexes True t (lex_operand c)"
  shows "lexes True (pad indent @ (if p = 0 then [] else op_text op @ '' '') @ t) (lex_line op (p, c))"
proof -
  have "lexes True (op_text op) [(T_ident, op_text op)]" by (cases op) (simp_all add: lexes_word)
  from lexes_append [OF lexes_pad lexes_append [OF this lexes_append [OF lexes_blank assms]]]
    lexes_append [OF lexes_pad assms]
  show ?thesis by (auto simp: lex_line_def)
qed

lemma lexes_group:
  assumes "lexes True body ks"
  shows "lexes True (''('' @ newline @ body @ newline @ pad indent @ '')'')
    ((T_lpar, ''('') # ks @ [(T_rpar, '')'')])"
proof -
  have "lexes False (newline @ pad indent @ '')'') [(T_rpar, '')'')]"
    using lexes_append [OF lexes_newline lexes_append [OF lexes_pad lexes_closing]] by simp
  from lexes_append [OF lexes_append [OF lexes_opening lexes_newline] lexes_append [OF assms this]]
  show ?thesis by (simp add: newline_def lexes_weaken)
qed

lemma lexes_formatted:
  shows lexes_node: "format_node n k = Inr s \<Longrightarrow> wf_node d n \<Longrightarrow> lexes True s (lex_node n)"
  and lexes_operand: "format_operand n k = Inr s \<Longrightarrow> wf_operand d n \<Longrightarrow> lexes True s (lex_operand n)"
proof (induction n k and n k arbitrary: d s and d s rule: format_node_format_operand.induct)
  case (1 op cs indent)
  let ?line = "\<lambda>(p, child). rmap (\<lambda>t. pad indent @ (if p = 0 then [] else op_text op @ '' '') @ t)
            (format_operand child indent)"
  from 1(2) obtain lines where lines: "rmapM ?line (enumerate 0 cs) = Inr lines"
    and s: "s = py_join newline lines" by (auto simp: rmap_eq_Inr)
  have "lexes True line (lex_line op pc)"
    if pc: "pc \<in> set (enumerate 0 cs)" and line: "?line pc = Inr line" for pc line
  proof -
    obtain p c where [simp]: "pc = (p, c)" by (cases pc)
    from pc have "c \<in> set cs" by (auto dest: enumerate_child)
    with 1(3) have "wf_operand d c" by simp
    moreover from line obtain t where t: "format_operand c indent = Inr t"
      and "line = pad indent @ (if p = 0 then [] else op_text op @ '' '') @ t"
      by (auto simp: rmap_eq_Inr)
    ultimately show ?thesis using 1(1) [OF pc, of p c t d] lexes_line by simp
  qed
  then have "list_all2 (lexes True) lines (map (lex_line op) (enumerate 0 cs))"
    using rmapM_InrD [OF lines] by (auto simp: list_all2_conv_all_nth)
  moreover have "lines \<noteq> []" using 1(3) list_all2_lengthD [OF rmapM_InrD [OF lines]] by auto
  ultimately show ?case using lexes_lines lex_lines s by metis
next
  case (3 op cs indent)
  let ?g = "BoolNode op cs"
  from 3(2) obtain body where body: "format_node ?g (indent + 1) = Inr body"
    and s: "s = ''('' @ newline @ body @ newline @ pad indent @ '')''"
    by (auto simp: rmap_eq_Inr simp del: format_node.simps)
  have "wf_node (d - 1) ?g" using 3(3) by (simp add: wf_operand_def del: wf_node_BoolNode)
  from lexes_group [OF 3(1) [OF body this]] show ?case
    unfolding s by (simp only: lex_operand_group [of ?g] is_group.simps append.simps)
qed (auto simp: rmap_eq_Inr wf_operand_def intro: lexes_predicate lexes_pad_predicate
    simp del: format_predicate.simps lex_pred.simps wf_pred.simps)

section \<open>The parser reads the lexemes back\<close>

lemma map_kv_Cons:
  "map kv us = k # ks \<longleftrightarrow> (\<exists>t vs. us = t # vs \<and> kind t = fst k \<and> val t = snd k \<and> map kv vs = ks)"
  by (cases us; cases k) (auto simp: kv_def)

lemma map_kv_append:
  "map kv us = ks @ ls \<longleftrightarrow> (\<exists>vs ws. us = vs @ ws \<and> map kv vs = ks \<and> map kv ws = ls)"
  by (auto simp: map_eq_append_conv)

lemma value_loop_comma:
  assumes "kind t = T_comma" "kind v = T_string"
  shows "value_loop (t # v # us) = rmap (\<lambda>(vs, rest). (val v # vs, rest)) (value_loop us)"
  using assms by (subst value_loop.simps) simp

lemma value_loop_stop: "kind t \<noteq> T_comma \<Longrightarrow> value_loop (t # us) = Inr ([], t # us)"
  by (subst value_loop.simps) simp

lemma value_loop_lexemes:
  assumes "kind t = T_rpar" "map kv us = lex_values vs" "vs \<noteq> []"
  shows "\<exists>v ws. us = v # ws \<and> kind v = T_string \<and> val v = hd vs
           \<and> value_loop (ws @ t # rest) = Inr (tl vs, t # rest)"
  using assms
proof (induction vs arbitrary: us rule: lex_values.induct)
  case (3 v w vs)
  from 3(3) obtain a b us' where us: "us = a # b # us'" "kind a = T_string" "val a = v"
    "kind b = T_comma" "map kv us' = lex_values (w # vs)"
    by (auto simp: map_kv_Cons)
  from "3.IH" [OF \<open>kind t = T_rpar\<close> us(5)] us show ?case
    by (auto simp: value_loop_comma)
qed (auto simp: map_kv_Cons value_loop_stop)

lemma parse_value_list_lexemes:
  assumes "map kv us = (T_lpar, p) # lex_values vs @ [(T_rpar, q)]" "vs \<noteq> []"
  shows "parse_value_list (us @ rest) = Inr (vs, rest)"
proof -
  from assms(1) obtain a us' t where us: "us = a # us' @ [t]" "kind a = T_lpar" "kind t = T_rpar"
    "map kv us' = lex_values vs"
    by (auto simp: map_kv_Cons map_kv_append)
  from value_loop_lexemes [OF us(3,4) assms(2), of rest] us assms(2) show ?thesis
    by (auto simp: parse_value_list_def)
qed

lemma lower_column:
  "in_dict c SCALAR_COLUMNS \<or> in_dict c ARRAY_COLUMNS \<or> in_dict c BOOL_COLUMNS \<Longrightarrow> py_lower c = c"
  unfolding column_simps by (elim disjE) (simp_all add: lower_char_def char_simps)

lemma lower_chars [simp]:
  "lower_char (CHR ''A'') = CHR ''a''" "lower_char (CHR ''D'') = CHR ''d''"
  "lower_char (CHR ''I'') = CHR ''i''" "lower_char (CHR ''N'') = CHR ''n''"
  "lower_char (CHR ''O'') = CHR ''o''" "lower_char (CHR ''R'') = CHR ''r''"
  "lower_char (CHR ''T'') = CHR ''t''"
  by code_simp+

lemma lower_bool_words: "py_lower ''true'' = ''true''" "py_lower ''false'' = ''false''"
  by code_simp+

lemma bool_literal_lookup:
  "in_dict ''true'' BOOL_LITERALS" "in_dict ''false'' BOOL_LITERALS"
  "map_of BOOL_LITERALS ''true'' = Some True" "map_of BOOL_LITERALS ''false'' = Some False"
  by (simp_all add: in_BOOL_LITERALS) (simp_all add: BOOL_LITERALS_def)

lemma parse_array_predicate_in:
  assumes "kind a = T_ident" "val a = ''IN''" "kind b = T_ident" "in_dict (val b) ARRAY_COLUMNS"
  shows "parse_array_predicate t (a # b # rest) = Inr (ArrayContains (val b) (val t), rest)"
  using assms lower_column [of "val b"]
  by (simp add: parse_array_predicate_def parse_in_array_def parse_array_column_def Let_def)

lemma parse_array_predicate_not_in:
  assumes "kind n = T_ident" "val n = ''NOT''" "kind a = T_ident" "val a = ''IN''"
    "kind b = T_ident" "in_dict (val b) ARRAY_COLUMNS"
  shows "parse_array_predicate t (n # a # b # rest) = Inr (ArrayNotContains (val b) (val t), rest)"
  using assms lower_column [of "val b"]
  by (simp add: parse_array_predicate_def parse_in_array_def parse_array_column_def Let_def)

lemma parse_column_scalar:
  "in_dict (val t) SCALAR_COLUMNS \<Longrightarrow>
     parse_column_predicate t ts = parse_scalar_predicate (val t) ts"
  using lower_column [of "val t"]
  by (auto simp: parse_column_predicate_def Let_def column_simps)

lemma parse_column_bool:
  "in_dict (val t) BOOL_COLUMNS \<Longrightarrow> parse_column_predicate t ts = parse_bool_predicate (val t) ts"
  using lower_column [of "val t"] by (simp add: parse_column_predicate_def Let_def)

lemma parse_predicate_lexemes:
  assumes "map kv us = lex_pred n" "wf_pred n"
  shows "parse_predicate (us @ rest) = Inr (n, rest)"
proof (cases n)
  case (InList c vs)
  with assms obtain a b us' where "us = a # b # us'" "kind a = T_ident" "val a = c"
    "kind b = T_ident" "val b = ''IN''" "map kv us' = (T_lpar, ''('') # lex_values vs @ [(T_rpar, '')'')]"
    by (auto simp: map_kv_Cons)
  with InList assms(2) parse_value_list_lexemes [of us' _ vs _ rest] show ?thesis
    by (simp add: parse_predicate_def parse_column_scalar parse_scalar_predicate_def)
next
  case (NotInList c vs)
  with assms obtain a n b us' where "us = a # n # b # us'" "kind a = T_ident" "val a = c"
    "kind n = T_ident" "val n = ''NOT''"
    "kind b = T_ident" "val b = ''IN''" "map kv us' = (T_lpar, ''('') # lex_values vs @ [(T_rpar, '')'')]"
    by (auto simp: map_kv_Cons)
  with NotInList assms(2) parse_value_list_lexemes [of us' _ vs _ rest] show ?thesis
    by (simp add: parse_predicate_def parse_column_scalar parse_scalar_predicate_def)
next
  case (BoolEquals c b)
  with assms show ?thesis
    by (auto simp: map_kv_Cons parse_predicate_def parse_column_bool parse_bool_predicate_def
        bool_literal_lookup lower_bool_words simp del: py_lower_simps)
qed (use assms in \<open>auto simp: map_kv_Cons parse_predicate_def parse_column_scalar
    parse_scalar_predicate_def parse_comparison_def parse_array_predicate_in
    parse_array_predicate_not_in\<close>)

text \<open>A group is followed by a token that is not a further \<open>AND\<close> or \<open>OR\<close>.\<close>

definition no_operator :: "token list \<Rightarrow> bool" where
  "no_operator ts \<longleftrightarrow> (\<exists>t us. ts = t # us \<and> kind t \<noteq> T_ident)"

lemma op_text_keyword:
  "py_lower (op_text op) = (case op of AND_op \<Rightarrow> ''and'' | OR_op \<Rightarrow> ''or'')"
  by (cases op) simp_all

lemma parse_operands_stop:
  "no_operator rest \<Longrightarrow> parse_operands (Suc f) d (Some op) cs rest = Inr (BoolNode op cs, rest)"
  by (auto simp: no_operator_def)

lemma parse_operands_step:
  assumes "kind t = T_ident" "val t = op_text op" "op' = None \<or> op' = Some op"
    "parse_term f d us = Inr (c, vs)"
  shows "parse_operands (Suc f) d op' cs (t # us) = parse_operands f d (Some op) (cs @ [c]) vs"
  using assms by (cases op) (auto simp: op_text_keyword)

text \<open>What reading one operand back means, and that it carries over to the rest of a group.\<close>

definition reads_operand :: "node \<Rightarrow> bool" where
  "reads_operand c \<longleftrightarrow>
     (\<forall>fuel depth us rest. map kv us = lex_operand c \<longrightarrow> wf_operand (MAX_PAREN_DEPTH - depth) c
        \<longrightarrow> 3 * length us + 1 \<le> fuel \<longrightarrow> parse_term fuel depth (us @ rest) = Inr (c, rest))"

lemma parse_term_pred:
  assumes "map kv us = lex_pred n" "wf_pred n" "0 < fuel"
  shows "parse_term fuel depth (us @ rest) = Inr (n, rest)"
proof -
  have "\<exists>t vs. us = t # vs \<and> kind t \<noteq> T_lpar"
    using assms(1,2) by (cases n) (auto simp: map_kv_Cons)
  with assms show ?thesis
    using parse_predicate_lexemes [OF assms(1,2), of rest] by (cases fuel) auto
qed

lemma parse_operands_lexemes:
  assumes "map kv us = lex_tail op cs" "\<forall>c \<in> set cs. reads_operand c"
    "\<forall>c \<in> set cs. wf_operand (MAX_PAREN_DEPTH - depth) c" "no_operator rest"
    "op' = Some op \<or> op' = None \<and> cs \<noteq> []" "3 * length us + 2 \<le> fuel"
  shows "parse_operands fuel depth op' acc (us @ rest) = Inr (BoolNode op (acc @ cs), rest)"
  using assms
proof (induction cs arbitrary: us op' acc fuel)
  case Nil
  then show ?case using parse_operands_stop [of rest "fuel - 1" depth op acc] by (cases fuel) auto
next
  case (Cons c cs)
  from Cons.prems(1) obtain t vs ws where us: "us = t # vs @ ws" "kind t = T_ident"
    "val t = op_text op" "map kv vs = lex_operand c" "map kv ws = lex_tail op cs"
    by (auto simp: map_kv_Cons map_kv_append)
  obtain f where f: "fuel = Suc f" "3 * length vs + 3 * length ws + 4 \<le> f"
    using Cons.prems(6) us(1) by (cases fuel) auto
  have "parse_term f depth (vs @ ws @ rest) = Inr (c, ws @ rest)"
    using Cons.prems(2,3) us(4) f(2) by (simp add: reads_operand_def)
  from parse_operands_step [OF us(2,3) _ this] have "parse_operands fuel depth op' acc (us @ rest)
      = parse_operands f depth (Some op) (acc @ [c]) (ws @ rest)"
    unfolding f(1) us(1) using Cons.prems(5) by (auto simp del: parse_operands.simps)
  also have "\<dots> = Inr (BoolNode op (acc @ c # cs), rest)"
    using Cons.IH [OF us(5), of "Some op" f "acc @ [c]"] Cons.prems f(2) by simp
  finally show ?case .
qed

lemma lex_operand_neq_Nil: "wf_operand d c \<Longrightarrow> lex_operand c \<noteq> []"
  by (cases c) (auto simp: wf_operand_def)

lemma parse_expr_group:
  assumes "map kv us = lex_node (BoolNode op cs)" "\<forall>c \<in> set cs. reads_operand c"
    "wf_node (MAX_PAREN_DEPTH - depth) (BoolNode op cs)" "no_operator rest"
    "3 * length us + 2 \<le> fuel"
  shows "parse_expr fuel depth (us @ rest) = Inr (BoolNode op cs, rest)"
proof -
  from assms(3) obtain c cs' where cs: "cs = c # cs'" "cs' \<noteq> []"
    by (cases cs; cases "tl cs") auto
  with assms(1) obtain vs ws where us: "us = vs @ ws" "map kv vs = lex_operand c"
    "map kv ws = lex_tail op cs'" by (auto simp: map_kv_append)
  have wf: "\<forall>c \<in> set cs. wf_operand (MAX_PAREN_DEPTH - depth) c" using assms(3) by simp
  have "vs \<noteq> []" using us(2) lex_operand_neq_Nil [of "MAX_PAREN_DEPTH - depth" c] wf cs by auto
  then obtain f where f: "fuel = Suc f" "3 * length vs + 1 \<le> f" "3 * length ws + 2 \<le> f"
    using assms(5) us(1) by (cases fuel; cases vs) auto
  have "parse_term f depth (vs @ ws @ rest) = Inr (c, ws @ rest)"
    using assms(2) wf cs us(2) f(2) by (simp add: reads_operand_def)
  moreover have "parse_operands f depth None [c] (ws @ rest) = Inr (BoolNode op ([c] @ cs'), rest)"
    using parse_operands_lexemes [OF us(3) _ _ assms(4) _ f(3), of depth None "[c]"] assms(2) wf cs
    by simp
  ultimately show ?thesis by (simp add: f(1) us(1) cs(1))
qed

lemma all_read_operand: "reads_operand c"
proof (induction c)
  case (BoolNode op cs)
  show ?case
    unfolding reads_operand_def
  proof (intro allI impI)
    fix fuel depth us rest
    assume us: "map kv us = lex_operand (BoolNode op cs)"
      and wf: "wf_operand (MAX_PAREN_DEPTH - depth) (BoolNode op cs)"
      and fuel: "3 * length us + 1 \<le> fuel"
    from us have "map kv us = (T_lpar, ''('') # lex_node (BoolNode op cs) @ [(T_rpar, '')'')]"
      by (simp only: lex_operand_group is_group.simps)
    then obtain a vs b where vs: "us = a # vs @ [b]" "kind a = T_lpar" "kind b = T_rpar"
      "map kv vs = lex_node (BoolNode op cs)"
      by (auto simp: map_kv_Cons map_kv_append simp del: lex_node.simps)
    obtain f where f: "fuel = Suc f" "3 * length vs + 2 \<le> f"
      using fuel vs(1) by (cases fuel) auto
    have d: "Suc depth \<le> MAX_PAREN_DEPTH"
      and wf': "wf_node (MAX_PAREN_DEPTH - Suc depth) (BoolNode op cs)"
      using wf by (auto simp: wf_operand_def simp del: wf_node_BoolNode)
    have "parse_expr f (Suc depth) (vs @ b # rest) = Inr (BoolNode op cs, b # rest)"
      using BoolNode.IH by (intro parse_expr_group [OF vs(4) _ wf' _ f(2)])
        (auto simp: no_operator_def vs(3))
    with vs d show "parse_term fuel depth (us @ rest) = Inr (BoolNode op cs, rest)"
      by (simp add: f(1))
  qed
qed (auto simp: reads_operand_def wf_operand_def parse_term_pred
    simp del: lex_pred.simps wf_pred.simps)

section \<open>Counting string literals\<close>

text \<open>A tree never carries more string literals than the tokens it was read from.\<close>

definition node_strings :: "node \<Rightarrow> nat" where
  "node_strings n = strings (lex_node n)"

abbreviation token_strings :: "token list \<Rightarrow> nat" where
  "token_strings ts \<equiv> strings (map kv ts)"

lemma strings_lex_values [simp]: "strings (lex_values vs) = length vs"
  by (induction vs rule: lex_values.induct) auto

lemma strings_lex_operand: "strings (lex_operand n) = node_strings n"
proof (cases "is_group n")
  case True
  then show ?thesis by (simp add: lex_operand_group node_strings_def)
next
  case False
  then show ?thesis by (simp add: lex_operand_pred lex_node_pred node_strings_def)
qed

lemma strings_lex_tail: "strings (lex_tail op cs) = sum_list (map node_strings cs)"
  by (induction cs) (auto simp: strings_lex_operand)

lemma node_strings_simps [simp]:
  "node_strings (BoolNode op cs) = sum_list (map node_strings cs)"
  "node_strings (Equals c v) = 1" "node_strings (NotEquals c v) = 1"
  "node_strings (InList c vs) = length vs" "node_strings (NotInList c vs) = length vs"
  "node_strings (ArrayContains c v) = 1" "node_strings (ArrayNotContains c v) = 1"
  "node_strings (BoolEquals c b) = 0"
proof -
  have "strings (tl (lex_tail op cs)) = strings (lex_tail op cs)" by (cases cs) simp_all
  then show "node_strings (BoolNode op cs) = sum_list (map node_strings cs)"
    by (simp add: node_strings_def strings_lex_tail)
qed (simp_all add: node_strings_def)

lemma fst_kv [simp]: "fst (kv t) = kind t"
  by (simp add: kv_def)

lemma value_loop_strings:
  "value_loop ts = Inr (vs, rest) \<Longrightarrow> length vs + token_strings rest \<le> token_strings ts"
proof (induction ts arbitrary: vs rest rule: value_loop.induct)
  case (1 ts)
  show ?case
  proof (cases ts)
    case Nil
    with 1(2) show ?thesis by (subst (asm) value_loop.simps) (simp add: peek_def)
  next
    case (Cons t us)
    show ?thesis
    proof (cases "kind t = T_comma")
      case False
      with Cons 1(2) show ?thesis by (simp add: value_loop_stop)
    next
      case True
      with Cons 1(2) obtain v ws vs' where us: "us = v # ws" "kind v = T_string"
        "value_loop ws = Inr (vs', rest)" "vs = val v # vs'"
        by (subst (asm) value_loop.simps) (auto simp: rbind_eq_Inr rmap_eq_Inr expect_eq_Inr)
      from 1(1) [of t "(t, us)" t us "(v, ws)" v ws] us Cons True
      have "length vs' + token_strings rest \<le> token_strings ws" by simp
      with us Cons show ?thesis by simp
    qed
  qed
qed

lemma parse_value_list_strings:
  assumes "parse_value_list ts = Inr (vs, rest)"
  shows "length vs + token_strings rest \<le> token_strings ts"
proof -
  from assms obtain a v us vs' b where "ts = a # v # us" "kind v = T_string"
    "value_loop us = Inr (vs', b # rest)" "vs = val v # vs'"
    by (auto simp: parse_value_list_def rbind_eq_Inr expect_eq_Inr)
  with value_loop_strings [of us vs' "b # rest"] show ?thesis by (auto split: if_splits)
qed

lemma parse_bool_predicate_strings:
  "parse_bool_predicate c ts = Inr (node, rest)
     \<Longrightarrow> node_strings node + token_strings rest \<le> token_strings ts"
  by (cases ts; cases "tl ts")
    (auto simp: parse_bool_predicate_def peek_def next_token_def split: if_splits option.splits)

lemma parse_comparison_strings:
  "parse_comparison mk c ts = Inr (node, rest) \<Longrightarrow> mk = Equals \<or> mk = NotEquals
     \<Longrightarrow> node_strings node + token_strings rest \<le> token_strings ts"
  by (auto simp: parse_comparison_def rbind_eq_Inr expect_eq_Inr next_token_eq_Inr)

lemma parse_scalar_predicate_strings:
  assumes "parse_scalar_predicate c ts = Inr (node, rest)"
  shows "node_strings node + token_strings rest \<le> token_strings ts"
proof (cases ts)
  case Nil
  with assms show ?thesis by (simp add: parse_scalar_predicate_def peek_def)
next
  case (Cons t us)
  with assms show ?thesis
    by (fastforce simp: parse_scalar_predicate_def rbind_eq_Inr next_token_eq_Inr
        dest: parse_value_list_strings parse_comparison_strings split: if_splits)
qed

lemma parse_array_predicate_strings:
  assumes "parse_array_predicate tok ts = Inr (node, rest)"
  shows "node_strings node + token_strings rest \<le> Suc (token_strings ts)"
proof -
  have col: "node_strings nd + token_strings r \<le> Suc (token_strings us)"
    if "parse_array_column tok neg us = Inr (nd, r)" for neg us nd r
    using that by (auto simp: parse_array_column_def rbind_eq_Inr expect_eq_Inr Let_def split: if_splits)
  have array: "node_strings nd + token_strings r \<le> Suc (token_strings us)"
    if "parse_in_array tok neg us = Inr (nd, r)" for neg us nd r
    using that by (fastforce simp: parse_in_array_def rbind_eq_Inr next_token_eq_Inr
        dest: col split: if_splits)
  show ?thesis
    using assms by (fastforce simp: parse_array_predicate_def rbind_eq_Inr next_token_eq_Inr
        dest: array split: if_splits)
qed

lemma parse_predicate_strings:
  assumes "parse_predicate ts = Inr (node, rest)"
  shows "node_strings node + token_strings rest \<le> token_strings ts"
proof (cases ts)
  case Nil
  with assms show ?thesis by (simp add: parse_predicate_def peek_def)
next
  case (Cons t us)
  with assms show ?thesis
    by (auto simp: parse_predicate_def parse_column_predicate_def Let_def split: if_splits
        dest: parse_array_predicate_strings parse_bool_predicate_strings
          parse_scalar_predicate_strings)
qed

lemma parser_strings:
  shows parse_expr_strings:
    "parse_expr fuel depth ts = Inr (node, rest)
       \<Longrightarrow> node_strings node + token_strings rest \<le> token_strings ts"
  and parse_operands_strings:
    "parse_operands fuel depth op children ts = Inr (node, rest)
       \<Longrightarrow> (op = None \<Longrightarrow> length children \<le> 1)
       \<Longrightarrow> node_strings node + token_strings rest
             \<le> sum_list (map node_strings children) + token_strings ts"
  and parse_term_strings:
    "parse_term fuel depth ts = Inr (node, rest)
       \<Longrightarrow> node_strings node + token_strings rest \<le> token_strings ts"
proof (induction fuel arbitrary: depth ts op children node rest)
  case 0
  {
    case 1
    then show ?case by simp
  next
    case 2
    then show ?case by simp
  next
    case 3
    then show ?case by simp
  }
next
  case (Suc fuel)
  {
    case 1
    then obtain c us where "parse_term fuel depth ts = Inr (c, us)"
      "parse_operands fuel depth None [c] us = Inr (node, rest)" by (auto simp: rbind_eq_Inr)
    from Suc.IH(3) [OF this(1)] Suc.IH(2) [OF this(2)] show ?case by simp
  next
    case 2
    show ?case
    proof (cases ts)
      case Nil
      with 2 show ?thesis by (simp add: at_keyword_def peek_def)
    next
      case (Cons t us)
      consider (more) kw nd us' where
          "parse_term fuel depth us = Inr (nd, us')"
          "parse_operands fuel depth (Some kw) (children @ [nd]) us' = Inr (node, rest)"
        | (single) "op = None" "children \<noteq> []" "node = hd children" "rest = ts"
        | (group) o1 where "op = Some o1" "node = BoolNode o1 children" "rest = ts"
        using 2(1) Cons
        by (fastforce simp: Let_def rbind_eq_Inr split: if_splits option.splits list.splits)
      then show ?thesis
      proof cases
        case more
        from Suc.IH(3) [OF more(1)] Suc.IH(2) [OF more(2)] Cons show ?thesis by simp
      next
        case single
        with 2(2) show ?thesis by (cases children) auto
      qed simp
    qed
  next
    case 3
    show ?case
    proof (cases ts)
      case Nil
      with 3 show ?thesis by (simp add: peek_def)
    next
      case (Cons t us)
      show ?thesis
      proof (cases "kind t = T_lpar")
        case True
        with 3 Cons obtain b where "parse_expr fuel (Suc depth) us = Inr (node, b # rest)"
          "kind b = T_rpar"
          by (auto simp: rbind_eq_Inr expect_eq_Inr split: if_splits)
        with Suc.IH(1) [OF this(1)] Cons True show ?thesis by simp
      next
        case False
        with 3 Cons parse_predicate_strings [of ts node rest] show ?thesis by simp
      qed
    qed
  }
qed

lemma tokenize_from_strings:
  "tokenize_from i l s = Inr ts \<Longrightarrow> l \<le> MAX_STRING_LITERALS
     \<Longrightarrow> l + token_strings ts \<le> MAX_STRING_LITERALS"
proof (induction i l s arbitrary: ts rule: tokenize_from.induct)
  case (2 i l ch cs)
  from 2(6) consider (skip) "py_isspace ch" "tokenize_from (i + 1) l cs = Inr ts"
    | (punct) us where "ch \<in> set ''(),=''" "\<not> py_isspace ch" "tokenize_from (i + 1) l cs = Inr us"
        "ts = \<lparr>kind = punct_kind ch, val = [ch], position = i\<rparr> # us"
    | (bang) ds us where "ch = CHR ''!''" "cs = CHR ''='' # ds" "tokenize_from (i + 2) l ds = Inr us"
        "ts = \<lparr>kind = T_neq, val = ''!='', position = i\<rparr> # us"
    | (str) v j rest us where "ch = quote_char" "scan_string (i + 1) cs = Some (v, j, rest)"
        "l + 1 \<le> MAX_STRING_LITERALS" "tokenize_from j (l + 1) rest = Inr us"
        "ts = \<lparr>kind = T_string, val = v, position = i\<rparr> # us"
    | (word) w us where "is_ident_start ch" "w = ch # takeWhile is_ident_char cs"
        "tokenize_from (i + length w) l (dropWhile is_ident_char cs) = Inr us"
        "ts = \<lparr>kind = T_ident, val = w, position = i\<rparr> # us"
    by (auto simp: tokenize_from.simps(2) token_cons_def rmap_eq_Inr Let_def
        split: if_splits list.splits option.splits)
  then show ?case
  proof cases
    case skip
    with 2 show ?thesis by simp
  next
    case punct
    then show ?thesis using 2(2) [of us] 2(7) by (auto simp: punct_kind_def)
  next
    case bang
    then show ?thesis using 2(3) [of "CHR ''=''" ds us] 2(7) by (simp add: char_simps)
  next
    case str
    then show ?thesis using 2(4) [of "(v, j, rest)" v "(j, rest)" j rest us] by (simp add: char_simps)
  next
    case word
    then show ?thesis using 2(5) [of w us] 2(7) ident_start_plain [of ch] by simp
  qed
qed (simp add: kv_def)

section \<open>The round trip\<close>

lemma format_total:
  shows format_node_total: "\<exists>s. format_node n k = Inr s"
  and format_operand_total: "\<exists>s. format_operand n k = Inr s"
proof (induction n k and n k rule: format_node_format_operand.induct)
  case (1 op cs indent)
  then have "\<exists>ls. rmapM (\<lambda>(p, child).
          rmap (\<lambda>t. pad indent @ (if p = 0 then [] else op_text op @ '' '') @ t)
            (format_operand child indent)) (enumerate 0 cs) = Inr ls"
    unfolding rmapM_Inr_iff by (fastforce simp: rmap_eq_Inr)
  then show ?case by (auto simp: rmap_eq_Inr)
next
  case (3 op cs indent)
  then obtain s where "format_node (BoolNode op cs) (indent + 1) = Inr s" by blast
  then show ?case by (auto simp: rmap_eq_Inr simp del: format_node.simps)
qed (auto simp: rmap_eq_Inr)

lemma parse_expr_pred:
  assumes "map kv us = lex_pred n" "wf_pred n" "no_operator rest" "2 \<le> fuel"
  shows "parse_expr fuel depth (us @ rest) = Inr (n, rest)"
proof -
  from assms(4) obtain f where "fuel = Suc (Suc f)" by (metis add_2_eq_Suc le_Suc_ex)
  with parse_term_pred [OF assms(1,2), of "Suc f" depth rest] assms(3) show ?thesis
    by (auto simp: no_operator_def simp del: parse_term.simps)
qed

lemma parse_expr_lexemes:
  assumes "map kv us = lex_node n" "wf_node (MAX_PAREN_DEPTH - depth) n" "no_operator rest"
    "3 * length us + 2 \<le> fuel"
  shows "parse_expr fuel depth (us @ rest) = Inr (n, rest)"
proof (cases n)
  case (BoolNode op cs)
  with assms parse_expr_group [of us op cs depth rest fuel] all_read_operand show ?thesis by blast
qed (use assms parse_expr_pred [of us n rest fuel depth] in \<open>simp_all\<close>)

lemma parse_formatted:
  assumes fmt: "format_node n 0 = Inr s" and wf: "wf_node MAX_PAREN_DEPTH n"
    and lits: "node_strings n \<le> MAX_STRING_LITERALS" and len: "length s \<le> MAX_FILTER_CHARS"
  shows "parse_filter (Some s) = Inr (FilterAst (Some n))"
proof -
  from lexes_node [OF fmt wf] lits obtain us where us: "map kv us = lex_node n"
    and "tokenize_from 0 0 (s @ []) = rmap ((@) us) (tokenize_from (0 + length s) (0 + node_strings n) [])"
    unfolding lexes_def node_strings_def by (metis add_0 closed.simps(1))
  then obtain e where toks: "tokenize s = Inr (us @ [e])" and e: "kind e = T_eof"
    by (simp add: tokenize_def)
  have "parse_expr (parser_fuel (us @ [e])) 0 (us @ [e]) = Inr (n, [e])"
    using us wf e by (intro parse_expr_lexemes) (auto simp: no_operator_def parser_fuel_def)
  moreover have "us \<noteq> [] \<and> kind (hd us) \<noteq> T_eof"
  proof (cases n)
    case (BoolNode op cs)
    with wf obtain c cs' where "cs = c # cs'" "wf_operand MAX_PAREN_DEPTH c" by (cases cs) auto
    with BoolNode us show ?thesis
      by (cases c) (auto simp: map_kv_Cons wf_operand_def map_kv_append)
  qed (use us wf in \<open>auto simp: map_kv_Cons\<close>)
  ultimately have "parse (us @ [e]) = Inr (FilterAst (Some n))"
    using e by (cases us) (auto simp: parse_def)
  with toks len show ?thesis by (simp add: parse_filter_def)
qed

lemma parse_filter_strings:
  assumes "parse_filter text = Inr (FilterAst (Some n))"
  shows "node_strings n \<le> MAX_STRING_LITERALS"
proof -
  from assms obtain s ts rest where "tokenize_from 0 0 s = Inr ts"
    "parse_expr (parser_fuel ts) 0 ts = Inr (n, rest)"
    by (auto simp: parse_filter_def parse_def Let_def tokenize_def rbind_eq_Inr split: if_splits)
  from tokenize_from_strings [OF this(1)] parse_expr_strings [OF this(2)] show ?thesis by simp
qed

text \<open>C2. Formatting is a round trip: \<open>format_filter\<close> succeeds on every filter that
  parses, and whenever the canonical text it returns is within the character cap, that text
  parses back to the same syntax tree, so it selects the same datasets and formatting it
  again returns it unchanged.\<close>

theorem format_filter_roundtrip:
  assumes "parse_filter text = Inr ast"
  shows "\<exists>out. format_filter text = Inr out \<and>
           (length out \<le> MAX_FILTER_CHARS
              \<longrightarrow> parse_filter (Some out) = Inr ast \<and> format_filter (Some out) = Inr out)"
proof (cases "root ast")
  case None
  then have [simp]: "ast = FilterAst None" by (cases ast) simp
  have "parse_filter (Some []) = Inr (FilterAst None)"
    by (simp add: parse_filter_def tokenize_def parse_def)
  with assms show ?thesis by (simp add: format_filter_def)
next
  case (Some n)
  then have [simp]: "ast = FilterAst (Some n)" by (cases ast) simp
  obtain out where out: "format_node n 0 = Inr out" using format_node_total by blast
  have "wf_node MAX_PAREN_DEPTH n" using parse_filter_wf [OF assms] by (simp add: wf_ast_def)
  from parse_formatted [OF out this] parse_filter_strings assms out
  show ?thesis by (auto simp: format_filter_def)
qed

theorem format_filter_roundtrip_witness:
  "\<exists>out. format_filter (Some ''(ORIGIN = 'PROD') '') = Inr out \<and>
     (length out \<le> MAX_FILTER_CHARS
        \<longrightarrow> parse_filter (Some out) = Inr (FilterAst (Some (Equals ''origin'' ''PROD'')))
          \<and> format_filter (Some out) = Inr out)"
proof -
  have "parse_filter (Some ''(ORIGIN = 'PROD') '') = Inr (FilterAst (Some (Equals ''origin'' ''PROD'')))"
    by code_simp
  then show ?thesis by (rule format_filter_roundtrip)
qed

end
