(* ===== verification/Filter_Sql.thy ===== *)
theory Filter_Sql
  imports Filter_Safety
begin

text \<open>
  The back half of \<open>src/shared/dataset_filter.py\<close>: literal inspection, compilation of a
  syntax tree to a boolean SQL expression, and \<open>src/shared/datahub/urn.py\<close>. The SQL
  expressions are the SQLAlchemy constructs the compiler builds; PostgreSQL's evaluation of
  them is a parameter, constrained by the laws of locale \<open>sql_engine\<close> (three-valued logic)
  and shown consistent by the evaluator \<open>kleene\<close>.
\<close>

section \<open>Dataset URNs\<close>

definition dataset_urn_prefix :: string where
  "dataset_urn_prefix = ''urn:li:dataset:(''"

text \<open>\<open>DATASET_URN_RE\<close>: the prefix, one or more characters other than newline, and a
  closing parenthesis at the very end.\<close>

definition DATASET_URN_RE :: "string \<Rightarrow> bool" where
  "DATASET_URN_RE s \<longleftrightarrow>
     (let body = drop (length dataset_urn_prefix) s
      in py_startswith s dataset_urn_prefix \<and> 2 \<le> length body \<and> last body = CHR '')''
         \<and> CHR 0x0A \<notin> set (butlast body))"

definition PLATFORM_URN_PREFIX :: string where
  "PLATFORM_URN_PREFIX = ''urn:li:dataPlatform:''"

definition DATASET_URN_PLATFORM_PREFIX :: string where
  "DATASET_URN_PLATFORM_PREFIX = ''urn:li:dataset:('' @ PLATFORM_URN_PREFIX"

definition platform_from_dataset_urn :: "string \<Rightarrow> string option" where
  "platform_from_dataset_urn urn =
     (case py_find DATASET_URN_PLATFORM_PREFIX urn of
        None \<Rightarrow> None
      | Some start0 \<Rightarrow>
          let tail = drop (start0 + length DATASET_URN_PLATFORM_PREFIX) urn in
          case py_find '','' tail of
            None \<Rightarrow> None
          | Some n \<Rightarrow> if take n tail = [] then None else Some (take n tail))"

definition platform_urn_from_dataset_urn :: "string \<Rightarrow> string option" where
  "platform_urn_from_dataset_urn urn =
     (case platform_from_dataset_urn urn of
        None \<Rightarrow> None
      | Some platform \<Rightarrow> if platform = [] then None else Some (PLATFORM_URN_PREFIX @ platform))"

lemma platform_from_dataset_urn_canonical:
  assumes "CHR '','' \<notin> set p" "p \<noteq> []"
  shows "platform_from_dataset_urn (DATASET_URN_PLATFORM_PREFIX @ p @ '','' @ rest) = Some p"
  using assms by (simp add: platform_from_dataset_urn_def py_find_prefix py_find_char)

section \<open>Literal inspection\<close>

fun walk_literals :: "string list \<Rightarrow> node \<Rightarrow> string list" where
  "walk_literals found (BoolNode op cs) = foldl walk_literals found cs"
| "walk_literals found (Equals c v) = (if c = ''dataset_urn'' then add_new found [v] else found)"
| "walk_literals found (NotEquals c v) = (if c = ''dataset_urn'' then add_new found [v] else found)"
| "walk_literals found (InList c vs) = (if c = ''dataset_urn'' then add_new found vs else found)"
| "walk_literals found (NotInList c vs) = (if c = ''dataset_urn'' then add_new found vs else found)"
| "walk_literals found _ = found"

definition literal_dataset_urns :: "filter_ast \<Rightarrow> string list" where
  "literal_dataset_urns ast = (case root ast of None \<Rightarrow> [] | Some node \<Rightarrow> walk_literals [] node)"

fun check_urns :: "string list \<Rightarrow> (filter_error, unit) result" where
  "check_urns [] = Inr ()"
| "check_urns (u # us) = (if \<not> DATASET_URN_RE u then Inl (InvalidDatasetUrnError u) else check_urns us)"

definition check_dataset_urn_literals :: "filter_ast \<Rightarrow> (filter_error, unit) result" where
  "check_dataset_urn_literals ast = check_urns (literal_dataset_urns ast)"

text \<open>The literals a tree compares with the \<open>dataset_urn\<close> column, as a set.\<close>

fun urn_literals :: "node \<Rightarrow> string set" where
  "urn_literals (BoolNode op cs) = (\<Union>c \<in> set cs. urn_literals c)"
| "urn_literals (Equals c v) = (if c = ''dataset_urn'' then {v} else {})"
| "urn_literals (NotEquals c v) = (if c = ''dataset_urn'' then {v} else {})"
| "urn_literals (InList c vs) = (if c = ''dataset_urn'' then set vs else {})"
| "urn_literals (NotInList c vs) = (if c = ''dataset_urn'' then set vs else {})"
| "urn_literals _ = {}"

lemma foldl_set:
  "(\<And>acc x. x \<in> set xs \<Longrightarrow> set (f acc x) = set acc \<union> g x)
     \<Longrightarrow> set (foldl f acc xs) = set acc \<union> (\<Union>x \<in> set xs. g x)"
  by (induction xs arbitrary: acc) auto

lemma set_walk_literals: "set (walk_literals found node) = set found \<union> urn_literals node"
proof (induction node arbitrary: found)
  case (BoolNode op cs)
  then show ?case by (simp add: foldl_set)
qed auto

lemma foldl_distinct:
  "(\<And>acc x. x \<in> set xs \<Longrightarrow> distinct acc \<Longrightarrow> distinct (f acc x)) \<Longrightarrow> distinct acc
     \<Longrightarrow> distinct (foldl f acc xs)"
  by (induction xs arbitrary: acc) auto

lemma distinct_walk_literals: "distinct found \<Longrightarrow> distinct (walk_literals found node)"
proof (induction node arbitrary: found)
  case (BoolNode op cs)
  then show ?case by (simp add: foldl_distinct)
qed auto

lemma distinct_literal_dataset_urns [simp]: "distinct (literal_dataset_urns ast)"
  by (simp add: literal_dataset_urns_def distinct_walk_literals split: option.split)

definition ast_urn_literals :: "filter_ast \<Rightarrow> string set" where
  "ast_urn_literals ast = (case root ast of None \<Rightarrow> {} | Some node \<Rightarrow> urn_literals node)"

lemma set_literal_dataset_urns [simp]: "set (literal_dataset_urns ast) = ast_urn_literals ast"
  by (simp add: literal_dataset_urns_def ast_urn_literals_def set_walk_literals split: option.split)

lemma check_urns_Inr: "check_urns us = Inr () \<longleftrightarrow> (\<forall>u \<in> set us. DATASET_URN_RE u)"
  by (induction us) auto

lemma check_urns_Inl:
  "check_urns us = Inl e \<Longrightarrow> \<exists>u \<in> set us. e = InvalidDatasetUrnError u \<and> \<not> DATASET_URN_RE u"
  by (induction us) (auto split: if_splits)

section \<open>SQL compilation\<close>

datatype clause =
    Clause_true
  | Clause_and "clause list"
  | Clause_or "clause list"
  | Clause_not clause
  | Clause_eq column string
  | Clause_ne column string
  | Clause_eq_any column "string list"
  | Clause_eq_bool column bool
  | Clause_contains column "string list"

definition lookup_column :: "(string \<times> column) list \<Rightarrow> string \<Rightarrow> (filter_error, column) result" where
  "lookup_column d c = (case map_of d c of None \<Rightarrow> Inl (KeyError c) | Some col \<Rightarrow> Inr col)"

fun compile_node :: "node \<Rightarrow> (filter_error, clause) result" where
  "compile_node (BoolNode op cs) =
     rmap (\<lambda>parts. if op = AND_op then Clause_and parts else Clause_or parts)
       (rmapM compile_node cs)"
| "compile_node (Equals c v) = rmap (\<lambda>col. Clause_eq col v) (lookup_column SCALAR_COLUMNS c)"
| "compile_node (NotEquals c v) = rmap (\<lambda>col. Clause_ne col v) (lookup_column SCALAR_COLUMNS c)"
| "compile_node (InList c vs) = rmap (\<lambda>col. Clause_eq_any col vs) (lookup_column SCALAR_COLUMNS c)"
| "compile_node (NotInList c vs) =
     rmap (\<lambda>col. Clause_not (Clause_eq_any col vs)) (lookup_column SCALAR_COLUMNS c)"
| "compile_node (BoolEquals c b) = rmap (\<lambda>col. Clause_eq_bool col b) (lookup_column BOOL_COLUMNS c)"
| "compile_node (ArrayContains c v) =
     rmap (\<lambda>col. Clause_contains col [v]) (lookup_column ARRAY_COLUMNS c)"
| "compile_node (ArrayNotContains c v) =
     rmap (\<lambda>col. Clause_not (Clause_contains col [v])) (lookup_column ARRAY_COLUMNS c)"

definition filter_clause :: "filter_ast \<Rightarrow> (filter_error, clause) result" where
  "filter_clause ast = (case root ast of None \<Rightarrow> Inr Clause_true | Some node \<Rightarrow> compile_node node)"

section \<open>The rows and their evaluation\<close>

text \<open>A row of \<open>dataset_registry\<close>: \<open>origin\<close> and \<open>platform_urn\<close> are nullable, the
  other columns are not.\<close>

record registry_row =
  reg_dataset_urn :: string
  reg_datahub_registered :: bool
  reg_origin :: "string option"
  reg_platform_urn :: "string option"
  reg_tag_urns :: "string list"
  reg_glossary_term_urns :: "string list"
  reg_is_primary :: bool

fun scalar_value :: "registry_row \<Rightarrow> column \<Rightarrow> string option" where
  "scalar_value r Col_origin = reg_origin r"
| "scalar_value r Col_platform_urn = reg_platform_urn r"
| "scalar_value r _ = Some (reg_dataset_urn r)"

fun array_value :: "registry_row \<Rightarrow> column \<Rightarrow> string list" where
  "array_value r Col_tag_urns = reg_tag_urns r"
| "array_value r _ = reg_glossary_term_urns r"

text \<open>SQL truth values: \<open>None\<close> is unknown.\<close>

type_synonym sql_engine_fn = "registry_row \<Rightarrow> clause \<Rightarrow> bool option"

definition is_scalar_col :: "column \<Rightarrow> bool" where
  "is_scalar_col c \<longleftrightarrow> c \<in> {Col_dataset_urn, Col_origin, Col_platform_urn}"

definition is_array_col :: "column \<Rightarrow> bool" where
  "is_array_col c \<longleftrightarrow> c \<in> {Col_tag_urns, Col_glossary_term_urns}"

fun tri_and :: "bool option list \<Rightarrow> bool option" where
  "tri_and [] = Some True"
| "tri_and (x # xs) =
     (case (x, tri_and xs) of
        (Some False, _) \<Rightarrow> Some False
      | (_, Some False) \<Rightarrow> Some False
      | (Some True, Some True) \<Rightarrow> Some True
      | _ \<Rightarrow> None)"

fun tri_or :: "bool option list \<Rightarrow> bool option" where
  "tri_or [] = Some False"
| "tri_or (x # xs) =
     (case (x, tri_or xs) of
        (Some True, _) \<Rightarrow> Some True
      | (_, Some True) \<Rightarrow> Some True
      | (Some False, Some False) \<Rightarrow> Some False
      | _ \<Rightarrow> None)"

lemma tri_and_True: "tri_and (map f xs) = Some True \<longleftrightarrow> (\<forall>x \<in> set xs. f x = Some True)"
  by (induction xs) (auto split: option.splits bool.splits)

lemma tri_or_True: "tri_or (map f xs) = Some True \<longleftrightarrow> (\<exists>x \<in> set xs. f x = Some True)"
  by (induction xs) (auto split: option.splits bool.splits)

text \<open>What the compiler relies on of PostgreSQL: Kleene connectives, comparisons that are
  unknown on \<open>NULL\<close>, and array containment.\<close>

locale sql_engine =
  fixes sql :: sql_engine_fn
  assumes sql_true: "sql r Clause_true = Some True"
    and sql_and: "cs \<noteq> [] \<Longrightarrow> sql r (Clause_and cs) = tri_and (map (sql r) cs)"
    and sql_or: "cs \<noteq> [] \<Longrightarrow> sql r (Clause_or cs) = tri_or (map (sql r) cs)"
    and sql_not: "sql r (Clause_not cl) = map_option Not (sql r cl)"
    and sql_eq: "is_scalar_col c \<Longrightarrow>
        sql r (Clause_eq c v) = map_option (\<lambda>x. x = v) (scalar_value r c)"
    and sql_ne: "is_scalar_col c \<Longrightarrow>
        sql r (Clause_ne c v) = map_option (\<lambda>x. x \<noteq> v) (scalar_value r c)"
    and sql_eq_any: "is_scalar_col c \<Longrightarrow>
        sql r (Clause_eq_any c vs) = map_option (\<lambda>x. x \<in> set vs) (scalar_value r c)"
    and sql_eq_bool: "sql r (Clause_eq_bool Col_is_primary b) = Some (reg_is_primary r = b)"
    and sql_contains: "is_array_col c \<Longrightarrow>
        sql r (Clause_contains c vs) = Some (set vs \<subseteq> set (array_value r c))"

text \<open>An evaluator with these laws, and the interpretation that discharges them.\<close>

fun kleene :: "registry_row \<Rightarrow> clause \<Rightarrow> bool option" where
  "kleene r Clause_true = Some True"
| "kleene r (Clause_and cs) = tri_and (map (kleene r) cs)"
| "kleene r (Clause_or cs) = tri_or (map (kleene r) cs)"
| "kleene r (Clause_not c) = map_option Not (kleene r c)"
| "kleene r (Clause_eq c v) = map_option (\<lambda>x. x = v) (scalar_value r c)"
| "kleene r (Clause_ne c v) = map_option (\<lambda>x. x \<noteq> v) (scalar_value r c)"
| "kleene r (Clause_eq_any c vs) = map_option (\<lambda>x. x \<in> set vs) (scalar_value r c)"
| "kleene r (Clause_eq_bool c b) = Some (reg_is_primary r = b)"
| "kleene r (Clause_contains c vs) = Some (\<forall>v \<in> set vs. v \<in> set (array_value r c))"

interpretation kleene: sql_engine kleene
  by unfold_locales (auto simp: subset_iff)

section \<open>What a filter selects\<close>

text \<open>The reading of a filter in two-valued logic: an absent value satisfies no comparison.
  \<open>col\<close> is the stored value of a whitelisted column name.\<close>

definition col_value :: "registry_row \<Rightarrow> string \<Rightarrow> string option" where
  "col_value r c = (case map_of SCALAR_COLUMNS c of None \<Rightarrow> None | Some k \<Rightarrow> scalar_value r k)"

definition col_values :: "registry_row \<Rightarrow> string \<Rightarrow> string list" where
  "col_values r c = (case map_of ARRAY_COLUMNS c of None \<Rightarrow> [] | Some k \<Rightarrow> array_value r k)"

fun selects :: "node \<Rightarrow> registry_row \<Rightarrow> bool" where
  "selects (BoolNode op cs) r =
     (if op = AND_op then \<forall>c \<in> set cs. selects c r else \<exists>c \<in> set cs. selects c r)"
| "selects (Equals c v) r = (col_value r c = Some v)"
| "selects (NotEquals c v) r = (col_value r c \<noteq> None \<and> col_value r c \<noteq> Some v)"
| "selects (InList c vs) r = (\<exists>v \<in> set vs. col_value r c = Some v)"
| "selects (NotInList c vs) r = (col_value r c \<noteq> None \<and> (\<forall>v \<in> set vs. col_value r c \<noteq> Some v))"
| "selects (BoolEquals c b) r = (reg_is_primary r = b)"
| "selects (ArrayContains c v) r = (v \<in> set (col_values r c))"
| "selects (ArrayNotContains c v) r = (v \<notin> set (col_values r c))"

definition ast_selects :: "filter_ast \<Rightarrow> registry_row \<Rightarrow> bool" where
  "ast_selects ast r = (case root ast of None \<Rightarrow> True | Some node \<Rightarrow> selects node r)"

lemma scalar_lookup:
  assumes "in_dict c SCALAR_COLUMNS"
  obtains k where "lookup_column SCALAR_COLUMNS c = Inr k" "is_scalar_col k"
    "\<And>r. col_value r c = scalar_value r k"
  using assms unfolding in_SCALAR_COLUMNS
  by (elim disjE) (auto simp: lookup_column_def SCALAR_COLUMNS_def is_scalar_col_def col_value_def)

lemma array_lookup:
  assumes "in_dict c ARRAY_COLUMNS"
  obtains k where "lookup_column ARRAY_COLUMNS c = Inr k" "is_array_col k"
    "\<And>r. col_values r c = array_value r k"
  using assms unfolding in_ARRAY_COLUMNS
  by (elim disjE) (auto simp: lookup_column_def ARRAY_COLUMNS_def is_array_col_def col_values_def)

lemma bool_lookup: "in_dict c BOOL_COLUMNS \<Longrightarrow> lookup_column BOOL_COLUMNS c = Inr Col_is_primary"
  unfolding in_BOOL_COLUMNS by (simp add: lookup_column_def BOOL_COLUMNS_def)

context sql_engine
begin

text \<open>Unknown never selects a row and the grammar has no negation above a predicate, so
  three-valued evaluation agrees with the two-valued reading.\<close>

definition compiles_to :: "node \<Rightarrow> bool" where
  "compiles_to n \<longleftrightarrow>
     (\<exists>cl. compile_node n = Inr cl \<and> (\<forall>r. sql r cl = Some True \<longleftrightarrow> selects n r))"

lemma compile_pred:
  assumes "wf_pred n"
  shows "compiles_to n"
proof (cases n)
  case (Equals c v)
  with assms obtain k where "lookup_column SCALAR_COLUMNS c = Inr k" "is_scalar_col k"
    "\<And>r. col_value r c = scalar_value r k" by (auto elim: scalar_lookup)
  with Equals show ?thesis by (auto simp: compiles_to_def sql_eq)
next
  case (NotEquals c v)
  with assms obtain k where "lookup_column SCALAR_COLUMNS c = Inr k" "is_scalar_col k"
    "\<And>r. col_value r c = scalar_value r k" by (auto elim: scalar_lookup)
  with NotEquals show ?thesis by (auto simp: compiles_to_def sql_ne)
next
  case (InList c vs)
  with assms obtain k where "lookup_column SCALAR_COLUMNS c = Inr k" "is_scalar_col k"
    "\<And>r. col_value r c = scalar_value r k" by (auto elim: scalar_lookup)
  with InList show ?thesis by (auto simp: compiles_to_def sql_eq_any)
next
  case (NotInList c vs)
  with assms obtain k where "lookup_column SCALAR_COLUMNS c = Inr k" "is_scalar_col k"
    "\<And>r. col_value r c = scalar_value r k" by (auto elim: scalar_lookup)
  with NotInList show ?thesis by (auto simp: compiles_to_def sql_eq_any sql_not)
next
  case (ArrayContains c v)
  with assms obtain k where "lookup_column ARRAY_COLUMNS c = Inr k" "is_array_col k"
    "\<And>r. col_values r c = array_value r k" by (auto elim: array_lookup)
  with ArrayContains show ?thesis by (auto simp: compiles_to_def sql_contains)
next
  case (ArrayNotContains c v)
  with assms obtain k where "lookup_column ARRAY_COLUMNS c = Inr k" "is_array_col k"
    "\<And>r. col_values r c = array_value r k" by (auto elim: array_lookup)
  with ArrayNotContains show ?thesis by (auto simp: compiles_to_def sql_contains sql_not)
next
  case (BoolEquals c b)
  with assms show ?thesis by (auto simp: compiles_to_def bool_lookup sql_eq_bool)
qed (use assms in simp)

lemma compile_children:
  assumes "\<forall>c \<in> set cs. compiles_to c"
  shows "\<exists>parts. rmapM compile_node cs = Inr parts \<and> length parts = length cs
    \<and> (\<forall>r. (\<forall>p \<in> set parts. sql r p = Some True) \<longleftrightarrow> (\<forall>c \<in> set cs. selects c r))
    \<and> (\<forall>r. (\<exists>p \<in> set parts. sql r p = Some True) \<longleftrightarrow> (\<exists>c \<in> set cs. selects c r))"
  using assms
proof (induction cs)
  case (Cons c cs)
  then obtain cl where cl: "compile_node c = Inr cl" "\<forall>r. sql r cl = Some True \<longleftrightarrow> selects c r"
    by (auto simp: compiles_to_def)
  from Cons obtain ps where "rmapM compile_node cs = Inr ps" "length ps = length cs"
    "\<forall>r. (\<forall>p \<in> set ps. sql r p = Some True) \<longleftrightarrow> (\<forall>c \<in> set cs. selects c r)"
    "\<forall>r. (\<exists>p \<in> set ps. sql r p = Some True) \<longleftrightarrow> (\<exists>c \<in> set cs. selects c r)"
    by auto
  with cl show ?case by (intro exI [of _ "cl # ps"]) auto
qed simp

lemma compile_wf: "wf_node d n \<Longrightarrow> compiles_to n"
proof (induction n arbitrary: d)
  case (BoolNode op cs)
  then have "\<forall>c \<in> set cs. compiles_to c"
    by (auto simp: wf_operand_def compile_pred split: if_splits)
  then obtain parts where parts: "rmapM compile_node cs = Inr parts" "length parts = length cs"
    "\<forall>r. (\<forall>p \<in> set parts. sql r p = Some True) \<longleftrightarrow> (\<forall>c \<in> set cs. selects c r)"
    "\<forall>r. (\<exists>p \<in> set parts. sql r p = Some True) \<longleftrightarrow> (\<exists>c \<in> set cs. selects c r)"
    using compile_children by blast
  from parts(2) BoolNode.prems have "parts \<noteq> []" by auto
  with parts show ?case
    by (cases op) (simp_all add: compiles_to_def sql_and sql_or tri_and_True tri_or_True)
qed (simp_all add: compile_pred)

lemma filter_clause_selects:
  assumes "wf_ast ast"
  obtains cl where "filter_clause ast = Inr cl" "\<And>r. sql r cl = Some True \<longleftrightarrow> ast_selects ast r"
proof (cases "root ast")
  case None
  then show ?thesis using that [of Clause_true] by (simp add: filter_clause_def ast_selects_def sql_true)
next
  case (Some n)
  with assms compile_wf [of MAX_PAREN_DEPTH n] obtain cl where
    "compile_node n = Inr cl" "\<And>r. sql r cl = Some True \<longleftrightarrow> selects n r"
    by (auto simp: wf_ast_def compiles_to_def)
  with Some that [of cl] show ?thesis by (simp add: filter_clause_def ast_selects_def)
qed

end

text \<open>C3. Compilation is total and means what the grammar says: every filter that parses
  compiles (no column lookup fails), and under any SQL engine with three-valued logic the
  compiled clause accepts exactly the rows the two-valued reading of the filter selects;
  in particular a row whose column is null satisfies neither the comparison nor its
  negation, and \<open>NOT IN\<close> on an array column is the exact complement.\<close>

theorem filter_clause_correct:
  assumes "sql_engine sql" "parse_filter text = Inr ast"
  shows "\<exists>cl. filter_clause ast = Inr cl \<and> (\<forall>r. sql r cl = Some True \<longleftrightarrow> ast_selects ast r)"
  using sql_engine.filter_clause_selects [OF assms(1) parse_filter_wf [OF assms(2)]] by blast

theorem filter_clause_correct_witness:
  "\<exists>cl. filter_clause (FilterAst (Some (NotEquals ''origin'' ''PROD''))) = Inr cl \<and>
     (\<forall>r. kleene r cl = Some True \<longleftrightarrow> ast_selects (FilterAst (Some (NotEquals ''origin'' ''PROD''))) r)"
proof -
  have "parse_filter (Some ''origin != 'PROD' '') = Inr (FilterAst (Some (NotEquals ''origin'' ''PROD'')))"
    by code_simp
  from filter_clause_correct [OF kleene.sql_engine_axioms this] show ?thesis .
qed

end
