(* ===== verification/Dataset_Scope.thy ===== *)
theory Dataset_Scope
  imports Filter_Sql
begin

text \<open>
  \<open>src/backend/_dataset_filter.py\<close> and \<open>src/api/schemas/_dataset_filter.py\<close>: how a
  service resolves a filter against \<open>dataset_registry\<close> and how both layers validate one.
  The registry is the list of its rows; the engine that evaluates the clause is the
  parameter \<open>sql\<close>.
\<close>

record ResolvedDatasetScope =
  resolved_urns :: "string list"
  unresolved_urns :: "string list"

definition dataset_filter_clause :: "string option \<Rightarrow> (filter_error, clause) result" where
  "dataset_filter_clause text = rbind (parse_filter text) filter_clause"

text \<open>The generator passed to \<open>named.extend\<close> tests membership in the list while it grows, so
  an override that repeats a URN contributes it once.\<close>

definition named_urns :: "filter_ast \<Rightarrow> string list option \<Rightarrow> string list" where
  "named_urns ast override =
     (let named = literal_dataset_urns ast
      in case override of None \<Rightarrow> named | Some urns \<Rightarrow> add_new named urns)"

definition scope_rows ::
  "sql_engine_fn \<Rightarrow> registry_row list \<Rightarrow> clause \<Rightarrow> string list option \<Rightarrow> string list" where
  "scope_rows sql registry cl override =
     map reg_dataset_urn
       (filter (\<lambda>r. reg_datahub_registered r \<and> sql r cl = Some True
          \<and> (case override of None \<Rightarrow> True | Some urns \<Rightarrow> reg_dataset_urn r \<in> set urns)) registry)"

definition resolve_dataset_scope ::
  "sql_engine_fn \<Rightarrow> registry_row list \<Rightarrow> string option \<Rightarrow> string list option
     \<Rightarrow> (filter_error, ResolvedDatasetScope) result" where
  "resolve_dataset_scope sql registry text override =
     rbind (parse_filter text) (\<lambda>ast.
     rbind (filter_clause ast) (\<lambda>cl.
       let resolved = py_sorted_set (scope_rows sql registry cl override)
       in Inr \<lparr>resolved_urns = resolved,
               unresolved_urns = filter (\<lambda>u. u \<notin> set resolved) (named_urns ast override)\<rparr>))"

definition validate_dataset_filter_service :: "string option \<Rightarrow> (filter_error, unit) result" where
  "validate_dataset_filter_service text = rbind (parse_filter text) check_dataset_urn_literals"

definition validate_dataset_filter :: "string option \<Rightarrow> (filter_error, unit) result" where
  "validate_dataset_filter text = rbind (parse_filter text) check_dataset_urn_literals"

lemma distinct_named_urns: "distinct (named_urns ast override)"
  by (simp add: named_urns_def Let_def split: option.split)

lemma set_named_urns:
  "set (named_urns ast override)
     = ast_urn_literals ast \<union> (case override of None \<Rightarrow> {} | Some urns \<Rightarrow> set urns)"
  by (simp add: named_urns_def Let_def split: option.split)

definition in_scope :: "filter_ast \<Rightarrow> string list option \<Rightarrow> registry_row \<Rightarrow> bool" where
  "in_scope ast override r \<longleftrightarrow> reg_datahub_registered r \<and> ast_selects ast r
     \<and> (case override of None \<Rightarrow> True | Some urns \<Rightarrow> reg_dataset_urn r \<in> set urns)"

lemma resolve_parsed:
  assumes "sql_engine sql" "parse_filter text = Inr ast"
  shows "resolve_dataset_scope sql registry text override =
    Inr \<lparr>resolved_urns = py_sorted_set (map reg_dataset_urn (filter (in_scope ast override) registry)),
         unresolved_urns = filter (\<lambda>u. u \<notin> reg_dataset_urn ` {r \<in> set registry. in_scope ast override r})
           (named_urns ast override)\<rparr>"
proof -
  obtain cl where cl: "filter_clause ast = Inr cl" "\<And>r. sql r cl = Some True \<longleftrightarrow> ast_selects ast r"
    by (rule sql_engine.filter_clause_selects [OF assms(1) parse_filter_wf [OF assms(2)]]) blast
  then have "scope_rows sql registry cl override
      = map reg_dataset_urn (filter (in_scope ast override) registry)"
    by (simp add: scope_rows_def in_scope_def [abs_def])
  with cl(1) assms(2) show ?thesis
    by (simp add: resolve_dataset_scope_def Let_def)
qed

text \<open>C4. Scope resolution is exact: for a filter that parses, \<open>resolve_dataset_scope\<close>
  returns the sorted, duplicate-free list of exactly the registered datasets the filter
  selects (narrowed to the override when there is one), and reports as unresolved, each
  once, exactly the URNs named by the filter or the override that it did not return.\<close>

theorem resolve_dataset_scope_exact:
  assumes "sql_engine sql" "parse_filter text = Inr ast"
  shows "\<exists>scope. resolve_dataset_scope sql registry text override = Inr scope
    \<and> sorted (resolved_urns scope) \<and> distinct (resolved_urns scope)
    \<and> set (resolved_urns scope) = reg_dataset_urn ` {r \<in> set registry. in_scope ast override r}
    \<and> distinct (unresolved_urns scope)
    \<and> set (unresolved_urns scope)
        = (ast_urn_literals ast \<union> (case override of None \<Rightarrow> {} | Some urns \<Rightarrow> set urns))
          - set (resolved_urns scope)"
  by (auto simp: resolve_parsed [OF assms] set_named_urns distinct_named_urns)

definition example_rows :: "registry_row list" where
  "example_rows =
     [\<lparr>reg_dataset_urn = ''urn:b'', reg_datahub_registered = True, reg_origin = Some ''PROD'',
       reg_platform_urn = None, reg_tag_urns = [], reg_glossary_term_urns = [], reg_is_primary = True\<rparr>,
      \<lparr>reg_dataset_urn = ''urn:a'', reg_datahub_registered = True, reg_origin = None,
       reg_platform_urn = None, reg_tag_urns = [''t''], reg_glossary_term_urns = [],
       reg_is_primary = True\<rparr>]"

theorem resolve_dataset_scope_exact_witness:
  "\<exists>scope. resolve_dataset_scope kleene example_rows (Some ''origin != 'DEV' '') None = Inr scope
    \<and> sorted (resolved_urns scope) \<and> distinct (resolved_urns scope)
    \<and> set (resolved_urns scope)
        = reg_dataset_urn ` {r \<in> set example_rows.
            in_scope (FilterAst (Some (NotEquals ''origin'' ''DEV''))) None r}
    \<and> distinct (unresolved_urns scope)
    \<and> set (unresolved_urns scope)
        = (ast_urn_literals (FilterAst (Some (NotEquals ''origin'' ''DEV''))) \<union> {})
          - set (resolved_urns scope)"
proof -
  have "parse_filter (Some ''origin != 'DEV' '') = Inr (FilterAst (Some (NotEquals ''origin'' ''DEV'')))"
    by code_simp
  from resolve_dataset_scope_exact [OF kleene.sql_engine_axioms this, of example_rows None]
  show ?thesis by (simp only: option.case)
qed

lemma validate_filter_cases:
  "rbind (parse_filter text) check_dataset_urn_literals = Inr () \<longleftrightarrow>
     (\<exists>ast. parse_filter text = Inr ast \<and> (\<forall>u \<in> ast_urn_literals ast. DATASET_URN_RE u))"
  by (simp add: rbind_eq_Inr check_dataset_urn_literals_def check_urns_Inr)

text \<open>C5. Validation accepts exactly the filters that parse and whose every \<open>dataset_urn\<close>
  literal, under negation too, has the dataset URN shape; a rejected filter that does
  parse is reported with one of its own malformed literals.\<close>

theorem validate_dataset_filter_exact:
  "(validate_dataset_filter_service text = Inr () \<longleftrightarrow>
      (\<exists>ast. parse_filter text = Inr ast \<and> (\<forall>u. u \<in> ast_urn_literals ast \<longrightarrow> DATASET_URN_RE u)))
   \<and> (\<forall>ast e. parse_filter text = Inr ast \<longrightarrow> validate_dataset_filter_service text = Inl e \<longrightarrow>
        (\<exists>u. u \<in> ast_urn_literals ast \<and> \<not> DATASET_URN_RE u \<and> e = InvalidDatasetUrnError u))"
  using validate_filter_cases [of "text"]
  by (auto simp: validate_dataset_filter_service_def check_dataset_urn_literals_def
      dest!: check_urns_Inl)

theorem validate_dataset_filter_exact_witness:
  "(validate_dataset_filter_service (Some ''dataset_urn != 'x' '') = Inr () \<longleftrightarrow>
      (\<exists>ast. parse_filter (Some ''dataset_urn != 'x' '') = Inr ast
         \<and> (\<forall>u. u \<in> ast_urn_literals ast \<longrightarrow> DATASET_URN_RE u)))
   \<and> validate_dataset_filter_service (Some ''dataset_urn != 'x' '') = Inl (InvalidDatasetUrnError ''x'')"
proof -
  have "validate_dataset_filter_service (Some ''dataset_urn != 'x' '')
      = Inl (InvalidDatasetUrnError ''x'')" by code_simp
  with validate_dataset_filter_exact [of "Some ''dataset_urn != 'x' ''"] show ?thesis by blast
qed

end
