(* ===== verification/Exceptions.thy ===== *)
theory Exceptions
  imports Prelude
begin

text \<open>
  \<open>src/shared/exceptions.py\<close>: the exception classes the services raise, as one datatype,
  with the error code each carries; messages are left out except where a code is derived
  from one. \<open>IntegrityError\<close> is the database driver's exception that the services let
  through and \<open>UncaughtError\<close> a Python exception nothing catches. Also generic tables: a table is the list of its rows, addressed by a key.
\<close>

datatype ds_error =
    EntityNotFoundError string
  | ConflictError string
  | PreconditionFailedError string
  | DataHubUnavailableError
  | StorageUnavailableError
  | AirflowUnavailableError
  | AuthenticationError string
  | OAuthNotConfiguredError
  | BadRequestError string
  | ForbiddenError string
  | PeripheralNotConfiguredError string
  | NotificationError
  | EventProcessingError
  | InvalidDatasetUrn string
  | NotImplementedAPIError
  | IntegrityError string
  | UncaughtError string

text \<open>\<open>str.upper\<close> on ASCII letters.\<close>

definition upper_char :: "char \<Rightarrow> char" where
  "upper_char c = (if is_lower c then char_of (code c - 32) else c)"

definition py_upper :: "string \<Rightarrow> string" where
  "py_upper s = map upper_char s"

fun error_code :: "ds_error \<Rightarrow> string" where
  "error_code (EntityNotFoundError t) = py_upper t @ ''_NOT_FOUND''"
| "error_code (ConflictError c) = c"
| "error_code (PreconditionFailedError c) = c"
| "error_code DataHubUnavailableError = ''DATAHUB_UNAVAILABLE''"
| "error_code StorageUnavailableError = ''STORAGE_UNAVAILABLE''"
| "error_code AirflowUnavailableError = ''AIRFLOW_UNAVAILABLE''"
| "error_code (AuthenticationError c) = c"
| "error_code OAuthNotConfiguredError = ''OAUTH_NOT_CONFIGURED''"
| "error_code (BadRequestError c) = c"
| "error_code (ForbiddenError c) = c"
| "error_code (PeripheralNotConfiguredError p) = ''PERIPHERAL_NOT_CONFIGURED''"
| "error_code NotificationError = ''NOTIFICATION_FAILED''"
| "error_code EventProcessingError = ''EVENT_PROCESSING_FAILED''"
| "error_code (InvalidDatasetUrn u) = ''INVALID_DATASET_URN''"
| "error_code NotImplementedAPIError = ''NOT_IMPLEMENTED''"
| "error_code (IntegrityError c) = ''INTERNAL_ERROR''"
| "error_code (UncaughtError c) = ''INTERNAL_ERROR''"

section \<open>Tables of keyed rows\<close>

definition row_get :: "('r \<Rightarrow> 'k) \<Rightarrow> 'k \<Rightarrow> 'r list \<Rightarrow> 'r option" where
  "row_get key k rows = find (\<lambda>r. key r = k) rows"

definition row_update :: "('r \<Rightarrow> 'k) \<Rightarrow> 'k \<Rightarrow> ('r \<Rightarrow> 'r) \<Rightarrow> 'r list \<Rightarrow> 'r list" where
  "row_update key k f rows = map (\<lambda>r. if key r = k then f r else r) rows"

definition row_delete :: "('r \<Rightarrow> 'k) \<Rightarrow> 'k \<Rightarrow> 'r list \<Rightarrow> 'r list" where
  "row_delete key k rows = filter (\<lambda>r. key r \<noteq> k) rows"

lemma row_get_SomeD: "row_get key k rows = Some r \<Longrightarrow> r \<in> set rows \<and> key r = k"
  by (auto simp: row_get_def find_Some_iff)

lemma row_get_key: "row_get key k rows = Some r \<Longrightarrow> k \<in> key ` set rows"
  by (auto dest: row_get_SomeD)

lemma row_get_None [simp]: "row_get key k rows = None \<longleftrightarrow> k \<notin> key ` set rows"
  by (auto simp: row_get_def find_None_iff)

lemma row_get_unique:
  assumes "distinct (map key rows)" "r \<in> set rows"
  shows "row_get key (key r) rows = Some r"
proof (cases "row_get key (key r) rows")
  case None
  with assms(2) show ?thesis by simp
next
  case (Some r')
  with row_get_SomeD [OF Some] assms show ?thesis by (auto simp: distinct_map dest: inj_onD)
qed

lemma map_key_row_update [simp]:
  "(\<And>r. key (f r) = key r) \<Longrightarrow> map key (row_update key k f rows) = map key rows"
  by (simp add: row_update_def)

lemma set_row_update:
  "set (row_update key k f rows) = (\<lambda>r. if key r = k then f r else r) ` set rows"
  by (simp add: row_update_def)

lemma set_row_delete [simp]: "set (row_delete key k rows) = {r \<in> set rows. key r \<noteq> k}"
  by (simp add: row_delete_def)

lemma key_row_update [simp]:
  "(\<And>r. key (f r) = key r) \<Longrightarrow> key ` set (row_update key k f rows) = key ` set rows"
  by (metis list.set_map map_key_row_update)

lemma key_row_delete [simp]: "key ` {r \<in> set rows. key r \<noteq> k} = key ` set rows - {k}"
  by auto

lemma distinct_row_delete: "distinct (map f rows) \<Longrightarrow> distinct (map f (row_delete key k rows))"
  by (simp add: row_delete_def distinct_map_filter)

section \<open>Invariants of step relations\<close>

text \<open>What every component's transition system shares: an invariant kept by each step holds
  along every run.\<close>

locale step_invariant =
  fixes step :: "'s \<Rightarrow> 's \<Rightarrow> bool"
    and inv :: "'s \<Rightarrow> bool"
  assumes step_keeps: "step s s' \<Longrightarrow> inv s \<Longrightarrow> inv s'"
begin

lemma run_keeps: "step\<^sup>*\<^sup>* s s' \<Longrightarrow> inv s \<Longrightarrow> inv s'"
  by (induction rule: rtranclp_induct) (auto intro: step_keeps)

end

end
