(* ===== verification/Auth_Store.thy ===== *)
theory Auth_Store
  imports Exceptions
begin

text \<open>
  The credential store: the rows of \<open>users\<close>, \<open>api_tokens\<close> and
  \<open>password_reset_tokens\<close> (\<open>src/shared/db/models.py\<close>) and the operations of
  \<open>src/backend/auth/users.py\<close>, \<open>api_tokens.py\<close>, \<open>reset.py\<close> and
  \<open>oauth_google.resolve_or_create_user\<close>. A session is the value of the three tables; an
  operation that raises returns no new value, which is the rollback. Fresh identifiers,
  random token strings and the current time are arguments; bcrypt (\<open>hashpw\<close>,
  \<open>checkpw\<close>) and SHA-256 (\<open>sha\<close>) are parameters. Times are seconds.
\<close>

section \<open>Rows\<close>

record user_row =
  u_id :: nat
  u_email :: string
  u_name :: string
  u_password_hash :: "string option"
  u_google_sub :: "string option"
  u_role :: string
  u_session_epoch :: nat

record api_token =
  t_id :: nat
  t_user :: nat
  t_name :: string
  t_hash :: string
  t_role_snapshot :: string
  t_created_at :: nat
  t_last_used_at :: "nat option"
  t_expires_at :: "nat option"
  t_revoked_at :: "nat option"

record reset_token =
  rt_hash :: string
  rt_user :: nat
  rt_expires_at :: nat
  rt_used_at :: "nat option"

datatype auth_event =
    Google_link_credential_reset nat nat nat nat
  | Google_unbound nat nat

record auth_db =
  users :: "user_row list"
  api_tokens :: "api_token list"
  reset_tokens :: "reset_token list"
  auth_events :: "auth_event list"

text \<open>The constraints of \<open>users\<close>, in the order PostgreSQL checks them: \<open>CHECK\<close>s, then
  the unique indexes. \<open>email\<close> is \<open>CITEXT\<close>: compared without regard to case.\<close>

definition VALID_ROLES :: "string list" where
  "VALID_ROLES = [''Admin'', ''Editor'', ''Reader'']"

definition citext_eq :: "string \<Rightarrow> string \<Rightarrow> bool" where
  "citext_eq a b \<longleftrightarrow> py_lower a = py_lower b"

definition subs :: "user_row list \<Rightarrow> string list" where
  "subs us = concat (map (\<lambda>u. case u_google_sub u of None \<Rightarrow> [] | Some s \<Rightarrow> [s]) us)"

definition users_violation :: "user_row list \<Rightarrow> string option" where
  "users_violation us =
     (if \<exists>u \<in> set us. u_password_hash u = None \<and> u_google_sub u = None then Some ''ck_users_auth_method''
      else if \<exists>u \<in> set us. u_role u \<notin> set VALID_ROLES then Some ''ck_users_role''
      else if \<not> distinct (map u_id us) then Some ''users_pkey''
      else if \<not> distinct (map (\<lambda>u. py_lower (u_email u)) us) then Some ''uq_users_email''
      else if \<not> distinct (subs us) then Some ''uq_users_google_sub''
      else None)"

section \<open>users.py\<close>

text \<open>\<open>flush\<close>, with the constraint names the caller turns into a domain error.\<close>

definition flush_users ::
  "(string \<rightharpoonup> ds_error) \<Rightarrow> auth_db \<Rightarrow> (ds_error, auth_db) result" where
  "flush_users handled db =
     (case users_violation (users db) of
        None \<Rightarrow> Inr db
      | Some c \<Rightarrow> (case handled c of Some e \<Rightarrow> Inl e | None \<Rightarrow> Inl (IntegrityError c)))"

definition verify_password :: "(string \<Rightarrow> string \<Rightarrow> bool) \<Rightarrow> user_row \<Rightarrow> string \<Rightarrow> bool" where
  "verify_password checkpw u password =
     (case u_password_hash u of None \<Rightarrow> False | Some h \<Rightarrow> checkpw password h)"

definition get_by_email :: "auth_db \<Rightarrow> string \<Rightarrow> user_row option" where
  "get_by_email db email = find (\<lambda>u. citext_eq (u_email u) email) (users db)"

definition get_by_id :: "auth_db \<Rightarrow> nat \<Rightarrow> user_row option" where
  "get_by_id db i = row_get u_id i (users db)"

definition get_by_google_sub :: "auth_db \<Rightarrow> string \<Rightarrow> user_row option" where
  "get_by_google_sub db sub = find (\<lambda>u. u_google_sub u = Some sub) (users db)"

definition update_user :: "nat \<Rightarrow> (user_row \<Rightarrow> user_row) \<Rightarrow> auth_db \<Rightarrow> auth_db" where
  "update_user i f db = db\<lparr>users := row_update u_id i f (users db)\<rparr>"

definition create_user ::
  "(string \<Rightarrow> string) \<Rightarrow> nat \<Rightarrow> string \<Rightarrow> string \<Rightarrow> string option \<Rightarrow> string option \<Rightarrow> string
     \<Rightarrow> auth_db \<Rightarrow> (ds_error, user_row \<times> auth_db) result" where
  "create_user hashpw new_id email name password google_sub role db =
     (let u = \<lparr>u_id = new_id, u_email = py_lower email, u_name = name,
               u_password_hash = (case password of None \<Rightarrow> None
                  | Some p \<Rightarrow> if p = [] then None else Some (hashpw p)),
               u_google_sub = google_sub, u_role = role, u_session_epoch = 0\<rparr>
      in rmap (\<lambda>db'. (u, db'))
           (flush_users [''uq_users_email'' \<mapsto> ConflictError ''EMAIL_ALREADY_REGISTERED'']
              (db\<lparr>users := users db @ [u]\<rparr>)))"

text \<open>Reading a row, writing one column of it and flushing.\<close>

definition modify_user ::
  "(string \<rightharpoonup> ds_error) \<Rightarrow> nat \<Rightarrow> (user_row \<Rightarrow> user_row) \<Rightarrow> auth_db
     \<Rightarrow> (ds_error, user_row \<times> auth_db) result" where
  "modify_user handled i f db =
     (case get_by_id db i of
        None \<Rightarrow> Inl (EntityNotFoundError ''user'')
      | Some u \<Rightarrow> rmap (\<lambda>db'. (f u, db')) (flush_users handled (update_user i f db)))"

definition update_name ::
  "nat \<Rightarrow> string \<Rightarrow> auth_db \<Rightarrow> (ds_error, user_row \<times> auth_db) result" where
  "update_name i name db = modify_user Map.empty i (\<lambda>u. u\<lparr>u_name := name\<rparr>) db"

definition update_password ::
  "(string \<Rightarrow> string) \<Rightarrow> nat \<Rightarrow> string \<Rightarrow> auth_db \<Rightarrow> (ds_error, user_row \<times> auth_db) result" where
  "update_password hashpw i password db =
     modify_user Map.empty i (\<lambda>u. u\<lparr>u_password_hash := Some (hashpw password)\<rparr>) db"

definition update_role ::
  "nat \<Rightarrow> string \<Rightarrow> auth_db \<Rightarrow> (ds_error, user_row \<times> auth_db) result" where
  "update_role i role db =
     modify_user [''ck_users_role'' \<mapsto> PreconditionFailedError ''INVALID_ROLE''] i
       (\<lambda>u. u\<lparr>u_role := role\<rparr>) db"

text \<open>\<open>lock_user\<close> returns the row as it is once the lock is held; holding it is the
  atomicity of the caller's step.\<close>

definition lock_user :: "auth_db \<Rightarrow> nat \<Rightarrow> user_row option" where
  "lock_user db i = get_by_id db i"

definition hard_delete :: "nat \<Rightarrow> auth_db \<Rightarrow> (ds_error, auth_db) result" where
  "hard_delete i db =
     (case get_by_id db i of
        None \<Rightarrow> Inl (EntityNotFoundError ''user'')
      | Some u \<Rightarrow> Inr (db\<lparr>users := row_delete u_id i (users db),
                       api_tokens := row_delete t_user i (api_tokens db),
                       reset_tokens := row_delete rt_user i (reset_tokens db)\<rparr>))"

text \<open>\<open>list_users\<close> pages over an ordering the caller chooses.\<close>

definition list_users ::
  "(user_row \<Rightarrow> 'k::linorder) \<Rightarrow> nat \<Rightarrow> nat \<Rightarrow> auth_db \<Rightarrow> user_row list \<times> nat" where
  "list_users key limit offset db =
     (take limit (drop offset (sort_key key (users db))), length (users db))"

section \<open>api_tokens.py\<close>

definition MAX_ACTIVE_PER_USER :: nat where
  "MAX_ACTIVE_PER_USER = 10"

definition LAST_USED_THROTTLE_SECONDS :: nat where
  "LAST_USED_THROTTLE_SECONDS = 60"

definition TOKEN_PREFIX :: string where
  "TOKEN_PREFIX = ''dsk_''"

definition role_rank :: "string \<Rightarrow> nat" where
  "role_rank r = (case map_of [(''Reader'', 0), (''Editor'', 1), (''Admin'', 2)] r of
                    Some n \<Rightarrow> n | None \<Rightarrow> 0)"

definition intersect_role :: "string \<Rightarrow> string \<Rightarrow> string" where
  "intersect_role snapshot current = (if role_rank snapshot \<le> role_rank current then snapshot else current)"

definition active_for :: "nat \<Rightarrow> api_token \<Rightarrow> bool" where
  "active_for i t \<longleftrightarrow> t_user t = i \<and> t_revoked_at t = None"

definition mint ::
  "(string \<Rightarrow> string) \<Rightarrow> nat \<Rightarrow> string \<Rightarrow> nat \<Rightarrow> nat \<Rightarrow> string \<Rightarrow> nat option \<Rightarrow> auth_db
     \<Rightarrow> (ds_error, (string \<times> api_token) \<times> auth_db) result" where
  "mint sha new_id random now i name expires_at db =
     (case get_by_id db i of
        None \<Rightarrow> Inl (EntityNotFoundError ''user'')
      | Some u \<Rightarrow>
          if length (filter (active_for i) (api_tokens db)) \<ge> MAX_ACTIVE_PER_USER then
            Inl (ConflictError ''TOKEN_LIMIT_EXCEEDED'')
          else
            let raw = TOKEN_PREFIX @ random;
                t = \<lparr>t_id = new_id, t_user = i, t_name = name, t_hash = sha raw,
                     t_role_snapshot = u_role u, t_created_at = now, t_last_used_at = None,
                     t_expires_at = expires_at, t_revoked_at = None\<rparr>
            in if sha raw \<in> t_hash ` set (api_tokens db) then
                 Inl (IntegrityError ''uq_api_tokens_token_hash'')
               else Inr ((raw, t), db\<lparr>api_tokens := api_tokens db @ [t]\<rparr>))"

definition list_active :: "nat \<Rightarrow> auth_db \<Rightarrow> api_token list" where
  "list_active i db = sort_key t_created_at (filter (active_for i) (api_tokens db))"

definition is_active :: "nat \<Rightarrow> auth_db \<Rightarrow> bool" where
  "is_active tid db =
     (case row_get t_id tid (api_tokens db) of None \<Rightarrow> False | Some t \<Rightarrow> t_revoked_at t = None)"

text \<open>\<open>list_page\<close> with its default ordering: newest first, ties by id; the owner's email
  is joined in.\<close>

definition page_filter :: "bool \<Rightarrow> nat option \<Rightarrow> api_token \<Rightarrow> bool" where
  "page_filter include_revoked owner t \<longleftrightarrow>
     (include_revoked \<or> t_revoked_at t = None) \<and> (case owner of None \<Rightarrow> True | Some i \<Rightarrow> t_user t = i)"

definition joined_tokens :: "auth_db \<Rightarrow> (api_token \<times> string) list" where
  "joined_tokens db =
     concat (map (\<lambda>t. case get_by_id db (t_user t) of None \<Rightarrow> [] | Some u \<Rightarrow> [(t, u_email u)])
       (api_tokens db))"

definition list_page ::
  "nat \<Rightarrow> nat \<Rightarrow> bool \<Rightarrow> nat option \<Rightarrow> auth_db \<Rightarrow> (api_token \<times> string) list \<times> nat" where
  "list_page limit offset include_revoked owner db =
     (let rows = filter (\<lambda>(t, e). page_filter include_revoked owner t) (joined_tokens db);
          ordered = sort_key (\<lambda>(t, e). - int (t_created_at t)) (sort_key (\<lambda>(t, e). t_id t) rows)
      in (take limit (drop offset ordered), length rows))"

definition sort_tokens :: "string option \<Rightarrow> api_token list \<Rightarrow> api_token list" where
  "sort_tokens srt ts =
     (let newest_first = sort_key (\<lambda>t. - int (t_created_at t)) ts in
      case srt of
        None \<Rightarrow> newest_first
      | Some s \<Rightarrow>
          if s = ''created_at_desc'' then newest_first
          else if s = ''created_at_asc'' then sort_key t_created_at ts
          else ts)"

definition revoke ::
  "nat \<Rightarrow> nat \<Rightarrow> nat option \<Rightarrow> auth_db \<Rightarrow> (ds_error, (nat \<times> bool) \<times> auth_db) result" where
  "revoke now tid owner db =
     (case find (\<lambda>t. t_id t = tid \<and> (case owner of None \<Rightarrow> True | Some i \<Rightarrow> t_user t = i)) (api_tokens db) of
        None \<Rightarrow> Inl (EntityNotFoundError ''token'')
      | Some t \<Rightarrow>
          if t_revoked_at t \<noteq> None then Inr ((t_user t, False), db)
          else Inr ((t_user t, True),
                 db\<lparr>api_tokens := row_update t_id tid (\<lambda>t. t\<lparr>t_revoked_at := Some now\<rparr>) (api_tokens db)\<rparr>))"

definition revoke_all_for_user :: "nat \<Rightarrow> nat \<Rightarrow> auth_db \<Rightarrow> nat \<times> auth_db" where
  "revoke_all_for_user now i db =
     (length (filter (active_for i) (api_tokens db)),
      db\<lparr>api_tokens := map (\<lambda>t. if active_for i t then t\<lparr>t_revoked_at := Some now\<rparr> else t) (api_tokens db)\<rparr>)"

definition stamp_last_used :: "nat \<Rightarrow> nat \<Rightarrow> auth_db \<Rightarrow> auth_db" where
  "stamp_last_used now tid db =
     db\<lparr>api_tokens := row_update t_id tid
          (\<lambda>t. case t_last_used_at t of
                 None \<Rightarrow> t\<lparr>t_last_used_at := Some now\<rparr>
               | Some l \<Rightarrow> if l + LAST_USED_THROTTLE_SECONDS < now
                           then t\<lparr>t_last_used_at := Some now\<rparr> else t)
          (api_tokens db)\<rparr>"

text \<open>The stamp is best-effort on its own session: \<open>stamped\<close> says whether it landed.\<close>

definition lookup_and_validate ::
  "(string \<Rightarrow> string) \<Rightarrow> bool \<Rightarrow> nat \<Rightarrow> string \<Rightarrow> auth_db
     \<Rightarrow> (ds_error, (user_row \<times> string \<times> nat) \<times> auth_db) result" where
  "lookup_and_validate sha stamped now raw db =
     (case find (\<lambda>t. t_hash t = sha raw \<and> get_by_id db (t_user t) \<noteq> None) (api_tokens db) of
        None \<Rightarrow> Inl (AuthenticationError ''INVALID_API_TOKEN'')
      | Some t \<Rightarrow>
          (case get_by_id db (t_user t) of
             None \<Rightarrow> Inl (AuthenticationError ''INVALID_API_TOKEN'')
           | Some u \<Rightarrow>
               if t_revoked_at t \<noteq> None then Inl (AuthenticationError ''TOKEN_REVOKED'')
               else if (case t_expires_at t of None \<Rightarrow> False | Some e \<Rightarrow> e \<le> now) then
                 Inl (AuthenticationError ''TOKEN_EXPIRED'')
               else Inr ((u, intersect_role (t_role_snapshot t) (u_role u), t_id t),
                         if stamped then stamp_last_used now (t_id t) db else db)))"

section \<open>reset.py\<close>

definition TOKEN_TTL_SECONDS :: nat where
  "TOKEN_TTL_SECONDS = 15 * 60"

text \<open>\<open>issue_reset_token\<close> runs in two parts around the mail round trip: the read that
  fixes the owner, the epoch and the token; and the write under the row lock.\<close>

record reset_request =
  rq_user :: nat
  rq_epoch :: nat
  rq_recipient :: string
  rq_hash :: string
  rq_expires_at :: nat

datatype mail_outcome = Mail_sent | Mail_not_configured | Mail_failed

definition issue_reset_read ::
  "(string \<Rightarrow> string) \<Rightarrow> string \<Rightarrow> nat \<Rightarrow> string \<Rightarrow> auth_db \<Rightarrow> reset_request option" where
  "issue_reset_read sha random now email db =
     map_option (\<lambda>u. \<lparr>rq_user = u_id u, rq_epoch = u_session_epoch u, rq_recipient = u_email u,
                      rq_hash = sha random, rq_expires_at = now + TOKEN_TTL_SECONDS\<rparr>)
       (get_by_email db email)"

definition issue_reset_write ::
  "mail_outcome \<Rightarrow> reset_request \<Rightarrow> auth_db \<Rightarrow> (ds_error, auth_db) result" where
  "issue_reset_write mail rq db =
     (case mail of
        Mail_not_configured \<Rightarrow> Inl (PeripheralNotConfiguredError ''smtp'')
      | Mail_failed \<Rightarrow> Inl StorageUnavailableError
      | Mail_sent \<Rightarrow>
          (case lock_user db (rq_user rq) of
             None \<Rightarrow> Inr db
           | Some locked \<Rightarrow>
               if u_session_epoch locked \<noteq> rq_epoch rq then Inr db
               else if rq_hash rq \<in> rt_hash ` set (reset_tokens db) then
                 Inl (IntegrityError ''password_reset_tokens_pkey'')
               else Inr (db\<lparr>reset_tokens := reset_tokens db @
                      [\<lparr>rt_hash = rq_hash rq, rt_user = rq_user rq,
                        rt_expires_at = rq_expires_at rq, rt_used_at = None\<rparr>]\<rparr>)))"

definition delete_unused_for_user :: "nat \<Rightarrow> auth_db \<Rightarrow> nat \<times> auth_db" where
  "delete_unused_for_user i db =
     (let gone = (\<lambda>r. rt_user r = i \<and> rt_used_at r = None)
      in (length (filter gone (reset_tokens db)),
          db\<lparr>reset_tokens := filter (\<lambda>r. \<not> gone r) (reset_tokens db)\<rparr>))"

definition load_valid_token :: "nat \<Rightarrow> string \<Rightarrow> auth_db \<Rightarrow> (ds_error, reset_token) result" where
  "load_valid_token now h db =
     (case row_get rt_hash h (reset_tokens db) of
        None \<Rightarrow> Inl (BadRequestError ''INVALID_RESET_TOKEN'')
      | Some r \<Rightarrow>
          if rt_used_at r \<noteq> None \<or> rt_expires_at r \<le> now then
            Inl (BadRequestError ''INVALID_RESET_TOKEN'')
          else Inr r)"

definition mark_reset_used :: "nat \<Rightarrow> string \<Rightarrow> auth_db \<Rightarrow> auth_db" where
  "mark_reset_used now h db =
     db\<lparr>reset_tokens := row_update rt_hash h (\<lambda>r. r\<lparr>rt_used_at := Some now\<rparr>) (reset_tokens db)\<rparr>"

text \<open>\<open>confirm_reset\<close>: \<open>before\<close> is what the first read saw, \<open>db\<close> what is there once
  the lock is held.\<close>

definition confirm_reset ::
  "(string \<Rightarrow> string) \<Rightarrow> (string \<Rightarrow> string) \<Rightarrow> nat \<Rightarrow> string \<Rightarrow> string \<Rightarrow> auth_db \<Rightarrow> auth_db
     \<Rightarrow> (ds_error, auth_db) result" where
  "confirm_reset sha hashpw now raw new_password before db =
     rbind (load_valid_token now (sha raw) before) (\<lambda>row0.
       if lock_user db (rt_user row0) = None then Inl (BadRequestError ''INVALID_RESET_TOKEN'')
       else
         rbind (load_valid_token now (sha raw) db) (\<lambda>row.
         rbind (update_password hashpw (rt_user row) new_password db) (\<lambda>(_, db1).
         Inr (mark_reset_used now (rt_hash row) db1))))"

section \<open>Google identities\<close>

record google_bind_result =
  gb_user :: user_row
  gb_bound :: bool
  gb_api_tokens_revoked :: nat
  gb_reset_tokens_deleted :: nat

definition take_over :: "string \<Rightarrow> user_row \<Rightarrow> user_row" where
  "take_over sub u = u\<lparr>u_google_sub := Some sub, u_password_hash := None,
                       u_session_epoch := u_session_epoch u + 1\<rparr>"

definition bind_google_identity ::
  "nat \<Rightarrow> nat \<Rightarrow> string \<Rightarrow> auth_db \<Rightarrow> (ds_error, google_bind_result \<times> auth_db) result" where
  "bind_google_identity now i sub db =
     (case lock_user db i of
        None \<Rightarrow> Inl (EntityNotFoundError ''user'')
      | Some u \<Rightarrow>
          (case u_google_sub u of
             Some s \<Rightarrow>
               if s \<noteq> sub then Inl (ConflictError ''EMAIL_BOUND_TO_ANOTHER_GOOGLE_ACCOUNT'')
               else Inr (\<lparr>gb_user = u, gb_bound = False, gb_api_tokens_revoked = 0,
                          gb_reset_tokens_deleted = 0\<rparr>, db)
           | None \<Rightarrow>
               rbind (modify_user [''uq_users_google_sub'' \<mapsto> ConflictError ''GOOGLE_ACCOUNT_LINKED_ELSEWHERE''] i
                        (take_over sub) db) (\<lambda>(u', db1).
               let (revoked, db2) = revoke_all_for_user now i db1;
                   (deleted, db3) = delete_unused_for_user i db2
               in Inr (\<lparr>gb_user = u', gb_bound = True, gb_api_tokens_revoked = revoked,
                        gb_reset_tokens_deleted = deleted\<rparr>, db3))))"

definition unbind_google_identity ::
  "nat \<Rightarrow> auth_db \<Rightarrow> (ds_error, (user_row \<times> bool) \<times> auth_db) result" where
  "unbind_google_identity i db =
     (case lock_user db i of
        None \<Rightarrow> Inl (EntityNotFoundError ''user'')
      | Some u \<Rightarrow>
          if u_google_sub u = None then Inr ((u, False), db)
          else if u_password_hash u = None then Inl (ConflictError ''GOOGLE_IS_ONLY_AUTH_METHOD'')
          else
            rmap (\<lambda>(u', db'). ((u', True), db'))
              (modify_user Map.empty i
                 (\<lambda>u. u\<lparr>u_google_sub := None, u_session_epoch := u_session_epoch u + 1\<rparr>) db))"

definition add_event :: "auth_event \<Rightarrow> auth_db \<Rightarrow> auth_db" where
  "add_event e db = db\<lparr>auth_events := auth_events db @ [e]\<rparr>"

definition refresh_name ::
  "user_row \<Rightarrow> string \<Rightarrow> auth_db \<Rightarrow> (ds_error, user_row \<times> auth_db) result" where
  "refresh_name u name db = (if u_name u \<noteq> name then update_name (u_id u) name db else Inr (u, db))"

definition resolve_or_create_user ::
  "nat \<Rightarrow> nat \<Rightarrow> string \<Rightarrow> string \<Rightarrow> string \<Rightarrow> auth_db \<Rightarrow> (ds_error, user_row \<times> auth_db) result" where
  "resolve_or_create_user new_id now google_sub email name db =
     (case get_by_google_sub db google_sub of
        Some existing \<Rightarrow> refresh_name existing name db
      | None \<Rightarrow>
          (case get_by_email db email of
             Some by_email \<Rightarrow>
               rbind (bind_google_identity now (u_id by_email) google_sub db) (\<lambda>(b, db1).
               rbind (refresh_name (gb_user b) name db1) (\<lambda>(u, db2).
               Inr (u, if gb_bound b then
                         add_event (Google_link_credential_reset (u_id u) (gb_api_tokens_revoked b)
                           (gb_reset_tokens_deleted b) (u_session_epoch u)) db2
                       else db2)))
           | None \<Rightarrow> create_user (\<lambda>p. p) new_id email name None (Some google_sub) ''Reader'' db))"

end
