(* ===== verification/Auth_Session.thy ===== *)
theory Auth_Session
  imports Auth_Store
begin

text \<open>
  Sessions and privileges: \<open>src/backend/auth/tokens.py\<close> (claims of the access and refresh
  tokens, the session epoch, the Redis revocation set), \<open>src/backend/auth/privilege.py\<close>
  (the request dependencies) and the handlers of \<open>src/api/routers/auth.py\<close>. Signing and
  verifying a JWT are the parameters \<open>encode\<close> and \<open>decode verify_exp now\<close>; Redis is the
  list of its keys with their expiry, and the flag \<open>up\<close> says whether it answers.
\<close>

section \<open>tokens.py\<close>

datatype claim = Claim_int int | Claim_bool bool | Claim_other | Claim_missing

datatype sub_claim = Sub_uuid nat | Sub_other | Sub_missing

record jwt_payload =
  p_sub :: sub_claim
  p_email :: "string option"
  p_type :: "string option"
  p_exp :: "nat option"
  p_iat :: nat
  p_ses :: claim

datatype jwt_error = ExpiredSignatureError | PyJWTError

type_synonym jwt_encode = "jwt_payload \<Rightarrow> string"
type_synonym jwt_decode = "bool \<Rightarrow> nat \<Rightarrow> string \<Rightarrow> (jwt_error, jwt_payload) result"

record jwt_settings =
  access_expire_minutes :: nat
  refresh_expire_days :: nat

definition access_payload :: "jwt_settings \<Rightarrow> nat \<Rightarrow> nat \<Rightarrow> string \<Rightarrow> nat \<Rightarrow> jwt_payload" where
  "access_payload cfg now user_id email session_epoch =
     \<lparr>p_sub = Sub_uuid user_id, p_email = Some email, p_type = None,
      p_exp = Some (now + access_expire_minutes cfg * 60), p_iat = now,
      p_ses = Claim_int (int session_epoch)\<rparr>"

definition issue_access_token ::
  "jwt_encode \<Rightarrow> jwt_settings \<Rightarrow> nat \<Rightarrow> nat \<Rightarrow> string \<Rightarrow> nat \<Rightarrow> string \<times> nat" where
  "issue_access_token encode cfg now user_id email session_epoch =
     (encode (access_payload cfg now user_id email session_epoch), access_expire_minutes cfg * 60)"

definition refresh_payload :: "jwt_settings \<Rightarrow> nat \<Rightarrow> nat \<Rightarrow> nat \<Rightarrow> jwt_payload" where
  "refresh_payload cfg now user_id session_epoch =
     \<lparr>p_sub = Sub_uuid user_id, p_email = None, p_type = Some ''refresh'',
      p_exp = Some (now + refresh_expire_days cfg * 86400), p_iat = now,
      p_ses = Claim_int (int session_epoch)\<rparr>"

definition issue_refresh_token :: "jwt_encode \<Rightarrow> jwt_settings \<Rightarrow> nat \<Rightarrow> nat \<Rightarrow> nat \<Rightarrow> string" where
  "issue_refresh_token encode cfg now user_id session_epoch =
     encode (refresh_payload cfg now user_id session_epoch)"

fun session_epoch_matches :: "claim \<Rightarrow> nat \<Rightarrow> bool" where
  "session_epoch_matches (Claim_int n) current_epoch = (n = int current_epoch)"
| "session_epoch_matches _ current_epoch = False"

definition decode_access_token ::
  "jwt_decode \<Rightarrow> nat \<Rightarrow> string \<Rightarrow> (jwt_error + ds_error, jwt_payload) result" where
  "decode_access_token decode now token =
     (case decode True now token of
        Inl e \<Rightarrow> Inl (Inl e)
      | Inr payload \<Rightarrow>
          if p_type payload = Some ''refresh'' then Inl (Inr (AuthenticationError ''UNAUTHORIZED''))
          else Inr payload)"

definition decode_refresh_token ::
  "jwt_decode \<Rightarrow> nat \<Rightarrow> string \<Rightarrow> (ds_error, jwt_payload) result" where
  "decode_refresh_token decode now token =
     (case decode True now token of
        Inl e \<Rightarrow> Inl (AuthenticationError ''UNAUTHORIZED'')
      | Inr payload \<Rightarrow>
          if p_type payload \<noteq> Some ''refresh'' then
            Inl (AuthenticationError ''INVALID_REFRESH_TOKEN'')
          else Inr payload)"

type_synonym redis = "(string \<times> nat) list"

definition redis_live :: "nat \<Rightarrow> string \<Rightarrow> redis \<Rightarrow> bool" where
  "redis_live now key r \<longleftrightarrow> (\<exists>(k, expiry) \<in> set r. k = key \<and> now < expiry)"

definition redis_set_nx :: "nat \<Rightarrow> string \<Rightarrow> nat \<Rightarrow> redis \<Rightarrow> redis" where
  "redis_set_nx now key ttl r = (if redis_live now key r then r else (key, now + ttl) # r)"

definition revocation_key :: "(string \<Rightarrow> string) \<Rightarrow> string \<Rightarrow> string" where
  "revocation_key sha token = ''revoked_refresh:'' @ take 16 (sha token)"

definition is_refresh_revoked ::
  "(string \<Rightarrow> string) \<Rightarrow> bool \<Rightarrow> nat \<Rightarrow> string \<Rightarrow> redis \<Rightarrow> (ds_error, bool) result" where
  "is_refresh_revoked sha up now token r =
     (if \<not> up then Inl StorageUnavailableError else Inr (redis_live now (revocation_key sha token) r))"

definition mark_refresh_revoked ::
  "(string \<Rightarrow> string) \<Rightarrow> jwt_decode \<Rightarrow> bool \<Rightarrow> nat \<Rightarrow> string \<Rightarrow> redis \<Rightarrow> (ds_error, redis) result" where
  "mark_refresh_revoked sha decode up now token r =
     (case decode False now token of
        Inl e \<Rightarrow> Inr r
      | Inr payload \<Rightarrow>
          if p_type payload \<noteq> Some ''refresh'' then Inr r
          else
            let ttl = (case p_exp payload of None \<Rightarrow> 0 | Some e \<Rightarrow> e) - now in
            if ttl \<le> 0 then Inr r
            else if \<not> up then Inl StorageUnavailableError
            else Inr (redis_set_nx now (revocation_key sha token) ttl r))"

section \<open>privilege.py\<close>

record auth_context =
  ctx_user :: user_row
  ctx_effective_role :: string
  ctx_session_epoch :: "nat option"
  ctx_api_token_id :: "nat option"

definition require_authenticated ::
  "(string \<Rightarrow> string) \<Rightarrow> jwt_decode \<Rightarrow> bool \<Rightarrow> nat \<Rightarrow> string option \<Rightarrow> auth_db
     \<Rightarrow> (ds_error, auth_context \<times> auth_db) result" where
  "require_authenticated sha decode stamped now credentials db =
     (case credentials of
        None \<Rightarrow> Inl (AuthenticationError ''UNAUTHORIZED'')
      | Some tok \<Rightarrow>
          if py_startswith tok ''dsk_'' then
            rmap (\<lambda>((u, role, tid), db').
                (\<lparr>ctx_user = u, ctx_effective_role = role, ctx_session_epoch = None,
                  ctx_api_token_id = Some tid\<rparr>, db'))
              (lookup_and_validate sha stamped now tok db)
          else
            (case decode_access_token decode now tok of
               Inl (Inl _) \<Rightarrow> Inl (AuthenticationError ''UNAUTHORIZED'')
             | Inl (Inr e) \<Rightarrow> Inl e
             | Inr payload \<Rightarrow>
                 (case p_sub payload of
                    Sub_uuid i \<Rightarrow>
                      (case get_by_id db i of
                         None \<Rightarrow> Inl (AuthenticationError ''UNAUTHORIZED'')
                       | Some u \<Rightarrow>
                           if \<not> session_epoch_matches (p_ses payload) (u_session_epoch u) then
                             Inl (AuthenticationError ''UNAUTHORIZED'')
                           else
                             Inr (\<lparr>ctx_user = u, ctx_effective_role = u_role u,
                                   ctx_session_epoch = Some (u_session_epoch u),
                                   ctx_api_token_id = None\<rparr>, db))
                  | _ \<Rightarrow> Inl (AuthenticationError ''UNAUTHORIZED''))))"

definition revalidate_under_user_lock ::
  "auth_context \<Rightarrow> auth_db \<Rightarrow> (ds_error, user_row) result" where
  "revalidate_under_user_lock ctx db =
     (case lock_user db (u_id (ctx_user ctx)) of
        None \<Rightarrow> Inl (AuthenticationError ''UNAUTHORIZED'')
      | Some u \<Rightarrow>
          (case ctx_api_token_id ctx of
             Some tid \<Rightarrow>
               if is_active tid db then Inr u else Inl (AuthenticationError ''TOKEN_REVOKED'')
           | None \<Rightarrow>
               if \<not> session_epoch_matches
                       (case ctx_session_epoch ctx of None \<Rightarrow> Claim_other | Some n \<Rightarrow> Claim_int (int n))
                       (u_session_epoch u)
               then Inl (AuthenticationError ''UNAUTHORIZED'') else Inr u))"

definition require_writer :: "string \<Rightarrow> auth_context \<Rightarrow> (ds_error, auth_context) result" where
  "require_writer http_method ctx =
     (if http_method \<in> {''POST'', ''PUT'', ''PATCH'', ''DELETE''} \<and> ctx_effective_role ctx = ''Reader'' then
        Inl (ForbiddenError ''READ_ONLY_ROLE'')
      else Inr ctx)"

definition require_editor :: "auth_context \<Rightarrow> (ds_error, auth_context) result" where
  "require_editor ctx =
     (if ctx_effective_role ctx = ''Reader'' then Inl (ForbiddenError ''READ_ONLY_ROLE'') else Inr ctx)"

definition require_admin :: "auth_context \<Rightarrow> (ds_error, auth_context) result" where
  "require_admin ctx =
     (if ctx_effective_role ctx \<noteq> ''Admin'' then Inl (ForbiddenError ''FORBIDDEN'') else Inr ctx)"

section \<open>routers/auth.py\<close>

record token_response =
  tr_access :: string
  tr_expires_in :: nat
  tr_refresh_cookie :: string

definition session_for :: "jwt_encode \<Rightarrow> jwt_settings \<Rightarrow> nat \<Rightarrow> user_row \<Rightarrow> token_response" where
  "session_for encode cfg now u =
     (let (access, expires_in) = issue_access_token encode cfg now (u_id u) (u_email u) (u_session_epoch u)
      in \<lparr>tr_access = access, tr_expires_in = expires_in,
          tr_refresh_cookie = issue_refresh_token encode cfg now (u_id u) (u_session_epoch u)\<rparr>)"

definition post_register ::
  "jwt_encode \<Rightarrow> jwt_settings \<Rightarrow> (string \<Rightarrow> string) \<Rightarrow> nat \<Rightarrow> nat \<Rightarrow> string \<Rightarrow> string \<Rightarrow> string \<Rightarrow> auth_db
     \<Rightarrow> (ds_error, token_response \<times> auth_db) result" where
  "post_register encode cfg hashpw new_id now email name password db =
     rmap (\<lambda>(u, db'). (session_for encode cfg now u, db'))
       (create_user hashpw new_id email name (Some password) None ''Reader'' db)"

definition post_token ::
  "jwt_encode \<Rightarrow> jwt_settings \<Rightarrow> (string \<Rightarrow> string \<Rightarrow> bool) \<Rightarrow> nat \<Rightarrow> string \<Rightarrow> string \<Rightarrow> auth_db
     \<Rightarrow> (ds_error, token_response) result" where
  "post_token encode cfg checkpw now email password db =
     (case get_by_email db email of
        None \<Rightarrow> Inl (AuthenticationError ''UNAUTHORIZED'')
      | Some u \<Rightarrow>
          if \<not> verify_password checkpw u password then Inl (AuthenticationError ''UNAUTHORIZED'')
          else Inr (session_for encode cfg now u))"

text \<open>The revocation of the old token stays even when a later check fails, so the Redis
  state is returned beside the outcome.\<close>

definition post_token_refresh ::
  "jwt_encode \<Rightarrow> jwt_decode \<Rightarrow> jwt_settings \<Rightarrow> (string \<Rightarrow> string) \<Rightarrow> bool \<Rightarrow> nat \<Rightarrow> string option
     \<Rightarrow> auth_db \<Rightarrow> redis \<Rightarrow> (ds_error, token_response) result \<times> redis" where
  "post_token_refresh encode decode cfg sha up now cookie db r =
     (case cookie of
        None \<Rightarrow> (Inl (AuthenticationError ''UNAUTHORIZED''), r)
      | Some tok \<Rightarrow>
          (case is_refresh_revoked sha up now tok r of
             Inl e \<Rightarrow> (Inl e, r)
           | Inr True \<Rightarrow> (Inl (AuthenticationError ''UNAUTHORIZED''), r)
           | Inr False \<Rightarrow>
               (case decode_refresh_token decode now tok of
                  Inl e \<Rightarrow> (Inl e, r)
                | Inr payload \<Rightarrow>
                    (case p_sub payload of
                       Sub_missing \<Rightarrow> (Inl (UncaughtError ''KeyError''), r)
                     | Sub_other \<Rightarrow> (Inl (AuthenticationError ''UNAUTHORIZED''), r)
                     | Sub_uuid i \<Rightarrow>
                         (case mark_refresh_revoked sha decode up now tok r of
                            Inl e \<Rightarrow> (Inl e, r)
                          | Inr r1 \<Rightarrow>
                              (case get_by_id db i of
                                 None \<Rightarrow> (Inl (AuthenticationError ''UNAUTHORIZED''), r1)
                               | Some u \<Rightarrow>
                                   if \<not> session_epoch_matches (p_ses payload) (u_session_epoch u) then
                                     (Inl (AuthenticationError ''UNAUTHORIZED''), r1)
                                   else (Inr (session_for encode cfg now u), r1)))))))"

definition post_token_revoke ::
  "jwt_decode \<Rightarrow> (string \<Rightarrow> string) \<Rightarrow> bool \<Rightarrow> nat \<Rightarrow> string option \<Rightarrow> redis \<Rightarrow> (ds_error, redis) result" where
  "post_token_revoke decode sha up now cookie r =
     (case cookie of None \<Rightarrow> Inr r | Some tok \<Rightarrow> mark_refresh_revoked sha decode up now tok r)"

definition patch_me ::
  "(string \<Rightarrow> string) \<Rightarrow> auth_context \<Rightarrow> string option \<Rightarrow> string option \<Rightarrow> auth_db
     \<Rightarrow> (ds_error, user_row \<times> auth_db) result" where
  "patch_me hashpw ctx name password db =
     rbind (case password of None \<Rightarrow> Inr (ctx_user ctx) | Some _ \<Rightarrow> revalidate_under_user_lock ctx db) (\<lambda>u.
     rbind (case name of None \<Rightarrow> Inr (u, db) | Some n \<Rightarrow> update_name (u_id u) n db) (\<lambda>(u1, db1).
     case password of None \<Rightarrow> Inr (u1, db1) | Some p \<Rightarrow> update_password hashpw (u_id u1) p db1))"

definition post_password_reset_confirm ::
  "(string \<Rightarrow> string) \<Rightarrow> (string \<Rightarrow> string) \<Rightarrow> nat \<Rightarrow> string \<Rightarrow> string \<Rightarrow> auth_db \<Rightarrow> auth_db
     \<Rightarrow> (ds_error, auth_db) result" where
  "post_password_reset_confirm sha hashpw now raw new_password before db =
     confirm_reset sha hashpw now raw new_password before db"

text \<open>The claims of the Google ID token after authlib's exchange; \<open>None\<close> is an exchange that
  raised or a response without the identity or its subject. Empty strings stand for the other
  absent claims.\<close>

record google_claims =
  gc_sub :: string
  gc_email_verified :: bool
  gc_email :: string
  gc_name :: string

definition google_callback ::
  "jwt_encode \<Rightarrow> jwt_settings \<Rightarrow> bool \<Rightarrow> nat \<Rightarrow> nat \<Rightarrow> google_claims option \<Rightarrow> auth_db
     \<Rightarrow> (ds_error, string \<times> auth_db) result" where
  "google_callback encode cfg configured new_id now claims db =
     (if \<not> configured then Inl OAuthNotConfiguredError
      else case claims of
        None \<Rightarrow> Inl (BadRequestError ''OAUTH_STATE_MISMATCH'')
      | Some c \<Rightarrow>
          if \<not> gc_email_verified c then Inl (BadRequestError ''OAUTH_EMAIL_NOT_VERIFIED'')
          else if gc_sub c = [] \<or> gc_email c = [] then Inl (BadRequestError ''OAUTH_STATE_MISMATCH'')
          else
            rmap (\<lambda>(u, db'). (issue_refresh_token encode cfg now (u_id u) (u_session_epoch u), db'))
              (resolve_or_create_user new_id now (gc_sub c) (gc_email c)
                 (if gc_name c = [] then gc_email c else gc_name c) db))"

definition OAUTH_ERROR_CODES :: "string list" where
  "OAUTH_ERROR_CODES =
     [''OAUTH_NOT_CONFIGURED'', ''OAUTH_STATE_MISMATCH'', ''OAUTH_EMAIL_NOT_VERIFIED'',
      ''GOOGLE_ACCOUNT_LINKED_ELSEWHERE'', ''EMAIL_BOUND_TO_ANOTHER_GOOGLE_ACCOUNT'']"

text \<open>The code a failed navigation forwards to the error page, if any.\<close>

definition oauth_error_redirect :: "ds_error \<Rightarrow> string option" where
  "oauth_error_redirect e =
     (if error_code e \<in> set OAUTH_ERROR_CODES then Some (error_code e) else None)"

datatype callback_outcome = Redirect_signed_in string | Redirect_error "string option"

definition get_google_callback ::
  "jwt_encode \<Rightarrow> jwt_settings \<Rightarrow> bool \<Rightarrow> nat \<Rightarrow> nat \<Rightarrow> google_claims option \<Rightarrow> auth_db
     \<Rightarrow> callback_outcome \<times> auth_db" where
  "get_google_callback encode cfg configured new_id now claims db =
     (case google_callback encode cfg configured new_id now claims db of
        Inl e \<Rightarrow> (Redirect_error (oauth_error_redirect e), db)
      | Inr (cookie, db') \<Rightarrow> (Redirect_signed_in cookie, db'))"

definition get_api_tokens ::
  "auth_context \<Rightarrow> nat \<Rightarrow> nat \<Rightarrow> string option \<Rightarrow> auth_db \<Rightarrow> api_token list \<times> nat" where
  "get_api_tokens ctx offset limit srt db =
     (let ts = sort_tokens srt (list_active (u_id (ctx_user ctx)) db)
      in (take limit (drop offset ts), length ts))"

definition post_api_tokens ::
  "(string \<Rightarrow> string) \<Rightarrow> nat \<Rightarrow> string \<Rightarrow> nat \<Rightarrow> auth_context \<Rightarrow> string \<Rightarrow> nat option \<Rightarrow> auth_db
     \<Rightarrow> (ds_error, (string \<times> api_token) \<times> auth_db) result" where
  "post_api_tokens sha new_id random now ctx name expires_at db =
     rbind (revalidate_under_user_lock ctx db) (\<lambda>_.
       mint sha new_id random now (u_id (ctx_user ctx)) name expires_at db)"

definition delete_api_token ::
  "nat \<Rightarrow> auth_context \<Rightarrow> nat \<Rightarrow> auth_db \<Rightarrow> (ds_error, (nat \<times> bool) \<times> auth_db) result" where
  "delete_api_token now ctx tid db = revoke now tid (Some (u_id (ctx_user ctx))) db"

text \<open>The admin counterparts of \<open>src/api/routers/admin.py\<close>.\<close>

definition delete_user_google_binding :: "nat \<Rightarrow> auth_db \<Rightarrow> (ds_error, auth_db) result" where
  "delete_user_google_binding i db =
     rmap (\<lambda>((u, unbound), db').
         if unbound then add_event (Google_unbound (u_id u) (u_session_epoch u)) db'
         else db')
       (unbind_google_identity i db)"

end
