(* ===== verification/Auth_Safety.thy ===== *)
theory Auth_Safety
  imports Auth_Session
begin

text \<open>
  The credential store as a transition system: every committed operation of the auth
  routes, with the two halves of a password-reset request interleaving freely with the
  others. The main results: what a Google bind evicts stays evicted in every later state,
  and the table constraints and the token cap hold in every reachable state.
\<close>

section \<open>The system\<close>

text \<open>The tables, the reset requests whose mail is in flight, and what was ever issued:
  UUIDs and random token strings do not repeat.\<close>

record auth_sys =
  sys_db :: auth_db
  sys_pending :: "reset_request list"
  sys_users :: "nat set"
  sys_tokens :: "nat set"
  sys_hashes :: "string set"

inductive auth_step ::
  "(string \<Rightarrow> string) \<Rightarrow> (string \<Rightarrow> string) \<Rightarrow> auth_sys \<Rightarrow> auth_sys \<Rightarrow> bool"
  for sha hashpw where
  register:
    "new_id \<notin> sys_users s
     \<Longrightarrow> create_user hashpw new_id email name password google_sub role (sys_db s) = Inr (u, db')
     \<Longrightarrow> auth_step sha hashpw s (s\<lparr>sys_db := db', sys_users := insert new_id (sys_users s)\<rparr>)"
| google:
    "new_id \<notin> sys_users s
     \<Longrightarrow> resolve_or_create_user new_id now google_sub email name (sys_db s) = Inr (u, db')
     \<Longrightarrow> auth_step sha hashpw s (s\<lparr>sys_db := db', sys_users := insert new_id (sys_users s)\<rparr>)"
| unbind:
    "delete_user_google_binding i (sys_db s) = Inr db'
     \<Longrightarrow> auth_step sha hashpw s (s\<lparr>sys_db := db'\<rparr>)"
| patch:
    "patch_me hashpw ctx name_opt password (sys_db s) = Inr (u, db')
     \<Longrightarrow> auth_step sha hashpw s (s\<lparr>sys_db := db'\<rparr>)"
| set_role:
    "update_role i role (sys_db s) = Inr (u, db') \<Longrightarrow> auth_step sha hashpw s (s\<lparr>sys_db := db'\<rparr>)"
| delete_user:
    "hard_delete i (sys_db s) = Inr db' \<Longrightarrow> auth_step sha hashpw s (s\<lparr>sys_db := db'\<rparr>)"
| mint_token:
    "tid \<notin> sys_tokens s
     \<Longrightarrow> post_api_tokens sha tid random now ctx name expires (sys_db s) = Inr (out, db')
     \<Longrightarrow> auth_step sha hashpw s (s\<lparr>sys_db := db', sys_tokens := insert tid (sys_tokens s)\<rparr>)"
| revoke_token:
    "revoke now tid owner (sys_db s) = Inr (r, db') \<Longrightarrow> auth_step sha hashpw s (s\<lparr>sys_db := db'\<rparr>)"
| use_token:
    "lookup_and_validate sha stamped now raw (sys_db s) = Inr (r, db')
     \<Longrightarrow> auth_step sha hashpw s (s\<lparr>sys_db := db'\<rparr>)"
| reset_read:
    "issue_reset_read sha random now email (sys_db s) = Some rq \<Longrightarrow> rq_hash rq \<notin> sys_hashes s
     \<Longrightarrow> auth_step sha hashpw s (s\<lparr>sys_pending := rq # sys_pending s,
           sys_hashes := insert (rq_hash rq) (sys_hashes s)\<rparr>)"
| reset_write:
    "rq \<in> set (sys_pending s) \<Longrightarrow> issue_reset_write mail rq (sys_db s) = Inr db'
     \<Longrightarrow> auth_step sha hashpw s (s\<lparr>sys_db := db', sys_pending := removeAll rq (sys_pending s)\<rparr>)"
| reset_fail:
    "rq \<in> set (sys_pending s) \<Longrightarrow> issue_reset_write mail rq (sys_db s) = Inl e
     \<Longrightarrow> auth_step sha hashpw s (s\<lparr>sys_pending := removeAll rq (sys_pending s)\<rparr>)"
| reset_confirm:
    "confirm_reset sha hashpw now raw password before (sys_db s) = Inr db'
     \<Longrightarrow> auth_step sha hashpw s (s\<lparr>sys_db := db'\<rparr>)"

section \<open>How the tables evolve\<close>

text \<open>\<open>evolves U T H db db'\<close>: every row of \<open>db'\<close> continues a row of \<open>db\<close> (an epoch only
  grows, a revocation or a use is never undone) or is new, with its key in the given set.\<close>

definition user_next :: "user_row \<Rightarrow> user_row \<Rightarrow> bool" where
  "user_next u u' \<longleftrightarrow> u_id u = u_id u' \<and> u_session_epoch u \<le> u_session_epoch u'"

definition token_next :: "api_token \<Rightarrow> api_token \<Rightarrow> bool" where
  "token_next t t' \<longleftrightarrow> t_id t = t_id t' \<and> t_user t = t_user t'
     \<and> (t_revoked_at t \<noteq> None \<longrightarrow> t_revoked_at t' \<noteq> None)"

definition reset_next :: "reset_token \<Rightarrow> reset_token \<Rightarrow> bool" where
  "reset_next r r' \<longleftrightarrow> rt_hash r = rt_hash r' \<and> rt_user r = rt_user r'
     \<and> (rt_used_at r \<noteq> None \<longrightarrow> rt_used_at r' \<noteq> None)"

definition evolves :: "nat set \<Rightarrow> nat set \<Rightarrow> string set \<Rightarrow> auth_db \<Rightarrow> auth_db \<Rightarrow> bool" where
  "evolves U T H db db' \<longleftrightarrow>
     (\<forall>u' \<in> set (users db'). u_id u' \<in> U \<or> (\<exists>u \<in> set (users db). user_next u u'))
   \<and> (\<forall>t' \<in> set (api_tokens db'). t_id t' \<in> T \<or> (\<exists>t \<in> set (api_tokens db). token_next t t'))
   \<and> (\<forall>r' \<in> set (reset_tokens db'). rt_hash r' \<in> H \<or> (\<exists>r \<in> set (reset_tokens db). reset_next r r'))"

lemma next_refl [simp]: "user_next u u" "token_next t t" "reset_next r r"
  by (simp_all add: user_next_def token_next_def reset_next_def)

lemma user_next_trans: "user_next a b \<Longrightarrow> user_next b c \<Longrightarrow> user_next a c"
  by (auto simp: user_next_def)

lemma token_next_trans: "token_next a b \<Longrightarrow> token_next b c \<Longrightarrow> token_next a c"
  by (auto simp: token_next_def)

lemma reset_next_trans: "reset_next a b \<Longrightarrow> reset_next b c \<Longrightarrow> reset_next a c"
  by (auto simp: reset_next_def)

lemma evolves_refl [simp]: "evolves U T H db db"
  unfolding evolves_def by (meson next_refl)

lemma evolvesI:
  assumes "\<And>u'. u' \<in> set (users db') \<Longrightarrow> u_id u' \<in> U \<or> (\<exists>u \<in> set (users db). user_next u u')"
    "\<And>t'. t' \<in> set (api_tokens db') \<Longrightarrow> t_id t' \<in> T \<or> (\<exists>t \<in> set (api_tokens db). token_next t t')"
    "\<And>r'. r' \<in> set (reset_tokens db') \<Longrightarrow> rt_hash r' \<in> H \<or> (\<exists>r \<in> set (reset_tokens db). reset_next r r')"
  shows "evolves U T H db db'"
  using assms by (auto simp: evolves_def)

lemma evolves_trans:
  assumes ab: "evolves U T H a b" and bc: "evolves U T H b c"
  shows "evolves U T H a c"
proof (rule evolvesI)
  fix u' assume "u' \<in> set (users c)"
  with ab bc show "u_id u' \<in> U \<or> (\<exists>u \<in> set (users a). user_next u u')"
    unfolding evolves_def by (metis user_next_def user_next_trans)
next
  fix t' assume "t' \<in> set (api_tokens c)"
  with ab bc show "t_id t' \<in> T \<or> (\<exists>t \<in> set (api_tokens a). token_next t t')"
    unfolding evolves_def by (metis token_next_def token_next_trans)
next
  fix r' assume "r' \<in> set (reset_tokens c)"
  with ab bc show "rt_hash r' \<in> H \<or> (\<exists>r \<in> set (reset_tokens a). reset_next r r')"
    unfolding evolves_def by (metis reset_next_def reset_next_trans)
qed

text \<open>A table rewritten row by row.\<close>

lemma evolves_users_map:
  "(\<And>u. user_next u (f u)) \<Longrightarrow> evolves U T H db (db\<lparr>users := map f (users db)\<rparr>)"
  by (rule evolvesI) (auto intro: next_refl)

lemma evolves_tokens_map:
  "(\<And>t. token_next t (f t)) \<Longrightarrow> evolves U T H db (db\<lparr>api_tokens := map f (api_tokens db)\<rparr>)"
  by (rule evolvesI) (auto intro: next_refl)

lemma evolves_resets_map:
  "(\<And>r. reset_next r (f r)) \<Longrightarrow> evolves U T H db (db\<lparr>reset_tokens := map f (reset_tokens db)\<rparr>)"
  by (rule evolvesI) (auto intro: next_refl)

lemma evolves_users_snoc: "u_id u \<in> U \<Longrightarrow> evolves U T H db (db\<lparr>users := users db @ [u]\<rparr>)"
  by (rule evolvesI) (auto intro: next_refl)

lemma evolves_tokens_snoc: "t_id t \<in> T \<Longrightarrow> evolves U T H db (db\<lparr>api_tokens := api_tokens db @ [t]\<rparr>)"
  by (rule evolvesI) (auto intro: next_refl)

lemma evolves_resets_snoc:
  "rt_hash r \<in> H \<Longrightarrow> evolves U T H db (db\<lparr>reset_tokens := reset_tokens db @ [r]\<rparr>)"
  by (rule evolvesI) (auto intro: next_refl)

lemma flush_users_Inr: "flush_users h db = Inr db' \<longleftrightarrow> db' = db \<and> users_violation (users db) = None"
  by (auto simp: flush_users_def split: option.splits)

lemma modify_user_Inr:
  "modify_user h i f db = Inr (u', db') \<longleftrightarrow>
     (\<exists>u. get_by_id db i = Some u \<and> u' = f u \<and> db' = update_user i f db
        \<and> users_violation (users db') = None)"
  by (auto simp: modify_user_def rmap_eq_Inr flush_users_Inr split: option.splits)

lemma evolves_update_user:
  assumes "\<And>u. u_id (f u) = u_id u" "\<And>u. u_session_epoch u \<le> u_session_epoch (f u)"
  shows "evolves U T H db (update_user i f db)"
  unfolding update_user_def row_update_def
  by (rule evolves_users_map) (simp add: user_next_def assms)

lemma evolves_modify_user:
  assumes "modify_user h i f db = Inr (u, db')"
    "\<And>u. u_id (f u) = u_id u" "\<And>u. u_session_epoch u \<le> u_session_epoch (f u)"
  shows "evolves U T H db db'"
  using assms by (auto simp: modify_user_Inr intro: evolves_update_user)

lemma evolves_create_user:
  "create_user hashpw new_id email name password sub role db = Inr (u, db')
     \<Longrightarrow> new_id \<in> U \<Longrightarrow> evolves U T H db db'"
  by (auto simp: create_user_def Let_def rmap_eq_Inr flush_users_Inr intro!: evolves_users_snoc)

lemma evolves_update_name: "update_name i name db = Inr (u, db') \<Longrightarrow> evolves U T H db db'"
  by (auto simp: update_name_def elim: evolves_modify_user)

lemma evolves_update_password: "update_password hashpw i p db = Inr (u, db') \<Longrightarrow> evolves U T H db db'"
  by (auto simp: update_password_def elim: evolves_modify_user)

lemma evolves_update_role: "update_role i role db = Inr (u, db') \<Longrightarrow> evolves U T H db db'"
  by (auto simp: update_role_def elim: evolves_modify_user)

lemma evolves_refresh_name: "refresh_name u name db = Inr (u', db') \<Longrightarrow> evolves U T H db db'"
  by (auto simp: refresh_name_def dest: evolves_update_name split: if_splits)

lemma evolves_hard_delete: "hard_delete i db = Inr db' \<Longrightarrow> evolves U T H db db'"
  by (rule evolvesI) (auto simp: hard_delete_def intro: next_refl split: option.splits)

lemma evolves_mint:
  "mint sha tid random now i name e db = Inr (out, db') \<Longrightarrow> tid \<in> T \<Longrightarrow> evolves U T H db db'"
  by (auto simp: mint_def Let_def intro!: evolves_tokens_snoc split: option.splits if_splits)

lemma evolves_revoke:
  assumes "revoke now tid owner db = Inr (r, db')"
  shows "evolves U T H db db'"
proof -
  have "evolves U T H db
      (db\<lparr>api_tokens := row_update t_id tid (\<lambda>t. t\<lparr>t_revoked_at := Some now\<rparr>) (api_tokens db)\<rparr>)"
    unfolding row_update_def by (rule evolves_tokens_map) (simp add: token_next_def)
  with assms show ?thesis by (auto simp: revoke_def split: option.splits if_splits)
qed

lemma evolves_revoke_all: "evolves U T H db (snd (revoke_all_for_user now i db))"
  unfolding revoke_all_for_user_def snd_conv
  by (rule evolves_tokens_map) (simp add: token_next_def)

lemma evolves_delete_unused: "evolves U T H db (snd (delete_unused_for_user i db))"
  by (rule evolvesI) (auto simp: delete_unused_for_user_def Let_def intro: next_refl)

lemma evolves_stamp: "evolves U T H db (stamp_last_used now tid db)"
  unfolding stamp_last_used_def row_update_def
  by (rule evolves_tokens_map) (simp add: token_next_def split: option.split)

lemma evolves_lookup:
  "lookup_and_validate sha stamped now raw db = Inr (r, db') \<Longrightarrow> evolves U T H db db'"
  by (auto simp: lookup_and_validate_def evolves_stamp split: option.splits if_splits)

lemma evolves_reset_write:
  "issue_reset_write mail rq db = Inr db' \<Longrightarrow> rq_hash rq \<in> H \<Longrightarrow> evolves U T H db db'"
  by (auto simp: issue_reset_write_def intro!: evolves_resets_snoc
      split: mail_outcome.splits option.splits if_splits)

lemma evolves_use_reset:
  "evolves U T H db (mark_reset_used now h db)"
  unfolding mark_reset_used_def row_update_def by (rule evolves_resets_map) (simp add: reset_next_def)

lemma evolves_confirm:
  assumes "confirm_reset sha hashpw now raw p before db = Inr db'"
  shows "evolves U T H db db'"
proof -
  from assms obtain row :: reset_token and u db1 where "update_password hashpw (rt_user row) p db = Inr (u, db1)"
    and db': "db' = mark_reset_used now (rt_hash row) db1"
    by (auto simp: confirm_reset_def rbind_eq_Inr split: if_splits)
  from evolves_update_password [OF this(1)] evolves_use_reset show ?thesis
    unfolding db' by (rule evolves_trans)
qed

definition reset_credentials :: "nat \<Rightarrow> nat \<Rightarrow> string \<Rightarrow> auth_db \<Rightarrow> auth_db" where
  "reset_credentials now i sub db =
     snd (delete_unused_for_user i (snd (revoke_all_for_user now i (update_user i (take_over sub) db))))"

lemma take_over_simps [simp]:
  "u_id (take_over sub u) = u_id u" "u_session_epoch (take_over sub u) = Suc (u_session_epoch u)"
  "u_password_hash (take_over sub u) = None" "u_google_sub (take_over sub u) = Some sub"
  by (simp_all add: take_over_def)

lemma bind_Inr:
  assumes bind: "bind_google_identity now i sub db = Inr (b, db')"
  obtains (bound) u where "get_by_id db i = Some u" "u_google_sub u = None" "gb_bound b"
      "users_violation (users (update_user i (take_over sub) db)) = None"
      "gb_user b = take_over sub u" "db' = reset_credentials now i sub db"
    | (login) "db' = db" "\<not> gb_bound b" "get_by_id db i = Some (gb_user b)"
      "u_google_sub (gb_user b) = Some sub"
proof (cases "get_by_id db i")
  case None
  with bind show ?thesis by (simp add: bind_google_identity_def lock_user_def)
next
  case (Some u)
  show ?thesis
  proof (cases "u_google_sub u")
    case None
    with Some bind bound [of u] show ?thesis
      by (simp add: bind_google_identity_def lock_user_def rbind_eq_Inr modify_user_Inr Let_def
          reset_credentials_def split_def) auto
  next
    case (Some s)
    with \<open>get_by_id db i = Some u\<close> bind login show ?thesis
      by (auto simp: bind_google_identity_def lock_user_def split: if_splits)
  qed
qed

lemma evolves_reset_credentials: "evolves U T H db (reset_credentials now i sub db)"
  unfolding reset_credentials_def
  by (intro evolves_trans [OF evolves_update_user
        evolves_trans [OF evolves_revoke_all evolves_delete_unused]]) simp_all

lemma evolves_bind:
  "bind_google_identity now i sub db = Inr (b, db') \<Longrightarrow> evolves U T H db db'"
  by (erule bind_Inr) (simp_all add: evolves_reset_credentials)

lemma evolves_events [simp]:
  "evolves U T H a (add_event e b) = evolves U T H a b"
  by (simp add: evolves_def add_event_def)

lemma evolves_resolve:
  assumes "resolve_or_create_user new_id now sub email name db = Inr (u, db')" "new_id \<in> U"
  shows "evolves U T H db db'"
proof (cases "get_by_google_sub db sub")
  case (Some existing)
  with assms show ?thesis by (simp add: resolve_or_create_user_def evolves_refresh_name)
next
  case None
  show ?thesis
  proof (cases "get_by_email db email")
    case None': None
    with None assms show ?thesis by (simp add: resolve_or_create_user_def evolves_create_user)
  next
    case (Some e)
    with None assms obtain b db1 db2 es where
      "bind_google_identity now (u_id e) sub db = Inr (b, db1)"
      "refresh_name (gb_user b) name db1 = Inr (u, db2)"
      "db' = add_event es db2 \<or> db' = db2"
      by (auto simp: resolve_or_create_user_def rbind_eq_Inr split: if_splits)
    with evolves_trans [OF evolves_bind [OF this(1)] evolves_refresh_name [OF this(2)]]
    show ?thesis by auto
  qed
qed

lemma evolves_unbind:
  assumes "delete_user_google_binding i db = Inr db'"
  shows "evolves U T H db db'"
proof -
  from assms obtain u b db1 es where un: "unbind_google_identity i db = Inr ((u, b), db1)"
    and db': "db' = add_event es db1 \<or> db' = db1"
    by (auto simp: delete_user_google_binding_def rmap_eq_Inr split: if_splits)
  from un have "db1 = db \<or> (\<exists>v. modify_user Map.empty i
      (\<lambda>u. u\<lparr>u_google_sub := None, u_session_epoch := u_session_epoch u + 1\<rparr>) db = Inr (v, db1))"
    by (auto simp: unbind_google_identity_def rmap_eq_Inr split: option.splits if_splits)
  then have "evolves U T H db db1" by (auto elim: evolves_modify_user)
  with db' show ?thesis by auto
qed

lemma evolves_patch:
  assumes "patch_me hashpw ctx name password db = Inr (u, db')"
  shows "evolves U T H db db'"
proof -
  from assms obtain v w db1 where
      "(case name of None \<Rightarrow> Inr (v, db) | Some n \<Rightarrow> update_name (u_id v) n db) = Inr (w, db1)"
      "(case password of None \<Rightarrow> Inr (w, db1) | Some p \<Rightarrow> update_password hashpw (u_id w) p db1) = Inr (u, db')"
    by (auto simp: patch_me_def rbind_eq_Inr)
  then have "evolves U T H db db1" "evolves U T H db1 db'"
    by (auto dest: evolves_update_name evolves_update_password split: option.splits)
  then show ?thesis by (rule evolves_trans)
qed

lemma evolves_post_api_tokens:
  "post_api_tokens sha tid random now ctx name e db = Inr (out, db') \<Longrightarrow> tid \<in> T \<Longrightarrow> evolves U T H db db'"
  by (auto simp: post_api_tokens_def rbind_eq_Inr intro: evolves_mint)

lemmas evolves_ops = evolves_create_user evolves_resolve evolves_unbind evolves_patch
  evolves_update_role evolves_hard_delete evolves_post_api_tokens evolves_revoke evolves_lookup
  evolves_reset_write evolves_confirm

section \<open>Constraints and the token cap\<close>

definition users_ok :: "user_row list \<Rightarrow> bool" where
  "users_ok us \<longleftrightarrow>
     (\<forall>u \<in> set us. (u_password_hash u \<noteq> None \<or> u_google_sub u \<noteq> None) \<and> u_role u \<in> set VALID_ROLES)
   \<and> distinct (map u_id us) \<and> distinct (map (\<lambda>u. py_lower (u_email u)) us) \<and> distinct (subs us)"

definition tokens_ok :: "api_token list \<Rightarrow> bool" where
  "tokens_ok ts \<longleftrightarrow> distinct (map t_id ts)
     \<and> (\<forall>i. length (filter (active_for i) ts) \<le> MAX_ACTIVE_PER_USER)"

definition owned :: "auth_db \<Rightarrow> bool" where
  "owned db \<longleftrightarrow> (\<forall>t \<in> set (api_tokens db). t_user t \<in> u_id ` set (users db))
     \<and> (\<forall>r \<in> set (reset_tokens db). rt_user r \<in> u_id ` set (users db))"

definition sound_db :: "auth_db \<Rightarrow> bool" where
  "sound_db db \<longleftrightarrow> users_ok (users db) \<and> tokens_ok (api_tokens db) \<and> owned db
     \<and> distinct (map rt_hash (reset_tokens db))"

lemma users_violation_None: "users_violation us = None \<longleftrightarrow> users_ok us"
  by (auto simp: users_violation_def users_ok_def)

lemma distinct_subs_filter: "distinct (subs us) \<Longrightarrow> distinct (subs (filter P us))"
proof (induction us)
  case (Cons u us)
  have "set (subs (filter P us)) \<subseteq> set (subs us)" by (auto simp: subs_def)
  with Cons show ?case by (auto simp: subs_def split: option.splits)
qed (simp add: subs_def)

lemma users_ok_delete: "users_ok us \<Longrightarrow> users_ok (row_delete u_id i us)"
  by (auto simp: users_ok_def row_delete_def distinct_map_filter distinct_subs_filter)

lemma length_filter_map_le:
  "(\<And>x. P (f x) \<Longrightarrow> P x) \<Longrightarrow> length (filter P (map f xs)) \<le> length (filter P xs)"
  by (induction xs) auto

lemma tokens_ok_map:
  assumes "tokens_ok ts" "\<And>t. t_id (f t) = t_id t" "\<And>i t. active_for i (f t) \<Longrightarrow> active_for i t"
  shows "tokens_ok (map f ts)"
proof -
  have "map t_id (map f ts) = map t_id ts" using assms(2) by simp
  moreover have "length (filter (active_for i) (map f ts)) \<le> MAX_ACTIVE_PER_USER" for i
    using assms(1) length_filter_map_le [of "active_for i" f ts] assms(3)
    unfolding tokens_ok_def by (meson order_trans)
  ultimately show ?thesis using assms(1) by (simp only: tokens_ok_def) simp
qed

lemma length_filter_filter: "length (filter Q (filter P xs)) \<le> length (filter Q xs)"
  by (induction xs) auto

lemma tokens_ok_filter: "tokens_ok ts \<Longrightarrow> tokens_ok (filter P ts)"
  unfolding tokens_ok_def by (meson distinct_map_filter length_filter_filter order_trans)

lemma sound_modify_user:
  assumes "sound_db db" "modify_user h i f db = Inr (u, db')" "\<And>u. u_id (f u) = u_id u"
  shows "sound_db db'"
  using assms
  by (auto simp: sound_db_def modify_user_Inr users_violation_None update_user_def owned_def)

lemma sound_create_user:
  "sound_db db \<Longrightarrow> create_user hashpw new_id email name p sub role db = Inr (u, db') \<Longrightarrow> sound_db db'"
  by (auto simp: create_user_def Let_def rmap_eq_Inr flush_users_Inr users_violation_None
      sound_db_def owned_def)

lemma sound_update_name: "sound_db db \<Longrightarrow> update_name i name db = Inr (u, db') \<Longrightarrow> sound_db db'"
  unfolding update_name_def by (erule (1) sound_modify_user) simp

lemma sound_update_password:
  "sound_db db \<Longrightarrow> update_password hashpw i p db = Inr (u, db') \<Longrightarrow> sound_db db'"
  unfolding update_password_def by (erule (1) sound_modify_user) simp

lemma sound_update_role: "sound_db db \<Longrightarrow> update_role i role db = Inr (u, db') \<Longrightarrow> sound_db db'"
  unfolding update_role_def by (erule (1) sound_modify_user) simp

lemma sound_refresh_name: "sound_db db \<Longrightarrow> refresh_name u name db = Inr (u', db') \<Longrightarrow> sound_db db'"
  by (auto simp: refresh_name_def intro: sound_update_name split: if_splits)

lemma sound_hard_delete: "sound_db db \<Longrightarrow> hard_delete i db = Inr db' \<Longrightarrow> sound_db db'"
  by (auto simp: hard_delete_def sound_db_def owned_def row_delete_def [of t_user]
      intro: users_ok_delete tokens_ok_filter distinct_row_delete split: option.splits)

lemma tokens_ok_snoc:
  assumes "tokens_ok ts" "t_id t \<notin> t_id ` set ts"
    "length (filter (active_for (t_user t)) ts) < MAX_ACTIVE_PER_USER"
  shows "tokens_ok (ts @ [t])"
  using assms by (auto simp: tokens_ok_def active_for_def)

lemma sound_mint:
  assumes "sound_db db" "mint sha tid random now i name e db = Inr (out, db')"
    "tid \<notin> t_id ` set (api_tokens db)"
  shows "sound_db db'"
proof (cases "get_by_id db i")
  case None
  with assms show ?thesis by (simp add: mint_def)
next
  case (Some u)
  then have "i \<in> u_id ` set (users db)" by (auto simp: get_by_id_def dest: row_get_SomeD)
  with Some assms show ?thesis
    by (auto simp: mint_def Let_def sound_db_def owned_def intro!: tokens_ok_snoc split: if_splits)
qed

lemma sound_tokens_map:
  assumes "sound_db db" "\<And>t. t_id (f t) = t_id t" "\<And>t. t_user (f t) = t_user t"
    "\<And>t. t_revoked_at (f t) = None \<Longrightarrow> t_revoked_at t = None"
  shows "sound_db (db\<lparr>api_tokens := map f (api_tokens db)\<rparr>)"
proof -
  have "tokens_ok (map f (api_tokens db))"
    using assms by (intro tokens_ok_map) (auto simp: sound_db_def active_for_def)
  with assms(1,3) show ?thesis by (auto simp: sound_db_def owned_def)
qed

lemma sound_revoke: "sound_db db \<Longrightarrow> revoke now tid owner db = Inr (r, db') \<Longrightarrow> sound_db db'"
  by (auto simp: revoke_def row_update_def intro!: sound_tokens_map split: option.splits if_splits)

lemma sound_revoke_all: "sound_db db \<Longrightarrow> sound_db (snd (revoke_all_for_user now i db))"
  unfolding revoke_all_for_user_def snd_conv by (rule sound_tokens_map) (auto split: if_splits)

lemma sound_delete_unused: "sound_db db \<Longrightarrow> sound_db (snd (delete_unused_for_user i db))"
  by (auto simp: delete_unused_for_user_def Let_def sound_db_def owned_def distinct_map_filter)

lemma sound_lookup:
  assumes "sound_db db" "lookup_and_validate sha stamped now raw db = Inr (r, db')"
  shows "sound_db db'"
proof -
  have "sound_db (stamp_last_used now tid db)" for tid
    unfolding stamp_last_used_def row_update_def using assms(1)
    by (rule sound_tokens_map) (auto split: option.splits if_splits)
  with assms show ?thesis by (auto simp: lookup_and_validate_def split: option.splits if_splits)
qed

lemma sound_reset_write:
  assumes "sound_db db" "issue_reset_write mail rq db = Inr db'"
  shows "sound_db db'"
  using assms
  by (auto simp: issue_reset_write_def sound_db_def owned_def lock_user_def get_by_id_def
      dest!: row_get_key split: mail_outcome.splits option.splits if_splits)

lemma sound_confirm:
  assumes "sound_db db" "confirm_reset sha hashpw now raw p before db = Inr db'"
  shows "sound_db db'"
proof -
  from assms(2) obtain row :: reset_token and u db1 where
      up: "update_password hashpw (rt_user row) p db = Inr (u, db1)"
    and db': "db' = mark_reset_used now (rt_hash row) db1"
    by (auto simp: confirm_reset_def rbind_eq_Inr split: if_splits)
  from sound_update_password [OF assms(1) up] show ?thesis
    by (auto simp: db' mark_reset_used_def sound_db_def owned_def set_row_update split: if_splits)
qed

lemma sound_bind:
  assumes "sound_db db" "bind_google_identity now i sub db = Inr (b, db')"
  shows "sound_db db'"
  using assms(2)
proof (cases rule: bind_Inr)
  case (bound u)
  then have "modify_user Map.empty i (take_over sub) db = Inr (take_over sub u, update_user i (take_over sub) db)"
    by (simp add: modify_user_Inr)
  from sound_modify_user [OF assms(1) this] show ?thesis
    by (simp add: bound reset_credentials_def sound_revoke_all sound_delete_unused)
qed (simp add: assms)

lemma sound_add_event [simp]: "sound_db (add_event e db) = sound_db db"
  by (simp add: sound_db_def add_event_def owned_def)

lemma sound_resolve:
  assumes "sound_db db" "resolve_or_create_user new_id now sub email name db = Inr (u, db')"
  shows "sound_db db'"
proof (cases "get_by_google_sub db sub")
  case (Some existing)
  with assms show ?thesis by (auto simp: resolve_or_create_user_def intro: sound_refresh_name)
next
  case None
  show ?thesis
  proof (cases "get_by_email db email")
    case None': None
    with None assms show ?thesis by (auto simp: resolve_or_create_user_def intro: sound_create_user)
  next
    case (Some e)
    with None assms obtain b db1 db2 es where
      "bind_google_identity now (u_id e) sub db = Inr (b, db1)"
      "refresh_name (gb_user b) name db1 = Inr (u, db2)"
      "db' = add_event es db2 \<or> db' = db2"
      by (auto simp: resolve_or_create_user_def rbind_eq_Inr split: if_splits)
    with sound_refresh_name [OF sound_bind [OF assms(1)]] show ?thesis by auto
  qed
qed

lemma sound_unbind:
  assumes "sound_db db" "delete_user_google_binding i db = Inr db'"
  shows "sound_db db'"
proof -
  from assms(2) obtain u b db1 es where un: "unbind_google_identity i db = Inr ((u, b), db1)"
    and db': "db' = add_event es db1 \<or> db' = db1"
    by (auto simp: delete_user_google_binding_def rmap_eq_Inr split: if_splits)
  from un have "db1 = db \<or> (\<exists>v. modify_user Map.empty i
      (\<lambda>u. u\<lparr>u_google_sub := None, u_session_epoch := u_session_epoch u + 1\<rparr>) db = Inr (v, db1))"
    by (auto simp: unbind_google_identity_def rmap_eq_Inr split: option.splits if_splits)
  then have "sound_db db1" using assms(1) by (auto elim: sound_modify_user)
  with db' show ?thesis by auto
qed

lemma sound_patch:
  assumes "sound_db db" "patch_me hashpw ctx name password db = Inr (u, db')"
  shows "sound_db db'"
proof -
  from assms(2) obtain v w db1 where
      "(case name of None \<Rightarrow> Inr (v, db) | Some n \<Rightarrow> update_name (u_id v) n db) = Inr (w, db1)"
      "(case password of None \<Rightarrow> Inr (w, db1) | Some p \<Rightarrow> update_password hashpw (u_id w) p db1) = Inr (u, db')"
    by (auto simp: patch_me_def rbind_eq_Inr)
  then show ?thesis
    using assms(1) by (auto dest: sound_update_name sound_update_password split: option.splits)
qed

section \<open>Bookkeeping\<close>

text \<open>Everything in the tables was issued, hashes are not shared between a pending request
  and any other, and a pending request was read no later than the owner's current epoch.\<close>

definition issued :: "auth_sys \<Rightarrow> bool" where
  "issued s \<longleftrightarrow>
     (\<forall>u \<in> set (users (sys_db s)). u_id u \<in> sys_users s)
   \<and> (\<forall>t \<in> set (api_tokens (sys_db s)). t_id t \<in> sys_tokens s)
   \<and> (\<forall>r \<in> set (reset_tokens (sys_db s)). rt_hash r \<in> sys_hashes s)
   \<and> (\<forall>p \<in> set (sys_pending s). rq_hash p \<in> sys_hashes s \<and> rq_user p \<in> sys_users s)"

definition unshared :: "auth_sys \<Rightarrow> bool" where
  "unshared s \<longleftrightarrow> inj_on rq_hash (set (sys_pending s))
     \<and> rq_hash ` set (sys_pending s) \<inter> rt_hash ` set (reset_tokens (sys_db s)) = {}"

definition pending_epochs :: "auth_sys \<Rightarrow> bool" where
  "pending_epochs s \<longleftrightarrow>
     (\<forall>p \<in> set (sys_pending s). \<forall>u \<in> set (users (sys_db s)).
        u_id u = rq_user p \<longrightarrow> rq_epoch p \<le> u_session_epoch u)"

definition books :: "auth_sys \<Rightarrow> bool" where
  "books s \<longleftrightarrow> sound_db (sys_db s) \<and> issued s \<and> unshared s \<and> pending_epochs s"

text \<open>How one step moves the tables: which keys may be new, and what happens to the pending
  requests.\<close>

lemma auth_step_evolves:
  assumes "auth_step sha hashpw s s'"
  obtains U T H where "evolves U T H (sys_db s) (sys_db s')"
    "U \<inter> sys_users s = {}" "U \<subseteq> sys_users s'" "sys_users s \<subseteq> sys_users s'"
    "T \<inter> sys_tokens s = {}" "T \<subseteq> sys_tokens s'" "sys_tokens s \<subseteq> sys_tokens s'"
    "sys_hashes s \<subseteq> sys_hashes s'"
    "(H = {} \<and> sys_pending s' = sys_pending s)
     \<or> (sys_db s' = sys_db s \<and> (\<exists>rq. sys_pending s' = removeAll rq (sys_pending s)))
     \<or> (\<exists>rq \<in> set (sys_pending s). H = {rq_hash rq} \<and> sys_pending s' = removeAll rq (sys_pending s)
          \<and> (\<exists>mail. issue_reset_write mail rq (sys_db s) = Inr (sys_db s')))
     \<or> (sys_db s' = sys_db s \<and> (\<exists>rq random now email. sys_pending s' = rq # sys_pending s
          \<and> issue_reset_read sha random now email (sys_db s) = Some rq
          \<and> rq_hash rq \<notin> sys_hashes s \<and> rq_hash rq \<in> sys_hashes s'))"
  using assms
proof (cases rule: auth_step.cases)
  case (register new_id)
  then show ?thesis by (intro that [of "{new_id}" "{}" "{}"]) (auto intro: evolves_create_user)
next
  case (google new_id)
  then show ?thesis by (intro that [of "{new_id}" "{}" "{}"]) (auto intro: evolves_resolve)
next
  case (unbind i)
  then show ?thesis by (intro that [of "{}" "{}" "{}"]) (auto intro: evolves_unbind)
next
  case (patch ctx)
  then show ?thesis by (intro that [of "{}" "{}" "{}"]) (auto intro: evolves_patch)
next
  case (set_role i)
  then show ?thesis by (intro that [of "{}" "{}" "{}"]) (auto intro: evolves_update_role)
next
  case (delete_user i)
  then show ?thesis by (intro that [of "{}" "{}" "{}"]) (auto intro: evolves_hard_delete)
next
  case (mint_token tid)
  then show ?thesis by (intro that [of "{}" "{tid}" "{}"]) (auto intro: evolves_post_api_tokens)
next
  case (revoke_token now)
  then show ?thesis by (intro that [of "{}" "{}" "{}"]) (auto intro: evolves_revoke)
next
  case (use_token stamped)
  then show ?thesis by (intro that [of "{}" "{}" "{}"]) (auto intro: evolves_lookup)
next
  case (reset_read random)
  then show ?thesis by (intro that [of "{}" "{}" "{}"]) auto
next
  case (reset_write rq)
  then show ?thesis by (intro that [of "{}" "{}" "{rq_hash rq}"]) (auto intro: evolves_reset_write)
next
  case (reset_fail rq)
  then show ?thesis by (intro that [of "{}" "{}" "{}"]) auto
next
  case (reset_confirm now)
  then show ?thesis by (intro that [of "{}" "{}" "{}"]) (auto intro: evolves_confirm)
qed


lemma auth_step_sound:
  assumes "auth_step sha hashpw s s'" "sound_db (sys_db s)" "issued s"
  shows "sound_db (sys_db s')"
  using assms
proof (cases rule: auth_step.cases)
  case (mint_token tid)
  then have "tid \<notin> t_id ` set (api_tokens (sys_db s))" using assms(3) by (auto simp: issued_def)
  with mint_token assms(2) show ?thesis
    by (auto simp: post_api_tokens_def rbind_eq_Inr dest: sound_mint)
qed (auto dest: sound_create_user sound_resolve sound_unbind sound_patch sound_update_role
    sound_hard_delete sound_revoke sound_lookup sound_reset_write sound_confirm)

lemma evolves_usersD:
  "evolves U T H db db' \<Longrightarrow> u' \<in> set (users db')
     \<Longrightarrow> u_id u' \<in> U \<or> (\<exists>u \<in> set (users db). u_id u = u_id u' \<and> u_session_epoch u \<le> u_session_epoch u')"
  by (fastforce simp: evolves_def user_next_def)

lemma evolves_tokensD:
  "evolves U T H db db' \<Longrightarrow> t' \<in> set (api_tokens db')
     \<Longrightarrow> t_id t' \<in> T \<or> (\<exists>t \<in> set (api_tokens db). t_id t = t_id t'
           \<and> (t_revoked_at t \<noteq> None \<longrightarrow> t_revoked_at t' \<noteq> None))"
  by (fastforce simp: evolves_def token_next_def)

lemma evolves_resetsD:
  "evolves U T H db db' \<Longrightarrow> r' \<in> set (reset_tokens db')
     \<Longrightarrow> rt_hash r' \<in> H \<or> (\<exists>r \<in> set (reset_tokens db). rt_hash r = rt_hash r'
           \<and> (rt_used_at r \<noteq> None \<longrightarrow> rt_used_at r' \<noteq> None))"
  by (fastforce simp: evolves_def reset_next_def)

lemma issue_reset_read_Some:
  "issue_reset_read sha random now email db = Some rq
     \<Longrightarrow> \<exists>u \<in> set (users db). rq_user rq = u_id u \<and> rq_epoch rq = u_session_epoch u"
  by (auto simp: issue_reset_read_def get_by_email_def find_Some_iff)

lemma auth_step_issued:
  assumes "auth_step sha hashpw s s'" "issued s"
  shows "issued s'"
proof -
  obtain U T H where ev: "evolves U T H (sys_db s) (sys_db s')"
    and sub: "U \<subseteq> sys_users s'" "sys_users s \<subseteq> sys_users s'" "T \<subseteq> sys_tokens s'"
      "sys_tokens s \<subseteq> sys_tokens s'" "sys_hashes s \<subseteq> sys_hashes s'"
    and pend: "H \<subseteq> rq_hash ` set (sys_pending s) \<or> sys_db s' = sys_db s"
      "\<forall>p \<in> set (sys_pending s'). p \<in> set (sys_pending s) \<or>
         (rq_hash p \<in> sys_hashes s' \<and> (\<exists>u \<in> set (users (sys_db s)). rq_user p = u_id u))"
    by (rule auth_step_evolves [OF assms(1)]) (fastforce dest!: issue_reset_read_Some)
  show ?thesis
    unfolding issued_def
  proof (intro conjI ballI)
    fix u assume "u \<in> set (users (sys_db s'))"
    from evolves_usersD [OF ev this] assms(2) sub show "u_id u \<in> sys_users s'"
      by (auto simp: issued_def)
  next
    fix t assume "t \<in> set (api_tokens (sys_db s'))"
    from evolves_tokensD [OF ev this] assms(2) sub show "t_id t \<in> sys_tokens s'"
      by (auto simp: issued_def)
  next
    fix r assume r: "r \<in> set (reset_tokens (sys_db s'))"
    have "rt_hash r \<in> sys_hashes s"
      using evolves_resetsD [OF ev r] pend(1) r assms(2) by (auto simp: issued_def)
    with sub show "rt_hash r \<in> sys_hashes s'" by blast
  next
    fix p assume "p \<in> set (sys_pending s')"
    with pend(2) assms(2) sub show "rq_hash p \<in> sys_hashes s'" by (auto simp: issued_def)
  next
    fix p assume "p \<in> set (sys_pending s')"
    with pend(2) assms(2) sub(2) show "rq_user p \<in> sys_users s'"
      unfolding issued_def by (metis subsetD)
  qed
qed

lemma disjoint_insert_sub: "A \<subseteq> B \<Longrightarrow> h \<notin> A \<Longrightarrow> C \<subseteq> insert h D \<Longrightarrow> B \<inter> D = {} \<Longrightarrow> A \<inter> C = {}"
  by blast

lemma auth_step_unshared:
  assumes "auth_step sha hashpw s s'" "issued s" "unshared s"
  shows "unshared s'"
proof -
  obtain U T H where ev: "evolves U T H (sys_db s) (sys_db s')"
    and pend: "(H = {} \<and> sys_pending s' = sys_pending s)
     \<or> (sys_db s' = sys_db s \<and> (\<exists>rq. sys_pending s' = removeAll rq (sys_pending s)))
     \<or> (\<exists>rq \<in> set (sys_pending s). H = {rq_hash rq} \<and> sys_pending s' = removeAll rq (sys_pending s))
     \<or> (sys_db s' = sys_db s \<and> (\<exists>rq. sys_pending s' = rq # sys_pending s \<and> rq_hash rq \<notin> sys_hashes s))"
    by (rule auth_step_evolves [OF assms(1)]) blast
  have resets: "rt_hash ` set (reset_tokens (sys_db s')) \<subseteq> H \<union> rt_hash ` set (reset_tokens (sys_db s))"
  proof
    fix h assume "h \<in> rt_hash ` set (reset_tokens (sys_db s'))"
    then obtain r where "r \<in> set (reset_tokens (sys_db s'))" "h = rt_hash r" by blast
    with evolves_resetsD [OF ev this(1)] show "h \<in> H \<union> rt_hash ` set (reset_tokens (sys_db s))"
      by (metis UnI1 UnI2 imageI)
  qed
  from pend show ?thesis
  proof (elim disjE conjE exE bexE)
    assume "H = {}" "sys_pending s' = sys_pending s"
    with resets assms(3) show ?thesis by (auto simp: unshared_def)
  next
    fix rq assume "sys_db s' = sys_db s" "sys_pending s' = removeAll rq (sys_pending s)"
    with assms(3) show ?thesis by (auto simp: unshared_def intro: inj_on_subset)
  next
    fix rq assume rq: "rq \<in> set (sys_pending s)" "H = {rq_hash rq}"
      "sys_pending s' = removeAll rq (sys_pending s)"
    then have "rq_hash rq \<notin> rq_hash ` set (sys_pending s')"
      using assms(3) by (auto simp: unshared_def dest: inj_onD)
    moreover have "rq_hash ` set (sys_pending s') \<subseteq> rq_hash ` set (sys_pending s)"
      using rq(3) by auto
    moreover have "inj_on rq_hash (set (sys_pending s'))"
      using assms(3) rq(3) by (auto simp: unshared_def intro: inj_on_subset)
    ultimately show ?thesis
      using assms(3) resets rq(2) disjoint_insert_sub [of "rq_hash ` set (sys_pending s')"]
      by (simp add: unshared_def)
  next
    fix rq assume rq: "sys_db s' = sys_db s" "sys_pending s' = rq # sys_pending s"
      "rq_hash rq \<notin> sys_hashes s"
    with assms(2,3) show ?thesis by (auto simp: unshared_def issued_def)
  qed
qed

lemma unique_user:
  "distinct (map u_id us) \<Longrightarrow> u \<in> set us \<Longrightarrow> v \<in> set us \<Longrightarrow> u_id u = u_id v \<Longrightarrow> u = v"
  by (auto simp: distinct_map dest: inj_onD)

lemma auth_step_pending_epochs:
  assumes "auth_step sha hashpw s s'" "books s"
  shows "pending_epochs s'"
proof -
  obtain U T H where ev: "evolves U T H (sys_db s) (sys_db s')" and U: "U \<inter> sys_users s = {}"
    and pend: "\<forall>p \<in> set (sys_pending s'). p \<in> set (sys_pending s)
     \<or> (sys_db s' = sys_db s
          \<and> (\<exists>random now email. issue_reset_read sha random now email (sys_db s) = Some p))"
    by (rule auth_step_evolves [OF assms(1)]) fastforce
  show ?thesis
    unfolding pending_epochs_def
  proof (intro ballI impI)
    fix p u assume p: "p \<in> set (sys_pending s')" and u: "u \<in> set (users (sys_db s'))" "u_id u = rq_user p"
    show "rq_epoch p \<le> u_session_epoch u"
    proof (cases "p \<in> set (sys_pending s)")
      case True
      with assms(2) U u(2) have "u_id u \<notin> U" by (auto simp: books_def issued_def)
      with evolves_usersD [OF ev u(1)] obtain v where "v \<in> set (users (sys_db s))"
        "u_id v = u_id u" "u_session_epoch v \<le> u_session_epoch u" by blast
      with True assms(2) u(2) show ?thesis by (force simp: books_def pending_epochs_def)
    next
      case False
      with p pend obtain random now email where same: "sys_db s' = sys_db s"
        and rd: "issue_reset_read sha random now email (sys_db s) = Some p" by auto
      from issue_reset_read_Some [OF rd] obtain v where "v \<in> set (users (sys_db s))"
        "rq_user p = u_id v" "rq_epoch p = u_session_epoch v" by blast
      with u same assms(2) unique_user [of "users (sys_db s)" u v] show ?thesis
        by (auto simp: books_def sound_db_def users_ok_def)
    qed
  qed
qed

lemma auth_step_books: "auth_step sha hashpw s s' \<Longrightarrow> books s \<Longrightarrow> books s'"
  using auth_step_sound auth_step_issued auth_step_unshared auth_step_pending_epochs
  unfolding books_def by blast

interpretation auth_books: step_invariant "auth_step sha hashpw" books
  by unfold_locales (rule auth_step_books)

section \<open>Eviction\<close>

text \<open>User \<open>i\<close>'s sessions up to epoch \<open>E\<close>, the API tokens \<open>T\<close> and the reset links
  \<open>H\<close> authenticate nothing any more.\<close>

definition evicted :: "nat \<Rightarrow> nat \<Rightarrow> nat set \<Rightarrow> string set \<Rightarrow> auth_sys \<Rightarrow> bool" where
  "evicted i E T H s \<longleftrightarrow>
     i \<in> sys_users s \<and> T \<subseteq> sys_tokens s \<and> H \<subseteq> sys_hashes s
   \<and> (\<forall>u \<in> set (users (sys_db s)). u_id u = i \<longrightarrow> E < u_session_epoch u)
   \<and> (\<forall>t \<in> set (api_tokens (sys_db s)). t_id t \<in> T \<longrightarrow> t_revoked_at t \<noteq> None)
   \<and> (\<forall>r \<in> set (reset_tokens (sys_db s)). rt_hash r \<in> H \<longrightarrow> rt_used_at r \<noteq> None)
   \<and> (\<forall>p \<in> set (sys_pending s). rq_hash p \<in> H \<longrightarrow> rq_user p = i \<and> rq_epoch p \<le> E)"

lemma stale_reset_write:
  assumes "issue_reset_write mail rq db = Inr db'"
    "\<forall>u \<in> set (users db). u_id u = rq_user rq \<longrightarrow> rq_epoch rq < u_session_epoch u"
  shows "db' = db"
  using assms
  by (auto simp: issue_reset_write_def lock_user_def get_by_id_def dest!: row_get_SomeD
      split: mail_outcome.splits option.splits if_splits)

lemma auth_step_evicted:
  assumes "auth_step sha hashpw s s'" "evicted i E T H s"
  shows "evicted i E T H s'"
proof -
  obtain U T' H' where ev: "evolves U T' H' (sys_db s) (sys_db s')"
    and fresh: "U \<inter> sys_users s = {}" "sys_users s \<subseteq> sys_users s'" "T' \<inter> sys_tokens s = {}"
      "sys_tokens s \<subseteq> sys_tokens s'" "sys_hashes s \<subseteq> sys_hashes s'"
    and pend: "\<forall>p \<in> set (sys_pending s'). p \<in> set (sys_pending s) \<or> rq_hash p \<notin> sys_hashes s"
      "H' = {} \<or> sys_db s' = sys_db s \<or> (\<exists>rq mail. rq \<in> set (sys_pending s) \<and> H' = {rq_hash rq}
          \<and> issue_reset_write mail rq (sys_db s) = Inr (sys_db s'))"
    by (rule auth_step_evolves [OF assms(1)]) fastforce
  have i: "i \<in> sys_users s" "T \<subseteq> sys_tokens s" "H \<subseteq> sys_hashes s"
    using assms(2) by (auto simp: evicted_def)
  have users: "E < u_session_epoch u" if "u \<in> set (users (sys_db s'))" "u_id u = i" for u
    using evolves_usersD [OF ev that(1)] that(2) i fresh(1) assms(2)
    by (fastforce simp: evicted_def)
  have tokens: "t_revoked_at t \<noteq> None" if "t \<in> set (api_tokens (sys_db s'))" "t_id t \<in> T" for t
    using evolves_tokensD [OF ev that(1)] that(2) i fresh(3) assms(2)
    by (fastforce simp: evicted_def)
  have resets: "rt_used_at r \<noteq> None" if r: "r \<in> set (reset_tokens (sys_db s'))" "rt_hash r \<in> H" for r
  proof (cases "rt_hash r \<in> H'")
    case False
    with evolves_resetsD [OF ev r(1)] r(2) assms(2) show ?thesis by (fastforce simp: evicted_def)
  next
    case True
    with pend(2) have "sys_db s' = sys_db s"
    proof (elim disjE exE conjE)
      fix rq mail assume rq: "rq \<in> set (sys_pending s)" "H' = {rq_hash rq}"
        and wr: "issue_reset_write mail rq (sys_db s) = Inr (sys_db s')"
      from rq True r(2) have "rq_hash rq \<in> H" by simp
      with rq(1) assms(2) have "rq_user rq = i" "rq_epoch rq \<le> E" by (auto simp: evicted_def)
      with assms(2) show "sys_db s' = sys_db s"
        by (intro stale_reset_write [OF wr]) (auto simp: evicted_def)
    qed (use True in auto)
    with r assms(2) show ?thesis by (auto simp: evicted_def)
  qed
  have "rq_user p = i \<and> rq_epoch p \<le> E" if "p \<in> set (sys_pending s')" "rq_hash p \<in> H" for p
    using pend(1) that i assms(2) by (auto simp: evicted_def)
  with users tokens resets i fresh show ?thesis by (auto simp: evicted_def)
qed

interpretation eviction: step_invariant "auth_step sha hashpw" "evicted i E T H"
  by unfold_locales (rule auth_step_evicted)

lemma evicted_evolves:
  assumes "evicted i E T H s" "evolves {} {} {} (sys_db s) db'"
  shows "evicted i E T H (s\<lparr>sys_db := db'\<rparr>)"
proof -
  have "E < u_session_epoch u" if "u \<in> set (users db')" "u_id u = i" for u
    using evolves_usersD [OF assms(2) that(1)] that(2) assms(1) by (fastforce simp: evicted_def)
  moreover have "t_revoked_at t \<noteq> None" if "t \<in> set (api_tokens db')" "t_id t \<in> T" for t
    using evolves_tokensD [OF assms(2) that(1)] that(2) assms(1) by (fastforce simp: evicted_def)
  moreover have "rt_used_at r \<noteq> None" if "r \<in> set (reset_tokens db')" "rt_hash r \<in> H" for r
    using evolves_resetsD [OF assms(2) that(1)] that(2) assms(1) by (fastforce simp: evicted_def)
  ultimately show ?thesis using assms(1) by (auto simp: evicted_def)
qed

text \<open>The credentials of user \<open>i\<close> in a state.\<close>

definition token_ids_of :: "nat \<Rightarrow> auth_sys \<Rightarrow> nat set" where
  "token_ids_of i s = t_id ` {t \<in> set (api_tokens (sys_db s)). t_user t = i}"

definition reset_hashes_of :: "nat \<Rightarrow> auth_sys \<Rightarrow> string set" where
  "reset_hashes_of i s = rt_hash ` {r \<in> set (reset_tokens (sys_db s)). rt_user r = i}
     \<union> rq_hash ` {p \<in> set (sys_pending s). rq_user p = i}"

lemma set_users_reset_credentials:
  "set (users (reset_credentials now i sub db))
     = (\<lambda>u. if u_id u = i then take_over sub u else u) ` set (users db)"
  by (simp add: reset_credentials_def delete_unused_for_user_def revoke_all_for_user_def Let_def
      update_user_def set_row_update)

lemma api_tokens_reset_credentials:
  "set (api_tokens (reset_credentials now i sub db))
     = (\<lambda>t. if active_for i t then t\<lparr>t_revoked_at := Some now\<rparr> else t) ` set (api_tokens db)"
  by (simp add: reset_credentials_def delete_unused_for_user_def revoke_all_for_user_def Let_def
      update_user_def)

lemma reset_tokens_reset_credentials:
  "set (reset_tokens (reset_credentials now i sub db))
     = {r \<in> set (reset_tokens db). \<not> (rt_user r = i \<and> rt_used_at r = None)}"
  by (simp add: reset_credentials_def delete_unused_for_user_def revoke_all_for_user_def Let_def
      update_user_def)

lemma bind_evicts:
  assumes "books s" "get_by_id (sys_db s) i = Some u"
  shows "evicted i (u_session_epoch u) (token_ids_of i s) (reset_hashes_of i s)
    (s\<lparr>sys_db := reset_credentials now i sub (sys_db s)\<rparr>)"
proof -
  have u: "u \<in> set (users (sys_db s))" "u_id u = i"
    using assms(2) by (auto simp: get_by_id_def dest: row_get_SomeD)
  have uniq: "v = u" if "v \<in> set (users (sys_db s))" "u_id v = i" for v
    using assms(1) that u unique_user by (auto simp: books_def sound_db_def users_ok_def)
  have tok: "t_user t = i" if "t \<in> set (api_tokens (sys_db s))" "t_id t \<in> token_ids_of i s" for t
    using assms(1) that
    by (auto simp: token_ids_of_def books_def sound_db_def tokens_ok_def distinct_map dest: inj_onD)
  have pend: "rq_user p = i \<and> rq_epoch p \<le> u_session_epoch u"
    if "p \<in> set (sys_pending s)" "rq_hash p \<in> reset_hashes_of i s" for p
    using assms(1) that u
    by (auto simp: reset_hashes_of_def books_def unshared_def pending_epochs_def dest: inj_onD)
  have rest: "rt_user r = i"
    if "r \<in> set (reset_tokens (sys_db s))" "rt_hash r \<in> reset_hashes_of i s" for r
    using assms(1) that
    by (auto simp: reset_hashes_of_def books_def unshared_def sound_db_def distinct_map dest: inj_onD)
  have subs: "token_ids_of i s \<subseteq> sys_tokens s" "reset_hashes_of i s \<subseteq> sys_hashes s"
    using assms(1) by (auto simp: token_ids_of_def reset_hashes_of_def books_def issued_def)
  show ?thesis
    using assms(1) u subs
    by (auto simp: evicted_def set_users_reset_credentials api_tokens_reset_credentials
        reset_tokens_reset_credentials books_def issued_def active_for_def
        dest: uniq tok pend rest)
qed

end
