(* ===== verification/Auth_Properties.thy ===== *)
theory Auth_Properties
  imports Auth_Safety "HOL-Library.Countable"
begin

text \<open>
  The properties of the authentication component: what a Google bind evicts, the
  constraints every reachable state keeps, what an API token may do, and single use of a
  refresh token.
\<close>

section \<open>Consequences of eviction\<close>

definition session_dead :: "(string \<Rightarrow> string) \<Rightarrow> jwt_decode \<Rightarrow> nat \<Rightarrow> nat \<Rightarrow> auth_db \<Rightarrow> bool" where
  "session_dead sha decode i E db \<longleftrightarrow>
     (\<forall>stamped now tok p n. \<not> py_startswith tok ''dsk_'' \<and> decode True now tok = Inr p
        \<and> p_sub p = Sub_uuid i \<and> p_ses p = Claim_int n \<and> n \<le> int E
        \<longrightarrow> require_authenticated sha decode stamped now (Some tok) db
             = Inl (AuthenticationError ''UNAUTHORIZED''))"

text \<open>No refresh cookie of an epoch up to \<open>E\<close> is exchanged for a new session.\<close>

definition refresh_dead :: "jwt_encode \<Rightarrow> jwt_decode \<Rightarrow> jwt_settings \<Rightarrow> (string \<Rightarrow> string) \<Rightarrow> nat \<Rightarrow> nat \<Rightarrow> auth_db \<Rightarrow> bool" where
  "refresh_dead encode decode cfg sha i E db \<longleftrightarrow>
     (\<forall>up now tok p n r. decode True now tok = Inr p \<and> p_sub p = Sub_uuid i \<and> p_ses p = Claim_int n \<and> n \<le> int E
        \<longrightarrow> (\<exists>e. fst (post_token_refresh encode decode cfg sha up now (Some tok) db r) = Inl e))"

text \<open>
  A request that was authenticated, by a session of an epoch up to \<open>E\<close> or by a token of \<open>T\<close>, and has not yet reached
  its handler: it neither mints a token nor changes the password.
\<close>

definition stale_context :: "nat \<Rightarrow> nat \<Rightarrow> nat set \<Rightarrow> auth_context \<Rightarrow> bool" where
  "stale_context i E T ctx \<longleftrightarrow> u_id (ctx_user ctx) = i
     \<and> (case ctx_api_token_id ctx of
          Some tid \<Rightarrow> tid \<in> T
        | None \<Rightarrow> (\<forall>n. ctx_session_epoch ctx = Some n \<longrightarrow> n \<le> E))"

definition context_dead :: "(string \<Rightarrow> string) \<Rightarrow> (string \<Rightarrow> string) \<Rightarrow> nat \<Rightarrow> nat \<Rightarrow> nat set \<Rightarrow> auth_db \<Rightarrow> bool" where
  "context_dead sha hashpw i E T db \<longleftrightarrow>
     (\<forall>ctx. stale_context i E T ctx \<longrightarrow>
        (\<forall>new_id random now name expires. \<exists>e. post_api_tokens sha new_id random now ctx name expires db = Inl e) \<and>
        (\<forall>name_opt password. \<exists>e. patch_me hashpw ctx name_opt (Some password) db = Inl e))"

definition pats_dead :: "(string \<Rightarrow> string) \<Rightarrow> nat set \<Rightarrow> auth_db \<Rightarrow> bool" where
  "pats_dead sha T db \<longleftrightarrow>
     (\<forall>stamped now raw u role tid db'.
        lookup_and_validate sha stamped now raw db = Inr ((u, role, tid), db') \<longrightarrow> tid \<notin> T)"

definition links_dead :: "string set \<Rightarrow> auth_db \<Rightarrow> bool" where
  "links_dead H db \<longleftrightarrow>
     (\<forall>now h. h \<in> H \<longrightarrow> load_valid_token now h db = Inl (BadRequestError ''INVALID_RESET_TOKEN''))"

lemma lookup_validD:
  assumes "lookup_and_validate sha stamped now raw db = Inr ((u, role, tid), db')"
  shows "\<exists>t \<in> set (api_tokens db). t_id t = tid \<and> t_hash t = sha raw \<and> t_revoked_at t = None
    \<and> (\<forall>e. t_expires_at t = Some e \<longrightarrow> now < e) \<and> get_by_id db (t_user t) = Some u
    \<and> role = intersect_role (t_role_snapshot t) (u_role u)"
  using assms
  by (auto simp: lookup_and_validate_def find_Some_iff split: option.splits if_splits)

lemma evicted_dead:
  assumes "evicted i E T H s"
  shows "session_dead sha decode i E (sys_db s)" "refresh_dead encode decode cfg sha i E (sys_db s)"
    "context_dead sha hashpw i E T (sys_db s)" "pats_dead sha T (sys_db s)" "links_dead H (sys_db s)"
proof -
  have epoch: "E < u_session_epoch u" if "get_by_id (sys_db s) i = Some u" for u
    using assms that by (auto simp: evicted_def get_by_id_def dest!: row_get_SomeD)
  then show "session_dead sha decode i E (sys_db s)"
    by (force simp: session_dead_def require_authenticated_def decode_access_token_def
        split: option.splits)
  have inactive: "\<not> is_active tid (sys_db s)" if "tid \<in> T" for tid
    using assms that by (auto simp: is_active_def evicted_def dest!: row_get_SomeD split: option.splits)
  from epoch have gate: "\<not> session_epoch_matches (p_ses p) (u_session_epoch u)"
    if "get_by_id (sys_db s) i = Some u" "p_ses p = Claim_int n" "n \<le> int E" for u p n
    using that by force
  show "refresh_dead encode decode cfg sha i E (sys_db s)"
    unfolding refresh_dead_def
    by (auto simp: post_token_refresh_def decode_refresh_token_def gate dest!: epoch
        split: option.split sum.split bool.split)
  show "context_dead sha hashpw i E T (sys_db s)"
    unfolding context_dead_def
  proof (intro allI impI)
    fix ctx assume "stale_context i E T ctx"
    with epoch inactive have "\<exists>e. revalidate_under_user_lock ctx (sys_db s) = Inl e"
      by (fastforce simp: stale_context_def revalidate_under_user_lock_def lock_user_def split: option.splits)
    then obtain e where "revalidate_under_user_lock ctx (sys_db s) = Inl e" ..
    then show "(\<forall>new_id random now name expires. \<exists>e. post_api_tokens sha new_id random now ctx name expires (sys_db s) = Inl e) \<and>
        (\<forall>name_opt password. \<exists>e. patch_me hashpw ctx name_opt (Some password) (sys_db s) = Inl e)"
      by (simp add: post_api_tokens_def patch_me_def)
  qed
  show "pats_dead sha T (sys_db s)"
    using assms by (fastforce simp: pats_dead_def evicted_def dest!: lookup_validD)
  show "links_dead H (sys_db s)"
    using assms by (auto simp: links_dead_def load_valid_token_def evicted_def
        dest!: row_get_SomeD split: option.splits)
qed

lemma reset_credentials_password:
  assumes "v \<in> set (users (reset_credentials now i sub db))" "u_id v = i"
  shows "u_password_hash v = None"
proof -
  from assms(1) obtain u where "v = (if u_id u = i then take_over sub u else u)"
    unfolding set_users_reset_credentials by blast
  with assms(2) show ?thesis by (cases "u_id u = i") simp_all
qed

lemma refresh_name_password:
  assumes "refresh_name u name db = Inr (u', db')" "w \<in> set (users db')"
  shows "\<exists>w0 \<in> set (users db). u_id w0 = u_id w \<and> u_password_hash w0 = u_password_hash w"
  using assms
  by (fastforce simp: refresh_name_def update_name_def modify_user_Inr update_user_def set_row_update split: if_splits)

lemma resolve_bind:
  assumes "get_by_google_sub db sub = None" "get_by_email db email = Some u" "u_google_sub u = None"
    "resolve_or_create_user new_id now sub email name db = Inr (v, db')"
    "distinct (map u_id (users db))"
  shows "get_by_id db (u_id u) = Some u \<and> u_password_hash v = None
    \<and> (\<forall>w \<in> set (users db'). u_id w = u_id u \<longrightarrow> u_password_hash w = None)
    \<and> evolves {} {} {} (reset_credentials now (u_id u) sub db) db'"
proof -
  have "u \<in> set (users db)" using assms(2) by (auto simp: get_by_email_def find_Some_iff)
  then have u: "get_by_id db (u_id u) = Some u"
    unfolding get_by_id_def using row_get_unique [OF assms(5)] by blast
  obtain b db1 db2 es where b: "bind_google_identity now (u_id u) sub db = Inr (b, db1)"
    and r: "refresh_name (gb_user b) name db1 = Inr (v, db2)"
    and db': "db' = add_event es db2 \<or> db' = db2"
    using assms(1,2,4) by (auto simp: resolve_or_create_user_def rbind_eq_Inr split: if_splits)
  from b have db1: "db1 = reset_credentials now (u_id u) sub db" "gb_user b = take_over sub u"
    using u assms(3) by (cases rule: bind_Inr; simp)+
  have "u_password_hash v = None"
    using r reset_credentials_password unfolding db1
    by (auto simp: refresh_name_def update_name_def modify_user_Inr get_by_id_def
        split: if_splits dest!: row_get_SomeD)
  moreover have "u_password_hash w = None" if "w \<in> set (users db')" "u_id w = u_id u" for w
  proof -
    have "users db' = users db2" using db' by (auto simp: add_event_def)
    with refresh_name_password [OF r, of w] that reset_credentials_password show ?thesis
      unfolding db1 by metis
  qed
  ultimately show ?thesis using u db' db1 evolves_refresh_name [OF r] by auto
qed

text \<open>C6. A credential reset is final. When a verified Google identity takes over an
  unbound account, its password is gone, and in every state reachable afterwards, whatever
  operations interleave: no JWT of an epoch up to the one before the reset authenticates, no
  refresh cookie of such an epoch is exchanged for a session, no request that was authenticated
  before the reset and is still in flight mints an API token or changes the password, none of the
  API tokens the account had validates, and no reset link that was stored or still in flight (its
  mail being sent) at that moment is ever accepted.\<close>

theorem credential_reset_final:
  assumes "books s" "get_by_google_sub (sys_db s) sub = None"
    and "get_by_email (sys_db s) email = Some u" "u_google_sub u = None"
    and "resolve_or_create_user new_id now sub email name (sys_db s) = Inr (v, db')"
    and "new_id \<notin> sys_users s"
    and "(auth_step sha hashpw)\<^sup>*\<^sup>* (s\<lparr>sys_db := db', sys_users := insert new_id (sys_users s)\<rparr>) s'"
  shows "u_password_hash v = None \<and> (\<forall>w \<in> set (users db'). u_id w = u_id u \<longrightarrow> u_password_hash w = None)
    \<and> session_dead sha decode (u_id u) (u_session_epoch u) (sys_db s')
    \<and> refresh_dead encode decode cfg sha (u_id u) (u_session_epoch u) (sys_db s')
    \<and> context_dead sha hashpw (u_id u) (u_session_epoch u) (token_ids_of (u_id u) s) (sys_db s')
    \<and> pats_dead sha (token_ids_of (u_id u) s) (sys_db s')
    \<and> links_dead (reset_hashes_of (u_id u) s) (sys_db s')"
proof -
  let ?ev = "evicted (u_id u) (u_session_epoch u) (token_ids_of (u_id u) s) (reset_hashes_of (u_id u) s)"
  let ?s1 = "s\<lparr>sys_db := reset_credentials now (u_id u) sub (sys_db s)\<rparr>"
  have "distinct (map u_id (users (sys_db s)))"
    using assms(1) by (simp add: books_def sound_db_def users_ok_def)
  from resolve_bind [OF assms(2-5) this] have b: "get_by_id (sys_db s) (u_id u) = Some u"
    "u_password_hash v = None" "\<forall>w \<in> set (users db'). u_id w = u_id u \<longrightarrow> u_password_hash w = None"
    "evolves {} {} {} (sys_db ?s1) db'" by auto
  have "?ev (s\<lparr>sys_db := db'\<rparr>)"
    using evicted_evolves [OF bind_evicts [OF assms(1) b(1), where now = now and sub = sub] b(4)] by simp
  then have "?ev (s\<lparr>sys_db := db', sys_users := insert new_id (sys_users s)\<rparr>)"
    by (auto simp: evicted_def)
  from eviction.run_keeps [OF assms(7) this] have "?ev s'" .
  from evicted_dead [OF this] b(2,3) show ?thesis by blast
qed

definition taken_user :: user_row where
  "taken_user = \<lparr>u_id = 1, u_email = ''a@x'', u_name = ''a'', u_password_hash = Some ''h'',
     u_google_sub = None, u_role = ''Reader'', u_session_epoch = 4\<rparr>"

definition taken_sys :: auth_sys where
  "taken_sys = \<lparr>sys_db = \<lparr>users = [taken_user], api_tokens =
       [\<lparr>t_id = 7, t_user = 1, t_name = ''ci'', t_hash = ''t'', t_role_snapshot = ''Reader'',
         t_created_at = 0, t_last_used_at = None, t_expires_at = None, t_revoked_at = None\<rparr>],
       reset_tokens = [], auth_events = []\<rparr>,
     sys_pending = [\<lparr>rq_user = 1, rq_epoch = 4, rq_recipient = ''a@x'', rq_hash = ''r'', rq_expires_at = 900\<rparr>],
     sys_users = {1}, sys_tokens = {7}, sys_hashes = {''r''}\<rparr>"

lemma books_taken_sys: "books taken_sys"
  by (auto simp: books_def taken_sys_def taken_user_def sound_db_def users_ok_def tokens_ok_def
      owned_def issued_def unshared_def pending_epochs_def subs_def VALID_ROLES_def
      MAX_ACTIVE_PER_USER_def)

theorem credential_reset_final_witness:
  "\<exists>db'. resolve_or_create_user 2 10 ''g'' ''A@x'' ''a'' (sys_db taken_sys)
        = Inr (take_over ''g'' taken_user, db')
     \<and> pats_dead (\<lambda>x. x) {7} db' \<and> links_dead {''r''} db'"
proof -
  have found: "get_by_google_sub (sys_db taken_sys) ''g'' = None"
    "get_by_email (sys_db taken_sys) ''A@x'' = Some taken_user" "u_google_sub taken_user = None"
    by code_simp+
  let ?db = "snd (projr (resolve_or_create_user 2 10 ''g'' ''A@x'' ''a'' (sys_db taken_sys)))"
  have res: "resolve_or_create_user 2 10 ''g'' ''A@x'' ''a'' (sys_db taken_sys)
      = Inr (take_over ''g'' taken_user, ?db)" by code_simp
  have sets: "token_ids_of (u_id taken_user) taken_sys = {7}"
    "reset_hashes_of (u_id taken_user) taken_sys = {''r''}"
    unfolding token_ids_of_def reset_hashes_of_def taken_sys_def taken_user_def by force+
  have new: "2 \<notin> sys_users taken_sys" by (simp add: taken_sys_def)
  have "pats_dead (\<lambda>x. x) {7} ?db \<and> links_dead {''r''} ?db"
    using credential_reset_final [OF books_taken_sys found res new rtranclp.rtrancl_refl,
      of "\<lambda>x. x", unfolded sets] by simp
  with res show ?thesis by blast
qed

section \<open>The store's invariant\<close>

definition empty_sys :: auth_sys where
  "empty_sys = \<lparr>sys_db = \<lparr>users = [], api_tokens = [], reset_tokens = [], auth_events = []\<rparr>,
     sys_pending = [], sys_users = {}, sys_tokens = {}, sys_hashes = {}\<rparr>"

lemma books_empty_sys: "books empty_sys"
  by (simp add: books_def empty_sys_def sound_db_def users_ok_def tokens_ok_def owned_def
      issued_def unshared_def pending_epochs_def subs_def)

text \<open>C7. Every state reachable from an empty deployment keeps the store sound: each account
  has a password or a Google identity and one of the three roles; ids, addresses (without
  regard to case) and Google subjects are unique; every credential row has an owner; no
  account holds more than ten active API tokens; reset-token hashes are unique.\<close>

theorem reachable_store_sound:
  assumes "(auth_step sha hashpw)\<^sup>*\<^sup>* empty_sys s"
  shows "users_ok (users (sys_db s)) \<and> tokens_ok (api_tokens (sys_db s)) \<and> owned (sys_db s)
    \<and> distinct (map rt_hash (reset_tokens (sys_db s)))"
  using auth_books.run_keeps [OF assms books_empty_sys] by (simp add: books_def sound_db_def)

theorem reachable_store_sound_witness:
  "\<exists>s u. (auth_step (\<lambda>x. x) (\<lambda>x. x))\<^sup>*\<^sup>* empty_sys s \<and> users (sys_db s) = [u] \<and> u_email u = ''a@x''
     \<and> users_ok (users (sys_db s))"
proof -
  let ?r = "create_user (\<lambda>x. x) 1 ''A@x'' ''a'' (Some ''pw'') None ''Reader'' (sys_db empty_sys)"
  have r: "?r = Inr (fst (projr ?r), snd (projr ?r))" by code_simp
  have us: "users (snd (projr ?r)) = [fst (projr ?r)]" "u_email (fst (projr ?r)) = ''a@x''" by code_simp+
  have step: "(auth_step (\<lambda>x. x) (\<lambda>x. x))\<^sup>*\<^sup>* empty_sys
      (empty_sys\<lparr>sys_db := snd (projr ?r), sys_users := insert 1 (sys_users empty_sys)\<rparr>)"
    by (rule r_into_rtranclp, rule register [OF _ r]) (simp add: empty_sys_def)
  from reachable_store_sound [OF step] step us show ?thesis
    by (intro exI [of _ "empty_sys\<lparr>sys_db := snd (projr ?r), sys_users := insert 1 (sys_users empty_sys)\<rparr>"]
        exI [of _ "fst (projr ?r)"]) simp
qed

section \<open>API tokens\<close>

lemma role_rank_intersect: "role_rank (intersect_role a b) = min (role_rank a) (role_rank b)"
  by (simp add: intersect_role_def)

text \<open>C8. An API token never escalates: a \<open>dsk_\<close> bearer authenticates only through a stored
  token with its hash that is neither revoked nor expired, as that token's owner, with a
  role ranked at most both the role at minting time and the owner's current role; so after
  a demotion to Reader no write method passes \<open>require_writer\<close> and no admin route opens.\<close>

theorem pat_never_escalates:
  assumes "require_authenticated sha decode stamped now (Some tok) db = Inr (ctx, db')"
    and "py_startswith tok ''dsk_''"
  shows "\<exists>t \<in> set (api_tokens db). t_hash t = sha tok \<and> ctx_api_token_id ctx = Some (t_id t)
    \<and> t_revoked_at t = None \<and> (\<forall>e. t_expires_at t = Some e \<longrightarrow> now < e)
    \<and> get_by_id db (t_user t) = Some (ctx_user ctx)
    \<and> role_rank (ctx_effective_role ctx)
        = min (role_rank (t_role_snapshot t)) (role_rank (u_role (ctx_user ctx)))
    \<and> (u_role (ctx_user ctx) = ''Reader'' \<longrightarrow> (\<exists>e. require_admin ctx = Inl e))"
proof -
  from assms obtain u role tid where lk: "lookup_and_validate sha stamped now tok db = Inr ((u, role, tid), db')"
    and ctx: "ctx = \<lparr>ctx_user = u, ctx_effective_role = role, ctx_session_epoch = None,
                     ctx_api_token_id = Some tid\<rparr>"
    by (auto simp: require_authenticated_def rmap_eq_Inr)
  have "role_rank ''Reader'' = 0" "role_rank ''Admin'' = 2" by (simp_all add: role_rank_def)
  then have "u_role u = ''Reader'' \<longrightarrow> intersect_role r (u_role u) \<noteq> ''Admin''" for r
    using role_rank_intersect [of r "u_role u"] by auto
  then have admin: "u_role u = ''Reader'' \<longrightarrow> (\<exists>e. require_admin ctx = Inl e)"
    if "role = intersect_role r (u_role u)" for r
    using that by (simp add: require_admin_def ctx)
  from lookup_validD [OF lk] obtain t where t: "t \<in> set (api_tokens db)" "t_id t = tid"
    "t_hash t = sha tok" "t_revoked_at t = None" "\<forall>e. t_expires_at t = Some e \<longrightarrow> now < e"
    "get_by_id db (t_user t) = Some u" "role = intersect_role (t_role_snapshot t) (u_role u)"
    by blast
  with admin [OF t(7)] show ?thesis
    by (intro bexI [of _ t]) (simp_all add: ctx role_rank_intersect)
qed

theorem pat_never_escalates_witness:
  "\<exists>ctx db'. require_authenticated (\<lambda>x. ''t'') (\<lambda>_ _ _. Inl PyJWTError) False 5 (Some ''dsk_x'')
       (sys_db taken_sys) = Inr (ctx, db')
     \<and> (\<exists>t \<in> set (api_tokens (sys_db taken_sys)). ctx_api_token_id ctx = Some (t_id t)
          \<and> t_revoked_at t = None)"
proof -
  let ?r = "require_authenticated (\<lambda>x. ''t'') (\<lambda>_ _ _. Inl PyJWTError) False 5 (Some ''dsk_x'')
      (sys_db taken_sys)"
  have r: "?r = Inr (fst (projr ?r), snd (projr ?r))" by code_simp
  have pat: "py_startswith ''dsk_x'' ''dsk_''" by (simp add: py_startswith_def)
  from pat_never_escalates [OF r pat] have "\<exists>t \<in> set (api_tokens (sys_db taken_sys)).
      ctx_api_token_id (fst (projr ?r)) = Some (t_id t) \<and> t_revoked_at t = None" by blast
  with r show ?thesis by blast
qed

section \<open>Refresh tokens\<close>

text \<open>What the code relies on of PyJWT: a token it encoded decodes to the same claims, unless it was issued
  later than now (which is refused with and without \<open>verify_exp\<close>) or verification finds it expired; and an
  encoded token never looks like an API token.\<close>

locale jwt_codec =
  fixes encode :: jwt_encode and decode :: jwt_decode
  assumes decode_encode:
    "decode verify now (encode p) =
       (if now < p_iat p then Inl PyJWTError
        else if verify \<and> (\<exists>e. p_exp p = Some e \<and> e \<le> now) then Inl ExpiredSignatureError else Inr p)"
    and encode_not_pat: "\<not> py_startswith (encode p) ''dsk_''"
begin

lemma decode_refresh:
  "decode verify now (issue_refresh_token encode cfg t0 i ep) =
     (if now < t0 then Inl PyJWTError
      else if verify \<and> t0 + refresh_expire_days cfg * 86400 \<le> now then Inl ExpiredSignatureError
      else Inr (refresh_payload cfg t0 i ep))"
  by (simp add: issue_refresh_token_def decode_encode refresh_payload_def)

lemma refresh_success:
  assumes "post_token_refresh encode decode cfg sha up now
             (Some (issue_refresh_token encode cfg t0 i ep)) db r = (Inr resp, r')"
  shows "now < t0 + refresh_expire_days cfg * 86400
    \<and> (revocation_key sha (issue_refresh_token encode cfg t0 i ep),
        t0 + refresh_expire_days cfg * 86400) \<in> set r'"
  using assms
  by (auto simp: post_token_refresh_def is_refresh_revoked_def decode_refresh_token_def decode_refresh
      mark_refresh_revoked_def redis_set_nx_def refresh_payload_def Let_def
      split: if_splits option.splits sum.splits bool.splits)

lemma refresh_replay:
  assumes "(revocation_key sha (issue_refresh_token encode cfg t0 i ep),
        t0 + refresh_expire_days cfg * 86400) \<in> set r"
  shows "\<exists>e. fst (post_token_refresh encode decode cfg sha up now
             (Some (issue_refresh_token encode cfg t0 i ep)) db r) = Inl e"
proof (cases "now < t0 + refresh_expire_days cfg * 86400")
  case True
  with assms have "redis_live now (revocation_key sha (issue_refresh_token encode cfg t0 i ep)) r"
    by (auto simp: redis_live_def)
  then show ?thesis by (simp add: post_token_refresh_def is_refresh_revoked_def)
next
  case False
  then show ?thesis
    by (auto simp: post_token_refresh_def is_refresh_revoked_def decode_refresh_token_def decode_refresh
        split: sum.split bool.split)
qed

lemma session_answer:
  assumes "t0 \<le> now" "now < t0 + access_expire_minutes cfg * 60"
  shows "require_authenticated sha decode stamped now (Some (tr_access (session_for encode cfg t0 u))) db =
    (case get_by_id db (u_id u) of
       None \<Rightarrow> Inl (AuthenticationError ''UNAUTHORIZED'')
     | Some u' \<Rightarrow> if u_session_epoch u' = u_session_epoch u
         then Inr (\<lparr>ctx_user = u', ctx_effective_role = u_role u', ctx_session_epoch = Some (u_session_epoch u'),
                    ctx_api_token_id = None\<rparr>, db)
         else Inl (AuthenticationError ''UNAUTHORIZED''))"
  using assms encode_not_pat
  by (auto simp: require_authenticated_def session_for_def issue_access_token_def Let_def
      decode_access_token_def decode_encode access_payload_def split: option.split)

lemma session_dead_answer:
  assumes "session_dead sha decode (u_id u) (u_session_epoch u) db"
  shows "require_authenticated sha decode stamped now (Some (tr_access (session_for encode cfg t0 u))) db
    = Inl (AuthenticationError ''UNAUTHORIZED'')"
proof (cases "decode True now (tr_access (session_for encode cfg t0 u))")
  case (Inl e)
  with encode_not_pat show ?thesis
    by (simp add: require_authenticated_def session_for_def issue_access_token_def Let_def decode_access_token_def)
next
  case (Inr p)
  then have "p = access_payload cfg t0 (u_id u) (u_email u) (u_session_epoch u)"
    by (simp add: session_for_def issue_access_token_def Let_def decode_encode split: if_splits)
  with Inr assms encode_not_pat show ?thesis
    unfolding session_dead_def
    by (auto simp: access_payload_def session_for_def issue_access_token_def Let_def)
qed

end

text \<open>A codec with these laws: the claims numbered injectively and rendered in decimal.\<close>

instance claim :: countable
  by countable_datatype

instance sub_claim :: countable
  by countable_datatype

definition number_encode :: jwt_encode where
  "number_encode p =
     ''eyJ'' @ show_nat (to_nat (p_sub p, p_email p, p_type p, p_exp p, p_iat p, p_ses p))"

definition number_decode :: jwt_decode where
  "number_decode verify now tok =
     (if \<exists>p. tok = number_encode p then
        let p = (THE p. tok = number_encode p) in
        if now < p_iat p then Inl PyJWTError
        else if verify \<and> (\<exists>e. p_exp p = Some e \<and> e \<le> now) then Inl ExpiredSignatureError else Inr p
      else Inl PyJWTError)"

lemma number_encode_inject: "number_encode p = number_encode q \<longleftrightarrow> p = q"
  by (auto simp: number_encode_def)

interpretation number_codec: jwt_codec number_encode number_decode
proof
  fix verify now p
  have "(THE q. number_encode p = number_encode q) = p"
    by (auto simp: number_encode_inject)
  then show "number_decode verify now (number_encode p) =
       (if now < p_iat p then Inl PyJWTError
        else if verify \<and> (\<exists>e. p_exp p = Some e \<and> e \<le> now) then Inl ExpiredSignatureError else Inr p)"
    by (auto simp: number_decode_def Let_def)
next
  fix p show "\<not> py_startswith (number_encode p) ''dsk_''"
    by (simp add: number_encode_def py_startswith_def)
qed

text \<open>C9. A refresh token is good for one rotation. Once \<open>/auth/token/refresh\<close> has accepted a
  refresh token, every later refresh with it is refused, whatever happened to the database
  in between, as long as Redis has not lost the revocation (its entries only accumulate and
  expire with the token itself).\<close>

theorem refresh_single_use:
  assumes "jwt_codec encode decode"
    and "post_token_refresh encode decode cfg sha up now
           (Some (issue_refresh_token encode cfg t0 i ep)) db r = (Inr resp, r')"
    and "set r' \<subseteq> set r''"
  shows "\<exists>e. fst (post_token_refresh encode decode cfg sha up' now'
           (Some (issue_refresh_token encode cfg t0 i ep)) db' r'') = Inl e"
  using jwt_codec.refresh_success [OF assms(1,2)] assms(3)
  by (intro jwt_codec.refresh_replay [OF assms(1)]) blast

definition example_settings :: jwt_settings where
  "example_settings = \<lparr>access_expire_minutes = 15, refresh_expire_days = 7\<rparr>"

lemma example_refresh:
  "post_token_refresh number_encode number_decode example_settings (\<lambda>x. x) True 10
     (Some (issue_refresh_token number_encode example_settings 0 1 4)) (sys_db taken_sys) []
   = (Inr (session_for number_encode example_settings 10 taken_user),
      [(revocation_key (\<lambda>x. x) (issue_refresh_token number_encode example_settings 0 1 4), 604800)])"
proof -
  have "get_by_id (sys_db taken_sys) 1 = Some taken_user" by code_simp
  then show ?thesis
    by (simp add: post_token_refresh_def is_refresh_revoked_def redis_live_def decode_refresh_token_def
        number_codec.decode_refresh refresh_payload_def mark_refresh_revoked_def redis_set_nx_def Let_def
        example_settings_def taken_user_def)
qed

theorem refresh_single_use_witness:
  "\<exists>e. fst (post_token_refresh number_encode number_decode example_settings (\<lambda>x. x) True 20
     (Some (issue_refresh_token number_encode example_settings 0 1 4)) (sys_db taken_sys)
     [(revocation_key (\<lambda>x. x) (issue_refresh_token number_encode example_settings 0 1 4), 604800)]) = Inl e"
  using refresh_single_use [OF number_codec.jwt_codec_axioms example_refresh subset_refl] .

lemma get_by_email_SomeD:
  "get_by_email db email = Some u \<Longrightarrow> u \<in> set (users db) \<and> citext_eq (u_email u) email"
  by (auto simp: get_by_email_def find_Some_iff)

text \<open>User \<open>i\<close> was issued, and its epoch is not below \<open>E\<close> while it exists.\<close>

definition epoch_from :: "nat \<Rightarrow> nat \<Rightarrow> auth_sys \<Rightarrow> bool" where
  "epoch_from i E s \<longleftrightarrow> i \<in> sys_users s \<and> (\<forall>u \<in> set (users (sys_db s)). u_id u = i \<longrightarrow> E \<le> u_session_epoch u)"

lemma auth_step_epoch_from:
  assumes "auth_step sha hashpw s s'" "epoch_from i E s"
  shows "epoch_from i E s'"
proof -
  obtain U T H where ev: "evolves U T H (sys_db s) (sys_db s')"
    and fresh: "U \<inter> sys_users s = {}" "sys_users s \<subseteq> sys_users s'"
    by (rule auth_step_evolves [OF assms(1)]) fastforce
  have "E \<le> u_session_epoch u" if "u \<in> set (users (sys_db s'))" "u_id u = i" for u
    using evolves_usersD [OF ev that(1)] that(2) fresh(1) assms(2) by (fastforce simp: epoch_from_def)
  with fresh(2) assms(2) show ?thesis by (auto simp: epoch_from_def)
qed

interpretation epoch_floor: step_invariant "auth_step sha hashpw" "epoch_from i E"
  by unfold_locales (rule auth_step_epoch_from)

lemma login_row:
  assumes "books s" "post_token encode cfg checkpw t0 email password (sys_db s) = Inr resp"
  shows "\<exists>u h. get_by_id (sys_db s) (u_id u) = Some u \<and> citext_eq (u_email u) email \<and> u_password_hash u = Some h \<and>
    checkpw password h \<and> resp = session_for encode cfg t0 u \<and> epoch_from (u_id u) (u_session_epoch u) s"
proof -
  from assms(2) obtain u h where u: "u \<in> set (users (sys_db s))" "citext_eq (u_email u) email"
    "u_password_hash u = Some h" "checkpw password h" "resp = session_for encode cfg t0 u"
    by (auto simp: post_token_def verify_password_def dest!: get_by_email_SomeD
        split: option.splits if_splits)
  have uniq: "distinct (map u_id (users (sys_db s)))" using assms(1) by (simp add: books_def sound_db_def users_ok_def)
  with u(1) have "get_by_id (sys_db s) (u_id u) = Some u" by (simp add: get_by_id_def row_get_unique)
  moreover have "epoch_from (u_id u) (u_session_epoch u) s"
    using assms(1) u(1) unique_user [OF uniq _ u(1)] by (auto simp: epoch_from_def books_def issued_def)
  ultimately show ?thesis using u by blast
qed

text \<open>
  C10. A login and its session. A login succeeds only for a row at that address whose password hash the given password
  matches. Until the access token expires it authenticates, in every state reachable from the login, exactly
  while the account exists with the epoch of the login, and then as the row stored at that moment, with its
  current role. Once the account is gone or its epoch has moved the token is refused at any time in
  every later state.
\<close>

theorem login_roundtrip:
  assumes "jwt_codec encode decode" "books s"
    and "post_token encode cfg checkpw t0 email password (sys_db s) = Inr resp"
    and "(auth_step sha hashpw)\<^sup>*\<^sup>* s s'"
    and "t0 \<le> now" "now < t0 + access_expire_minutes cfg * 60"
  shows "\<exists>u h. get_by_id (sys_db s) (u_id u) = Some u \<and> citext_eq (u_email u) email
    \<and> u_password_hash u = Some h \<and> checkpw password h
    \<and> (case get_by_id (sys_db s') (u_id u) of
         Some u' \<Rightarrow> u_session_epoch u' = u_session_epoch u \<longrightarrow>
           require_authenticated sha decode stamped now (Some (tr_access resp)) (sys_db s')
           = Inr (\<lparr>ctx_user = u', ctx_effective_role = u_role u',
                   ctx_session_epoch = Some (u_session_epoch u'), ctx_api_token_id = None\<rparr>, sys_db s')
       | None \<Rightarrow> True)
    \<and> (\<not> (\<exists>u'. get_by_id (sys_db s') (u_id u) = Some u' \<and> u_session_epoch u' = u_session_epoch u) \<longrightarrow>
        (\<forall>s'' now' stamped'. (auth_step sha hashpw)\<^sup>*\<^sup>* s' s'' \<longrightarrow>
           require_authenticated sha decode stamped' now' (Some (tr_access resp)) (sys_db s'')
           = Inl (AuthenticationError ''UNAUTHORIZED'')))"
proof -
  from login_row [OF assms(2,3)] obtain u h where u: "get_by_id (sys_db s) (u_id u) = Some u"
    "citext_eq (u_email u) email" "u_password_hash u = Some h" "checkpw password h"
    and resp: "resp = session_for encode cfg t0 u" and ep: "epoch_from (u_id u) (u_session_epoch u) s" by blast
  note codec = jwt_codec.session_answer [OF assms(1,5,6)] jwt_codec.session_dead_answer [OF assms(1)]
  from epoch_floor.run_keeps [OF assms(4) ep] have ep': "epoch_from (u_id u) (u_session_epoch u) s'" .
  have "books s'" by (rule auth_books.run_keeps [OF assms(4,2)])
  then have uniq: "distinct (map u_id (users (sys_db s')))" by (simp add: books_def sound_db_def users_ok_def)
  have dead: "require_authenticated sha decode stamped' now' (Some (tr_access resp)) (sys_db s'')
      = Inl (AuthenticationError ''UNAUTHORIZED'')"
    if none: "\<not> (\<exists>u'. get_by_id (sys_db s') (u_id u) = Some u' \<and> u_session_epoch u' = u_session_epoch u)"
      and run: "(auth_step sha hashpw)\<^sup>*\<^sup>* s' s''" for s'' now' stamped'
  proof -
    have "u_session_epoch u < u_session_epoch w" if "w \<in> set (users (sys_db s'))" "u_id w = u_id u" for w
    proof -
      have "get_by_id (sys_db s') (u_id u) = Some w"
        using that uniq by (simp add: get_by_id_def flip: that(2)) (simp add: row_get_unique)
      with none ep' that show ?thesis by (fastforce simp: epoch_from_def)
    qed
    with ep' have "evicted (u_id u) (u_session_epoch u) {} {} s'" by (auto simp: evicted_def epoch_from_def)
    from evicted_dead(1) [OF eviction.run_keeps [OF run this]] show ?thesis unfolding resp by (rule codec(2))
  qed
  have "case get_by_id (sys_db s') (u_id u) of
      Some u' \<Rightarrow> u_session_epoch u' = u_session_epoch u \<longrightarrow>
           require_authenticated sha decode stamped now (Some (tr_access resp)) (sys_db s')
           = Inr (\<lparr>ctx_user = u', ctx_effective_role = u_role u',
                   ctx_session_epoch = Some (u_session_epoch u'), ctx_api_token_id = None\<rparr>, sys_db s')
       | None \<Rightarrow> True"
    unfolding resp by (auto simp: codec(1) split: option.split)
  with u dead show ?thesis by blast
qed

definition promoted_user :: user_row where
  "promoted_user = taken_user\<lparr>u_role := ''Admin''\<rparr>"

theorem login_roundtrip_witness:
  "\<exists>s'. (auth_step (\<lambda>x. x) (\<lambda>x. x))\<^sup>*\<^sup>* taken_sys s' \<and>
     require_authenticated (\<lambda>x. x) number_decode False 100
        (Some (tr_access (session_for number_encode example_settings 0 taken_user))) (sys_db s')
        = Inr (\<lparr>ctx_user = promoted_user, ctx_effective_role = ''Admin'',
                ctx_session_epoch = Some 4, ctx_api_token_id = None\<rparr>, sys_db s')"
proof -
  let ?r = "update_role 1 ''Admin'' (sys_db taken_sys)"
  have r: "?r = Inr (promoted_user, snd (projr ?r))" by code_simp
  let ?s' = "taken_sys\<lparr>sys_db := snd (projr ?r)\<rparr>"
  have step: "(auth_step (\<lambda>x. x) (\<lambda>x. x))\<^sup>*\<^sup>* taken_sys ?s'"
    by (rule r_into_rtranclp, rule set_role [OF r])
  have found: "get_by_email (sys_db taken_sys) ''A@x'' = Some taken_user" by code_simp
  have login: "post_token number_encode example_settings (=) 0 ''A@x'' ''h'' (sys_db taken_sys)
      = Inr (session_for number_encode example_settings 0 taken_user)"
    by (simp add: post_token_def found verify_password_def) (simp add: taken_user_def)
  have now: "(0::nat) \<le> 100" "(100::nat) < 0 + access_expire_minutes example_settings * 60"
    by (simp_all add: example_settings_def)
  have later: "get_by_id (sys_db ?s') 1 = Some promoted_user" by code_simp
  have ids: "u_id u = 1" "u_session_epoch u = 4" if "get_by_id (sys_db taken_sys) (u_id u) = Some u" for u
    using that by (auto simp: taken_sys_def taken_user_def get_by_id_def dest!: row_get_SomeD)
  have p: "u_session_epoch promoted_user = 4" "u_role promoted_user = ''Admin''"
    by (simp_all add: promoted_user_def taken_user_def)
  from login_roundtrip [OF number_codec.jwt_codec_axioms books_taken_sys login step now,
      where stamped = False] later ids p step
  show ?thesis by (intro exI [of _ ?s']) (auto split: option.splits)
qed

end
