(* ===== verification/Json.thy ===== *)
theory Json
  imports Prelude Complex_Main
begin

text \<open>
  Untyped JSON values as the services receive them from a request body or a JSONB column: a
  Python \<open>None\<close>, \<open>bool\<close>, \<open>int\<close>, \<open>float\<close> (its exact value), \<open>str\<close>, \<open>list\<close> or
  \<open>dict\<close>. A dict is the list of its items in insertion order; its keys are distinct, which
  \<open>wf_json\<close> states of a value and all its parts.
\<close>

datatype json =
    JNull
  | JBool bool
  | JInt int
  | JFloat rat
  | JStr string
  | JList "json list"
  | JObj "(string \<times> json) list"

fun wf_json :: "json \<Rightarrow> bool" where
  "wf_json (JList js) \<longleftrightarrow> (\<forall>j \<in> set js. wf_json j)"
| "wf_json (JObj kvs) \<longleftrightarrow> distinct (map fst kvs) \<and> (\<forall>kv \<in> set kvs. wf_json (snd kv))"
| "wf_json _ \<longleftrightarrow> True"

text \<open>\<open>bool(v)\<close>.\<close>

fun py_truthy :: "json \<Rightarrow> bool" where
  "py_truthy JNull \<longleftrightarrow> False"
| "py_truthy (JBool b) \<longleftrightarrow> b"
| "py_truthy (JInt i) \<longleftrightarrow> i \<noteq> 0"
| "py_truthy (JFloat r) \<longleftrightarrow> r \<noteq> 0"
| "py_truthy (JStr s) \<longleftrightarrow> s \<noteq> []"
| "py_truthy (JList js) \<longleftrightarrow> js \<noteq> []"
| "py_truthy (JObj kvs) \<longleftrightarrow> kvs \<noteq> []"

type_synonym jdict = "(string \<times> json) list"

text \<open>\<open>d.get(k)\<close> and \<open>d.get(k, default)\<close>.\<close>

definition dict_get :: "jdict \<Rightarrow> string \<Rightarrow> json" where
  "dict_get d k = (case map_of d k of Some v \<Rightarrow> v | None \<Rightarrow> JNull)"

definition dict_get_or :: "jdict \<Rightarrow> string \<Rightarrow> json \<Rightarrow> json" where
  "dict_get_or d k dflt = (case map_of d k of Some v \<Rightarrow> v | None \<Rightarrow> dflt)"

text \<open>\<open>for x in v\<close>: a list yields its items, a string its characters, a dict its keys, and
  any other value is not iterable.\<close>

fun py_iter :: "json \<Rightarrow> json list option" where
  "py_iter (JList js) = Some js"
| "py_iter (JStr s) = Some (map (\<lambda>c. JStr [c]) s)"
| "py_iter (JObj kvs) = Some (map (\<lambda>kv. JStr (fst kv)) kvs)"
| "py_iter _ = None"

text \<open>\<open>d[k] = v\<close> for a key \<open>d\<close> has.\<close>

definition update_key :: "string \<Rightarrow> json \<Rightarrow> jdict \<Rightarrow> jdict" where
  "update_key k v d = map (\<lambda>kv. if fst kv = k then (k, v) else kv) d"

lemma update_key_Cons:
  "update_key k v ((a, b) # d) = (a, if a = k then v else b) # update_key k v d"
  by (simp add: update_key_def)

lemma update_key_keys [simp]: "fst ` set (update_key k v d) = fst ` set d"
proof (induction d)
  case (Cons ab d)
  then show ?case by (cases ab) (simp add: update_key_Cons)
qed (simp add: update_key_def)

lemma map_of_update_key:
  "map_of (update_key k v d) k' = (if k' = k \<and> k \<in> fst ` set d then Some v else map_of d k')"
proof (induction d)
  case (Cons ab d)
  then show ?case by (cases ab; cases "k' = k") (simp_all add: update_key_Cons)
qed (simp add: update_key_def)

lemma dict_get_update_key [simp]:
  "dict_get (update_key k v d) k' = (if k' = k \<and> k \<in> fst ` set d then v else dict_get d k')"
  by (simp add: dict_get_def map_of_update_key)

lemma update_key_twice [simp]: "update_key k v (update_key k w d) = update_key k v d"
  by (auto simp: update_key_def)

lemma map_fst_update_key [simp]: "map fst (update_key k v d) = map fst d"
  by (simp add: update_key_def)

lemma dict_get_key: "dict_get d k \<noteq> JNull \<Longrightarrow> k \<in> fst ` set d"
  by (cases "map_of d k") (force simp: dict_get_def dest: map_of_SomeD)+

lemma update_key_same: "distinct (map fst d) \<Longrightarrow> dict_get d k = v \<Longrightarrow> update_key k v d = d"
proof (induction d)
  case (Cons kv d)
  show ?case
  proof (cases "fst kv = k")
    case True
    then have "update_key k v d = d"
      unfolding update_key_def using Cons.prems by (intro map_idI) (auto simp: image_iff)
    with True Cons.prems show ?thesis by (cases kv) (auto simp: update_key_Cons dict_get_def)
  next
    case False
    with Cons show ?thesis by (cases kv) (auto simp: update_key_Cons dict_get_def)
  qed
qed (simp add: update_key_def)

end
