(* ===== verification/Secret_Refs.thy ===== *)
theory Secret_Refs
  imports Json
begin

text \<open>
  \<open>src/shared/secrets/grammar.py\<close> and the three exceptions of \<open>interface.py\<close>: the
  pattern of a \<open>${name__key}\<close> reference, the left-to-right scan that \<open>re.sub\<close> and
  \<open>re.finditer\<close> make with it, and the split of a reference into its name and its key.
  \<open>match_ref_iff\<close> shows the scanner decides exactly the regular expression,
  \<open>parse_name_key_ref\<close> when the split recovers the two groups that were matched.
\<close>

text \<open>\<open>AttributeError\<close> is what Python raises on a method call through \<open>None\<close>, and \<open>ClientError\<close> stands for
  whatever else the client library raises beside \<open>ApiException\<close> (no connection, no valid certificate); nothing in
  the module catches either.\<close>

datatype secret_error =
    SecretRefMalformed | SecretRefNotFound | SecretResolverUnavailable | AttributeError | ClientError

section \<open>The pattern\<close>

definition name_char :: "char \<Rightarrow> bool" where
  "name_char c \<longleftrightarrow> is_lower c \<or> is_digit c \<or> c = CHR ''-''"

definition key_char :: "char \<Rightarrow> bool" where
  "key_char c \<longleftrightarrow> is_lower c \<or> is_upper c \<or> is_digit c \<or> c = CHR ''_'' \<or> c = CHR ''.'' \<or> c = CHR ''-''"

text \<open>\<open>SECRET_REF_RE\<close> at the start of a string, with the two groups and the rest. Neither
  class holds the character that follows its run (an underscore, a brace), so the greedy
  runs never backtrack.\<close>

definition match_ref :: "string \<Rightarrow> (string \<times> string \<times> string) option" where
  "match_ref s =
     (if \<not> py_startswith s ''${'' then None
      else let body = drop 2 s; name = takeWhile name_char body; tl1 = dropWhile name_char body in
        if name = [] \<or> \<not> py_startswith tl1 ''__'' then None
        else let body2 = drop 2 tl1; key = takeWhile key_char body2; tl2 = dropWhile key_char body2 in
          if key = [] \<or> \<not> py_startswith tl2 ''}'' then None
          else Some (name, key, drop 1 tl2))"

lemma name_char_facts:
  shows not_name_char_us: "\<not> name_char (CHR ''_'')"
    and not_key_char_brace: "\<not> key_char (CHR ''}'')"
  by (simp_all add: name_char_def key_char_def char_simps)

lemma name_char_key_char: "name_char c \<Longrightarrow> key_char c"
  by (auto simp: name_char_def key_char_def)

lemma takeWhile_run:
  "list_all P xs \<Longrightarrow> \<not> P y \<Longrightarrow> takeWhile P (xs @ y # ys) = xs"
  "list_all P xs \<Longrightarrow> \<not> P y \<Longrightarrow> dropWhile P (xs @ y # ys) = y # ys"
  by (induction xs) auto

lemma list_all_takeWhile: "list_all P (takeWhile P xs)"
  by (auto simp: list_all_iff dest: set_takeWhileD)

text \<open>The scanner recognises exactly the words of the expression, and the groups are
  unique.\<close>

lemma match_ref_iff:
  "match_ref s = Some (name, key, rest) \<longleftrightarrow>
     s = ''${'' @ name @ ''__'' @ key @ ''}'' @ rest \<and>
     name \<noteq> [] \<and> list_all name_char name \<and> key \<noteq> [] \<and> list_all key_char key"
proof
  assume m: "match_ref s = Some (name, key, rest)"
  then obtain body where s: "s = ''${'' @ body"
    by (auto simp: match_ref_def py_startswith_iff split: if_splits)
  from m s have name: "name = takeWhile name_char body" and "name \<noteq> []"
    and "py_startswith (dropWhile name_char body) ''__''"
    by (simp_all add: match_ref_def Let_def split: if_splits)
  then obtain b2 where b2: "dropWhile name_char body = ''__'' @ b2"
    by (auto simp: py_startswith_iff)
  with m s have key: "key = takeWhile key_char b2" and "key \<noteq> []"
    and "py_startswith (dropWhile key_char b2) ''}''" and r: "rest = drop 1 (dropWhile key_char b2)"
    by (simp_all add: match_ref_def Let_def split: if_splits)
  then have r: "dropWhile key_char b2 = ''}'' @ rest"
    by (auto simp: py_startswith_iff)
  have "body = name @ ''__'' @ b2" using takeWhile_dropWhile_id [of name_char body] name b2 by simp
  moreover have "b2 = key @ ''}'' @ rest" using takeWhile_dropWhile_id [of key_char b2] key r by simp
  ultimately show "s = ''${'' @ name @ ''__'' @ key @ ''}'' @ rest \<and>
     name \<noteq> [] \<and> list_all name_char name \<and> key \<noteq> [] \<and> list_all key_char key"
    using s \<open>name \<noteq> []\<close> \<open>key \<noteq> []\<close> list_all_takeWhile [of name_char body, folded name]
      list_all_takeWhile [of key_char b2, folded key] by simp
next
  assume "s = ''${'' @ name @ ''__'' @ key @ ''}'' @ rest \<and>
     name \<noteq> [] \<and> list_all name_char name \<and> key \<noteq> [] \<and> list_all key_char key"
  then show "match_ref s = Some (name, key, rest)"
    by (auto simp: match_ref_def Let_def py_startswith_def takeWhile_run name_char_facts)
qed

lemma match_ref_shorter: "match_ref s = Some (name, key, rest) \<Longrightarrow> length rest < length s"
  by (simp add: match_ref_iff)

section \<open>Scanning a string\<close>

text \<open>What a scan from the left finds: references, and the characters between them. \<open>re.sub\<close>
  replaces the references and keeps the characters, \<open>re.finditer\<close> yields the references.\<close>

datatype piece = Lit char | Ref string string

function scan_refs :: "string \<Rightarrow> piece list" where
  "scan_refs [] = []"
| "scan_refs (c # cs) = (case match_ref (c # cs) of
      Some (name, key, rest) \<Rightarrow> Ref name key # scan_refs rest
    | None \<Rightarrow> Lit c # scan_refs cs)"
  by pat_completeness auto
termination
  by (relation "measure length") (auto dest: match_ref_shorter)

fun ref_of :: "piece \<Rightarrow> string list" where
  "ref_of (Lit c) = []"
| "ref_of (Ref name key) = [name @ ''__'' @ key]"

definition refs_in :: "string \<Rightarrow> string list" where
  "refs_in s = concat (map ref_of (scan_refs s))"

fun piece_text :: "piece \<Rightarrow> string" where
  "piece_text (Lit c) = [c]"
| "piece_text (Ref name key) = ''${'' @ name @ ''__'' @ key @ ''}''"

text \<open>The pieces spell the string, and every reference among them is a word of the
  expression.\<close>

lemma scan_refs_text: "concat (map piece_text (scan_refs s)) = s"
proof (induction s rule: scan_refs.induct)
  case (2 c cs)
  show ?case
  proof (cases "match_ref (c # cs)")
    case None
    with 2 show ?thesis by simp
  next
    case (Some p)
    obtain n k r where p: "p = (n, k, r)" by (cases p) auto
    with Some 2 have "concat (map piece_text (scan_refs r)) = r" by blast
    with Some p match_ref_iff [of "c # cs" n k r] show ?thesis by simp
  qed
qed simp

lemma scan_refs_wf:
  "Ref name key \<in> set (scan_refs s) \<Longrightarrow>
     name \<noteq> [] \<and> list_all name_char name \<and> key \<noteq> [] \<and> list_all key_char key"
proof (induction s rule: scan_refs.induct)
  case (2 c cs)
  show ?case
  proof (cases "match_ref (c # cs)")
    case None
    with 2 show ?thesis by simp
  next
    case (Some p)
    obtain n k r where p: "p = (n, k, r)" by (cases p) auto
    with Some 2 have "Ref name key \<in> set (scan_refs r) \<Longrightarrow> ?thesis" by blast
    with Some p match_ref_iff [of "c # cs" n k r] 2(3) show ?thesis by auto
  qed
qed simp

section \<open>Splitting a reference\<close>

text \<open>\<open>str.rfind\<close>.\<close>

fun py_rfind :: "string \<Rightarrow> string \<Rightarrow> nat option" where
  "py_rfind needle [] = (if needle = [] then Some 0 else None)"
| "py_rfind needle (c # cs) = (case py_rfind needle cs of
      Some i \<Rightarrow> Some (Suc i)
    | None \<Rightarrow> if py_startswith (c # cs) needle then Some 0 else None)"

text \<open>\<open>"__" not in ref\<close> is \<open>rfind\<close> finding nothing.\<close>

definition parse_name_key :: "string \<Rightarrow> (secret_error, string \<times> string) result" where
  "parse_name_key ref = (case py_rfind ''__'' ref of
      None \<Rightarrow> Inl SecretRefMalformed
    | Some last_sep \<Rightarrow>
        let name = take last_sep ref; key = drop (last_sep + 2) ref in
        if name = [] then Inl SecretRefMalformed
        else if key = [] then Inl SecretRefMalformed
        else Inr (name, key))"

lemma py_rfind_None: "py_rfind needle s = None \<longleftrightarrow> \<not> py_contains needle s"
proof (induction s)
  case Nil
  then show ?case by (simp add: py_contains_def)
next
  case (Cons c cs)
  then show ?case by (auto simp: py_contains_Cons split: option.splits)
qed

text \<open>An occurrence is the last one when none starts later.\<close>

lemma py_rfind_last:
  "needle \<noteq> [] \<Longrightarrow> \<not> py_contains needle (tl needle @ s) \<Longrightarrow>
     py_rfind needle (p @ needle @ s) = Some (length p)"
proof (induction p)
  case Nil
  then obtain c cs where n: "needle = c # cs" by (cases needle) auto
  with Nil have "py_rfind needle (cs @ s) = None" by (simp add: py_rfind_None)
  moreover have "py_startswith (c # (cs @ s)) needle" using n py_startswith_append [of needle s] by simp
  ultimately show ?case using n by simp
qed simp

lemma py_rfind_split:
  "py_rfind needle s = Some i \<Longrightarrow>
     s = take i s @ needle @ drop (i + length needle) s \<and>
     (needle \<noteq> [] \<longrightarrow> \<not> py_contains needle (drop (Suc i) s))"
proof (induction s arbitrary: i)
  case Nil
  then show ?case by (auto split: if_splits)
next
  case (Cons c cs)
  show ?case
  proof (cases "py_rfind needle cs")
    case None
    with Cons.prems have "py_startswith (c # cs) needle" "i = 0" by (auto split: if_splits)
    with None show ?thesis by (auto simp: py_startswith_iff py_rfind_None)
  next
    case (Some j)
    with Cons show ?thesis by auto
  qed
qed

text \<open>The reference a match yields splits back into the two groups exactly when the key
  neither contains the separator nor begins with an underscore; otherwise the last separator
  lies inside the key and part of the key moves into the name.\<close>

lemma parse_name_key_ref:
  assumes "name \<noteq> []" "key \<noteq> []"
  shows "parse_name_key (name @ ''__'' @ key) = Inr (name, key) \<longleftrightarrow>
    \<not> py_contains ''__'' (CHR ''_'' # key)"
proof
  assume "parse_name_key (name @ ''__'' @ key) = Inr (name, key)"
  then obtain i where i: "py_rfind ''__'' (name @ ''__'' @ key) = Some i"
    and "take i (name @ ''__'' @ key) = name" "drop (i + 2) (name @ ''__'' @ key) = key"
    by (auto simp: parse_name_key_def Let_def split: option.splits if_splits)
  moreover from this assms have "i + 2 < length (name @ ''__'' @ key)"
    by (metis drop_all not_less)
  ultimately have "length name = i" by (metis add_leD1 length_take less_imp_le min_absorb2)
  with py_rfind_split [OF i] show "\<not> py_contains ''__'' (CHR ''_'' # key)" by simp
next
  assume "\<not> py_contains ''__'' (CHR ''_'' # key)"
  then have "py_rfind ''__'' (name @ ''__'' @ key) = Some (length name)"
    using py_rfind_last [of "''__''" key name] by simp
  with assms show "parse_name_key (name @ ''__'' @ key) = Inr (name, key)"
    by (simp add: parse_name_key_def)
qed

lemma parse_name_key_Inr:
  assumes "parse_name_key ref = Inr (name, key)"
  shows "ref = name @ ''__'' @ key" "name \<noteq> []" "key \<noteq> []" "\<not> py_contains ''__'' key"
proof -
  obtain i where i: "py_rfind ''__'' ref = Some i" and nk: "take i ref = name" "drop (i + 2) ref = key"
    "name \<noteq> []" "key \<noteq> []"
    using assms by (auto simp: parse_name_key_def Let_def split: option.splits if_splits)
  from py_rfind_split [OF i] nk show ref: "ref = name @ ''__'' @ key" by simp
  from nk show "name \<noteq> []" "key \<noteq> []" by simp_all
  with parse_name_key_ref [of name key] assms ref show "\<not> py_contains ''__'' key"
    by (simp add: py_contains_Cons)
qed

end
