(* ===== verification/Recipe.thy ===== *)
theory Recipe
  imports Secret_Refs
begin

text \<open>
  \<open>src/shared/models/ingestion.py\<close>: the ingestion modes, the recipe shape, the references a
  recipe holds, the schedule tiers and the dataset-name matcher. The \<open>AllowDenyPattern\<close> of
  the acryl-datahub SDK and the compilation of a regular expression are arguments; an error
  text is not rendered, a constructor says what was wrong.
\<close>

section \<open>Modes and recipe shape\<close>

datatype mode = DATAHUB_MANAGED | ACTIVE_CUSTOM_MANAGED | PASSIVE

datatype recipe_error =
    RecipeNotDict | SourceNotDict | TypeNotString | ConfigNotDict

definition parse_recipe :: "json \<Rightarrow> (recipe_error, string \<times> jdict) result" where
  "parse_recipe recipe = (case recipe of
      JObj body \<Rightarrow>
        (case dict_get body ''source'' of
           JObj source \<Rightarrow>
             (case dict_get source ''type'' of
                JStr source_type \<Rightarrow>
                  if source_type = [] then Inl TypeNotString
                  else (case dict_get source ''config'' of
                      JNull \<Rightarrow> Inr (source_type, [])
                    | JObj config \<Rightarrow> Inr (source_type, config)
                    | _ \<Rightarrow> Inl ConfigNotDict)
              | _ \<Rightarrow> Inl TypeNotString)
         | _ \<Rightarrow> Inl SourceNotDict)
    | _ \<Rightarrow> Inl RecipeNotDict)"

section \<open>References\<close>

fun collect_refs :: "json \<Rightarrow> string set \<Rightarrow> string set" where
  "collect_refs (JStr s) refs = refs \<union> set (refs_in s)"
| "collect_refs (JObj kvs) refs = fold (\<lambda>kv. collect_refs (snd kv)) kvs refs"
| "collect_refs (JList js) refs = fold collect_refs js refs"
| "collect_refs _ refs = refs"

definition extract_secret_refs :: "json \<Rightarrow> string set" where
  "extract_secret_refs recipe = (case parse_recipe recipe of
      Inl e \<Rightarrow> {}
    | Inr (source_type, config) \<Rightarrow> collect_refs (JObj config) {})"

lemma fold_accumulates:
  "(\<And>x S. x \<in> set xs \<Longrightarrow> f x S = S \<union> g x) \<Longrightarrow> fold f xs S = S \<union> (\<Union>x \<in> set xs. g x)"
  by (induction xs arbitrary: S) auto

lemma collect_refs_acc: "collect_refs j S = S \<union> collect_refs j {}"
proof (induction j arbitrary: S)
  case (JList js)
  then have "fold collect_refs js S = S \<union> (\<Union>j \<in> set js. collect_refs j {})" for S
    by (rule fold_accumulates)
  then show ?case by simp
next
  case (JObj kvs)
  have "collect_refs (snd kv) S = S \<union> collect_refs (snd kv) {}" if "kv \<in> set kvs" for kv S
    by (rule JObj [OF that]) (cases kv, simp)
  then have "fold (\<lambda>kv. collect_refs (snd kv)) kvs S = S \<union> (\<Union>kv \<in> set kvs. collect_refs (snd kv) {})" for S
    by (rule fold_accumulates)
  then show ?case by simp
qed auto

lemma collect_refs_simps:
  shows collect_refs_JStr: "collect_refs (JStr s) {} = set (refs_in s)"
    and collect_refs_JList: "collect_refs (JList js) {} = (\<Union>j \<in> set js. collect_refs j {})"
    and collect_refs_JObj: "collect_refs (JObj kvs) {} = (\<Union>kv \<in> set kvs. collect_refs (snd kv) {})"
  using fold_accumulates [of js collect_refs "\<lambda>j. collect_refs j {}" "{}", OF collect_refs_acc]
    fold_accumulates [of kvs "\<lambda>kv. collect_refs (snd kv)" "\<lambda>kv. collect_refs (snd kv) {}" "{}", OF collect_refs_acc]
  by simp_all

section \<open>Schedules\<close>

definition CRON_TO_TIER :: "(string \<times> string) list" where
  "CRON_TO_TIER =
    [(''0 * * * *'', ''hourly''), (''@hourly'', ''hourly''),
     (''0 0 * * *'', ''daily''), (''@daily'', ''daily''), (''@midnight'', ''daily''),
     (''0 0 * * 0'', ''weekly''), (''@weekly'', ''weekly'')]"

text \<open>The only error of \<open>cron_to_tier\<close> is the \<open>ValueError\<close> for an unknown schedule.\<close>

definition cron_to_tier :: "string option \<Rightarrow> (unit, string option) result" where
  "cron_to_tier schedule = (case schedule of
      None \<Rightarrow> Inr None
    | Some s \<Rightarrow> (case map_of CRON_TO_TIER (py_strip s) of
          None \<Rightarrow> Inl ()
        | Some tier \<Rightarrow> Inr (Some tier)))"

section \<open>Degradation reasons\<close>

definition MAX_REASON_CHARS :: nat where
  "MAX_REASON_CHARS = 500"

text \<open>The ellipsis character is written as three dots; it is the one character of the
  module outside the modelled range.\<close>

definition truncate_reason :: "string \<Rightarrow> nat \<Rightarrow> string" where
  "truncate_reason reason limit =
     (if length reason \<le> limit then reason
      else take limit reason @ ''... (truncated, '' @ show_nat (length reason) @ '' chars)'')"

section \<open>The dataset-name matcher\<close>

definition DB_PREFIXED_SOURCE_TYPES :: "string list" where
  "DB_PREFIXED_SOURCE_TYPES = [''postgres'', ''mysql'']"

definition SELECTION_PATTERN_CASCADE :: "string list" where
  "SELECTION_PATTERN_CASCADE =
     [''schema_pattern'', ''table_pattern'', ''topic_patterns'', ''dataset_pattern'']"

datatype reason =
    Unreadable recipe_error
  | SdkMissing
  | UnusablePattern "string option"

type_synonym matcher = "string \<Rightarrow> bool"

text \<open>The SDK as the sources see it: what importing it does (succeed, raise
  \<open>ImportError\<close> or raise something else), whether \<open>re.compile\<close>
  accepts a pattern, and the constructor of \<open>AllowDenyPattern\<close>, which may raise and
  otherwise gives its \<open>allowed\<close> method.\<close>

datatype sdk_import = Imported | ImportFails | ImportRaises

record sdk =
  importing :: sdk_import
  compiles :: "string \<Rightarrow> bool"
  allow_deny_pattern :: "json \<Rightarrow> json \<Rightarrow> matcher option"

definition match_nothing :: matcher where
  "match_nothing name = False"

text \<open>\<open>_precompile\<close>: every item of every list is compiled; an item that is not a string
  or a value that cannot be iterated raises.\<close>

definition precompile_one :: "sdk \<Rightarrow> json \<Rightarrow> bool" where
  "precompile_one d patterns = (case py_iter patterns of
      None \<Rightarrow> False
    | Some ps \<Rightarrow> list_all (\<lambda>p. case p of JStr s \<Rightarrow> compiles d s | _ \<Rightarrow> False) ps)"

definition make_adp :: "sdk \<Rightarrow> json \<Rightarrow> json \<Rightarrow> matcher option" where
  "make_adp d allow deny =
     (if precompile_one d allow \<and> precompile_one d deny then allow_deny_pattern d allow deny else None)"

text \<open>\<open>make_adp\<close> on a configured pattern value: only a dict has a \<open>get\<close> method.\<close>

definition adp_of :: "sdk \<Rightarrow> json \<Rightarrow> matcher option" where
  "adp_of d v = (case v of
      JObj p \<Rightarrow> make_adp d (dict_get_or p ''allow'' (JList [JStr ''.*''])) (dict_get_or p ''deny'' (JList []))
    | _ \<Rightarrow> None)"

text \<open>\<open>str.split\<close> on a character.\<close>

fun py_split :: "char \<Rightarrow> string \<Rightarrow> string list" where
  "py_split sep [] = [[]]"
| "py_split sep (c # cs) =
     (if c = sep then [] # py_split sep cs
      else case py_split sep cs of p # ps \<Rightarrow> (c # p) # ps | [] \<Rightarrow> [[c]])"

definition schema_segment :: "string \<Rightarrow> string" where
  "schema_segment name = (case py_split (CHR ''.'') name of
      p0 # p1 # p2 # ps \<Rightarrow> p1
    | [p0, p1] \<Rightarrow> p0
    | _ \<Rightarrow> name)"

text \<open>The two candidate forms of a kafka name.\<close>

definition kafka_forms :: "string \<Rightarrow> string list" where
  "kafka_forms name =
     (if CHR ''.'' \<in> set name then [name, tl (dropWhile (\<lambda>c. c \<noteq> CHR ''.'') name)] else [name])"

definition kafka_matcher :: "sdk \<Rightarrow> json \<Rightarrow> matcher option" where
  "kafka_matcher d v = (case v of
      JObj p \<Rightarrow>
        (let allow_pats = dict_get_or p ''allow'' (JList [JStr ''.*'']);
             deny_pats = dict_get_or p ''deny'' (JList []) in
         if \<not> (precompile_one d allow_pats \<and> precompile_one d deny_pats) then None
         else (case allow_deny_pattern d allow_pats (JList []) of
             None \<Rightarrow> None
           | Some a \<Rightarrow>
               if py_truthy deny_pats then
                 (case allow_deny_pattern d deny_pats (JList []) of
                    None \<Rightarrow> None
                  | Some dn \<Rightarrow> Some (\<lambda>name. list_ex a (kafka_forms name) \<and> \<not> list_ex dn (kafka_forms name)))
               else Some (\<lambda>name. list_ex a (kafka_forms name))))
    | _ \<Rightarrow> None)"

definition db_gated :: "string \<Rightarrow> jdict \<Rightarrow> string option" where
  "db_gated source_type config = (case dict_get config ''database'' of
      JStr db \<Rightarrow>
        if db \<noteq> [] \<and>
           (py_lower source_type \<in> set DB_PREFIXED_SOURCE_TYPES \<or>
            py_lower source_type = ''oracle'' \<and> py_truthy (dict_get config ''add_database_name_to_urn''))
        then Some (db @ ''.'') else None
    | _ \<Rightarrow> None)"

definition gate :: "string option \<Rightarrow> matcher \<Rightarrow> matcher" where
  "gate pfx pred name = (case pfx of
      None \<Rightarrow> pred name
    | Some p \<Rightarrow> py_startswith name p \<and> pred name)"

text \<open>The guarded block: a branch either returns its predicate, raises while the key it names
  is read, or none of the keys is present.\<close>

datatype branch = Built matcher | Raised string | NoPattern

definition selection :: "sdk \<Rightarrow> jdict \<Rightarrow> branch" where
  "selection d config =
     (case map_of config ''schema_pattern'' of
        Some sp \<Rightarrow>
          (case adp_of d sp of
             None \<Rightarrow> Raised ''schema_pattern''
           | Some s \<Rightarrow>
               (case map_of config ''table_pattern'' of
                  None \<Rightarrow> Built (\<lambda>name. s (schema_segment name))
                | Some tp \<Rightarrow>
                    (case adp_of d tp of
                       None \<Rightarrow> Raised ''table_pattern''
                     | Some t \<Rightarrow> Built (\<lambda>name. s (schema_segment name) \<and> t name))))
      | None \<Rightarrow>
      (case map_of config ''table_pattern'' of
        Some tp \<Rightarrow> (case adp_of d tp of None \<Rightarrow> Raised ''table_pattern'' | Some t \<Rightarrow> Built t)
      | None \<Rightarrow>
      (case map_of config ''topic_patterns'' of
        Some tp \<Rightarrow> (case kafka_matcher d tp of None \<Rightarrow> Raised ''topic_patterns'' | Some t \<Rightarrow> Built t)
      | None \<Rightarrow>
      (case map_of config ''dataset_pattern'' of
        Some dp \<Rightarrow> (case adp_of d dp of None \<Rightarrow> Raised ''dataset_pattern'' | Some t \<Rightarrow> Built t)
      | None \<Rightarrow> NoPattern))))"

definition build_matcher_checked :: "sdk \<Rightarrow> json \<Rightarrow> matcher \<times> reason option" where
  "build_matcher_checked d recipe = (case parse_recipe recipe of
      Inl e \<Rightarrow> (match_nothing, Some (Unreadable e))
    | Inr (source_type, config) \<Rightarrow>
        (case importing d of
           ImportFails \<Rightarrow>
             (match_nothing,
              if list_ex (\<lambda>key. key \<in> fst ` set config) SELECTION_PATTERN_CASCADE then Some SdkMissing else None)
         | ImportRaises \<Rightarrow> (match_nothing, Some (UnusablePattern None))
         | Imported \<Rightarrow>
             (case selection d config of
                Built pred \<Rightarrow> (gate (db_gated source_type config) pred, None)
              | Raised key \<Rightarrow> (match_nothing, Some (UnusablePattern (Some key)))
              | NoPattern \<Rightarrow> (match_nothing, None))))"

definition build_matcher :: "sdk \<Rightarrow> json \<Rightarrow> matcher" where
  "build_matcher d recipe = fst (build_matcher_checked d recipe)"

fun is_mapping :: "json \<Rightarrow> bool" where
  "is_mapping (JObj kvs) \<longleftrightarrow> True"
| "is_mapping _ \<longleftrightarrow> False"

fun first_present :: "string list \<Rightarrow> jdict \<Rightarrow> json option" where
  "first_present [] config = None"
| "first_present (k # ks) config = (case map_of config k of Some v \<Rightarrow> Some v | None \<Rightarrow> first_present ks config)"

definition has_selection_patterns :: "json \<Rightarrow> bool" where
  "has_selection_patterns recipe = (case parse_recipe recipe of
      Inl e \<Rightarrow> False
    | Inr (source_type, config) \<Rightarrow>
        (case first_present SELECTION_PATTERN_CASCADE config of
           Some v \<Rightarrow> is_mapping v
         | None \<Rightarrow> False))"

end
