(* ===== verification/Recipe_Matcher.thy ===== *)
theory Recipe_Matcher
  imports Recipe
begin

text \<open>
  What a caller of \<open>build_matcher_checked\<close> may rely on: the sync sweep prunes stored mappings
  against the match set, so a matcher that was not built from the recipe must match nothing and
  say so, and the predicate \<open>has_selection_patterns\<close> must agree with the branch the matcher
  takes.
\<close>

definition sample_sdk :: sdk where
  "sample_sdk = \<lparr>importing = Imported, compiles = (\<lambda>s. s \<noteq> ''[''),
     allow_deny_pattern = (\<lambda>allow deny. Some (\<lambda>name. allow = JList [JStr name]))\<rparr>"

definition sample_matched :: json where
  "sample_matched = JObj [(''source'', JObj [(''type'', JStr ''Postgres''),
     (''config'', JObj [(''database'', JStr ''db''), (''table_pattern'', JObj [(''allow'', JList [JStr ''db.s.t''])])])])]"

lemma adp_of_mapping: "adp_of d v = Some p \<Longrightarrow> is_mapping v"
  by (cases v) (simp_all add: adp_of_def)

lemma kafka_matcher_mapping: "kafka_matcher d v = Some p \<Longrightarrow> is_mapping v"
  by (cases v) (simp_all add: kafka_matcher_def)

lemma first_present_cascade:
  "first_present SELECTION_PATTERN_CASCADE config =
     (case map_of config ''schema_pattern'' of Some v \<Rightarrow> Some v | None \<Rightarrow>
      (case map_of config ''table_pattern'' of Some v \<Rightarrow> Some v | None \<Rightarrow>
       (case map_of config ''topic_patterns'' of Some v \<Rightarrow> Some v | None \<Rightarrow>
         map_of config ''dataset_pattern'')))"
  by (simp add: SELECTION_PATTERN_CASCADE_def split: option.splits)

lemma selection_branch:
  "selection d config = Built p \<Longrightarrow> \<exists>v. first_present SELECTION_PATTERN_CASCADE config = Some v \<and> is_mapping v"
  "selection d config = NoPattern \<longleftrightarrow> first_present SELECTION_PATTERN_CASCADE config = None"
  unfolding first_present_cascade selection_def
  by (auto dest: adp_of_mapping kafka_matcher_mapping split: option.splits)

text \<open>C21. A matcher that comes with a reason matches no name, so nothing is inferred from a
  recipe that could not be read; a recipe without usable selection patterns matches no name
  either; when the SDK is present and no reason is given, the pattern that decided is one
  \<open>has_selection_patterns\<close> reports, or there was none at all; and with an active database
  gate every matched name begins with the configured database and a dot.\<close>

theorem matcher_trustworthy:
  fixes recipe :: json
  assumes "build_matcher_checked d recipe = (matcher, reason)"
  shows "(reason \<noteq> None \<longrightarrow> (\<forall>name. \<not> matcher name)) \<and>
    (\<not> has_selection_patterns recipe \<longrightarrow> (\<forall>name. \<not> matcher name)) \<and>
    (\<forall>t config v. reason = None \<and> importing d = Imported \<and> parse_recipe recipe = Inr (t, config) \<and>
       first_present SELECTION_PATTERN_CASCADE config = Some v \<longrightarrow> has_selection_patterns recipe) \<and>
    (\<forall>t config pfx name. parse_recipe recipe = Inr (t, config) \<and> db_gated t config = Some pfx \<and> matcher name \<longrightarrow>
       py_startswith name pfx)"
proof (cases "parse_recipe recipe")
  case (Inl e)
  with assms show ?thesis by (auto simp: build_matcher_checked_def match_nothing_def)
next
  case (Inr tc)
  obtain t config where tc: "tc = (t, config)" by (cases tc)
  note p = Inr [unfolded tc]
  show ?thesis
  proof (cases "importing d = Imported \<and> (\<exists>pred. selection d config = Built pred)")
    case True
    then obtain pred where s: "selection d config = Built pred" by blast
    from selection_branch(1) [OF s] p have "has_selection_patterns recipe"
      by (auto simp: has_selection_patterns_def)
    moreover have "matcher = gate (db_gated t config) pred" "reason = None"
      using assms p s True by (simp_all add: build_matcher_checked_def)
    ultimately show ?thesis using p by (auto simp: gate_def)
  next
    case False
    then have "matcher = match_nothing \<and> (reason = None \<and> importing d = Imported \<longrightarrow> selection d config = NoPattern)"
      using assms p by (auto simp: build_matcher_checked_def split: sdk_import.splits branch.splits)
    then show ?thesis using p selection_branch(2) [of d config] by (auto simp: match_nothing_def)
  qed
qed

theorem matcher_trustworthy_witness:
  "\<exists>matcher reason. build_matcher_checked sample_sdk sample_matched = (matcher, reason) \<and>
     matcher ''db.s.t'' \<and> reason = None \<and> has_selection_patterns sample_matched \<and> py_startswith ''db.s.t'' ''db.''"
proof -
  obtain matcher reason where b: "build_matcher_checked sample_sdk sample_matched = (matcher, reason)"
    by (cases "build_matcher_checked sample_sdk sample_matched")
  have "fst (build_matcher_checked sample_sdk sample_matched) ''db.s.t''"
    "snd (build_matcher_checked sample_sdk sample_matched) = None"
    "parse_recipe sample_matched = Inr (''Postgres'',
       [(''database'', JStr ''db''), (''table_pattern'', JObj [(''allow'', JList [JStr ''db.s.t''])])])"
    "db_gated ''Postgres''
       [(''database'', JStr ''db''), (''table_pattern'', JObj [(''allow'', JList [JStr ''db.s.t''])])] = Some ''db.''"
    by code_simp+
  with b matcher_trustworthy [OF b] show ?thesis by fastforce
qed

end
