(* ===== verification/Secret_Resolver.thy ===== *)
theory Secret_Resolver
  imports Secret_Refs Exceptions "HOL-Library.AList"
begin

text \<open>
  \<open>src/shared/secrets/resolver.py\<close>: the bounded cache of resolved references, the backend
  binding, and the four public functions over the \<open>SecretBackend\<close> protocol of
  \<open>interface.py\<close>.

  What lies outside the process is indexed by a moment: a backend answers as the store is
  at that moment, and \<open>time.monotonic\<close> is a function \<open>clk\<close> from moments to seconds. The
  state counts the moments used so far; every reading of the clock and every call of the
  backend takes one.
\<close>

section \<open>State\<close>

record secret_ref_info =
  ref :: string
  secret_name :: string
  info_key :: string

record secret_backend =
  read_value :: "nat \<Rightarrow> string \<Rightarrow> string \<Rightarrow> (secret_error, string) result"
  verify :: "nat \<Rightarrow> string \<Rightarrow> string \<Rightarrow> (secret_error, unit) result"
  list_refs :: "nat \<Rightarrow> (secret_error, secret_ref_info list) result"

type_synonym cache_key = "string \<times> string"
type_synonym clock = "nat \<Rightarrow> rat"

record resolver =
  backend :: "secret_backend option"
  cache :: "(cache_key \<times> string \<times> rat) list"
  cache_order :: "cache_key list"
  moment :: nat

definition initial_resolver :: resolver where
  "initial_resolver = \<lparr>backend = None, cache = [], cache_order = [], moment = 0\<rparr>"

definition TTL_SECONDS :: rat where
  "TTL_SECONDS = 60"

definition CACHE_MAX_SIZE :: nat where
  "CACHE_MAX_SIZE = 512"

abbreviation cached_keys :: "resolver \<Rightarrow> cache_key set" where
  "cached_keys st \<equiv> fst ` set (cache st)"

definition tick :: "resolver \<Rightarrow> resolver" where
  "tick st = st\<lparr>moment := Suc (moment st)\<rparr>"

section \<open>Cache helpers\<close>

text \<open>The eviction of \<open>_cache_put\<close>: keys no longer cached are popped from the order list
  until one that is cached is found, and that one goes.\<close>

definition evict_oldest :: "resolver \<Rightarrow> resolver" where
  "evict_oldest st =
     (case dropWhile (\<lambda>k. k \<notin> cached_keys st) (cache_order st) of
        [] \<Rightarrow> st\<lparr>cache_order := []\<rparr>
      | evict # rest \<Rightarrow> st\<lparr>cache := AList.delete evict (cache st), cache_order := rest\<rparr>)"

definition insert_entry :: "cache_key \<Rightarrow> string \<Rightarrow> rat \<Rightarrow> resolver \<Rightarrow> resolver" where
  "insert_entry ck value expiry st =
     st\<lparr>cache := cache st @ [(ck, value, expiry)], cache_order := cache_order st @ [ck]\<rparr>"

definition cache_put :: "cache_key \<Rightarrow> string \<Rightarrow> rat \<Rightarrow> resolver \<Rightarrow> resolver" where
  "cache_put ck value expiry st =
     (if ck \<in> cached_keys st then st\<lparr>cache := AList.update ck (value, expiry) (cache st)\<rparr>
      else insert_entry ck value expiry
        (if length (cache st) \<ge> CACHE_MAX_SIZE then evict_oldest st else st))"

definition forget :: "cache_key \<Rightarrow> resolver \<Rightarrow> resolver" where
  "forget ck st = st\<lparr>cache := AList.delete ck (cache st)\<rparr>"

definition clear_cache :: "resolver \<Rightarrow> resolver" where
  "clear_cache st = st\<lparr>cache := [], cache_order := []\<rparr>"

section \<open>Backend binding\<close>

text \<open>The default backend, constructed on first use, is the first argument throughout.\<close>

definition get_backend :: "secret_backend \<Rightarrow> resolver \<Rightarrow> secret_backend \<times> resolver" where
  "get_backend dflt st = (case backend st of
      Some b \<Rightarrow> (b, st)
    | None \<Rightarrow> (dflt, st\<lparr>backend := Some dflt\<rparr>))"

definition set_backend :: "secret_backend option \<Rightarrow> resolver \<Rightarrow> resolver" where
  "set_backend b st = clear_cache (st\<lparr>backend := b\<rparr>)"

section \<open>Public surface\<close>

text \<open>Computations over the resolver state that may raise; what was done before the
  exception stays done.\<close>

type_synonym 'a resolving = "resolver \<Rightarrow> (secret_error, 'a) result \<times> resolver"

fun sbind :: "'a resolving \<Rightarrow> ('a \<Rightarrow> 'b resolving) \<Rightarrow> 'b resolving" where
  "sbind m f st = (case m st of (Inl e, st') \<Rightarrow> (Inl e, st') | (Inr x, st') \<Rightarrow> f x st')"

abbreviation sreturn :: "'a \<Rightarrow> 'a resolving" where
  "sreturn x \<equiv> \<lambda>st. (Inr x, st)"

definition fetch_value :: "secret_backend \<Rightarrow> clock \<Rightarrow> string \<Rightarrow> string \<Rightarrow> string resolving" where
  "fetch_value dflt clk name key st =
     (let (b, st1) = get_backend dflt st; answer = read_value b (moment st1) name key; st2 = tick st1 in
      case answer of
        Inl e \<Rightarrow> (Inl e, st2)
      | Inr decoded \<Rightarrow>
          (Inr decoded, cache_put (name, key) decoded (clk (moment st2) + TTL_SECONDS) (tick st2)))"

definition resolve_secret_ref :: "secret_backend \<Rightarrow> clock \<Rightarrow> string \<Rightarrow> string resolving" where
  "resolve_secret_ref dflt clk rf st =
     (case parse_name_key rf of
        Inl e \<Rightarrow> (Inl e, st)
      | Inr (name, key) \<Rightarrow>
          (case map_of (cache st) (name, key) of
             None \<Rightarrow> fetch_value dflt clk name key st
           | Some (value, expiry) \<Rightarrow>
               if clk (moment st) < expiry then (Inr value, tick st)
               else fetch_value dflt clk name key (forget (name, key) (tick st))))"

fun substitute_pieces :: "secret_backend \<Rightarrow> clock \<Rightarrow> piece list \<Rightarrow> string resolving" where
  "substitute_pieces dflt clk [] = sreturn []"
| "substitute_pieces dflt clk (Lit c # ps) =
     sbind (substitute_pieces dflt clk ps) (\<lambda>s. sreturn (c # s))"
| "substitute_pieces dflt clk (Ref name key # ps) =
     sbind (resolve_secret_ref dflt clk (name @ ''__'' @ key))
       (\<lambda>v. sbind (substitute_pieces dflt clk ps) (\<lambda>s. sreturn (v @ s)))"

fun substitute_refs :: "secret_backend \<Rightarrow> clock \<Rightarrow> json \<Rightarrow> json resolving"
  and substitute_list :: "secret_backend \<Rightarrow> clock \<Rightarrow> json list \<Rightarrow> json list resolving"
  and substitute_items :: "secret_backend \<Rightarrow> clock \<Rightarrow> jdict \<Rightarrow> jdict resolving"
where
  "substitute_refs dflt clk (JStr s) =
     sbind (substitute_pieces dflt clk (scan_refs s)) (\<lambda>t. sreturn (JStr t))"
| "substitute_refs dflt clk (JObj kvs) =
     sbind (substitute_items dflt clk kvs) (\<lambda>kvs'. sreturn (JObj kvs'))"
| "substitute_refs dflt clk (JList js) =
     sbind (substitute_list dflt clk js) (\<lambda>js'. sreturn (JList js'))"
| "substitute_refs dflt clk j = sreturn j"
| "substitute_list dflt clk [] = sreturn []"
| "substitute_list dflt clk (j # js) =
     sbind (substitute_refs dflt clk j)
       (\<lambda>j'. sbind (substitute_list dflt clk js) (\<lambda>js'. sreturn (j' # js')))"
| "substitute_items dflt clk [] = sreturn []"
| "substitute_items dflt clk ((k, v) # kvs) =
     sbind (substitute_refs dflt clk v)
       (\<lambda>v'. sbind (substitute_items dflt clk kvs) (\<lambda>kvs'. sreturn ((k, v') # kvs')))"

definition resolve_recipe_secrets :: "secret_backend \<Rightarrow> clock \<Rightarrow> json \<Rightarrow> json resolving" where
  "resolve_recipe_secrets dflt clk recipe = substitute_refs dflt clk recipe"

definition verify_secret_ref :: "secret_backend \<Rightarrow> string \<Rightarrow> unit resolving" where
  "verify_secret_ref dflt rf st =
     (case parse_name_key rf of
        Inl e \<Rightarrow> (Inl e, st)
      | Inr (name, key) \<Rightarrow>
          (let (b, st1) = get_backend dflt st in (verify b (moment st1) name key, tick st1)))"

definition list_source_cred_refs :: "secret_backend \<Rightarrow> secret_ref_info list resolving" where
  "list_source_cred_refs dflt st =
     (let (b, st1) = get_backend dflt st in (list_refs b (moment st1), tick st1))"

end
