(* ===== verification/Secret_Safety.thy ===== *)
theory Secret_Safety
  imports Secret_Resolver Recipe
begin

text \<open>
  What resolution guarantees whatever the store does meanwhile. \<open>resolver_ok\<close> is the
  invariant of the cache: one entry per key, at most 512 of them, every cached key known to
  the eviction list, and every entry an answer the bound backend really gave, with the
  expiry that answer earned. \<open>runs\<close> is a small program logic for resolving computations,
  with a rule for sequencing; the properties of a whole recipe follow from the rule for one
  reference.
\<close>

declare sbind.simps [simp del]

section \<open>The cache invariant\<close>

definition bound :: "secret_backend \<Rightarrow> resolver \<Rightarrow> secret_backend" where
  "bound dflt st = (case backend st of Some b \<Rightarrow> b | None \<Rightarrow> dflt)"

text \<open>An answer the backend gave before moment \<open>t\<close>; the clock was read at the next
  moment.\<close>

definition answered :: "secret_backend \<Rightarrow> clock \<Rightarrow> nat \<Rightarrow> cache_key \<Rightarrow> string \<times> rat \<Rightarrow> bool" where
  "answered b clk t ck entry \<longleftrightarrow>
     (\<exists>j. Suc j < t \<and> read_value b j (fst ck) (snd ck) = Inr (fst entry) \<and>
          snd entry = clk (Suc j) + TTL_SECONDS)"

definition cache_shape :: "resolver \<Rightarrow> bool" where
  "cache_shape st \<longleftrightarrow> distinct (map fst (cache st)) \<and> length (cache st) \<le> CACHE_MAX_SIZE \<and>
     cached_keys st \<subseteq> set (cache_order st)"

definition resolver_ok :: "secret_backend \<Rightarrow> clock \<Rightarrow> resolver \<Rightarrow> bool" where
  "resolver_ok dflt clk st \<longleftrightarrow> cache_shape st \<and>
     (\<forall>(ck, entry) \<in> set (cache st). answered (bound dflt st) clk (moment st) ck entry)"

lemma answered_later: "answered b clk t ck entry \<Longrightarrow> t \<le> t' \<Longrightarrow> answered b clk t' ck entry"
  unfolding answered_def by (meson order_less_le_trans)

lemma alist_delete:
  shows set_alist_delete: "set (AList.delete k xs) = {e \<in> set xs. fst e \<noteq> k}"
    and keys_alist_delete: "fst ` set (AList.delete k xs) = fst ` set xs - {k}"
    and distinct_alist_delete: "distinct (map fst xs) \<Longrightarrow> distinct (map fst (AList.delete k xs))"
    and length_alist_delete: "k \<in> fst ` set xs \<Longrightarrow> length (AList.delete k xs) < length xs"
proof -
  show "set (AList.delete k xs) = {e \<in> set xs. fst e \<noteq> k}" by (auto simp: AList.delete_eq)
  then show "fst ` set (AList.delete k xs) = fst ` set xs - {k}" by force
  show "distinct (map fst (AList.delete k xs))" if "distinct (map fst xs)"
    using that by (simp add: AList.delete_eq distinct_map_filter)
  show "length (AList.delete k xs) < length xs" if "k \<in> fst ` set xs"
    using that by (auto simp: AList.delete_eq intro!: length_filter_less)
qed

lemma alist_update_keys: "k \<in> fst ` set xs \<Longrightarrow> map fst (AList.update k v xs) = map fst xs"
  by (induction xs) auto

lemma alist_update_set: "set (AList.update k v xs) \<subseteq> insert (k, v) (set xs)"
  by (induction xs) auto

lemma cache_shape_forget: "cache_shape st \<Longrightarrow> cache_shape (forget ck st)"
  using length_delete_le [of ck "cache st"]
  by (simp add: cache_shape_def forget_def distinct_alist_delete keys_alist_delete) blast

lemma head_dropWhile:
  assumes "dropWhile P xs = y # ys"
  shows "\<not> P y" "set xs \<subseteq> {x. P x} \<union> insert y (set ys)"
proof -
  show "\<not> P y" using assms by (simp add: dropWhile_eq_Cons_conv)
  have "set xs = set (takeWhile P xs) \<union> set (dropWhile P xs)"
    by (metis set_append takeWhile_dropWhile_id)
  then show "set xs \<subseteq> {x. P x} \<union> insert y (set ys)"
    using assms by (auto dest: set_takeWhileD)
qed

lemma evict_oldest_shape:
  assumes "cache_shape st" "cache st \<noteq> []"
  shows "cache_shape (evict_oldest st)" "length (cache (evict_oldest st)) < length (cache st)"
    "set (cache (evict_oldest st)) \<subseteq> set (cache st)"
proof -
  let ?gone = "\<lambda>k. k \<notin> cached_keys st"
  obtain ck where "ck \<in> cached_keys st" using assms(2) by (metis ex_in_conv image_is_empty set_empty)
  with assms(1) have "dropWhile ?gone (cache_order st) \<noteq> []"
    by (auto simp: cache_shape_def dropWhile_eq_Nil_conv)
  then obtain k rest where dw: "dropWhile ?gone (cache_order st) = k # rest"
    by (cases "dropWhile ?gone (cache_order st)") auto
  note hd = head_dropWhile [OF dw]
  have ev: "evict_oldest st = st\<lparr>cache := AList.delete k (cache st), cache_order := rest\<rparr>"
    using dw by (simp add: evict_oldest_def)
  have sub: "cached_keys st - {k} \<subseteq> set rest"
    using hd assms(1) unfolding cache_shape_def by blast
  have len: "length (AList.delete k (cache st)) < length (cache st)"
    using hd(1) by (simp add: length_alist_delete)
  show "cache_shape (evict_oldest st)"
    using assms(1) sub len by (simp add: ev cache_shape_def distinct_alist_delete keys_alist_delete)
  show "length (cache (evict_oldest st)) < length (cache st)" using len by (simp add: ev)
  show "set (cache (evict_oldest st)) \<subseteq> set (cache st)"
    by (auto simp: ev set_alist_delete)
qed

lemma cache_put_shape:
  assumes "cache_shape st"
  shows "cache_shape (cache_put ck v e st)"
    "set (cache (cache_put ck v e st)) \<subseteq> insert (ck, v, e) (set (cache st))"
proof -
  have "cache_shape (cache_put ck v e st) \<and>
    set (cache (cache_put ck v e st)) \<subseteq> insert (ck, v, e) (set (cache st))"
  proof (cases "ck \<in> cached_keys st")
    case True
    from alist_update_keys [OF this, of "(v, e)"] have
      keys: "map fst (AList.update ck (v, e) (cache st)) = map fst (cache st)" .
    then have "length (AList.update ck (v, e) (cache st)) = length (cache st)"
      "fst ` set (AList.update ck (v, e) (cache st)) = cached_keys st"
      by (metis length_map, metis list.set_map)
    with True keys assms show ?thesis
      using alist_update_set [of ck "(v, e)" "cache st"] by (simp add: cache_put_def cache_shape_def)
  next
    case False
    let ?st = "if length (cache st) \<ge> CACHE_MAX_SIZE then evict_oldest st else st"
    have "cache_shape ?st \<and> length (cache ?st) < CACHE_MAX_SIZE \<and> set (cache ?st) \<subseteq> set (cache st)"
    proof (cases "length (cache st) \<ge> CACHE_MAX_SIZE")
      case True
      then have "cache st \<noteq> []" by (auto simp: CACHE_MAX_SIZE_def)
      from evict_oldest_shape [OF assms this] True assms show ?thesis
        by (simp add: cache_shape_def)
    qed (use assms in simp)
    moreover from this False have "ck \<notin> cached_keys ?st" by auto
    moreover have "cache_put ck v e st = insert_entry ck v e ?st" using False by (simp add: cache_put_def)
    ultimately show ?thesis
      unfolding cache_shape_def insert_entry_def by (simp split del: if_split) blast
  qed
  then show "cache_shape (cache_put ck v e st)"
    "set (cache (cache_put ck v e st)) \<subseteq> insert (ck, v, e) (set (cache st))" by auto
qed

section \<open>A program logic for resolving computations\<close>

definition stays :: "secret_backend \<Rightarrow> clock \<Rightarrow> secret_backend \<Rightarrow> nat \<Rightarrow> resolver \<Rightarrow> bool" where
  "stays dflt clk b lo st \<longleftrightarrow> resolver_ok dflt clk st \<and> bound dflt st = b \<and> lo \<le> moment st"

text \<open>Started after moment \<open>lo\<close> with backend \<open>b\<close> bound, the computation keeps the
  invariant and the binding, and when it ends by moment \<open>hi\<close> its value satisfies \<open>P\<close> or
  its exception \<open>E\<close>.\<close>

definition runs :: "secret_backend \<Rightarrow> clock \<Rightarrow> secret_backend \<Rightarrow> nat \<Rightarrow> nat \<Rightarrow> 'a resolving \<Rightarrow>
    ('a \<Rightarrow> bool) \<Rightarrow> (secret_error \<Rightarrow> bool) \<Rightarrow> bool" where
  "runs dflt clk b lo hi m P E \<longleftrightarrow> (\<forall>st. stays dflt clk b lo st \<longrightarrow>
     stays dflt clk b lo (snd (m st)) \<and> moment st \<le> moment (snd (m st)) \<and>
     (moment (snd (m st)) \<le> hi \<longrightarrow> (case fst (m st) of Inr x \<Rightarrow> P x | Inl e \<Rightarrow> E e)))"

lemma runs_return: "P x \<Longrightarrow> runs dflt clk b lo hi (sreturn x) P E"
  by (simp add: runs_def)

lemma runs_weaken:
  "runs dflt clk b lo hi m P E \<Longrightarrow> (\<And>x. P x \<Longrightarrow> P' x) \<Longrightarrow> (\<And>e. E e \<Longrightarrow> E' e) \<Longrightarrow>
     runs dflt clk b lo hi m P' E'"
  unfolding runs_def by (fastforce split: sum.splits)

lemma runs_bind:
  assumes m: "runs dflt clk b lo hi m P E"
    and f: "\<And>x. runs dflt clk b lo hi (f x) (\<lambda>y. P x \<longrightarrow> Q y) E"
  shows "runs dflt clk b lo hi (sbind m f) Q E"
  unfolding runs_def
proof (intro allI impI)
  fix st :: resolver
  assume st: "stays dflt clk b lo st"
  obtain r st1 where ms: "m st = (r, st1)" by (cases "m st")
  note 1 = m [unfolded runs_def, rule_format, OF st, unfolded ms fst_conv snd_conv]
  show "stays dflt clk b lo (snd (sbind m f st)) \<and> moment st \<le> moment (snd (sbind m f st)) \<and>
    (moment (snd (sbind m f st)) \<le> hi \<longrightarrow> (case fst (sbind m f st) of Inr x \<Rightarrow> Q x | Inl e \<Rightarrow> E e))"
  proof (cases r)
    case (Inl e)
    with 1 ms show ?thesis by (simp add: sbind.simps)
  next
    case (Inr x)
    note 2 = f [of x, unfolded runs_def, rule_format, OF conjunct1 [OF 1]]
    from Inr ms have eq: "sbind m f st = f x st1" by (simp add: sbind.simps)
    from 1 2 Inr show ?thesis unfolding eq by (auto split: sum.splits)
  qed
qed

text \<open>The only ways a call fails: a malformed reference, or an error the backend gave for one
  of the references during the call.\<close>

definition culprit :: "secret_backend \<Rightarrow> nat \<Rightarrow> nat \<Rightarrow> string set \<Rightarrow> secret_error \<Rightarrow> bool" where
  "culprit b lo hi refs e \<longleftrightarrow> (\<exists>rf \<in> refs. parse_name_key rf = Inl e \<or>
     (\<exists>name key j. parse_name_key rf = Inr (name, key) \<and> lo \<le> j \<and> j < hi \<and> read_value b j name key = Inl e))"

lemma culprit_mono: "culprit b lo hi refs e \<Longrightarrow> refs \<subseteq> refs' \<Longrightarrow> culprit b lo hi refs' e"
  unfolding culprit_def by blast

text \<open>The two shapes the traversal has: rebuild from one part, or from two in order.\<close>

lemma runs_map:
  assumes "runs dflt clk b lo hi m P E" "\<And>x. P x \<Longrightarrow> Q (f x)"
  shows "runs dflt clk b lo hi (sbind m (\<lambda>x. sreturn (f x))) Q E"
  by (rule runs_bind [OF assms(1)], rule runs_return) (simp add: assms(2))

lemma runs_map2:
  assumes "runs dflt clk b lo hi m P (culprit b lo hi S)" "runs dflt clk b lo hi m' P' (culprit b lo hi S')"
    and "\<And>x y. P x \<Longrightarrow> P' y \<Longrightarrow> Q (f x y)"
  shows "runs dflt clk b lo hi (sbind m (\<lambda>x. sbind m' (\<lambda>y. sreturn (f x y)))) Q (culprit b lo hi (S \<union> S'))"
proof (rule runs_bind [where P = P])
  show "runs dflt clk b lo hi m P (culprit b lo hi (S \<union> S'))"
    by (rule runs_weaken [OF assms(1)]) (auto elim: culprit_mono)
  show "runs dflt clk b lo hi (sbind m' (\<lambda>y. sreturn (f x y))) (\<lambda>z. P x \<longrightarrow> Q z) (culprit b lo hi (S \<union> S'))" for x
    by (rule runs_map [OF runs_weaken [OF assms(2)]]) (auto intro: assms(3) elim: culprit_mono)
qed

section \<open>One reference\<close>

text \<open>A value is fresh for a call that began at moment \<open>lo\<close> when the bound backend gave it
  less than the time-to-live before.\<close>

definition fresh :: "secret_backend \<Rightarrow> clock \<Rightarrow> nat \<Rightarrow> nat \<Rightarrow> string \<Rightarrow> string \<Rightarrow> bool" where
  "fresh b clk lo hi rf v \<longleftrightarrow> (\<exists>name key j. parse_name_key rf = Inr (name, key) \<and> j < hi \<and>
     read_value b j name key = Inr v \<and> clk lo < clk (Suc j) + TTL_SECONDS)"

lemma resolver_ok_tick: "resolver_ok dflt clk st \<Longrightarrow> resolver_ok dflt clk (tick st)"
  by (auto simp: resolver_ok_def tick_def cache_shape_def bound_def intro: answered_later)

lemma resolver_ok_forget: "resolver_ok dflt clk st \<Longrightarrow> resolver_ok dflt clk (forget ck st)"
  using cache_shape_forget [of st ck]
  by (auto simp: resolver_ok_def forget_def bound_def set_alist_delete)

lemma stays_tick: "stays dflt clk b lo st \<Longrightarrow> stays dflt clk b lo (tick st)"
  using resolver_ok_tick [of dflt clk st] by (simp add: stays_def tick_def bound_def)

lemma stays_forget: "stays dflt clk b lo st \<Longrightarrow> stays dflt clk b lo (forget ck st)"
  using resolver_ok_forget [of dflt clk st ck] by (simp add: stays_def forget_def bound_def)

lemma stays_get_backend:
  "stays dflt clk b lo st \<Longrightarrow> \<exists>st'. get_backend dflt st = (b, st') \<and> stays dflt clk b lo st' \<and> moment st' = moment st"
  by (auto simp: stays_def get_backend_def bound_def resolver_ok_def cache_shape_def split: option.splits)

lemma cache_put_frame [simp]:
  "backend (cache_put ck v e st) = backend st" "moment (cache_put ck v e st) = moment st"
  by (simp_all add: cache_put_def insert_entry_def evict_oldest_def split: list.splits)

lemma tick_simps [simp]:
  "moment (tick st) = Suc (moment st)" "cache (tick st) = cache st" "backend (tick st) = backend st"
  by (simp_all add: tick_def)

lemma stays_cache_put:
  assumes "stays dflt clk b lo st" "answered b clk (moment st) ck (v, e)"
  shows "stays dflt clk b lo (cache_put ck v e st)"
proof -
  have "cache_shape st" using assms(1) by (simp add: stays_def resolver_ok_def)
  note put = cache_put_shape [OF this, of ck v e]
  have "answered b clk (moment st) ck' entry" if "(ck', entry) \<in> set (cache (cache_put ck v e st))" for ck' entry
    using put(2) that assms by (auto simp: stays_def resolver_ok_def)
  with put(1) assms(1) show ?thesis
    by (auto simp: stays_def resolver_ok_def bound_def)
qed

lemma runs_fetch:
  assumes "mono clk" "parse_name_key rf = Inr (name, key)"
  shows "runs dflt clk b lo hi (fetch_value dflt clk name key) (fresh b clk lo hi rf) (culprit b lo hi {rf})"
  unfolding runs_def
proof (intro allI impI)
  fix st :: resolver
  assume st: "stays dflt clk b lo st"
  then obtain st1 where g: "get_backend dflt st = (b, st1)" and st1: "stays dflt clk b lo st1"
    and mo: "moment st1 = moment st" using stays_get_backend by blast
  let ?j = "moment st"
  have lo: "lo \<le> ?j" using st by (simp add: stays_def)
  show "stays dflt clk b lo (snd (fetch_value dflt clk name key st)) \<and>
    ?j \<le> moment (snd (fetch_value dflt clk name key st)) \<and>
    (moment (snd (fetch_value dflt clk name key st)) \<le> hi \<longrightarrow>
      (case fst (fetch_value dflt clk name key st) of Inr x \<Rightarrow> fresh b clk lo hi rf x | Inl e \<Rightarrow> culprit b lo hi {rf} e))"
  proof (cases "read_value b ?j name key")
    case (Inl e)
    with g mo have "fetch_value dflt clk name key st = (Inl e, tick st1)"
      by (simp add: fetch_value_def)
    with st1 mo lo Inl assms(2) show ?thesis by (auto simp: stays_tick culprit_def)
  next
    case (Inr v)
    let ?e = "clk (Suc ?j) + TTL_SECONDS"
    from Inr g mo have fv: "fetch_value dflt clk name key st =
      (Inr v, cache_put (name, key) v ?e (tick (tick st1)))" by (simp add: fetch_value_def)
    have "answered b clk (moment (tick (tick st1))) (name, key) (v, ?e)"
      using Inr mo by (auto simp: answered_def)
    with st1 have "stays dflt clk b lo (snd (fetch_value dflt clk name key st))"
      by (simp add: fv stays_cache_put stays_tick)
    moreover have "clk lo \<le> clk (Suc ?j)" using assms(1) lo by (simp add: monoD)
    then have "clk lo < clk (Suc ?j) + TTL_SECONDS" by (simp add: TTL_SECONDS_def)
    then have "?j < hi \<Longrightarrow> fresh b clk lo hi rf v" unfolding fresh_def using Inr assms(2) by blast
    ultimately show ?thesis using fv mo by simp
  qed
qed

lemma runs_resolve:
  assumes "mono clk"
  shows "runs dflt clk b lo hi (resolve_secret_ref dflt clk rf) (fresh b clk lo hi rf) (culprit b lo hi {rf})"
proof (cases "parse_name_key rf")
  case (Inl e)
  then show ?thesis by (auto simp: runs_def resolve_secret_ref_def culprit_def)
next
  case (Inr nk)
  then obtain name key where p: "parse_name_key rf = Inr (name, key)" by (cases nk) auto
  note fetch = runs_fetch [OF assms p, of dflt b lo hi, unfolded runs_def, rule_format]
  show ?thesis
    unfolding runs_def
  proof (intro allI impI)
    fix st :: resolver
    assume st: "stays dflt clk b lo st"
    let ?res = "resolve_secret_ref dflt clk rf st"
    show "stays dflt clk b lo (snd ?res) \<and> moment st \<le> moment (snd ?res) \<and>
      (moment (snd ?res) \<le> hi \<longrightarrow>
        (case fst ?res of Inr x \<Rightarrow> fresh b clk lo hi rf x | Inl e \<Rightarrow> culprit b lo hi {rf} e))"
    proof (cases "map_of (cache st) (name, key)")
      case None
      then have "?res = fetch_value dflt clk name key st" using p by (simp add: resolve_secret_ref_def)
      then show ?thesis using fetch [OF st] by simp
    next
      case (Some entry)
      obtain v e where en: "entry = (v, e)" by (cases entry)
      have "answered b clk (moment st) (name, key) (v, e)"
        using st map_of_SomeD [OF Some] en by (auto simp: stays_def resolver_ok_def)
      then obtain j where j: "Suc j < moment st" "read_value b j name key = Inr v" "e = clk (Suc j) + TTL_SECONDS"
        by (auto simp: answered_def)
      show ?thesis
      proof (cases "clk (moment st) < e")
        case True
        then have r: "?res = (Inr v, tick st)" using p Some en by (simp add: resolve_secret_ref_def)
        have "clk lo \<le> clk (moment st)" using st assms by (simp add: stays_def monoD)
        with True j(3) have "clk lo < clk (Suc j) + TTL_SECONDS" by simp
        then have "j < hi \<Longrightarrow> fresh b clk lo hi rf v" unfolding fresh_def using j(2) p by blast
        with r j(1) st show ?thesis by (simp add: stays_tick)
      next
        case False
        then have r: "?res = fetch_value dflt clk name key (forget (name, key) (tick st))"
          using p Some en by (simp add: resolve_secret_ref_def)
        have "moment (forget (name, key) (tick st)) = Suc (moment st)" by (simp add: forget_def)
        with r fetch [OF stays_forget [OF stays_tick [OF st]]] show ?thesis
          by (metis Suc_leD)
      qed
    qed
  qed
qed

section \<open>A whole recipe\<close>

text \<open>\<open>out\<close> is \<open>j\<close> with every reference in a string replaced by a value the relation
  allows for it, and nothing else changed.\<close>

fun piece_becomes :: "(string \<Rightarrow> string \<Rightarrow> bool) \<Rightarrow> piece \<Rightarrow> string \<Rightarrow> bool" where
  "piece_becomes R (Lit c) t \<longleftrightarrow> t = [c]"
| "piece_becomes R (Ref name key) t \<longleftrightarrow> R (name @ ''__'' @ key) t"

definition string_becomes :: "(string \<Rightarrow> string \<Rightarrow> bool) \<Rightarrow> piece list \<Rightarrow> string \<Rightarrow> bool" where
  "string_becomes R ps t \<longleftrightarrow> (\<exists>ts. list_all2 (piece_becomes R) ps ts \<and> t = concat ts)"

inductive becomes :: "(string \<Rightarrow> string \<Rightarrow> bool) \<Rightarrow> json \<Rightarrow> json \<Rightarrow> bool" for R where
  str: "string_becomes R (scan_refs s) t \<Longrightarrow> becomes R (JStr s) (JStr t)"
| lst: "list_all2 (becomes R) js js' \<Longrightarrow> becomes R (JList js) (JList js')"
| obj: "list_all2 (\<lambda>kv kv'. fst kv = fst kv' \<and> becomes R (snd kv) (snd kv')) kvs kvs' \<Longrightarrow>
    becomes R (JObj kvs) (JObj kvs')"
| atom: "j \<in> {JNull, JBool x, JInt i, JFloat r} \<Longrightarrow> becomes R j j"

lemma string_becomes_Nil: "string_becomes R [] []"
  by (simp add: string_becomes_def)

lemma string_becomes_Cons:
  "piece_becomes R p t \<Longrightarrow> string_becomes R ps s \<Longrightarrow> string_becomes R (p # ps) (t @ s)"
  unfolding string_becomes_def by (metis concat.simps(2) list_all2_Cons)

lemma runs_pieces:
  assumes "mono clk"
  shows "runs dflt clk b lo hi (substitute_pieces dflt clk ps)
    (string_becomes (fresh b clk lo hi) ps) (culprit b lo hi (set (concat (map ref_of ps))))"
proof (induction ps)
  case Nil
  then show ?case unfolding substitute_pieces.simps by (simp add: runs_return string_becomes_Nil)
next
  case (Cons p ps)
  show ?case
  proof (cases p)
    case (Lit c)
    have "string_becomes (fresh b clk lo hi) (p # ps) (c # s)" if "string_becomes (fresh b clk lo hi) ps s" for s
      using string_becomes_Cons [OF _ that, of p "[c]"] Lit by simp
    from runs_map [where f = "\<lambda>s. c # s" and Q = "string_becomes (fresh b clk lo hi) (p # ps)", OF Cons.IH this]
    show ?thesis unfolding Lit substitute_pieces.simps by simp
  next
    case (Ref name key)
    have "string_becomes (fresh b clk lo hi) (p # ps) (v @ s)"
      if "fresh b clk lo hi (name @ ''__'' @ key) v" "string_becomes (fresh b clk lo hi) ps s" for v s
      using string_becomes_Cons [OF _ that(2), of p v] that(1) Ref by simp
    from runs_map2 [where f = "\<lambda>v s. v @ s" and Q = "string_becomes (fresh b clk lo hi) (p # ps)",
        OF runs_resolve [OF assms] Cons.IH this]
    show ?thesis unfolding Ref substitute_pieces.simps by simp
  qed
qed

lemma runs_substitute:
  assumes "mono clk"
  shows "runs dflt clk b lo hi (substitute_refs dflt clk j) (becomes (fresh b clk lo hi) j)
      (culprit b lo hi (collect_refs j {}))"
    and "runs dflt clk b lo hi (substitute_list dflt clk js) (list_all2 (becomes (fresh b clk lo hi)) js)
      (culprit b lo hi (\<Union>j \<in> set js. collect_refs j {}))"
    and "runs dflt clk b lo hi (substitute_items dflt clk kvs)
      (list_all2 (\<lambda>kv kv'. fst kv = fst kv' \<and> becomes (fresh b clk lo hi) (snd kv) (snd kv')) kvs)
      (culprit b lo hi (\<Union>kv \<in> set kvs. collect_refs (snd kv) {}))"
  using assms
proof (induction dflt clk j and dflt clk js and dflt clk kvs
    rule: substitute_refs_substitute_list_substitute_items.induct)
  case (1 dflt clk s)
  show ?case unfolding substitute_refs.simps collect_refs_simps refs_in_def
    by (rule runs_map [OF runs_pieces [OF 1]]) (rule becomes.str)
next
  case (2 dflt clk kvs)
  show ?case unfolding substitute_refs.simps collect_refs_simps
    by (rule runs_map [OF 2(1) [OF 2(2)]]) (rule becomes.obj)
next
  case (3 dflt clk js)
  show ?case unfolding substitute_refs.simps collect_refs_simps
    by (rule runs_map [OF 3(1) [OF 3(2)]]) (rule becomes.lst)
next
  case (6 dflt clk j js)
  show ?case unfolding substitute_list.simps
    using runs_map2 [where f = Cons and Q = "list_all2 (becomes (fresh b clk lo hi)) (j # js)",
        OF 6(1) [OF 6(3)] 6(2) [OF 6(3)]] by simp
next
  case (8 dflt clk k v kvs)
  let ?Q = "\<lambda>kv kv'. fst kv = fst kv' \<and> becomes (fresh b clk lo hi) (snd kv) (snd kv')"
  show ?case unfolding substitute_items.simps
    using runs_map2 [where f = "\<lambda>v' kvs'. (k, v') # kvs'" and Q = "list_all2 ?Q ((k, v) # kvs)",
        OF 8(1) [OF 8(3)] 8(2) [OF 8(3)]] by simp
qed (simp_all add: runs_return becomes.atom)

end
