(* ===== verification/Events.thy ===== *)
theory Events
  imports Json Exceptions
begin

text \<open>
  The unified event log (\<open>events\<close> in \<open>src/shared/db/models.py\<close>) and the listing the services share
  (\<open>_list_events\<close>). The database's order of rows with equal keys is arbitrary; the model keeps insertion order.
\<close>

record event_row =
  ev_entity_type :: string
  ev_entity_id :: string
  ev_type :: string
  ev_status :: string
  ev_detail :: jdict
  ev_at :: nat

text \<open>\<open>OFFSET offset LIMIT limit\<close>.\<close>

definition page :: "nat \<Rightarrow> nat \<Rightarrow> 'a list \<Rightarrow> 'a list" where
  "page offset limit rows = take limit (drop offset rows)"

text \<open>A descending order on a timestamp, and an optional order chosen by the caller.\<close>

definition desc_by :: "('a \<Rightarrow> nat) \<Rightarrow> 'a list \<Rightarrow> 'a list" where
  "desc_by f rows = sort_key (\<lambda>r. - int (f r)) rows"

definition ordered :: "('a list \<Rightarrow> 'a list) option \<Rightarrow> ('a \<Rightarrow> nat) \<Rightarrow> 'a list \<Rightarrow> 'a list" where
  "ordered order_by f rows = (case order_by of Some g \<Rightarrow> g rows | None \<Rightarrow> desc_by f rows)"

definition list_events ::
  "string \<Rightarrow> string \<Rightarrow> string \<Rightarrow> nat \<Rightarrow> nat \<Rightarrow> nat option \<Rightarrow> nat option \<Rightarrow> (event_row list \<Rightarrow> event_row list) option
     \<Rightarrow> event_row list \<Rightarrow> event_row list \<times> nat" where
  "list_events entity_type entity_id event_prefix offset limit from_dt to_dt order_by evs =
     (let base = filter (\<lambda>e. ev_entity_type e = entity_type \<and> ev_entity_id e = entity_id \<and> py_startswith (ev_type e) event_prefix
            \<and> (case from_dt of None \<Rightarrow> True | Some t \<Rightarrow> t \<le> ev_at e) \<and> (case to_dt of None \<Rightarrow> True | Some t \<Rightarrow> ev_at e \<le> t)) evs
      in (page offset limit (ordered order_by ev_at base), length base))"

lemma set_page: "set (page n m xs) \<subseteq> set xs"
  by (auto simp: page_def dest: in_set_takeD in_set_dropD)

lemma length_page: "length (page n m xs) \<le> m"
  by (simp add: page_def)

end
