(* ===== verification/Ingestion_Sources.thy ===== *)
theory Ingestion_Sources
  imports Secret_Safety Events "HOL-Library.Product_Lexorder"
begin

text \<open>
  \<open>src/backend/ingestion/service.py\<close>, the source registry: validation at save time, create,
  replace, patch and delete, the tier listing, the dataset mappings and the two reverse
  lookups, and the masking of recipes mirrored from DataHub.

  A source id comes with the outcome of \<open>uuid.UUID(source_id)\<close>, \<open>None\<close> when that raises; the events record
  the id as it was spelled. The state
  pairs the tables with the secret resolver's state, because saving a source verifies its
  references; an operation that raises leaves the tables as they were (the session is rolled
  back) while moments the resolver used stay used. Timestamps are given by the caller, and
  so is the order in which Python iterates a set of references.
\<close>

section \<open>Tables\<close>

fun mode_value :: "mode \<Rightarrow> string" where
  "mode_value DATAHUB_MANAGED = ''DATAHUB_MANAGED''"
| "mode_value ACTIVE_CUSTOM_MANAGED = ''ACTIVE_CUSTOM_MANAGED''"
| "mode_value PASSIVE = ''PASSIVE''"

record ingestion_source =
  src_id :: nat
  src_mode :: mode
  src_name :: string
  platform :: string
  recipe :: json
  schedule :: "string option"
  schedule_tier :: "string option"
  datahub_source_urn :: "string option"
  parent_source_id :: "nat option"
  status :: string
  updated_at :: nat

record source_dataset =
  source_id :: nat
  dataset_urn :: string
  derivation :: string
  first_seen_at :: nat
  last_seen_at :: nat

record ingestion_db =
  sources :: "ingestion_source list"
  mappings :: "source_dataset list"
  events :: "event_row list"

type_synonym ingestion_state = "ingestion_db \<times> resolver"

section \<open>Validation at save time\<close>

definition validate_and_derive_tier :: "mode \<Rightarrow> string option \<Rightarrow> (unit, string option) result" where
  "validate_and_derive_tier m sched =
     (if m \<noteq> ACTIVE_CUSTOM_MANAGED then Inr None else cron_to_tier sched)"

text \<open>The handlers around \<open>verify_secret_ref\<close>; what none of them catches propagates.\<close>

fun translate_secret_error :: "secret_error \<Rightarrow> ds_error" where
  "translate_secret_error SecretRefMalformed = PreconditionFailedError ''SECRET_REF_MALFORMED''"
| "translate_secret_error SecretRefNotFound = PreconditionFailedError ''SECRET_REF_NOT_FOUND''"
| "translate_secret_error SecretResolverUnavailable = StorageUnavailableError"
| "translate_secret_error AttributeError = UncaughtError ''AttributeError''"
| "translate_secret_error ClientError = UncaughtError ''ClientError''"

fun verify_each :: "secret_backend \<Rightarrow> string list \<Rightarrow> resolver \<Rightarrow> (ds_error, unit) result \<times> resolver" where
  "verify_each dflt [] st = (Inr (), st)"
| "verify_each dflt (rf # refs) st = (case verify_secret_ref dflt rf st of
      (Inl e, st') \<Rightarrow> (Inl (translate_secret_error e), st')
    | (Inr u, st') \<Rightarrow> verify_each dflt refs st')"

definition verify_recipe_secret_refs ::
    "secret_backend \<Rightarrow> (string set \<Rightarrow> string list) \<Rightarrow> json \<Rightarrow> resolver \<Rightarrow> (ds_error, unit) result \<times> resolver" where
  "verify_recipe_secret_refs dflt iter rcp = verify_each dflt (iter (extract_secret_refs rcp))"

definition reject_if_datahub_managed :: "mode \<Rightarrow> (ds_error, unit) result" where
  "reject_if_datahub_managed m =
     (if m = DATAHUB_MANAGED then Inl (ConflictError ''INGESTION_SOURCE_READONLY'') else Inr ())"

text \<open>\<open>parse_recipe\<close> and \<open>_validate_and_derive_tier\<close> as the handlers use them: the
  \<open>ValueError\<close> of the first is not caught.\<close>

definition checked_recipe :: "json \<Rightarrow> (ds_error, string) result" where
  "checked_recipe rcp = (case parse_recipe rcp of
      Inl e \<Rightarrow> Inl (UncaughtError ''ValueError'')
    | Inr (source_type, config) \<Rightarrow> Inr source_type)"

definition checked_tier :: "mode \<Rightarrow> string option \<Rightarrow> (ds_error, string option) result" where
  "checked_tier m sched = (case validate_and_derive_tier m sched of
      Inl u \<Rightarrow> Inl (PreconditionFailedError ''INVALID_PARAMETER'')
    | Inr tier \<Rightarrow> Inr tier)"

section \<open>Create, read, update, delete\<close>

definition source_row :: "nat option \<Rightarrow> ingestion_db \<Rightarrow> (ds_error, ingestion_source) result" where
  "source_row uid db = (case uid of
      None \<Rightarrow> Inl (EntityNotFoundError ''ingestion_source'')
    | Some i \<Rightarrow> (case row_get src_id i (sources db) of
          None \<Rightarrow> Inl (EntityNotFoundError ''ingestion_source'')
        | Some row \<Rightarrow> Inr row))"

definition get_source :: "nat option \<Rightarrow> ingestion_db \<Rightarrow> (ds_error, ingestion_source) result" where
  "get_source uid db = source_row uid db"

definition record_source_event ::
    "string \<Rightarrow> nat \<Rightarrow> string \<Rightarrow> string \<Rightarrow> jdict \<Rightarrow> ingestion_db \<Rightarrow> ingestion_db" where
  "record_source_event sid now etype estatus det db =
     db\<lparr>events := events db @ [\<lparr>ev_entity_type = ''ingestion_source'', ev_entity_id = sid, ev_type = etype,
        ev_status = estatus, ev_detail = det, ev_at = now\<rparr>]\<rparr>"

definition add_source :: "ingestion_source \<Rightarrow> ingestion_db \<Rightarrow> ingestion_db" where
  "add_source row db = db\<lparr>sources := sources db @ [row]\<rparr>"

definition put_source :: "ingestion_source \<Rightarrow> ingestion_db \<Rightarrow> ingestion_db" where
  "put_source row db = db\<lparr>sources := row_update src_id (src_id row) (\<lambda>r. row) (sources db)\<rparr>"

text \<open>What the three saving operations check, in the order of create and replace.\<close>

definition check_source ::
    "secret_backend \<Rightarrow> (string set \<Rightarrow> string list) \<Rightarrow> mode \<Rightarrow> string option \<Rightarrow> json \<Rightarrow> resolver \<Rightarrow>
     (ds_error, string \<times> string option) result \<times> resolver" where
  "check_source dflt iter m sched rcp st =
     (case checked_recipe rcp of
        Inl e \<Rightarrow> (Inl e, st)
      | Inr source_type \<Rightarrow>
          (case checked_tier m sched of
             Inl e \<Rightarrow> (Inl e, st)
           | Inr tier \<Rightarrow>
               (case verify_recipe_secret_refs dflt iter rcp st of
                  (Inl e, st') \<Rightarrow> (Inl e, st')
                | (Inr u, st') \<Rightarrow> (Inr (source_type, tier), st'))))"

definition create_source ::
    "secret_backend \<Rightarrow> (string set \<Rightarrow> string list) \<Rightarrow> string \<Rightarrow> nat \<Rightarrow> nat \<Rightarrow> mode \<Rightarrow> string \<Rightarrow> string option \<Rightarrow> json \<Rightarrow>
     ingestion_state \<Rightarrow> (ds_error, ingestion_source) result \<times> ingestion_state" where
  "create_source dflt iter sid new_id now m name sched rcp s =
     (case reject_if_datahub_managed m of
        Inl e \<Rightarrow> (Inl e, s)
      | Inr _ \<Rightarrow>
          (case check_source dflt iter m sched rcp (snd s) of
             (Inl e, st') \<Rightarrow> (Inl e, fst s, st')
           | (Inr (source_type, tier), st') \<Rightarrow>
               let row = \<lparr>src_id = new_id, src_mode = m, src_name = name, platform = source_type, recipe = rcp,
                          schedule = sched, schedule_tier = tier, datahub_source_urn = None,
                          parent_source_id = None, status = ''OK'', updated_at = now\<rparr> in
               (Inr row,
                record_source_event sid now ''INGESTION.SOURCE_CREATE'' ''success''
                  [(''name'', JStr name), (''mode'', JStr (mode_value m)), (''platform'', JStr source_type)]
                  (add_source row (fst s)), st')))"

definition replace_source ::
    "secret_backend \<Rightarrow> (string set \<Rightarrow> string list) \<Rightarrow> string \<Rightarrow> nat option \<Rightarrow> nat \<Rightarrow> mode \<Rightarrow> string \<Rightarrow> string option \<Rightarrow> json \<Rightarrow>
     ingestion_state \<Rightarrow> (ds_error, ingestion_source) result \<times> ingestion_state" where
  "replace_source dflt iter sid uid now m name sched rcp s =
     (case rbind (source_row uid (fst s)) (\<lambda>row. rmap (\<lambda>_. row) (reject_if_datahub_managed (src_mode row))) of
        Inl e \<Rightarrow> (Inl e, s)
      | Inr row \<Rightarrow>
          (case check_source dflt iter m sched rcp (snd s) of
             (Inl e, st') \<Rightarrow> (Inl e, fst s, st')
           | (Inr (source_type, tier), st') \<Rightarrow>
               let row' = row\<lparr>src_mode := m, src_name := name, platform := source_type, recipe := rcp,
                              schedule := sched, schedule_tier := tier, updated_at := now\<rparr> in
               (Inr row',
                record_source_event sid now ''INGESTION.SOURCE_UPDATE'' ''success''
                  [(''name'', JStr name), (''mode'', JStr (mode_value m)), (''platform'', JStr source_type),
                   (''operation'', JStr ''PUT'')]
                  (put_source row' (fst s)), st')))"

text \<open>The patch body: which keys are present, with their values; a present \<open>name\<close> or
  \<open>recipe\<close> may be null, a null \<open>schedule\<close> clears it.\<close>

record source_patch =
  p_name :: "string option option"
  p_schedule :: "string option option"
  p_recipe :: "json option option"

definition fields_changed :: "source_patch \<Rightarrow> json list" where
  "fields_changed p =
     (if p_name p = None then [] else [JStr ''name'']) @
     (if p_schedule p = None then [] else [JStr ''schedule'']) @
     (if p_recipe p = None then [] else [JStr ''recipe''])"

definition patch_recipe ::
    "secret_backend \<Rightarrow> (string set \<Rightarrow> string list) \<Rightarrow> source_patch \<Rightarrow> ingestion_source \<Rightarrow> resolver \<Rightarrow>
     (ds_error, ingestion_source) result \<times> resolver" where
  "patch_recipe dflt iter p row st = (case p_recipe p of
      Some (Some rcp) \<Rightarrow>
        (case checked_recipe rcp of
           Inl e \<Rightarrow> (Inl e, st)
         | Inr source_type \<Rightarrow>
             (case verify_recipe_secret_refs dflt iter rcp st of
                (Inl e, st') \<Rightarrow> (Inl e, st')
              | (Inr u, st') \<Rightarrow> (Inr (row\<lparr>recipe := rcp, platform := source_type\<rparr>), st')))
    | _ \<Rightarrow> (Inr row, st))"

definition patch_schedule :: "source_patch \<Rightarrow> ingestion_source \<Rightarrow> (ds_error, ingestion_source) result" where
  "patch_schedule p row = (case p_schedule p of
      Some sched \<Rightarrow>
        rmap (\<lambda>tier. row\<lparr>schedule := sched, schedule_tier := tier\<rparr>) (checked_tier (src_mode row) sched)
    | None \<Rightarrow> Inr row)"

definition patch_source ::
    "secret_backend \<Rightarrow> (string set \<Rightarrow> string list) \<Rightarrow> string \<Rightarrow> nat option \<Rightarrow> nat \<Rightarrow> source_patch \<Rightarrow>
     ingestion_state \<Rightarrow> (ds_error, ingestion_source) result \<times> ingestion_state" where
  "patch_source dflt iter sid uid now p s =
     (case rbind (source_row uid (fst s)) (\<lambda>row. rmap (\<lambda>_. row) (reject_if_datahub_managed (src_mode row))) of
        Inl e \<Rightarrow> (Inl e, s)
      | Inr row \<Rightarrow>
          let row1 = (case p_name p of Some (Some n) \<Rightarrow> row\<lparr>src_name := n\<rparr> | _ \<Rightarrow> row) in
          (case patch_recipe dflt iter p row1 (snd s) of
             (Inl e, st') \<Rightarrow> (Inl e, fst s, st')
           | (Inr row2, st') \<Rightarrow>
               (case patch_schedule p row2 of
                  Inl e \<Rightarrow> (Inl e, fst s, st')
                | Inr row3 \<Rightarrow>
                    let row' = row3\<lparr>updated_at := now\<rparr> in
                    (Inr row',
                     record_source_event sid now ''INGESTION.SOURCE_UPDATE'' ''success''
                       [(''operation'', JStr ''PATCH''), (''fields_changed'', JList (fields_changed p))]
                       (put_source row' (fst s)), st'))))"

text \<open>Deleting a row deletes, through the foreign keys, the rows that have it as their parent,
  theirs in turn, and the dataset mappings of all of them. Each round adds a row or none, so as
  many rounds as there are rows reach all of them.\<close>

definition child_ids :: "nat list \<Rightarrow> ingestion_source list \<Rightarrow> nat list" where
  "child_ids ids rows =
     map src_id (filter (\<lambda>r. case parent_source_id r of Some p \<Rightarrow> p \<in> set ids | None \<Rightarrow> False) rows)"

fun cascade_ids :: "nat \<Rightarrow> nat list \<Rightarrow> ingestion_source list \<Rightarrow> nat list" where
  "cascade_ids 0 ids rows = ids"
| "cascade_ids (Suc n) ids rows = cascade_ids n (add_new ids (child_ids ids rows)) rows"

definition remove_source :: "nat \<Rightarrow> ingestion_db \<Rightarrow> ingestion_db" where
  "remove_source i db =
     (let gone = cascade_ids (length (sources db)) [i] (sources db) in
      db\<lparr>sources := filter (\<lambda>r. src_id r \<notin> set gone) (sources db),
         mappings := filter (\<lambda>m. source_id m \<notin> set gone) (mappings db)\<rparr>)"

definition delete_source :: "string \<Rightarrow> nat option \<Rightarrow> nat \<Rightarrow> ingestion_state \<Rightarrow> (ds_error, unit) result \<times> ingestion_state" where
  "delete_source sid uid now s =
     (case rbind (source_row uid (fst s)) (\<lambda>row. rmap (\<lambda>_. row) (reject_if_datahub_managed (src_mode row))) of
        Inl e \<Rightarrow> (Inl e, s)
      | Inr row \<Rightarrow>
          (Inr (),
           record_source_event sid now ''INGESTION.SOURCE_DELETE'' ''success''
             [(''name'', JStr (src_name row)), (''mode'', JStr (mode_value (src_mode row))),
              (''operation'', JStr ''DELETE'')]
             (remove_source (src_id row) (fst s)), snd s))"

section \<open>Listings\<close>

definition list_sources :: "nat \<Rightarrow> nat \<Rightarrow> mode option \<Rightarrow> (ingestion_source list \<Rightarrow> ingestion_source list) \<Rightarrow>
    ingestion_db \<Rightarrow> ingestion_source list \<times> nat" where
  "list_sources offset limit mode_filter order_by db =
     (let base = filter (\<lambda>r. parent_source_id r = None \<and>
                            (case mode_filter of None \<Rightarrow> True | Some m \<Rightarrow> src_mode r = m)) (sources db) in
      (take limit (drop offset (order_by base)), length base))"

definition list_active_sources_for_tier :: "string \<Rightarrow> ingestion_db \<Rightarrow> ingestion_source list" where
  "list_active_sources_for_tier tier db =
     filter (\<lambda>r. src_mode r = ACTIVE_CUSTOM_MANAGED \<and> schedule_tier r = Some tier) (sources db)"

section \<open>Dataset mappings\<close>

definition upsert_mapping :: "nat \<Rightarrow> nat \<Rightarrow> string \<Rightarrow> string \<Rightarrow> source_dataset list \<Rightarrow> source_dataset list" where
  "upsert_mapping now i deriv urn ms =
     (if \<exists>m \<in> set ms. source_id m = i \<and> dataset_urn m = urn
      then map (\<lambda>m. if source_id m = i \<and> dataset_urn m = urn then m\<lparr>last_seen_at := now\<rparr> else m) ms
      else ms @ [\<lparr>source_id = i, dataset_urn = urn, derivation = deriv, first_seen_at = now, last_seen_at = now\<rparr>])"

definition upsert_dataset_mappings :: "nat \<Rightarrow> nat \<Rightarrow> string list \<Rightarrow> string \<Rightarrow> ingestion_db \<Rightarrow> ingestion_db" where
  "upsert_dataset_mappings now i urns deriv db =
     db\<lparr>mappings := fold (upsert_mapping now i deriv) urns (mappings db)\<rparr>"

section \<open>Reverse lookup\<close>

definition DERIVATION_PRIORITY :: "(string \<times> nat) list" where
  "DERIVATION_PRIORITY = [(''emitted'', 0), (''pipeline_name'', 1), (''matched'', 2)]"

text \<open>The rank is a triple, and tuples are compared lexicographically; the negated timestamp orders recent
  before old.\<close>

type_synonym rank = "nat \<times> nat \<times> int"

definition reverse_lookup_rank :: "string \<Rightarrow> bool \<Rightarrow> nat \<Rightarrow> rank" where
  "reverse_lookup_rank deriv is_wrapper seen =
     ((case map_of DERIVATION_PRIORITY deriv of Some p \<Rightarrow> p | None \<Rightarrow> 99),
      if is_wrapper then 1 else 0, - int seen)"

definition reverse_lookup_key :: "source_dataset \<times> ingestion_source \<Rightarrow> rank" where
  "reverse_lookup_key pair =
     reverse_lookup_rank (derivation (fst pair)) (parent_source_id (snd pair) \<noteq> None) (last_seen_at (fst pair))"

text \<open>The join of the two tables, in the order of the mappings. Neither query that reads it has an \<open>ORDER BY\<close>, so PostgreSQL
  promises no order, nor the same one twice; the model takes one order for every query. It matters for rows of equal rank only.\<close>

definition mapping_join :: "ingestion_db \<Rightarrow> (source_dataset \<times> ingestion_source) list" where
  "mapping_join db =
     concat (map (\<lambda>m. map (\<lambda>r. (m, r)) (filter (\<lambda>r. src_id r = source_id m) (sources db))) (mappings db))"

text \<open>The first element of a stable sort.\<close>

fun stable_min :: "(source_dataset \<times> ingestion_source) list \<Rightarrow> (source_dataset \<times> ingestion_source) option" where
  "stable_min [] = None"
| "stable_min (p # ps) = (case stable_min ps of
      None \<Rightarrow> Some p
    | Some q \<Rightarrow> if reverse_lookup_key q < reverse_lookup_key p then Some q else Some p)"

definition resolve_wrapper :: "ingestion_db \<Rightarrow> ingestion_source \<Rightarrow> ingestion_source" where
  "resolve_wrapper db best = (case parent_source_id best of
      None \<Rightarrow> best
    | Some pid \<Rightarrow> (case row_get src_id pid (sources db) of Some parent \<Rightarrow> parent | None \<Rightarrow> best))"

definition reverse_lookup :: "string \<Rightarrow> ingestion_db \<Rightarrow> ingestion_source option" where
  "reverse_lookup urn db =
     map_option (\<lambda>p. resolve_wrapper db (snd p))
       (stable_min (filter (\<lambda>p. dataset_urn (fst p) = urn) (mapping_join db)))"

text \<open>The batched form keeps the best row per URN in one pass, replacing it only by a strictly
  smaller rank, then loads the winners and their parents together.\<close>

type_synonym winners = "(string \<times> rank \<times> nat \<times> nat option) list"

definition keep_winner :: "source_dataset \<times> ingestion_source \<Rightarrow> winners \<Rightarrow> winners" where
  "keep_winner p ws =
     (let urn = dataset_urn (fst p); rank = reverse_lookup_key p;
          entry = (rank, src_id (snd p), parent_source_id (snd p)) in
      case map_of ws urn of
        None \<Rightarrow> ws @ [(urn, entry)]
      | Some current \<Rightarrow> if rank < fst current then AList.update urn entry ws else ws)"

definition batch_owner :: "ingestion_db \<Rightarrow> rank \<times> nat \<times> nat option \<Rightarrow> ingestion_source option" where
  "batch_owner db w =
     (let own = row_get src_id (fst (snd w)) (sources db) in
      case snd (snd w) of
        None \<Rightarrow> own
      | Some pid \<Rightarrow> (case row_get src_id pid (sources db) of Some parent \<Rightarrow> Some parent | None \<Rightarrow> own))"

definition reverse_lookup_batch :: "string list \<Rightarrow> ingestion_db \<Rightarrow> string \<rightharpoonup> ingestion_source option" where
  "reverse_lookup_batch urns db =
     (let rows = filter (\<lambda>p. dataset_urn (fst p) \<in> set urns) (mapping_join db);
          winners = fold keep_winner rows [] in
      (\<lambda>urn. if urn \<notin> set urns then None
             else Some (case map_of winners urn of None \<Rightarrow> None | Some w \<Rightarrow> batch_owner db w)))"

section \<open>Masking mirrored recipes\<close>

definition PLAINTEXT_SECRET_KEYS :: "string list" where
  "PLAINTEXT_SECRET_KEYS =
    [''password'', ''secret'', ''token'', ''api_key'', ''api_secret'', ''client_secret'', ''access_token'',
     ''secret_key'', ''private_key'', ''auth_token'', ''credential'', ''credentials'', ''aws_secret_access_key'']"

definition MASKED_VALUE :: string where
  "MASKED_VALUE = ''********''"

text \<open>\<open>_SECRET_REF_RE_INLINE\<close>: a brace-enclosed run of key characters, then the end of the
  string or a final line feed.\<close>

definition is_inline_ref :: "string \<Rightarrow> bool" where
  "is_inline_ref v \<longleftrightarrow> py_startswith v ''${'' \<and>
     (let body = takeWhile key_char (drop 2 v); rest = dropWhile key_char (drop 2 v) in
      body \<noteq> [] \<and> (rest = ''}'' \<or> rest = [CHR ''}'', CHR 0x0A]))"

fun mask_json :: "json \<Rightarrow> json" and mask_item :: "string \<times> json \<Rightarrow> string \<times> json" where
  "mask_json (JObj kvs) = JObj (map mask_item kvs)"
| "mask_json (JList js) = JList (map mask_json js)"
| "mask_json j = j"
| "mask_item (k, JStr v) =
     (k, if py_lower k \<in> set PLAINTEXT_SECRET_KEYS \<and> \<not> is_inline_ref v then JStr MASKED_VALUE else JStr v)"
| "mask_item (k, v) = (k, mask_json v)"

text \<open>A \<open>source\<close> that is neither falsy nor a dict has no \<open>get\<close> method.\<close>

definition mask_recipe_secrets :: "jdict \<Rightarrow> (string, jdict) result" where
  "mask_recipe_secrets rcp =
     (let source = dict_get rcp ''source'' in
      if \<not> py_truthy source then Inr rcp
      else (case source of
          JObj s \<Rightarrow>
            (case dict_get s ''config'' of
               JObj c \<Rightarrow> Inr (update_key ''source'' (JObj (update_key ''config'' (mask_json (JObj c)) s)) rcp)
             | _ \<Rightarrow> Inr rcp)
        | _ \<Rightarrow> Inl ''AttributeError''))"

section \<open>CLI wrappers\<close>

text \<open>\<open>s.rsplit(":", 1)[-1]\<close>.\<close>

definition last_segment :: "string \<Rightarrow> string" where
  "last_segment s = rev (takeWhile (\<lambda>c. c \<noteq> CHR '':'') (rev s))"

definition is_cli_wrapper :: "string option \<Rightarrow> string option \<Rightarrow> string option \<Rightarrow> bool" where
  "is_cli_wrapper executor_id source_urn name \<longleftrightarrow>
     (case executor_id of Some e \<Rightarrow> py_startswith e ''__datahub_cli_'' | None \<Rightarrow> False) \<or>
     (case source_urn of Some u \<Rightarrow> py_startswith (last_segment u) ''cli-'' | None \<Rightarrow> False) \<or>
     (case name of Some n \<Rightarrow> py_startswith n ''[CLI] '' | None \<Rightarrow> False)"

end
