(* ===== verification/Ingestion_Sweep.thy ===== *)
theory Ingestion_Sweep
  imports Ingestion_Sources Dataset_Scope
begin

text \<open>
  \<open>src/backend/ingestion/service.py\<close>, the sync sweep, with \<open>shared/db/registry.py\<close>: the sources mirrored from
  DataHub, the mapping of datasets to sources, the dataset registry, and the ingestion evidence booked as events. What DataHub
  answers is the record \<open>sweep_world\<close>, \<open>None\<close> where a call raises. Instants are microseconds since the epoch. A step that
  raises keeps what the steps before it committed.
\<close>

section \<open>Inputs\<close>

record dh_source =
  ds_urn :: string
  ds_name :: "string option"
  ds_executor :: "string option"
  ds_recipe :: string
  ds_interval :: "string option"

record attribute_read =
  ar_tags :: "string list"
  ar_terms :: "string list"
  ar_primary :: bool

record execution_request =
  xr_urn :: string
  xr_status :: string
  xr_start :: json
  xr_requested :: json
  xr_duration :: json

text \<open>The estate-wide reading of \<open>lastIngested\<close> answers, fails, or fails in a way that names a fault of the call itself.\<close>

datatype last_read = Last_values "(string \<times> json) list" | Last_unavailable | Last_interface_error ds_error

record sweep_world =
  sw_clock :: nat
  sw_now :: nat
  sw_new_id :: "string \<Rightarrow> nat"
  sw_json :: "string \<Rightarrow> json option"
  sw_sdk :: sdk
  sw_match_raises :: "json \<Rightarrow> string \<Rightarrow> bool"
  sw_sources :: "dh_source list option"
  sw_datasets :: "string list option"
  sw_reconcile_ok :: bool
  sw_attributes :: "(string \<times> attribute_read) list option"
  sw_upsert_ok :: bool
  sw_pipelines :: "(string \<times> string option) list option"
  sw_executions :: "string \<Rightarrow> execution_request list option"
  sw_operations :: "string \<Rightarrow> (string option \<times> json) list option"
  sw_last :: last_read
  sw_observe_ok :: "nat \<Rightarrow> bool"

text \<open>An event the sweep books: what identifies it besides its source and instant, and the rest of its detail.\<close>

datatype evidence_key = Execution string | Operation string | Last_ingested string

record observation =
  bk_source :: nat
  bk_key :: evidence_key
  bk_type :: string
  bk_status :: string
  bk_extra :: json
  bk_at :: nat

record sweep_state =
  ss_db :: ingestion_db
  ss_registry :: "registry_row list"
  ss_observed :: "observation list"

record sweep_summary =
  sy_sources_synced :: nat
  sy_sources_removed :: nat
  sy_datasets_mapped :: nat
  sy_pipeline_links :: nat
  sy_events_mirrored :: nat
  sy_last_ingested_observed :: nat
  sy_registry_inserted :: nat
  sy_registry_marked_true :: nat
  sy_registry_marked_false :: nat
  sy_attrs_synced :: nat
  sy_zero_coverage :: nat
  sy_pattern_degraded :: nat

section \<open>Observed instants\<close>

text \<open>\<open>timedelta\<close> rounds a fraction of a microsecond half to even. A value beyond the range of \<open>datetime\<close> is also beyond the
  accepted skew.\<close>

definition round_half_even :: "rat \<Rightarrow> int" where
  "round_half_even r =
     (let f = \<lfloor>r\<rfloor>; d = r - of_int f in
      if d < 1/2 then f else if 1/2 < d then f + 1 else if even f then f else f + 1)"

definition OBSERVED_AT_MAX_SKEW :: int where
  "OBSERVED_AT_MAX_SKEW = 300000000"

definition accept_instant :: "nat \<Rightarrow> int \<Rightarrow> nat option" where
  "accept_instant clock us = (if int clock + OBSERVED_AT_MAX_SKEW < us then None else Some (nat us))"

fun observed_at :: "nat \<Rightarrow> json \<Rightarrow> nat option" where
  "observed_at clock (JInt ms) = (if ms \<le> 0 then None else accept_instant clock (ms * 1000))"
| "observed_at clock (JFloat ms) = (if ms \<le> 0 then None else accept_instant clock (round_half_even (ms * 1000)))"
| "observed_at clock _ = None"

section \<open>Step 1: the sources mirrored from DataHub\<close>

definition parse_recipe_str_safe :: "(string \<Rightarrow> json option) \<Rightarrow> string \<Rightarrow> jdict" where
  "parse_recipe_str_safe loads s = (if s = [] then [] else case loads s of Some (JObj d) \<Rightarrow> d | _ \<Rightarrow> [])"

definition safe_source_type :: "json \<Rightarrow> string" where
  "safe_source_type rcp = (case parse_recipe rcp of Inl _ \<Rightarrow> ''unknown'' | Inr (source_type, _) \<Rightarrow> source_type)"

definition or_urn :: "dh_source \<Rightarrow> string" where
  "or_urn s = (case ds_name s of Some n \<Rightarrow> if n = [] then ds_urn s else n | None \<Rightarrow> ds_urn s)"

definition nonempty :: "string option \<Rightarrow> string option" where
  "nonempty x = (case x of Some s \<Rightarrow> if s = [] then None else Some s | None \<Rightarrow> None)"

definition managed_rows :: "string \<Rightarrow> ingestion_db \<Rightarrow> ingestion_source list" where
  "managed_rows urn db = filter (\<lambda>r. datahub_source_urn r = Some urn \<and> src_mode r = DATAHUB_MANAGED) (sources db)"

text \<open>The fields written to a row, new or existing.\<close>

definition mirror_fields :: "sweep_world \<Rightarrow> dh_source \<Rightarrow> nat option \<Rightarrow> jdict \<Rightarrow> ingestion_source \<Rightarrow> ingestion_source" where
  "mirror_fields w s parent masked row =
     (let interval = nonempty (ds_interval s) in
      row\<lparr>src_name := or_urn s, platform := safe_source_type (JObj masked), recipe := JObj masked, schedule := interval,
          schedule_tier := (case cron_to_tier interval of Inl _ \<Rightarrow> None | Inr t \<Rightarrow> t), parent_source_id := parent,
          status := ''OK'', updated_at := sw_now w\<rparr>)"

definition blank_row :: "sweep_world \<Rightarrow> string \<Rightarrow> ingestion_source" where
  "blank_row w urn = \<lparr>src_id = sw_new_id w urn, src_mode = DATAHUB_MANAGED, src_name = [], platform = [], recipe = JNull, schedule = None,
     schedule_tier = None, datahub_source_urn = Some urn, parent_source_id = None, status = [], updated_at = 0\<rparr>"

definition upsert_managed_row ::
  "sweep_world \<Rightarrow> dh_source \<Rightarrow> nat option \<Rightarrow> ingestion_db \<Rightarrow> (ds_error, nat \<times> ingestion_db) result" where
  "upsert_managed_row w s parent db =
     (case mask_recipe_secrets (parse_recipe_str_safe (sw_json w) (ds_recipe s)) of
        Inl e \<Rightarrow> Inl (UncaughtError e)
      | Inr masked \<Rightarrow>
          (case managed_rows (ds_urn s) db of
             [] \<Rightarrow> (let row = mirror_fields w s parent masked (blank_row w (ds_urn s)) in Inr (src_id row, add_source row db))
           | [row] \<Rightarrow> Inr (src_id row, put_source (mirror_fields w s parent masked row) db)
           | _ \<Rightarrow> Inl (UncaughtError ''MultipleResultsFound'')))"

text \<open>Pass A: the regular sources, with the row each URN got.\<close>

type_synonym parents = "(string \<times> nat) list"

definition is_wrapper_source :: "dh_source \<Rightarrow> bool" where
  "is_wrapper_source s = is_cli_wrapper (ds_executor s) (Some (ds_urn s)) (ds_name s)"

definition pass_a_source :: "sweep_world \<Rightarrow> dh_source \<Rightarrow> parents \<times> ingestion_db \<Rightarrow> (ds_error, parents \<times> ingestion_db) result" where
  "pass_a_source w s = (\<lambda>(ps, db).
     if ds_urn s = [] \<or> is_wrapper_source s then Inr (ps, db)
     else rmap (\<lambda>(i, db'). ((ds_urn s, i) # ps, db')) (upsert_managed_row w s None db))"

text \<open>The parent a wrapper names in its recipe; a list or a dict there is not hashable.\<close>

definition wrapper_parent :: "sweep_world \<Rightarrow> parents \<Rightarrow> dh_source \<Rightarrow> (ds_error, nat option) result" where
  "wrapper_parent w ps s =
     (let v = dict_get (parse_recipe_str_safe (sw_json w) (ds_recipe s)) ''pipeline_name'' in
      if \<not> py_truthy v then Inr None
      else case v of JStr p \<Rightarrow> Inr (map_of ps p) | JList _ \<Rightarrow> Inl (UncaughtError ''TypeError'') | JObj _ \<Rightarrow> Inl (UncaughtError ''TypeError'')
        | _ \<Rightarrow> Inr None)"

text \<open>Pass B: the wrappers whose parent was stored, with the URNs seen.\<close>

definition pass_b_source ::
  "sweep_world \<Rightarrow> parents \<Rightarrow> dh_source \<Rightarrow> string list \<times> ingestion_db \<Rightarrow> (ds_error, string list \<times> ingestion_db) result" where
  "pass_b_source w ps s = (\<lambda>(seen, db).
     if ds_urn s = [] \<or> \<not> is_wrapper_source s then Inr (seen, db)
     else rbind (wrapper_parent w ps s) (\<lambda>parent.
       case parent of None \<Rightarrow> Inr (seen, db)
       | Some i \<Rightarrow> rmap (\<lambda>(_, db'). (ds_urn s # seen, db')) (upsert_managed_row w s (Some i) db)))"

definition stale_rows :: "string list \<Rightarrow> ingestion_db \<Rightarrow> ingestion_source list" where
  "stale_rows seen db = filter (\<lambda>r. src_mode r = DATAHUB_MANAGED \<and>
     (case datahub_source_urn r of None \<Rightarrow> False | Some u \<Rightarrow> u \<noteq> [] \<and> u \<notin> set seen)) (sources db)"

definition remove_rows :: "ingestion_source list \<Rightarrow> ingestion_db \<Rightarrow> ingestion_db" where
  "remove_rows rows db = fold (\<lambda>r. remove_source (src_id r)) rows db"

text \<open>The three transactions of the step; the counts are the rows mirrored and removed.\<close>

definition sync_sources :: "sweep_world \<Rightarrow> ingestion_db \<Rightarrow> (ds_error, nat \<times> nat) result \<times> ingestion_db" where
  "sync_sources w db =
     (case sw_sources w of
        None \<Rightarrow> (Inl (UncaughtError ''list_ingestion_sources''), db)
      | Some dhs \<Rightarrow>
          (case rfold (pass_a_source w) dhs ([], db) of
             Inl e \<Rightarrow> (Inl e, db)
           | Inr (ps, db1) \<Rightarrow>
               (case rfold (pass_b_source w ps) dhs (map fst ps, db1) of
                  Inl e \<Rightarrow> (Inl e, db1)
                | Inr (seen, db2) \<Rightarrow>
                    (let stale = stale_rows seen db2 in (Inr (length seen, length stale), remove_rows stale db2)))))"

section \<open>Step 2: the mapping\<close>

text \<open>The name and the origin lie between the last two commas, the platform before the first.\<close>

definition urn_inner :: "string \<Rightarrow> string option" where
  "urn_inner urn =
     (if py_startswith urn ''urn:li:dataset:('' \<and> urn \<noteq> [] \<and> last urn = CHR '')''
      then Some (butlast (drop 16 urn)) else None)"

definition after_last_comma :: "string \<Rightarrow> string" where
  "after_last_comma s = rev (takeWhile (\<lambda>c. c \<noteq> CHR '','') (rev s))"

definition before_last_comma :: "string \<Rightarrow> string option" where
  "before_last_comma s = (case dropWhile (\<lambda>c. c \<noteq> CHR '','') (rev s) of [] \<Rightarrow> None | _ # rest \<Rightarrow> Some (rev rest))"

definition name_from_dataset_urn :: "string \<Rightarrow> string option" where
  "name_from_dataset_urn urn =
     (case urn_inner urn of None \<Rightarrow> None | Some inner \<Rightarrow>
        (case before_last_comma inner of None \<Rightarrow> None | Some rest \<Rightarrow>
           (case before_last_comma rest of None \<Rightarrow> None | Some _ \<Rightarrow> nonempty (Some (py_strip (after_last_comma rest))))))"

definition origin_from_dataset_urn :: "string \<Rightarrow> string option" where
  "origin_from_dataset_urn urn =
     (case urn_inner urn of None \<Rightarrow> None | Some inner \<Rightarrow>
        (case before_last_comma inner of None \<Rightarrow> None | Some rest \<Rightarrow>
           (case before_last_comma rest of None \<Rightarrow> None | Some _ \<Rightarrow> nonempty (Some (py_strip (after_last_comma inner))))))"

text \<open>The two lookups built from one enumeration, as the datasets with a name and a platform.\<close>

definition named_datasets :: "string list \<Rightarrow> (string \<times> string \<times> string) list" where
  "named_datasets urns =
     List.map_filter (\<lambda>u. case (name_from_dataset_urn u, platform_from_dataset_urn u) of
         (Some n, Some p) \<Rightarrow> if p = [] then None else Some (u, n, p) | _ \<Rightarrow> None) (add_new [] urns)"

definition sweep_recipe :: "ingestion_source \<Rightarrow> json" where
  "sweep_recipe r = (if py_truthy (recipe r) then recipe r else JObj [])"

definition candidates_for :: "string list \<Rightarrow> ingestion_source \<Rightarrow> (string \<times> string) list" where
  "candidates_for urns r =
     map (\<lambda>(u, n, _). (u, n)) (filter (\<lambda>(_, _, p). p = py_lower (safe_source_type (sweep_recipe r))) (named_datasets urns))"

definition matcher_failed :: "sweep_world \<Rightarrow> string list \<Rightarrow> ingestion_source \<Rightarrow> bool" where
  "matcher_failed w urns r \<longleftrightarrow> (\<exists>(_, n) \<in> set (candidates_for urns r). sw_match_raises w (sweep_recipe r) n)"

definition matched_urns :: "sweep_world \<Rightarrow> string list \<Rightarrow> ingestion_source \<Rightarrow> string list" where
  "matched_urns w urns r =
     (if matcher_failed w urns r then []
      else map fst (filter (\<lambda>(_, n). fst (build_matcher_checked (sw_sdk w) (sweep_recipe r)) n) (candidates_for urns r)))"

definition patterns_degraded :: "sweep_world \<Rightarrow> string list \<Rightarrow> ingestion_source \<Rightarrow> bool" where
  "patterns_degraded w urns r \<longleftrightarrow> matcher_failed w urns r \<or> snd (build_matcher_checked (sw_sdk w) (sweep_recipe r)) \<noteq> None"

definition zero_coverage :: "sweep_world \<Rightarrow> string list \<Rightarrow> ingestion_source \<Rightarrow> bool" where
  "zero_coverage w urns r \<longleftrightarrow> matched_urns w urns r = [] \<and> \<not> patterns_degraded w urns r \<and> parent_source_id r = None \<and>
     has_selection_patterns (sweep_recipe r) \<and> candidates_for urns r \<noteq> []"

definition at_key :: "nat \<Rightarrow> string \<Rightarrow> source_dataset \<Rightarrow> bool" where
  "at_key i urn m \<longleftrightarrow> source_id m = i \<and> dataset_urn m = urn"

text \<open>\<open>INSERT \<dots> ON CONFLICT DO UPDATE \<dots> WHERE\<close>: the update of an existing row happens only where the guard holds.\<close>

definition upsert_guarded ::
  "(source_dataset \<Rightarrow> bool) \<Rightarrow> (source_dataset \<Rightarrow> source_dataset) \<Rightarrow> source_dataset \<Rightarrow> source_dataset list \<Rightarrow> source_dataset list" where
  "upsert_guarded guard upd new ms =
     (if \<exists>m \<in> set ms. at_key (source_id new) (dataset_urn new) m
      then map (\<lambda>m. if at_key (source_id new) (dataset_urn new) m \<and> guard m then upd m else m) ms
      else ms @ [new])"

definition upsert_matched :: "nat \<Rightarrow> nat \<Rightarrow> string \<Rightarrow> source_dataset list \<Rightarrow> source_dataset list" where
  "upsert_matched now i urn =
     upsert_guarded (\<lambda>m. derivation m = ''matched'') (\<lambda>m. m\<lparr>last_seen_at := now\<rparr>)
       \<lparr>source_id = i, dataset_urn = urn, derivation = ''matched'', first_seen_at = now, last_seen_at = now\<rparr>"

definition unmapped :: "nat \<Rightarrow> source_dataset list \<Rightarrow> string \<Rightarrow> bool" where
  "unmapped i ms urn \<longleftrightarrow> \<not> (\<exists>m \<in> set ms. at_key i urn m)"

definition prune_matched :: "nat \<Rightarrow> string list \<Rightarrow> source_dataset list \<Rightarrow> source_dataset list" where
  "prune_matched i urns = filter (\<lambda>m. \<not> (source_id m = i \<and> derivation m = ''matched'' \<and> dataset_urn m \<notin> set urns))"

definition map_source :: "sweep_world \<Rightarrow> string list \<Rightarrow> ingestion_source \<Rightarrow> source_dataset list \<Rightarrow> source_dataset list" where
  "map_source w urns r ms =
     (let us = matched_urns w urns r; ms' = fold (upsert_matched (sw_now w) (src_id r)) us ms in
      if patterns_degraded w urns r then ms' else prune_matched (src_id r) us ms')"

definition mapped_count :: "sweep_world \<Rightarrow> string list \<Rightarrow> ingestion_source \<Rightarrow> source_dataset list \<Rightarrow> nat" where
  "mapped_count w urns r ms = length (filter (unmapped (src_id r) ms) (matched_urns w urns r))"

fun map_sources :: "sweep_world \<Rightarrow> string list \<Rightarrow> ingestion_source list \<Rightarrow> nat \<times> source_dataset list \<Rightarrow> nat \<times> source_dataset list" where
  "map_sources w urns [] st = st"
| "map_sources w urns (r # rs) (n, ms) = map_sources w urns rs (n + mapped_count w urns r ms, map_source w urns r ms)"

section \<open>The registry\<close>

definition new_registry_row :: "bool \<Rightarrow> string \<Rightarrow> registry_row" where
  "new_registry_row registered urn = \<lparr>reg_dataset_urn = urn, reg_datahub_registered = registered, reg_origin = None, reg_platform_urn = None,
     reg_tag_urns = [], reg_glossary_term_urns = [], reg_is_primary = True\<rparr>"

record registry_counts =
  rg_inserted :: nat
  rg_marked_true :: nat
  rg_marked_false :: nat

definition reconcile_registry :: "string list \<Rightarrow> registry_row list \<Rightarrow> registry_counts \<times> registry_row list" where
  "reconcile_registry urns rows =
     (let new = filter (\<lambda>u. u \<notin> reg_dataset_urn ` set rows) (add_new [] urns);
          gone = (\<lambda>r. urns \<noteq> [] \<and> reg_dataset_urn r \<notin> set urns)
      in (\<lparr>rg_inserted = length new,
           rg_marked_true = length (filter (\<lambda>r. reg_dataset_urn r \<in> set urns \<and> \<not> reg_datahub_registered r) rows),
           rg_marked_false = length (filter (\<lambda>r. gone r \<and> reg_datahub_registered r) rows)\<rparr>,
          map (\<lambda>r. if reg_dataset_urn r \<in> set urns then r\<lparr>reg_datahub_registered := True\<rparr>
                   else if gone r then r\<lparr>reg_datahub_registered := False\<rparr> else r) rows @ map (new_registry_row True) new))"

definition with_attributes :: "string \<times> attribute_read \<Rightarrow> registry_row \<Rightarrow> registry_row" where
  "with_attributes = (\<lambda>(u, a) r.
     r\<lparr>reg_origin := origin_from_dataset_urn u, reg_platform_urn := platform_urn_from_dataset_urn u,
       reg_tag_urns := ar_tags a, reg_glossary_term_urns := ar_terms a, reg_is_primary := ar_primary a\<rparr>)"

definition upsert_attribute :: "string \<times> attribute_read \<Rightarrow> registry_row list \<Rightarrow> registry_row list" where
  "upsert_attribute p rows =
     (if fst p \<in> reg_dataset_urn ` set rows
      then row_update reg_dataset_urn (fst p) (with_attributes p) rows
      else rows @ [with_attributes p (new_registry_row False (fst p))])"

definition upsert_dataset_attributes :: "(string \<times> attribute_read) list \<Rightarrow> registry_row list \<Rightarrow> nat \<times> registry_row list" where
  "upsert_dataset_attributes ps rows =
     (let records = filter (\<lambda>p. DATASET_URN_RE (fst p)) ps in (length records, fold upsert_attribute records rows))"

definition sync_dataset_attributes :: "sweep_world \<Rightarrow> registry_row list \<Rightarrow> nat \<times> registry_row list" where
  "sync_dataset_attributes w rows =
     (case sw_attributes w of
        None \<Rightarrow> (0, rows)
      | Some ps \<Rightarrow> if ps = [] \<or> \<not> sw_upsert_ok w then (0, rows) else upsert_dataset_attributes ps rows)"

section \<open>Step 4: the sources named by the pipelines\<close>

text \<open>A regular mirrored source is named by its URN, a wrapper by its parent's, a custom source by its identifier.\<close>

definition regular_urn :: "ingestion_source list \<Rightarrow> nat \<Rightarrow> string option" where
  "regular_urn rows pid =
     (case find (\<lambda>r. src_id r = pid \<and> src_mode r = DATAHUB_MANAGED \<and> parent_source_id r = None \<and> nonempty (datahub_source_urn r) \<noteq> None) rows of
        None \<Rightarrow> None | Some r \<Rightarrow> datahub_source_urn r)"

definition pipeline_name_of :: "ingestion_source list \<Rightarrow> ingestion_source \<Rightarrow> string option" where
  "pipeline_name_of rows r =
     (case src_mode r of
        DATAHUB_MANAGED \<Rightarrow> (case parent_source_id r of None \<Rightarrow> nonempty (datahub_source_urn r) | Some pid \<Rightarrow> regular_urn rows pid)
      | ACTIVE_CUSTOM_MANAGED \<Rightarrow> Some (show_nat (src_id r))
      | PASSIVE \<Rightarrow> None)"

definition pipeline_sources :: "ingestion_source list \<Rightarrow> string \<Rightarrow> nat list" where
  "pipeline_sources rows name = map src_id (filter (\<lambda>r. pipeline_name_of rows r = Some name) rows)"

text \<open>The links an answer asks for: a dataset and a source, in the order of the answer.\<close>

definition pipeline_links :: "ingestion_source list \<Rightarrow> (string \<times> string option) list \<Rightarrow> (nat \<times> string) list" where
  "pipeline_links rows ps =
     concat (map (\<lambda>(u, name). case nonempty name of None \<Rightarrow> [] | Some n \<Rightarrow> map (\<lambda>i. (i, u)) (pipeline_sources rows n)) ps)"

definition upsert_pipeline :: "nat \<Rightarrow> nat \<times> string \<Rightarrow> source_dataset list \<Rightarrow> source_dataset list" where
  "upsert_pipeline now = (\<lambda>(i, urn).
     upsert_guarded (\<lambda>m. derivation m \<noteq> ''emitted'') (\<lambda>m. m\<lparr>derivation := ''pipeline_name'', last_seen_at := now\<rparr>)
       \<lparr>source_id = i, dataset_urn = urn, derivation = ''pipeline_name'', first_seen_at = now, last_seen_at = now\<rparr>)"

text \<open>A link counts when the statement wrote a row and the pair was not linked before the step.\<close>

definition link_written :: "source_dataset list \<Rightarrow> nat \<times> string \<Rightarrow> bool" where
  "link_written ms = (\<lambda>(i, urn). \<not> (\<exists>m \<in> set ms. at_key i urn m \<and> derivation m = ''emitted''))"

definition linked_before :: "source_dataset list \<Rightarrow> nat \<times> string \<Rightarrow> bool" where
  "linked_before ms = (\<lambda>(i, urn). \<exists>m \<in> set ms. at_key i urn m \<and> derivation m = ''pipeline_name'')"

definition link_pipelines ::
  "nat \<Rightarrow> (nat \<times> string) list \<Rightarrow> source_dataset list \<Rightarrow> nat \<times> source_dataset list" where
  "link_pipelines now links ms =
     (length (filter (\<lambda>p. link_written ms p \<and> \<not> linked_before ms p) links), fold (upsert_pipeline now) links ms)"

section \<open>Step 5: evidence of ingestion\<close>

definition COMPLETE_STATUSES :: "string list" where
  "COMPLETE_STATUSES = [''SUCCESS'', ''SUCCEEDED'']"

definition FAIL_STATUSES :: "string list" where
  "FAIL_STATUSES = [''FAILURE'', ''TIMEOUT'', ''ABORTED'', ''ROLLBACK_FAILED'']"

definition INGESTION_OP_TYPES :: "string list" where
  "INGESTION_OP_TYPES = [''INSERT'', ''UPDATE'', ''CREATE'', ''ALTER'']"

definition booked :: "nat \<Rightarrow> evidence_key \<Rightarrow> observation list \<Rightarrow> bool" where
  "booked i k obs \<longleftrightarrow> (\<exists>b \<in> set obs. bk_source b = i \<and> bk_key b = k)"

definition booked_at :: "nat \<Rightarrow> evidence_key \<Rightarrow> nat \<Rightarrow> observation list \<Rightarrow> bool" where
  "booked_at i k t obs \<longleftrightarrow> (\<exists>b \<in> set obs. bk_source b = i \<and> bk_key b = k \<and> bk_at b = t)"

definition execution_outcome :: "string \<Rightarrow> (string \<times> string) option" where
  "execution_outcome st =
     (if st \<in> set COMPLETE_STATUSES then Some (''INGESTION.COMPLETE'', ''success'')
      else if st \<in> set FAIL_STATUSES then Some (''INGESTION.FAIL'', ''failure'') else None)"

definition execution_instant :: "nat \<Rightarrow> execution_request \<Rightarrow> nat option" where
  "execution_instant clock x = (case observed_at clock (xr_start x) of Some t \<Rightarrow> Some t | None \<Rightarrow> observed_at clock (xr_requested x))"

text \<open>At most one event for each execution, whatever its instant.\<close>

definition mirror_request :: "nat \<Rightarrow> nat \<Rightarrow> execution_request \<Rightarrow> observation list \<Rightarrow> observation list" where
  "mirror_request clock i x obs =
     (case execution_outcome (xr_status x) of
        None \<Rightarrow> obs
      | Some (ty, st) \<Rightarrow>
          if xr_urn x = [] \<or> booked i (Execution (xr_urn x)) obs then obs
          else case execution_instant clock x of
            None \<Rightarrow> obs
          | Some t \<Rightarrow> obs @ [\<lparr>bk_source = i, bk_key = Execution (xr_urn x), bk_type = ty, bk_status = st, bk_extra = xr_duration x, bk_at = t\<rparr>])"

definition mirror_execution_requests :: "sweep_world \<Rightarrow> ingestion_source \<Rightarrow> observation list \<Rightarrow> observation list" where
  "mirror_execution_requests w r obs =
     (case nonempty (datahub_source_urn r) of
        None \<Rightarrow> obs
      | Some u \<Rightarrow>
          if src_mode r \<noteq> DATAHUB_MANAGED then obs
          else case sw_executions w u of None \<Rightarrow> obs | Some xs \<Rightarrow> fold (mirror_request (sw_clock w) (src_id r)) xs obs)"

text \<open>The datasets mapped to a source, in the order of the table.\<close>

definition mapped_datasets :: "nat \<Rightarrow> source_dataset list \<Rightarrow> string list" where
  "mapped_datasets i ms = map dataset_urn (filter (\<lambda>m. source_id m = i) ms)"

text \<open>What a pass observed, each dataset and instant once, with the rest of the detail.\<close>

fun first_seen :: "(evidence_key \<times> nat) list \<Rightarrow> (evidence_key \<times> nat \<times> json) list \<Rightarrow> (evidence_key \<times> nat \<times> json) list" where
  "first_seen seen [] = []"
| "first_seen seen ((k, t, x) # os) =
     (if (k, t) \<in> set seen then first_seen seen os else (k, t, x) # first_seen ((k, t) # seen) os)"

definition operations_of :: "sweep_world \<Rightarrow> string \<Rightarrow> (evidence_key \<times> nat \<times> json) list" where
  "operations_of w urn =
     (case sw_operations w urn of
        None \<Rightarrow> []
      | Some ops \<Rightarrow> List.map_filter (\<lambda>(ty, v).
          case ty of None \<Rightarrow> None
          | Some y \<Rightarrow> if y \<in> set INGESTION_OP_TYPES then map_option (\<lambda>t. (Operation urn, t, JStr y)) (observed_at (sw_clock w) v) else None) ops)"

definition passive_observations :: "sweep_world \<Rightarrow> nat \<Rightarrow> source_dataset list \<Rightarrow> (evidence_key \<times> nat \<times> json) list" where
  "passive_observations w i ms = first_seen [] (concat (map (operations_of w) (mapped_datasets i ms)))"

definition last_observations :: "nat \<Rightarrow> (string \<times> json) list \<Rightarrow> nat \<Rightarrow> source_dataset list \<Rightarrow> (evidence_key \<times> nat \<times> json) list" where
  "last_observations clock vals i ms =
     List.map_filter (\<lambda>u. case map_of vals u of
         None \<Rightarrow> None | Some v \<Rightarrow> map_option (\<lambda>t. (Last_ingested u, t, JNull)) (observed_at clock v)) (mapped_datasets i ms)"

text \<open>One read of what is booked, then all inserts.\<close>

definition book_observations :: "nat \<Rightarrow> (evidence_key \<times> nat \<times> json) list \<Rightarrow> observation list \<Rightarrow> observation list" where
  "book_observations i os obs =
     obs @ map (\<lambda>(k, t, x). \<lparr>bk_source = i, bk_key = k, bk_type = ''INGESTION.COMPLETE'', bk_status = ''success'', bk_extra = x, bk_at = t\<rparr>)
       (filter (\<lambda>(k, t, _). \<not> booked_at i k t obs) os)"

definition observe_passive :: "sweep_world \<Rightarrow> source_dataset list \<Rightarrow> ingestion_source \<Rightarrow> observation list \<Rightarrow> observation list" where
  "observe_passive w ms r obs =
     (if src_mode r \<noteq> PASSIVE \<or> \<not> sw_observe_ok w (src_id r) then obs
      else book_observations (src_id r) (passive_observations w (src_id r) ms) obs)"

definition observe_last_for_source ::
  "sweep_world \<Rightarrow> (string \<times> json) list \<Rightarrow> source_dataset list \<Rightarrow> ingestion_source \<Rightarrow> observation list \<Rightarrow> observation list" where
  "observe_last_for_source w vals ms r obs =
     (if parent_source_id r \<noteq> None \<or> \<not> sw_observe_ok w (src_id r) then obs
      else book_observations (src_id r) (last_observations (sw_clock w) vals (src_id r) ms) obs)"

definition observe_last_ingested ::
  "sweep_world \<Rightarrow> ingestion_source list \<Rightarrow> source_dataset list \<Rightarrow> observation list \<Rightarrow> (ds_error, observation list) result" where
  "observe_last_ingested w rows ms obs =
     (if filter (\<lambda>r. parent_source_id r = None) rows = [] then Inr obs
      else case sw_last w of
        Last_interface_error e \<Rightarrow> Inl e
      | Last_unavailable \<Rightarrow> Inr obs
      | Last_values vals \<Rightarrow> Inr (fold (observe_last_for_source w vals ms) rows obs))"

section \<open>The sweep\<close>

definition empty_summary :: sweep_summary where
  "empty_summary = \<lparr>sy_sources_synced = 0, sy_sources_removed = 0, sy_datasets_mapped = 0, sy_pipeline_links = 0, sy_events_mirrored = 0,
     sy_last_ingested_observed = 0, sy_registry_inserted = 0, sy_registry_marked_true = 0, sy_registry_marked_false = 0,
     sy_attrs_synced = 0, sy_zero_coverage = 0, sy_pattern_degraded = 0\<rparr>"

text \<open>Steps 4 and 5, on the sources as step 2 read them.\<close>

definition observe_step ::
  "sweep_world \<Rightarrow> ingestion_source list \<Rightarrow> sweep_summary \<Rightarrow> sweep_state \<Rightarrow> (ds_error, sweep_summary) result \<times> sweep_state" where
  "observe_step w rows sm s =
     (let ms = mappings (ss_db s); obs0 = ss_observed s;
          obs1 = fold (mirror_execution_requests w) rows obs0;
          obs2 = fold (observe_passive w ms) rows obs1
      in case observe_last_ingested w rows ms obs2 of
           Inl e \<Rightarrow> (Inl e, s\<lparr>ss_observed := obs2\<rparr>)
         | Inr obs3 \<Rightarrow> (Inr (sm\<lparr>sy_events_mirrored := length obs2 - length obs0, sy_last_ingested_observed := length obs3 - length obs2\<rparr>),
             s\<lparr>ss_observed := obs3\<rparr>))"

definition pipeline_step ::
  "sweep_world \<Rightarrow> string list \<Rightarrow> ingestion_source list \<Rightarrow> sweep_summary \<Rightarrow> sweep_state \<Rightarrow> (ds_error, sweep_summary) result \<times> sweep_state" where
  "pipeline_step w urns rows sm s =
     (if urns = [] then observe_step w rows sm s
      else case sw_pipelines w of
        None \<Rightarrow> (Inl (UncaughtError ''get_pipeline_names''), s)
      | Some ps \<Rightarrow>
          (let (n, ms) = link_pipelines (sw_now w) (pipeline_links rows ps) (mappings (ss_db s))
           in observe_step w rows (sm\<lparr>sy_pipeline_links := n\<rparr>) (s\<lparr>ss_db := (ss_db s)\<lparr>mappings := ms\<rparr>\<rparr>)))"

definition registry_step_of :: "sweep_world \<Rightarrow> string list \<Rightarrow> registry_row list \<Rightarrow> registry_counts \<times> registry_row list" where
  "registry_step_of w urns rows =
     (if sw_reconcile_ok w then reconcile_registry urns rows
      else (\<lparr>rg_inserted = 0, rg_marked_true = 0, rg_marked_false = 0\<rparr>, rows))"

definition run_sweep :: "sweep_world \<Rightarrow> sweep_state \<Rightarrow> (ds_error, sweep_summary) result \<times> sweep_state" where
  "run_sweep w s =
     (case sync_sources w (ss_db s) of
        (Inl e, db1) \<Rightarrow> (Inl e, s\<lparr>ss_db := db1\<rparr>)
      | (Inr (synced, removed), db1) \<Rightarrow>
          (case sw_datasets w of
             None \<Rightarrow> (Inl (UncaughtError ''enumerate_datasets''), s\<lparr>ss_db := db1\<rparr>)
           | Some urns \<Rightarrow>
               (let rows = sources db1;
                    (mapped, ms) = map_sources w urns rows (0, mappings db1);
                    (rg, reg1) = registry_step_of w urns (ss_registry s);
                    (attrs, reg2) = sync_dataset_attributes w reg1;
                    sm = empty_summary\<lparr>sy_sources_synced := synced, sy_sources_removed := removed, sy_datasets_mapped := mapped,
                           sy_registry_inserted := rg_inserted rg, sy_registry_marked_true := rg_marked_true rg,
                           sy_registry_marked_false := rg_marked_false rg, sy_attrs_synced := attrs,
                           sy_zero_coverage := length (filter (zero_coverage w urns) rows),
                           sy_pattern_degraded := length (filter (patterns_degraded w urns) rows)\<rparr>
                in pipeline_step w urns rows sm (s\<lparr>ss_db := db1\<lparr>mappings := ms\<rparr>, ss_registry := reg2\<rparr>))))"

text \<open>\<open>sync\<close>: the sweep and the health it reports for the metadata API.\<close>

definition sync_sweep :: "sweep_world \<Rightarrow> sweep_state \<Rightarrow> ((ds_error, sweep_summary) result \<times> sweep_state) \<times> string" where
  "sync_sweep w s = (let out = run_sweep w s in (out, case fst out of Inl _ \<Rightarrow> ''error'' | Inr _ \<Rightarrow> ''ok''))"

end
