(* ===== verification/Ingestion_Mirror.thy ===== *)
theory Ingestion_Mirror
  imports Ingestion_Sweep
begin

text \<open>
  The sources the sweep mirrors: what writing one source does to the rows of every URN, what a whole step leaves, and that a
  second step over the same answers writes the same rows again, time stamps apart.
\<close>

section \<open>Rows without their time stamps\<close>

definition forget_row :: "ingestion_source \<Rightarrow> ingestion_source" where
  "forget_row r = r\<lparr>updated_at := 0\<rparr>"

lemma forget_row_simps [simp]:
  "src_id (forget_row r) = src_id r" "src_mode (forget_row r) = src_mode r" "recipe (forget_row r) = recipe r"
  "datahub_source_urn (forget_row r) = datahub_source_urn r" "parent_source_id (forget_row r) = parent_source_id r"
  "forget_row (forget_row r) = forget_row r" "forget_row (r\<lparr>updated_at := t\<rparr>) = forget_row r"
  by (simp_all add: forget_row_def)

text \<open>Two tables of sources that differ in their time stamps only.\<close>

definition same_rows :: "ingestion_source list \<Rightarrow> ingestion_source list \<Rightarrow> bool" where
  "same_rows rows rows' \<longleftrightarrow> map forget_row rows = map forget_row rows'"

lemma same_rows_refl [simp]: "same_rows rows rows"
  by (simp add: same_rows_def)

lemma same_rows_trans: "same_rows a b \<Longrightarrow> same_rows b c \<Longrightarrow> same_rows a c"
  by (simp add: same_rows_def)

lemma same_rows_sym: "same_rows a b \<Longrightarrow> same_rows b a"
  by (simp add: same_rows_def)

lemma same_rows_map: "same_rows rows rows' \<Longrightarrow> (\<And>r. f (forget_row r) = f r) \<Longrightarrow> map f rows = map f rows'"
proof -
  assume same: "same_rows rows rows'" and f: "\<And>r. f (forget_row r) = f r"
  then have "map f (map forget_row rows) = map f (map forget_row rows')" by (simp add: same_rows_def)
  then show ?thesis by (simp add: f o_def)
qed

lemma same_rows_ids: "same_rows rows rows' \<Longrightarrow> map src_id rows = map src_id rows'"
  by (rule same_rows_map) simp_all

lemma same_rows_filter:
  "same_rows rows rows' \<Longrightarrow> (\<And>r. P (forget_row r) = P r) \<Longrightarrow> same_rows (filter P rows) (filter P rows')"
proof -
  assume same: "same_rows rows rows'" and P: "\<And>r. P (forget_row r) = P r"
  have eq: "map forget_row (filter P xs) = filter P (map forget_row xs)" for xs
    by (simp add: filter_map o_def P)
  show ?thesis using same by (simp add: same_rows_def eq)
qed

lemma same_rows_fold:
  "same_rows rows rows' \<Longrightarrow> (\<And>r. f (forget_row r) = f r) \<Longrightarrow> fold f rows x = fold f rows' x"
proof -
  assume same: "same_rows rows rows'" and f: "\<And>r. f (forget_row r) = f r"
  have "f \<circ> forget_row = f" by (simp add: fun_eq_iff f)
  then have "fold f (map forget_row xs) x = fold f xs x" for xs by (simp add: fold_map)
  then show ?thesis using same unfolding same_rows_def by metis
qed

lemma same_rows_managed:
  "same_rows (sources db) (sources db') \<Longrightarrow> same_rows (managed_rows u db) (managed_rows u db')"
  unfolding managed_rows_def by (rule same_rows_filter) simp_all

section \<open>Writing one source\<close>

text \<open>The row of a source says what the answer says.\<close>

definition mirrors_answer :: "sweep_world \<Rightarrow> dh_source \<Rightarrow> nat option \<Rightarrow> ingestion_source \<Rightarrow> bool" where
  "mirrors_answer w s parent row \<longleftrightarrow>
     (\<exists>masked. mask_recipe_secrets (parse_recipe_str_safe (sw_json w) (ds_recipe s)) = Inr masked \<and>
        forget_row (mirror_fields w s parent masked row) = forget_row row)"

lemma mirror_fields_simps [simp]:
  "src_id (mirror_fields w s p m r) = src_id r" "src_mode (mirror_fields w s p m r) = src_mode r"
  "datahub_source_urn (mirror_fields w s p m r) = datahub_source_urn r"
  "parent_source_id (mirror_fields w s p m r) = p"
  by (simp_all add: mirror_fields_def Let_def)

lemma mirror_fields_twice [simp]:
  "forget_row (mirror_fields w2 s p m (mirror_fields w s p m r)) = forget_row (mirror_fields w s p m r)"
  by (simp add: mirror_fields_def Let_def forget_row_def)

lemma mirrors_answer_parent: "mirrors_answer w s p r \<Longrightarrow> parent_source_id r = p"
  unfolding mirrors_answer_def by (metis forget_row_simps(5) mirror_fields_simps(4))

lemma mirror_fields_forget:
  "forget_row (mirror_fields w s p m (forget_row r)) = forget_row (mirror_fields w s p m r)"
  by (simp add: mirror_fields_def Let_def forget_row_def)

lemma mirror_fields_world: "forget_row (mirror_fields w2 s p m r) = forget_row (mirror_fields w s p m r)"
  by (simp add: mirror_fields_def Let_def forget_row_def)

lemma mirrors_answer_forget: "forget_row r = forget_row r' \<Longrightarrow> mirrors_answer w s p r \<longleftrightarrow> mirrors_answer w s p r'"
  unfolding mirrors_answer_def by (metis mirror_fields_forget)

definition distinct_ids :: "ingestion_db \<Rightarrow> bool" where
  "distinct_ids db \<longleftrightarrow> distinct (map src_id (sources db))"

lemma managed_rowsD: "row \<in> set (managed_rows u db) \<Longrightarrow>
    row \<in> set (sources db) \<and> datahub_source_urn row = Some u \<and> src_mode row = DATAHUB_MANAGED"
  by (simp add: managed_rows_def)

lemma row_update_filter:
  assumes "distinct (map key rows)" "row \<in> set rows" "P row' \<longleftrightarrow> P row"
  shows "filter P (row_update key (key row) (\<lambda>_. row') rows) = row_update key (key row) (\<lambda>_. row') (filter P rows)"
proof -
  have "P (if key r = key row then row' else r) = P r" if "r \<in> set rows" for r
    using assms that by (auto simp: distinct_map dest: inj_onD)
  then show ?thesis
    unfolding row_update_def by (simp add: filter_map o_def cong: filter_cong)
qed

lemma put_source_managed:
  assumes "distinct_ids db" "row \<in> set (sources db)" "src_id row' = src_id row"
    "datahub_source_urn row' = datahub_source_urn row" "src_mode row' = src_mode row"
  shows "managed_rows u (put_source row' db) = row_update src_id (src_id row) (\<lambda>_. row') (managed_rows u db)"
  using row_update_filter [OF assms(1) [unfolded distinct_ids_def] assms(2),
      of "\<lambda>r. datahub_source_urn r = Some u \<and> src_mode r = DATAHUB_MANAGED" row'] assms(3-5)
  by (simp add: managed_rows_def put_source_def)

lemma put_source_same:
  assumes "distinct_ids db" "row \<in> set (sources db)" "forget_row row' = forget_row row"
  shows "same_rows (sources (put_source row' db)) (sources db)"
proof -
  have "src_id row' = src_id row" using assms(3) by (metis forget_row_simps(1))
  moreover have "r = row" if "r \<in> set (sources db)" "src_id r = src_id row" for r
    using that assms(1,2) by (auto simp: distinct_ids_def distinct_map dest: inj_onD)
  ultimately show ?thesis
    using assms(3) by (auto simp: same_rows_def put_source_def row_update_def)
qed

text \<open>Everything a proof needs of one written source.\<close>

definition id_unused :: "sweep_world \<Rightarrow> string \<Rightarrow> ingestion_db \<Rightarrow> bool" where
  "id_unused w u db \<longleftrightarrow> sw_new_id w u \<notin> src_id ` set (sources db)"

lemma upsert_managed_row_spec:
  assumes ok: "upsert_managed_row w s parent db = Inr (i, db')"
    and ids: "distinct_ids db" and fresh: "id_unused w (ds_urn s) db"
  shows "distinct_ids db'" "mappings db' = mappings db" "ingestion_db.events db' = ingestion_db.events db"
    "\<And>u. u \<noteq> ds_urn s \<Longrightarrow> managed_rows u db' = managed_rows u db"
    "src_id ` set (sources db') \<subseteq> insert (sw_new_id w (ds_urn s)) (src_id ` set (sources db))"
    "\<exists>row. managed_rows (ds_urn s) db' = [row] \<and> src_id row = i \<and> mirrors_answer w s parent row"
    "filter (\<lambda>r. src_mode r \<noteq> DATAHUB_MANAGED) (sources db') = filter (\<lambda>r. src_mode r \<noteq> DATAHUB_MANAGED) (sources db)"
proof -
  obtain masked where masked: "mask_recipe_secrets (parse_recipe_str_safe (sw_json w) (ds_recipe s)) = Inr masked"
    using ok by (auto simp: upsert_managed_row_def split: sum.splits)
  define new where "new = mirror_fields w s parent masked (blank_row w (ds_urn s))"
  have new: "src_id new = sw_new_id w (ds_urn s)" "src_mode new = DATAHUB_MANAGED" "datahub_source_urn new = Some (ds_urn s)"
    by (simp_all add: new_def blank_row_def)
  consider (add) "managed_rows (ds_urn s) db = []" "i = src_id new" "db' = add_source new db"
    | (put) row where "managed_rows (ds_urn s) db = [row]" "i = src_id row" "db' = put_source (mirror_fields w s parent masked row) db"
    using ok masked by (auto simp: upsert_managed_row_def new_def Let_def split: list.splits)
  then have "distinct_ids db' \<and> mappings db' = mappings db \<and> ingestion_db.events db' = ingestion_db.events db \<and>
    (\<forall>u. u \<noteq> ds_urn s \<longrightarrow> managed_rows u db' = managed_rows u db) \<and>
    src_id ` set (sources db') \<subseteq> insert (sw_new_id w (ds_urn s)) (src_id ` set (sources db)) \<and>
    (\<exists>row. managed_rows (ds_urn s) db' = [row] \<and> src_id row = i \<and> mirrors_answer w s parent row) \<and>
    filter (\<lambda>r. src_mode r \<noteq> DATAHUB_MANAGED) (sources db') = filter (\<lambda>r. src_mode r \<noteq> DATAHUB_MANAGED) (sources db)"
  proof cases
    case add
    have "mirrors_answer w s parent new" using masked by (auto simp: mirrors_answer_def new_def)
    moreover have "filter (\<lambda>r. datahub_source_urn r = Some (ds_urn s) \<and> src_mode r = DATAHUB_MANAGED) (sources db) = []"
      using add(1) by (simp add: managed_rows_def)
    ultimately show ?thesis
      using add ids fresh new by (auto simp: distinct_ids_def add_source_def id_unused_def managed_rows_def)
  next
    case put
    let ?row' = "mirror_fields w s parent masked row"
    have row: "row \<in> set (sources db)" "datahub_source_urn row = Some (ds_urn s)" "src_mode row = DATAHUB_MANAGED"
      using put(1) managed_rowsD [of row "ds_urn s" db] by simp_all
    have man: "managed_rows u db' = row_update src_id (src_id row) (\<lambda>_. ?row') (managed_rows u db)" for u
      unfolding put(3) by (rule put_source_managed [OF ids row(1)]) simp_all
    have others: "managed_rows u db' = managed_rows u db" if "u \<noteq> ds_urn s" for u
    proof -
      have "r \<noteq> row" if "r \<in> set (managed_rows u db)" for r
        using managed_rowsD [OF that] row(2) \<open>u \<noteq> ds_urn s\<close> by auto
      then have "src_id r \<noteq> src_id row" if "r \<in> set (managed_rows u db)" for r
        using that managed_rowsD [OF that] row(1) ids by (metis distinct_ids_def distinct_map inj_onD)
      then show ?thesis unfolding man row_update_def by (simp add: map_idI)
    qed
    have "managed_rows (ds_urn s) db' = [?row']" unfolding man put(1) by (simp add: row_update_def)
    moreover have "mirrors_answer w s parent ?row'" using masked by (auto simp: mirrors_answer_def)
    moreover have "map src_id (sources db') = map src_id (sources db)"
      by (auto simp: put(3) put_source_def row_update_def)
    moreover have "src_id ` set (sources db') = src_id ` set (sources db)"
      by (metis calculation(3) list.set_map)
    moreover have "filter (\<lambda>r. src_mode r \<noteq> DATAHUB_MANAGED) (sources db') = filter (\<lambda>r. src_mode r \<noteq> DATAHUB_MANAGED) (sources db)"
    proof -
      have "filter (\<lambda>r. src_mode r \<noteq> DATAHUB_MANAGED) (sources db')
          = row_update src_id (src_id row) (\<lambda>_. ?row') (filter (\<lambda>r. src_mode r \<noteq> DATAHUB_MANAGED) (sources db))"
        using row_update_filter [OF ids [unfolded distinct_ids_def] row(1),
            of "\<lambda>r. src_mode r \<noteq> DATAHUB_MANAGED" ?row'] by (simp add: put(3) put_source_def)
      moreover have "src_id r \<noteq> src_id row" if "r \<in> set (sources db)" "src_mode r \<noteq> DATAHUB_MANAGED" for r
        using that row ids by (metis distinct_ids_def distinct_map inj_onD)
      ultimately show ?thesis by (auto simp: row_update_def intro!: map_idI)
    qed
    ultimately show ?thesis
      using ids others put(2,3) by (auto simp: distinct_ids_def put_source_def)
  qed
  then show "distinct_ids db'" "mappings db' = mappings db" "ingestion_db.events db' = ingestion_db.events db"
    "\<And>u. u \<noteq> ds_urn s \<Longrightarrow> managed_rows u db' = managed_rows u db"
    "src_id ` set (sources db') \<subseteq> insert (sw_new_id w (ds_urn s)) (src_id ` set (sources db))"
    "\<exists>row. managed_rows (ds_urn s) db' = [row] \<and> src_id row = i \<and> mirrors_answer w s parent row"
    "filter (\<lambda>r. src_mode r \<noteq> DATAHUB_MANAGED) (sources db') = filter (\<lambda>r. src_mode r \<noteq> DATAHUB_MANAGED) (sources db)"
    by blast+
qed

text \<open>Writing a source that is mirrored already changes no more than its time stamp.\<close>

lemma upsert_managed_row_again:
  assumes "managed_rows (ds_urn s) db = [row]" "mirrors_answer w s parent row" "sw_json w2 = sw_json w" "distinct_ids db"
  obtains db' where "upsert_managed_row w2 s parent db = Inr (src_id row, db')" "same_rows (sources db') (sources db)"
    "mappings db' = mappings db" "ingestion_db.events db' = ingestion_db.events db"
proof -
  obtain masked where m: "mask_recipe_secrets (parse_recipe_str_safe (sw_json w) (ds_recipe s)) = Inr masked"
      "forget_row (mirror_fields w s parent masked row) = forget_row row"
    using assms(2) by (auto simp: mirrors_answer_def)
  let ?db' = "put_source (mirror_fields w2 s parent masked row) db"
  have "forget_row (mirror_fields w2 s parent masked row) = forget_row row"
    using m(2) mirror_fields_world by metis
  moreover have "row \<in> set (sources db)" using assms(1) managed_rowsD [of row "ds_urn s" db] by simp
  ultimately have "same_rows (sources ?db') (sources db)"
    using put_source_same [OF assms(4)] by blast
  moreover have "upsert_managed_row w2 s parent db = Inr (src_id row, ?db')"
    using assms(1,3) m(1) by (simp add: upsert_managed_row_def)
  ultimately show ?thesis using that [of ?db'] by (simp add: put_source_def)
qed

section \<open>Writing several\<close>

text \<open>Both passes write a list of sources, each with the parent its row gets.\<close>

type_synonym writes = "(dh_source \<times> nat option) list"

fun write_each :: "sweep_world \<Rightarrow> writes \<Rightarrow> ingestion_db \<Rightarrow> (ds_error, nat list \<times> ingestion_db) result" where
  "write_each w [] db = Inr ([], db)"
| "write_each w ((s, p) # rest) db =
     rbind (upsert_managed_row w s p db) (\<lambda>(i, db'). rmap (\<lambda>(is, db''). (i # is, db'')) (write_each w rest db'))"

definition write_urns :: "writes \<Rightarrow> string list" where
  "write_urns ws = map (\<lambda>k. ds_urn (fst k)) ws"

lemma write_urns_simps [simp]:
  "write_urns [] = []" "write_urns (k # ws) = ds_urn (fst k) # write_urns ws" "write_urns (ws @ ws') = write_urns ws @ write_urns ws'"
  by (simp_all add: write_urns_def)

definition regular_source :: "dh_source \<Rightarrow> bool" where
  "regular_source s \<longleftrightarrow> ds_urn s \<noteq> [] \<and> \<not> is_wrapper_source s"

definition regular_writes :: "dh_source list \<Rightarrow> writes" where
  "regular_writes dhs = map (\<lambda>s. (s, None)) (filter regular_source dhs)"

definition wrapper_write :: "sweep_world \<Rightarrow> parents \<Rightarrow> dh_source \<Rightarrow> (dh_source \<times> nat option) list" where
  "wrapper_write w ps s =
     (if ds_urn s = [] \<or> \<not> is_wrapper_source s then []
      else case wrapper_parent w ps s of Inr (Some i) \<Rightarrow> [(s, Some i)] | _ \<Rightarrow> [])"

definition wrapper_writes :: "sweep_world \<Rightarrow> parents \<Rightarrow> dh_source list \<Rightarrow> writes" where
  "wrapper_writes w ps dhs = concat (map (wrapper_write w ps) dhs)"

definition parents_hashable :: "sweep_world \<Rightarrow> parents \<Rightarrow> dh_source list \<Rightarrow> bool" where
  "parents_hashable w ps dhs \<longleftrightarrow>
     (\<forall>s \<in> set dhs. ds_urn s \<noteq> [] \<longrightarrow> is_wrapper_source s \<longrightarrow> (\<exists>p. wrapper_parent w ps s = Inr p))"

lemma pass_a_step:
  "pass_a_source w s (ps, db) =
     (if regular_source s then rmap (\<lambda>k. ((ds_urn s, fst k) # ps, snd k)) (upsert_managed_row w s None db) else Inr (ps, db))"
  by (auto simp: pass_a_source_def regular_source_def split_def)

lemma pass_b_step:
  "pass_b_source w ps s (seen, db) =
     (if ds_urn s = [] \<or> \<not> is_wrapper_source s then Inr (seen, db)
      else rbind (wrapper_parent w ps s) (\<lambda>parent.
        case parent of None \<Rightarrow> Inr (seen, db)
        | Some i \<Rightarrow> rmap (\<lambda>k. (ds_urn s # seen, snd k)) (upsert_managed_row w s (Some i) db)))"
  by (simp add: pass_b_source_def split_def)

lemma pass_a_writes:
  "rfold (pass_a_source w) dhs (ps, db) =
     rmap (\<lambda>(is, db'). (rev (zip (write_urns (regular_writes dhs)) is) @ ps, db')) (write_each w (regular_writes dhs) db)"
proof (induction dhs arbitrary: ps db)
  case (Cons s dhs)
  have cons: "regular_writes (s # dhs) = (if regular_source s then [(s, None)] else []) @ regular_writes dhs"
    by (simp add: regular_writes_def)
  show ?case
    unfolding cons
    by (cases "upsert_managed_row w s None db") (simp_all add: pass_a_step Cons.IH split_def)
qed (simp add: regular_writes_def)

lemma pass_b_writes:
  assumes "parents_hashable w ps dhs"
  shows "rfold (pass_b_source w ps) dhs (seen, db) =
     rmap (\<lambda>(is, db'). (rev (write_urns (wrapper_writes w ps dhs)) @ seen, db')) (write_each w (wrapper_writes w ps dhs) db)"
  using assms
proof (induction dhs arbitrary: seen db)
  case (Cons s dhs)
  then have IH: "rfold (pass_b_source w ps) dhs (seen, db) =
     rmap (\<lambda>(is, db'). (rev (write_urns (wrapper_writes w ps dhs)) @ seen, db')) (write_each w (wrapper_writes w ps dhs) db)"
    for seen db by (simp add: parents_hashable_def)
  have cons: "wrapper_writes w ps (s # dhs) = wrapper_write w ps s @ wrapper_writes w ps dhs"
    by (simp add: wrapper_writes_def)
  show ?case
  proof (cases "ds_urn s = [] \<or> \<not> is_wrapper_source s")
    case True
    then have "wrapper_write w ps s = []" by (simp add: wrapper_write_def)
    with True show ?thesis unfolding cons by (simp add: pass_b_step IH)
  next
    case False
    then obtain p where p: "wrapper_parent w ps s = Inr p" using Cons.prems by (auto simp: parents_hashable_def)
    show ?thesis
    proof (cases p)
      case None
      with False p have "wrapper_write w ps s = []" by (simp add: wrapper_write_def)
      with False p None show ?thesis unfolding cons by (simp add: pass_b_step IH)
    next
      case (Some i)
      with False p have ww: "wrapper_write w ps s = [(s, Some i)]" by (simp add: wrapper_write_def)
      show ?thesis
        using False p Some unfolding cons ww
        by (cases "upsert_managed_row w s (Some i) db") (simp_all add: pass_b_step IH split_def)
    qed
  qed
qed (simp add: wrapper_writes_def)

lemma pass_b_hashable: "rfold (pass_b_source w ps) dhs st = Inr st' \<Longrightarrow> parents_hashable w ps dhs"
proof (induction dhs arbitrary: st)
  case (Cons s dhs)
  then obtain st1 where st1: "pass_b_source w ps s st = Inr st1" "rfold (pass_b_source w ps) dhs st1 = Inr st'"
    by (auto simp: result_simps)
  from st1(1) have "ds_urn s \<noteq> [] \<longrightarrow> is_wrapper_source s \<longrightarrow> (\<exists>p. wrapper_parent w ps s = Inr p)"
    by (auto simp: pass_b_source_def result_simps split: prod.splits if_splits)
  with Cons.IH [OF st1(2)] show ?case by (simp add: parents_hashable_def)
qed (simp add: parents_hashable_def)

text \<open>What a successful list of writes leaves.\<close>

definition written :: "sweep_world \<Rightarrow> ingestion_db \<Rightarrow> dh_source \<times> nat option \<Rightarrow> nat \<Rightarrow> bool" where
  "written w db k i \<longleftrightarrow> (\<exists>row. managed_rows (ds_urn (fst k)) db = [row] \<and> src_id row = i \<and> mirrors_answer w (fst k) (snd k) row)"

definition user_rows :: "ingestion_db \<Rightarrow> ingestion_source list" where
  "user_rows db = filter (\<lambda>r. src_mode r \<noteq> DATAHUB_MANAGED) (sources db)"

definition writes_ok :: "sweep_world \<Rightarrow> writes \<Rightarrow> ingestion_db \<Rightarrow> bool" where
  "writes_ok w ws db \<longleftrightarrow> distinct_ids db \<and> distinct (write_urns ws) \<and> inj_on (sw_new_id w) (set (write_urns ws)) \<and>
     (\<forall>u \<in> set (write_urns ws). id_unused w u db)"

lemma write_each_spec:
  assumes "write_each w ws db = Inr (is, db')" "writes_ok w ws db"
  shows "distinct_ids db' \<and> mappings db' = mappings db \<and> ingestion_db.events db' = ingestion_db.events db \<and>
    (\<forall>u. u \<notin> set (write_urns ws) \<longrightarrow> managed_rows u db' = managed_rows u db) \<and>
    src_id ` set (sources db') \<subseteq> src_id ` set (sources db) \<union> sw_new_id w ` set (write_urns ws) \<and>
    list_all2 (written w db') ws is \<and> user_rows db' = user_rows db"
  using assms
proof (induction ws arbitrary: db "is")
  case (Cons k ws)
  obtain s p where k: "k = (s, p)" by fastforce
  obtain i is1 db1 where 1: "upsert_managed_row w s p db = Inr (i, db1)" "write_each w ws db1 = Inr (is1, db')" "is = i # is1"
    using Cons.prems(1) by (auto simp: k result_simps)
  have fr: "id_unused w (ds_urn s) db" and ids: "distinct_ids db" using Cons.prems(2) by (auto simp: k writes_ok_def)
  note up = upsert_managed_row_spec [OF 1(1) ids fr]
  have "writes_ok w ws db1"
  proof -
    have "id_unused w u db1" if "u \<in> set (write_urns ws)" for u
    proof -
      have "sw_new_id w u \<noteq> sw_new_id w (ds_urn s)"
        using that Cons.prems(2) by (auto simp: k writes_ok_def) (metis image_eqI)
      moreover have "sw_new_id w u \<notin> src_id ` set (sources db)"
        using that Cons.prems(2) by (auto simp: k writes_ok_def id_unused_def)
      ultimately show ?thesis using up(5) unfolding id_unused_def by blast
    qed
    then show ?thesis using Cons.prems(2) up(1) by (auto simp: writes_ok_def inj_on_def)
  qed
  note IH = Cons.IH [OF 1(2) this]
  have notin: "ds_urn s \<notin> set (write_urns ws)" using Cons.prems(2) by (simp add: k writes_ok_def)
  have "written w db' (s, p) i"
    using IH notin up(6) by (simp add: written_def)
  moreover have "src_id ` set (sources db') \<subseteq> src_id ` set (sources db) \<union> sw_new_id w ` set (write_urns ((s, p) # ws))"
    using IH up(5) by (simp only: write_urns_simps fst_conv list.set image_insert) blast
  ultimately show ?case using IH up(1,2,3,4,7) by (simp add: k 1(3) user_rows_def)
qed (simp add: writes_ok_def)

text \<open>Written once more, with the same answers, everything stays but time stamps.\<close>

definition as_written :: "sweep_world \<Rightarrow> ingestion_db \<Rightarrow> dh_source \<times> nat option \<Rightarrow> bool" where
  "as_written w db k \<longleftrightarrow> (\<exists>i. written w db k i)"

definition row_id :: "ingestion_db \<Rightarrow> string \<Rightarrow> nat" where
  "row_id db u = src_id (hd (managed_rows u db))"

lemma written_row_id: "written w db k i \<Longrightarrow> row_id db (ds_urn (fst k)) = i"
  by (auto simp: written_def row_id_def)

lemma written_same:
  assumes "written w db k i" "same_rows (sources db') (sources db)"
  shows "written w db' k i"
proof -
  obtain row where row: "managed_rows (ds_urn (fst k)) db = [row]" "src_id row = i" "mirrors_answer w (fst k) (snd k) row"
    using assms(1) by (auto simp: written_def)
  have "same_rows (managed_rows (ds_urn (fst k)) db') [row]"
    using same_rows_managed [OF assms(2)] row(1) by metis
  then obtain row' where row': "managed_rows (ds_urn (fst k)) db' = [row']" "forget_row row' = forget_row row"
    by (auto simp: same_rows_def)
  then have "src_id row' = i" using row(2) by (metis forget_row_simps(1))
  with row row' mirrors_answer_forget show ?thesis unfolding written_def by blast
qed

lemma distinct_ids_same: "same_rows (sources db') (sources db) \<Longrightarrow> distinct_ids db' = distinct_ids db"
  by (simp add: distinct_ids_def same_rows_ids)

lemma write_each_again:
  assumes "\<forall>k \<in> set ws. as_written w db k" "sw_json w2 = sw_json w" "distinct_ids db"
  shows "\<exists>db'. write_each w2 ws db = Inr (map (row_id db) (write_urns ws), db') \<and> same_rows (sources db') (sources db) \<and>
    mappings db' = mappings db \<and> ingestion_db.events db' = ingestion_db.events db"
  using assms
proof (induction ws arbitrary: db)
  case (Cons k ws)
  obtain s p where k: "k = (s, p)" by fastforce
  obtain row where row: "managed_rows (ds_urn s) db = [row]" "mirrors_answer w s p row"
    using Cons.prems(1) by (auto simp: k as_written_def written_def)
  obtain db1 where 1: "upsert_managed_row w2 s p db = Inr (src_id row, db1)" "same_rows (sources db1) (sources db)"
      "mappings db1 = mappings db" "ingestion_db.events db1 = ingestion_db.events db"
    using upsert_managed_row_again [OF row Cons.prems(2,3)] by blast
  have all: "\<forall>k \<in> set ws. as_written w db1 k"
    using Cons.prems(1) written_same [OF _ 1(2)] unfolding as_written_def by (meson list.set_intros(2))
  then obtain db2 where 2: "write_each w2 ws db1 = Inr (map (row_id db1) (write_urns ws), db2)" "same_rows (sources db2) (sources db1)"
      "mappings db2 = mappings db1" "ingestion_db.events db2 = ingestion_db.events db1"
    using Cons.IH [OF all Cons.prems(2)] Cons.prems(3) 1(2) distinct_ids_same by blast
  have "map (row_id db1) (write_urns ws) = map (row_id db) (write_urns ws)"
  proof -
    have "row_id db1 (ds_urn (fst k)) = row_id db (ds_urn (fst k))" if "k \<in> set ws" for k
      using that Cons.prems(1) written_same [OF _ 1(2)] written_row_id unfolding as_written_def
      by (metis list.set_intros(2))
    then show ?thesis by (simp add: write_urns_def)
  qed
  with 1 2 row(1) show ?case
    by (auto simp: k row_id_def intro: same_rows_trans)
qed simp

section \<open>Removing what DataHub no longer reports\<close>

text \<open>The foreign key removes the rows below a removed row, never one whose parent, if it has one, is kept as well.\<close>

definition kept_apart :: "nat set \<Rightarrow> ingestion_source list \<Rightarrow> bool" where
  "kept_apart K rows \<longleftrightarrow> (\<forall>r \<in> set rows. src_id r \<in> K \<longrightarrow> (\<forall>p. parent_source_id r = Some p \<longrightarrow> p \<in> K))"

lemma cascade_keeps:
  assumes "kept_apart K rows" "set ids \<inter> K = {}"
  shows "set (cascade_ids n ids rows) \<inter> K = {}"
  using assms(2)
proof (induction n arbitrary: ids)
  case (Suc n)
  have "set (child_ids ids rows) \<inter> K = {}"
    using assms(1) Suc.prems by (auto simp: child_ids_def kept_apart_def split: option.splits)
  with Suc.prems have "set (add_new ids (child_ids ids rows)) \<inter> K = {}" by auto
  from Suc.IH [OF this] show ?case by simp
qed simp

lemma cascade_contains: "set ids \<subseteq> set (cascade_ids n ids rows)"
proof (induction n arbitrary: ids)
  case (Suc n)
  have "set ids \<subseteq> set (add_new ids (child_ids ids rows))" by simp
  with Suc.IH show ?case by fastforce
qed simp

definition without :: "nat set \<Rightarrow> ingestion_db \<Rightarrow> ingestion_db" where
  "without gone db = db\<lparr>sources := filter (\<lambda>r. src_id r \<notin> gone) (sources db), mappings := filter (\<lambda>m. source_id m \<notin> gone) (mappings db)\<rparr>"

lemma without_without: "without g (without h db) = without (g \<union> h) db"
  by (simp add: without_def conj_commute)

lemma remove_rows_without:
  assumes "kept_apart K (sources db)" "src_id ` set rows \<inter> K = {}"
  shows "\<exists>gone. remove_rows rows db = without gone db \<and> gone \<inter> K = {} \<and> src_id ` set rows \<subseteq> gone"
  using assms
proof (induction rows arbitrary: db)
  case Nil
  have "remove_rows [] db = without {} db" by (simp add: remove_rows_def without_def)
  then show ?case by (metis Int_empty_left empty_subsetI image_empty list.set(1))
next
  case (Cons r rows)
  let ?g = "set (cascade_ids (length (sources db)) [src_id r] (sources db))"
  have rm: "remove_source (src_id r) db = without ?g db" by (simp add: remove_source_def without_def Let_def)
  have g: "?g \<inter> K = {}" using cascade_keeps [OF Cons.prems(1)] Cons.prems(2) by simp
  have "kept_apart K (sources (without ?g db))" using Cons.prems(1) unfolding kept_apart_def without_def by auto
  moreover have "src_id ` set rows \<inter> K = {}" using Cons.prems(2) by auto
  ultimately obtain gone where gone: "remove_rows rows (without ?g db) = without gone (without ?g db)" "gone \<inter> K = {}"
      "src_id ` set rows \<subseteq> gone"
    using Cons.IH by blast
  have "src_id r \<in> ?g" using cascade_contains [of "[src_id r]"] by simp
  then have "remove_rows (r # rows) db = without (gone \<union> ?g) db" "(gone \<union> ?g) \<inter> K = {}" "src_id ` set (r # rows) \<subseteq> gone \<union> ?g"
    using gone g rm without_without by (auto simp: remove_rows_def)
  then show ?case by blast
qed

section \<open>The step as a whole\<close>

text \<open>Which rows a list of writes may bring in or replace.\<close>

definition brings :: "writes \<Rightarrow> ingestion_db \<Rightarrow> ingestion_db \<Rightarrow> bool" where
  "brings ws db db' \<longleftrightarrow>
     (\<forall>r \<in> set (sources db'). r \<in> set (sources db) \<or>
        (\<exists>k \<in> set ws. datahub_source_urn r = Some (ds_urn (fst k)) \<and> src_mode r = DATAHUB_MANAGED \<and> parent_source_id r = snd k)) \<and>
     (\<forall>q \<in> set (sources db). q \<in> set (sources db') \<or>
        (\<exists>k \<in> set ws. \<exists>r \<in> set (sources db'). src_id r = src_id q \<and> src_mode r = DATAHUB_MANAGED \<and> parent_source_id r = snd k))"

lemma brings_old: "brings ws db db' \<Longrightarrow> r \<in> set (sources db') \<Longrightarrow> r \<in> set (sources db) \<or>
    (\<exists>k \<in> set ws. datahub_source_urn r = Some (ds_urn (fst k)) \<and> src_mode r = DATAHUB_MANAGED \<and> parent_source_id r = snd k)"
  by (simp add: brings_def)

lemma brings_new: "brings ws db db' \<Longrightarrow> q \<in> set (sources db) \<Longrightarrow> q \<in> set (sources db') \<or>
    (\<exists>k \<in> set ws. \<exists>r \<in> set (sources db'). src_id r = src_id q \<and> src_mode r = DATAHUB_MANAGED \<and> parent_source_id r = snd k)"
  by (simp add: brings_def)

lemma brings_refl: "brings [] db db"
  by (simp add: brings_def)

lemma brings_trans:
  assumes "brings ws db db1" "brings ws' db1 db2"
  shows "brings (ws @ ws') db db2"
  unfolding brings_def
proof (intro conjI ballI)
  fix r assume "r \<in> set (sources db2)"
  then show "r \<in> set (sources db) \<or>
     (\<exists>k \<in> set (ws @ ws'). datahub_source_urn r = Some (ds_urn (fst k)) \<and> src_mode r = DATAHUB_MANAGED \<and> parent_source_id r = snd k)"
    using brings_old [OF assms(2)] brings_old [OF assms(1)] by fastforce
next
  fix q assume "q \<in> set (sources db)"
  then consider "q \<in> set (sources db1)"
    | k r where "k \<in> set ws" "r \<in> set (sources db1)" "src_id r = src_id q" "src_mode r = DATAHUB_MANAGED" "parent_source_id r = snd k"
    using brings_new [OF assms(1)] by blast
  then show "q \<in> set (sources db2) \<or>
     (\<exists>k \<in> set (ws @ ws'). \<exists>r \<in> set (sources db2). src_id r = src_id q \<and> src_mode r = DATAHUB_MANAGED \<and> parent_source_id r = snd k)"
  proof cases
    case 1
    then show ?thesis using brings_new [OF assms(2)] by fastforce
  next
    case 2
    from brings_new [OF assms(2) 2(2)] show ?thesis
    proof
      assume "r \<in> set (sources db2)"
      moreover have "k \<in> set (ws @ ws')" using 2(1) by simp
      ultimately show ?thesis using 2(3-5) by blast
    next
      assume "\<exists>k \<in> set ws'. \<exists>r' \<in> set (sources db2). src_id r' = src_id r \<and> src_mode r' = DATAHUB_MANAGED \<and> parent_source_id r' = snd k"
      then obtain k' r' where "k' \<in> set ws'" "r' \<in> set (sources db2)" "src_id r' = src_id q" "src_mode r' = DATAHUB_MANAGED"
          "parent_source_id r' = snd k'" using 2(3) by auto
      moreover from this(1) have "k' \<in> set (ws @ ws')" by simp
      ultimately show ?thesis by blast
    qed
  qed
qed

lemma upsert_managed_row_brings:
  assumes ok: "upsert_managed_row w s parent db = Inr (i, db')"
  shows "brings [(s, parent)] db db'"
proof -
  obtain masked where masked: "mask_recipe_secrets (parse_recipe_str_safe (sw_json w) (ds_recipe s)) = Inr masked"
    using ok by (auto simp: upsert_managed_row_def split: sum.splits)
  define new where "new = mirror_fields w s parent masked (blank_row w (ds_urn s))"
  have new: "src_mode new = DATAHUB_MANAGED" "datahub_source_urn new = Some (ds_urn s)" "parent_source_id new = parent"
    by (simp_all add: new_def blank_row_def)
  consider (add) "db' = add_source new db"
    | (put) row where "managed_rows (ds_urn s) db = [row]" "db' = put_source (mirror_fields w s parent masked row) db"
    using ok masked by (auto simp: upsert_managed_row_def new_def Let_def split: list.splits)
  then show ?thesis
  proof cases
    case add
    with new show ?thesis by (auto simp: brings_def add_source_def)
  next
    case put
    then have row: "row \<in> set (sources db)" "datahub_source_urn row = Some (ds_urn s)" "src_mode row = DATAHUB_MANAGED"
      using managed_rowsD [of row "ds_urn s" db] by simp_all
    then have "mirror_fields w s parent masked row \<in> set (sources db')"
      by (auto simp: put(2) put_source_def set_row_update intro!: image_eqI [where x = row])
    moreover have "r \<in> set (sources db) \<or> r = mirror_fields w s parent masked row" if "r \<in> set (sources db')" for r
      using that by (auto simp: put(2) put_source_def set_row_update split: if_splits)
    moreover have "q \<in> set (sources db') \<or> src_id q = src_id row" if "q \<in> set (sources db)" for q
      using that by (auto simp: put(2) put_source_def set_row_update intro!: image_eqI [where x = q])
    ultimately show ?thesis using row(2,3) by (fastforce simp: brings_def)
  qed
qed

lemma write_each_brings: "write_each w ws db = Inr (is, db') \<Longrightarrow> brings ws db db'"
proof (induction ws arbitrary: db "is")
  case (Cons k ws)
  obtain s p where k: "k = (s, p)" by fastforce
  obtain i is1 db1 where 1: "upsert_managed_row w s p db = Inr (i, db1)" "write_each w ws db1 = Inr (is1, db')"
    using Cons.prems by (auto simp: k result_simps)
  from brings_trans [OF upsert_managed_row_brings [OF 1(1)] Cons.IH [OF 1(2)]] show ?case by (simp add: k)
qed (simp add: brings_refl)

lemma brings_ids: "brings ws db db' \<Longrightarrow> src_id ` set (sources db) \<subseteq> src_id ` set (sources db')"
proof
  fix i assume rw: "brings ws db db'" and "i \<in> src_id ` set (sources db)"
  then obtain q where "q \<in> set (sources db)" "i = src_id q" by blast
  then show "i \<in> src_id ` set (sources db')" using brings_new [OF rw] by (metis image_eqI)
qed

lemma write_urns_wrappers:
  "write_urns (wrapper_writes w ps dhs) = map ds_urn (filter (\<lambda>s. wrapper_write w ps s \<noteq> []) dhs)"
  unfolding wrapper_writes_def
  by (induction dhs) (auto simp: wrapper_write_def split: sum.splits option.splits)

lemma write_urns_regular: "write_urns (regular_writes dhs) = map ds_urn (filter regular_source dhs)"
  by (simp add: regular_writes_def write_urns_def o_def)

lemma wrapper_writes_member:
  "k \<in> set (wrapper_writes w ps dhs) \<Longrightarrow> fst k \<in> set dhs \<and> ds_urn (fst k) \<noteq> [] \<and> (\<exists>i. snd k = Some i \<and> i \<in> snd ` set ps)"
proof -
  have *: "\<exists>i. x = Some i \<and> i \<in> snd ` set ps" if "wrapper_parent w ps s = Inr x" "x \<noteq> None" for s x
    using that by (auto simp: wrapper_parent_def Let_def image_iff split: if_splits json.splits dest!: map_of_SomeD) (metis snd_conv)
  assume "k \<in> set (wrapper_writes w ps dhs)"
  then obtain s i where "s \<in> set dhs" "ds_urn s \<noteq> []" "wrapper_parent w ps s = Inr (Some i)" "k = (s, Some i)"
    by (auto simp: wrapper_writes_def wrapper_write_def split: if_splits sum.splits option.splits)
  with * [of s "Some i"] show ?thesis by simp
qed

lemma regular_writes_member: "k \<in> set (regular_writes dhs) \<Longrightarrow> fst k \<in> set dhs \<and> ds_urn (fst k) \<noteq> [] \<and> snd k = None"
  by (auto simp: regular_writes_def regular_source_def)

definition all_writes :: "sweep_world \<Rightarrow> parents \<Rightarrow> dh_source list \<Rightarrow> writes" where
  "all_writes w ps dhs = regular_writes dhs @ wrapper_writes w ps dhs"

lemma distinct_all_writes: "distinct (map ds_urn dhs) \<Longrightarrow> distinct (write_urns (all_writes w ps dhs))"
proof -
  assume d: "distinct (map ds_urn dhs)"
  have "ds_urn s \<noteq> ds_urn s'" if "s \<in> set dhs" "s' \<in> set dhs" "regular_source s" "wrapper_write w ps s' \<noteq> []" for s s'
    using that d by (auto simp: wrapper_write_def regular_source_def distinct_map dest: inj_onD split: if_splits)
  then show ?thesis
    using d by (auto simp: all_writes_def write_urns_regular write_urns_wrappers distinct_map_filter)
qed

lemma set_all_writes: "set (write_urns (all_writes w ps dhs)) \<subseteq> ds_urn ` set dhs - {[]}"
  by (auto simp: all_writes_def write_urns_def dest!: regular_writes_member wrapper_writes_member)

lemma sync_sources_Inr:
  assumes "sync_sources w db = (Inr (n, removed), db')"
  obtains dhs is1 db1 is2 db2 ps where "sw_sources w = Some dhs" "write_each w (regular_writes dhs) db = Inr (is1, db1)"
    "ps = rev (zip (write_urns (regular_writes dhs)) is1)" "parents_hashable w ps dhs"
    "write_each w (wrapper_writes w ps dhs) db1 = Inr (is2, db2)"
    "n = length (all_writes w ps dhs)"
    "removed = length (stale_rows (write_urns (all_writes w ps dhs)) db2)"
    "db' = remove_rows (stale_rows (write_urns (all_writes w ps dhs)) db2) db2"
proof -
  obtain dhs where dhs: "sw_sources w = Some dhs" using assms by (auto simp: sync_sources_def split: option.splits)
  obtain ps db1 where a: "rfold (pass_a_source w) dhs ([], db) = Inr (ps, db1)"
    using assms dhs by (auto simp: sync_sources_def split: sum.splits)
  obtain seen db2 where b: "rfold (pass_b_source w ps) dhs (map fst ps, db1) = Inr (seen, db2)"
    using assms dhs a by (auto simp: sync_sources_def split: sum.splits)
  obtain is1 where 1: "write_each w (regular_writes dhs) db = Inr (is1, db1)" "ps = rev (zip (write_urns (regular_writes dhs)) is1)"
    using a by (auto simp: pass_a_writes result_simps)
  note h = pass_b_hashable [OF b]
  obtain is2 where 2: "write_each w (wrapper_writes w ps dhs) db1 = Inr (is2, db2)"
      "seen = rev (write_urns (wrapper_writes w ps dhs)) @ map fst ps"
    using b by (auto simp: pass_b_writes [OF h] result_simps)
  have len: "length is1 = length (regular_writes dhs)" using 1(1)
  proof -
    have "write_each w ws db = Inr (is, db') \<Longrightarrow> length is = length ws" for ws db db' "is"
      by (induction ws arbitrary: db "is") (auto simp: result_simps)
    then show ?thesis using 1(1) by blast
  qed
  then have fst_ps: "map fst ps = rev (write_urns (regular_writes dhs))"
    by (simp add: 1(2) rev_map [symmetric] write_urns_def)
  have "set seen = set (write_urns (all_writes w ps dhs))" "length seen = length (all_writes w ps dhs)"
    by (auto simp: 2(2) fst_ps all_writes_def) (simp add: write_urns_def)
  then have "stale_rows seen db2 = stale_rows (write_urns (all_writes w ps dhs)) db2"
    by (simp only: stale_rows_def)
  then show ?thesis
    using that [OF dhs 1 h 2(1)] assms dhs a b \<open>length seen = _\<close> by (simp add: sync_sources_def Let_def)
qed

end
