(* ===== verification/Secret_K8s.thy ===== *)
theory Secret_K8s
  imports Secret_Resolver Recipe
begin

text \<open>
  \<open>src/shared/secrets/k8s.py\<close>: the one-time client initialisation and the Kubernetes
  backend. The cluster is an argument, indexed by the moment at which it is asked; so is
  \<open>base64.b64decode(...).decode("utf-8")\<close>, whose results are not confined to the
  characters of the model: what is proved holds for every decoder.
\<close>

section \<open>Client initialisation\<close>

record client_state =
  has_client :: bool
  available :: "bool option"
  own_namespace :: "string option"

definition initial_client :: client_state where
  "initial_client = \<lparr>has_client = False, available = None, own_namespace = None\<rparr>"

text \<open>\<open>_init\<close>, the body under the lock: whether the in-cluster config loads, and the
  content of the namespace file unless reading it fails.\<close>

definition client_init ::
    "bool \<Rightarrow> string option \<Rightarrow> client_state \<Rightarrow> (secret_error, unit) result \<times> client_state" where
  "client_init config_loads namespace_file cs =
     (if available cs \<noteq> None then (Inr (), cs)
      else if \<not> config_loads then
        (Inl SecretResolverUnavailable, cs\<lparr>available := Some False, has_client := False\<rparr>)
      else (case namespace_file of
          None \<Rightarrow> (Inl SecretResolverUnavailable, cs\<lparr>available := Some False, has_client := False\<rparr>)
        | Some content \<Rightarrow>
            (Inr (), cs\<lparr>own_namespace := Some (py_strip content), has_client := True,
                        available := Some True\<rparr>)))"

text \<open>The client and the namespace as \<open>require_k8s_client\<close> returns them; \<open>init_then_return\<close> is
  what a caller that saw no attempt yet goes on to do.\<close>

definition init_then_return :: "bool \<Rightarrow> string option \<Rightarrow> client_state \<Rightarrow>
    (secret_error, bool \<times> string option) result \<times> client_state" where
  "init_then_return config_loads namespace_file cs =
     (case client_init config_loads namespace_file cs of
        (Inl e, cs') \<Rightarrow> (Inl e, cs')
      | (Inr u, cs') \<Rightarrow> (Inr (has_client cs', own_namespace cs'), cs'))"

definition require_k8s_client :: "bool \<Rightarrow> string option \<Rightarrow> client_state \<Rightarrow>
    (secret_error, bool \<times> string option) result \<times> client_state" where
  "require_k8s_client config_loads namespace_file cs =
     (if available cs = Some False then (Inl SecretResolverUnavailable, cs)
      else if available cs = None then init_then_return config_loads namespace_file cs
      else (Inr (has_client cs, own_namespace cs), cs))"

section \<open>The backend\<close>

record k8s_secret =
  metadata_name :: string
  data :: "(string \<times> string) list option"

text \<open>An answer, an \<open>ApiException\<close> with its status, or another exception of the client.\<close>

datatype 'a reply = Reply 'a | ApiException nat | Client_raises

record cluster =
  config_loads :: "nat \<Rightarrow> bool"
  namespace_file :: "nat \<Rightarrow> string option"
  client_before :: "nat \<Rightarrow> client_state"
  read_namespaced_secret :: "nat \<Rightarrow> string \<Rightarrow> string option \<Rightarrow> k8s_secret reply"
  list_namespaced_secret :: "nat \<Rightarrow> string option \<Rightarrow> k8s_secret list reply"

definition SOURCE_CRED_NAME_PREFIX :: string where
  "SOURCE_CRED_NAME_PREFIX = ''dataspoke-source-cred-''"

definition full_secret_name :: "string \<Rightarrow> string" where
  "full_secret_name name = SOURCE_CRED_NAME_PREFIX @ name"

text \<open>The client at a moment; a missing one fails at the first method call.\<close>

definition usable_client :: "cluster \<Rightarrow> nat \<Rightarrow> (secret_error, string option) result" where
  "usable_client cl i =
     (case fst (require_k8s_client (config_loads cl i) (namespace_file cl i) (client_before cl i)) of
        Inl e \<Rightarrow> Inl e
      | Inr (present, ns) \<Rightarrow> if present then Inr ns else Inl AttributeError)"

text \<open>What \<open>read_value\<close> and \<open>verify\<close> do alike: the Secret's value for the key, still
  encoded.\<close>

definition secret_entry :: "cluster \<Rightarrow> nat \<Rightarrow> string \<Rightarrow> string \<Rightarrow> (secret_error, string) result" where
  "secret_entry cl i name key =
     rbind (usable_client cl i) (\<lambda>ns.
       case read_namespaced_secret cl i (full_secret_name name) ns of
         ApiException status \<Rightarrow>
           if status = 403 \<or> status = 404 then Inl SecretRefNotFound else Inl SecretResolverUnavailable
       | Client_raises \<Rightarrow> Inl ClientError
       | Reply secret \<Rightarrow>
           (case data secret of
              None \<Rightarrow> Inl SecretRefNotFound
            | Some d \<Rightarrow> (case map_of d key of None \<Rightarrow> Inl SecretRefNotFound | Some v \<Rightarrow> Inr v)))"

definition k8s_read_value ::
    "(string \<Rightarrow> string option) \<Rightarrow> cluster \<Rightarrow> nat \<Rightarrow> string \<Rightarrow> string \<Rightarrow> (secret_error, string) result" where
  "k8s_read_value decode cl i name key =
     rbind (secret_entry cl i name key) (\<lambda>v.
       case decode v of None \<Rightarrow> Inl SecretRefNotFound | Some plaintext \<Rightarrow> Inr plaintext)"

definition k8s_verify :: "cluster \<Rightarrow> nat \<Rightarrow> string \<Rightarrow> string \<Rightarrow> (secret_error, unit) result" where
  "k8s_verify cl i name key = rbind (secret_entry cl i name key) (\<lambda>v. Inr ())"

definition refs_of_secret :: "k8s_secret \<Rightarrow> secret_ref_info list" where
  "refs_of_secret secret =
     (if \<not> py_startswith (metadata_name secret) SOURCE_CRED_NAME_PREFIX then []
      else let name_segment = drop (length SOURCE_CRED_NAME_PREFIX) (metadata_name secret) in
        (case data secret of
           None \<Rightarrow> []
         | Some d \<Rightarrow>
             map (\<lambda>key. \<lparr>ref = name_segment @ ''__'' @ key,
                          secret_name = metadata_name secret, info_key = key\<rparr>)
               (sort (map fst d))))"

definition k8s_list_refs :: "cluster \<Rightarrow> nat \<Rightarrow> (secret_error, secret_ref_info list) result" where
  "k8s_list_refs cl i =
     rbind (usable_client cl i) (\<lambda>ns.
       case list_namespaced_secret cl i ns of
         ApiException status \<Rightarrow> Inl SecretResolverUnavailable
       | Client_raises \<Rightarrow> Inl ClientError
       | Reply secrets \<Rightarrow> Inr (concat (map refs_of_secret secrets)))"

definition k8s_backend :: "(string \<Rightarrow> string option) \<Rightarrow> cluster \<Rightarrow> secret_backend" where
  "k8s_backend decode cl =
     \<lparr>read_value = k8s_read_value decode cl, verify = k8s_verify cl, list_refs = k8s_list_refs cl\<rparr>"

section \<open>The backend contract\<close>

text \<open>The obligations \<open>interface.py\<close> puts on a backend: at one moment \<open>verify\<close> raises
  what \<open>read_value\<close> raises, and when it raises nothing the only failure left is a value
  that cannot be read as text.\<close>

locale secret_store =
  fixes b :: secret_backend
  assumes verify_error: "verify b i name key = Inl e \<Longrightarrow> read_value b i name key = Inl e"
    and verify_ok: "verify b i name key = Inr u \<Longrightarrow>
      read_value b i name key = Inl SecretRefNotFound \<or> (\<exists>v. read_value b i name key = Inr v)"
begin

lemma readable_verifies: "read_value b i name key = Inr v \<Longrightarrow> verify b i name key = Inr ()"
  using verify_error [of i name key] by (cases "verify b i name key") auto

lemma verified_error:
  "verify b i name key = Inr u \<Longrightarrow> read_value b i name key = Inl e \<Longrightarrow> e = SecretRefNotFound"
  using verify_ok [of i name key u] by auto

end

lemma k8s_read_value_cases:
  "k8s_read_value decode cl i name key = (case secret_entry cl i name key of
      Inl e \<Rightarrow> Inl e
    | Inr v \<Rightarrow> (case decode v of None \<Rightarrow> Inl SecretRefNotFound | Some p \<Rightarrow> Inr p))"
  by (simp add: k8s_read_value_def split: sum.splits)

interpretation k8s: secret_store "k8s_backend decode cl" for decode cl
  by unfold_locales
    (auto simp: k8s_backend_def k8s_verify_def k8s_read_value_cases rbind_eq_Inl rbind_eq_Inr
      split: option.splits sum.splits)

section \<open>The boundary\<close>

text \<open>Two clusters that differ only in Secrets outside the prefix.\<close>

definition same_credentials :: "cluster \<Rightarrow> cluster \<Rightarrow> bool" where
  "same_credentials cl cl' \<longleftrightarrow>
     config_loads cl = config_loads cl' \<and> namespace_file cl = namespace_file cl' \<and>
     client_before cl = client_before cl' \<and>
     (\<forall>i ns name. py_startswith name SOURCE_CRED_NAME_PREFIX \<longrightarrow>
        read_namespaced_secret cl i name ns = read_namespaced_secret cl' i name ns) \<and>
     (\<forall>i ns. case (list_namespaced_secret cl i ns, list_namespaced_secret cl' i ns) of
          (Reply xs, Reply ys) \<Rightarrow>
            filter (\<lambda>s. py_startswith (metadata_name s) SOURCE_CRED_NAME_PREFIX) xs =
            filter (\<lambda>s. py_startswith (metadata_name s) SOURCE_CRED_NAME_PREFIX) ys
        | (ApiException s, ApiException t) \<Rightarrow> True
        | (Client_raises, Client_raises) \<Rightarrow> True
        | _ \<Rightarrow> False)"

lemma refs_of_filter:
  "concat (map refs_of_secret xs) =
   concat (map refs_of_secret (filter (\<lambda>s. py_startswith (metadata_name s) SOURCE_CRED_NAME_PREFIX) xs))"
  by (induction xs) (auto simp: refs_of_secret_def)

lemma k8s_backend_boundary:
  assumes "same_credentials cl cl'"
  shows "k8s_backend decode cl = k8s_backend decode cl'"
proof -
  have uc: "usable_client cl = usable_client cl'"
    using assms by (auto simp: same_credentials_def usable_client_def)
  have se: "secret_entry cl = secret_entry cl'"
    using assms uc by (auto simp: same_credentials_def secret_entry_def full_secret_name_def intro!: ext)
  have "k8s_list_refs cl i = k8s_list_refs cl' i" for i
  proof (cases "usable_client cl' i")
    case (Inr ns)
    have "case (list_namespaced_secret cl i ns, list_namespaced_secret cl' i ns) of
          (Reply xs, Reply ys) \<Rightarrow>
            filter (\<lambda>s. py_startswith (metadata_name s) SOURCE_CRED_NAME_PREFIX) xs =
            filter (\<lambda>s. py_startswith (metadata_name s) SOURCE_CRED_NAME_PREFIX) ys
        | (ApiException s, ApiException t) \<Rightarrow> True
        | (Client_raises, Client_raises) \<Rightarrow> True
        | _ \<Rightarrow> False"
      using assms unfolding same_credentials_def by blast
    then show ?thesis using Inr uc
      by (auto simp: k8s_list_refs_def split: reply.splits) (metis refs_of_filter)
  qed (simp add: k8s_list_refs_def uc)
  with se show ?thesis by (auto simp: k8s_backend_def k8s_read_value_def k8s_verify_def intro!: ext)
qed

end
