(* ===== verification/Secret_Properties.thy ===== *)
theory Secret_Properties
  imports Secret_Safety Secret_K8s
begin

text \<open>
  The properties of secret resolution: the transition system of the resolver module with
  its invariant, what a resolved recipe contains, the credential boundary of the Kubernetes
  backend, and the listed references.
\<close>

section \<open>The resolver as a transition system\<close>

inductive resolver_step :: "secret_backend \<Rightarrow> clock \<Rightarrow> resolver \<Rightarrow> resolver \<Rightarrow> bool" for dflt clk where
  resolve_ref: "resolver_step dflt clk st (snd (resolve_secret_ref dflt clk rf st))"
| resolve_recipe: "resolver_step dflt clk st (snd (resolve_recipe_secrets dflt clk recipe st))"
| verify_ref: "resolver_step dflt clk st (snd (verify_secret_ref dflt rf st))"
| list_all_refs: "resolver_step dflt clk st (snd (list_source_cred_refs dflt st))"
| bind_backend: "resolver_step dflt clk st (set_backend bo st)"

definition reachable_resolver :: "secret_backend \<Rightarrow> clock \<Rightarrow> resolver \<Rightarrow> bool" where
  "reachable_resolver dflt clk st \<longleftrightarrow> (resolver_step dflt clk)\<^sup>*\<^sup>* initial_resolver st"

lemma stays_refl: "resolver_ok dflt clk st \<Longrightarrow> stays dflt clk (bound dflt st) (moment st) st"
  by (simp add: stays_def)

lemma runs_keeps_ok:
  "runs dflt clk (bound dflt st) (moment st) hi m P E \<Longrightarrow> resolver_ok dflt clk st \<Longrightarrow>
     resolver_ok dflt clk (snd (m st))"
  using stays_refl unfolding runs_def stays_def by blast

lemma get_backend_ok:
  "resolver_ok dflt clk st \<Longrightarrow> resolver_ok dflt clk (tick (snd (get_backend dflt st)))"
  using stays_get_backend [OF stays_refl, of dflt clk st] resolver_ok_tick by (auto simp: stays_def)

lemma resolver_step_ok:
  assumes "mono clk" "resolver_step dflt clk st st'" "resolver_ok dflt clk st"
  shows "resolver_ok dflt clk st'"
  using assms(2)
proof cases
  case (resolve_ref rf)
  then show ?thesis using runs_keeps_ok [OF runs_resolve [OF assms(1)] assms(3)] by simp
next
  case (resolve_recipe recipe)
  then show ?thesis
    using runs_keeps_ok [OF runs_substitute(1) [OF assms(1)] assms(3)] by (simp add: resolve_recipe_secrets_def)
next
  case (verify_ref rf)
  then show ?thesis using assms(3) get_backend_ok [OF assms(3)]
    by (simp add: verify_secret_ref_def case_prod_beta split: sum.splits)
next
  case list_all_refs
  then show ?thesis using get_backend_ok [OF assms(3)]
    by (simp add: list_source_cred_refs_def case_prod_beta)
next
  case (bind_backend bo)
  then show ?thesis by (simp add: set_backend_def clear_cache_def resolver_ok_def cache_shape_def)
qed

text \<open>The transition system carries its monotonic clock: a step with a clock that runs
  backwards is no step.\<close>

interpretation cache_inv: step_invariant
  "\<lambda>st st'. mono clk \<and> resolver_step dflt clk st st'" "resolver_ok dflt clk" for dflt clk
  by unfold_locales (auto intro: resolver_step_ok)

lemma reachable_resolver_ok:
  assumes "mono clk" "reachable_resolver dflt clk st"
  shows "resolver_ok dflt clk st"
proof (rule cache_inv.run_keeps)
  show "(\<lambda>st st'. mono clk \<and> resolver_step dflt clk st st')\<^sup>*\<^sup>* initial_resolver st"
    using assms by (simp add: reachable_resolver_def)
  show "resolver_ok dflt clk initial_resolver"
    by (simp add: initial_resolver_def resolver_ok_def cache_shape_def)
qed

text \<open>C11. In every state the resolver can reach, by any sequence of resolutions,
  verifications, listings and backend changes, the cache holds at most 512 entries with one
  entry per reference, and every cached reference is on the eviction list, so that eviction
  always finds a victim when the cache is full.\<close>

theorem cache_bounded:
  assumes "mono clk" "reachable_resolver dflt clk st"
  shows "length (cache st) \<le> 512 \<and> distinct (map fst (cache st)) \<and>
    cached_keys st \<subseteq> set (cache_order st)"
  using reachable_resolver_ok [OF assms] by (simp add: resolver_ok_def cache_shape_def CACHE_MAX_SIZE_def)

definition sample_backend :: secret_backend where
  "sample_backend = \<lparr>
     read_value = (\<lambda>i name key. if name = ''pg'' \<and> key = ''password'' then Inr ''s3cret'' else Inl SecretRefNotFound),
     verify = (\<lambda>i name key. if name = ''pg'' \<and> key = ''password'' then Inr () else Inl SecretRefNotFound),
     list_refs = (\<lambda>i. Inr [])\<rparr>"

definition sample_clock :: clock where
  "sample_clock i = of_nat i"

definition sample_recipe :: json where
  "sample_recipe = JObj [(''source'', JObj [(''type'', JStr ''postgres''),
     (''config'', JObj [(''url'', JStr ''u:${pg__password}@h''), (''env'', JStr ''${DATAHUB_ENV}'')])])]"

lemma sample_clock_mono: "mono sample_clock"
  by (simp add: monoI sample_clock_def)

lemma sample_reachable:
  "reachable_resolver sample_backend sample_clock
     (snd (resolve_recipe_secrets sample_backend sample_clock sample_recipe initial_resolver))"
  unfolding reachable_resolver_def by (rule r_into_rtranclp) (rule resolver_step.resolve_recipe)

theorem cache_bounded_witness:
  "mono sample_clock \<and> (let st = snd (resolve_recipe_secrets sample_backend sample_clock sample_recipe initial_resolver)
     in reachable_resolver sample_backend sample_clock st \<and> length (cache st) \<le> 512)"
  using cache_bounded [OF sample_clock_mono sample_reachable] sample_clock_mono sample_reachable
  by (simp add: Let_def)

section \<open>What a resolved recipe contains\<close>

text \<open>C12. Resolving a recipe in any reachable state either returns the recipe with every
  reference, and nothing else, replaced by a value that the bound backend really gave for it
  less than sixty seconds before the call began or during it, whatever the store did
  meanwhile and however often the backend was changed before; or it fails because a
  reference of the recipe is malformed or the backend itself failed for one of them during
  the call, with exactly that error.\<close>

theorem recipe_resolution_fresh:
  assumes "mono clk" "reachable_resolver dflt clk st"
    and "resolve_recipe_secrets dflt clk recipe st = (res, st')"
  shows "case res of
      Inr out \<Rightarrow> becomes (fresh (bound dflt st) clk (moment st) (moment st')) recipe out
    | Inl e \<Rightarrow> culprit (bound dflt st) (moment st) (moment st') (collect_refs recipe {}) e"
proof -
  have "stays dflt clk (bound dflt st) (moment st) st"
    by (rule stays_refl [OF reachable_resolver_ok [OF assms(1,2)]])
  with runs_substitute(1) [OF assms(1), of dflt "bound dflt st" "moment st" "moment st'" recipe]
  show ?thesis unfolding runs_def using assms(3) by (auto simp: resolve_recipe_secrets_def)
qed

theorem recipe_resolution_fresh_witness:
  "\<exists>st'. resolve_recipe_secrets sample_backend sample_clock sample_recipe initial_resolver =
      (Inr (JObj [(''source'', JObj [(''type'', JStr ''postgres''),
         (''config'', JObj [(''url'', JStr ''u:s3cret@h''), (''env'', JStr ''${DATAHUB_ENV}'')])])]), st') \<and>
    becomes (fresh sample_backend sample_clock 0 (moment st')) sample_recipe
      (JObj [(''source'', JObj [(''type'', JStr ''postgres''),
         (''config'', JObj [(''url'', JStr ''u:s3cret@h''), (''env'', JStr ''${DATAHUB_ENV}'')])])])"
proof -
  let ?out = "JObj [(''source'', JObj [(''type'', JStr ''postgres''),
         (''config'', JObj [(''url'', JStr ''u:s3cret@h''), (''env'', JStr ''${DATAHUB_ENV}'')])])]"
  have "fst (resolve_recipe_secrets sample_backend sample_clock sample_recipe initial_resolver) = Inr ?out"
    by code_simp
  then obtain st' where r: "resolve_recipe_secrets sample_backend sample_clock sample_recipe initial_resolver =
      (Inr ?out, st')" by (metis prod.collapse)
  have "reachable_resolver sample_backend sample_clock initial_resolver"
    by (simp add: reachable_resolver_def)
  from recipe_resolution_fresh [OF sample_clock_mono this r] r show ?thesis
    by (auto simp: bound_def initial_resolver_def)
qed

section \<open>The credential boundary\<close>

definition sample_secret :: "string \<Rightarrow> (string \<times> string) list \<Rightarrow> k8s_secret" where
  "sample_secret name d = \<lparr>metadata_name = name, data = Some d\<rparr>"

text \<open>A cluster that holds one source credential and one Secret of the application itself.\<close>

definition sample_cluster :: "string \<Rightarrow> cluster" where
  "sample_cluster admin_pw =
     (let cred = sample_secret ''dataspoke-source-cred-pg'' [(''password'', ''s3cret'')];
          infra = sample_secret ''dataspoke-secrets'' [(''jwt'', admin_pw)] in
      \<lparr>config_loads = (\<lambda>i. True), namespace_file = (\<lambda>i. Some ''prod''), client_before = (\<lambda>i. initial_client),
       read_namespaced_secret = (\<lambda>i name ns.
         if name = ''dataspoke-source-cred-pg'' then Reply cred
         else if name = ''dataspoke-secrets'' then Reply infra else ApiException 404),
       list_namespaced_secret = (\<lambda>i ns. Reply [infra, cred])\<rparr>)"

text \<open>C13. No Secret outside the \<open>dataspoke-source-cred-\<close> prefix can influence what any
  reference resolves to, whether it verifies, what is listed or what is cached: with the
  Kubernetes backend, two clusters that differ only in such Secrets are indistinguishable
  through every public function, for every reference and recipe in every state.\<close>

theorem credential_boundary:
  assumes "same_credentials cl cl'"
  shows "resolve_secret_ref (k8s_backend decode cl) clk rf st = resolve_secret_ref (k8s_backend decode cl') clk rf st \<and>
    resolve_recipe_secrets (k8s_backend decode cl) clk recipe st = resolve_recipe_secrets (k8s_backend decode cl') clk recipe st \<and>
    verify_secret_ref (k8s_backend decode cl) rf st = verify_secret_ref (k8s_backend decode cl') rf st \<and>
    list_source_cred_refs (k8s_backend decode cl) st = list_source_cred_refs (k8s_backend decode cl') st"
  using k8s_backend_boundary [OF assms, of decode] by simp

lemma sample_clusters_same: "same_credentials (sample_cluster a) (sample_cluster b)"
  by (auto simp: same_credentials_def sample_cluster_def sample_secret_def Let_def
      SOURCE_CRED_NAME_PREFIX_def py_startswith_def)

theorem credential_boundary_witness:
  "same_credentials (sample_cluster ''k1'') (sample_cluster ''k2'') \<and>
   sample_cluster ''k1'' \<noteq> sample_cluster ''k2'' \<and>
   fst (resolve_secret_ref (k8s_backend Some (sample_cluster ''k1'')) sample_clock ''pg__password'' initial_resolver) = Inr ''s3cret'' \<and>
   resolve_secret_ref (k8s_backend Some (sample_cluster ''k1'')) sample_clock ''pg__password'' initial_resolver =
   resolve_secret_ref (k8s_backend Some (sample_cluster ''k2'')) sample_clock ''pg__password'' initial_resolver"
proof -
  have "read_namespaced_secret (sample_cluster ''k1'') 0 ''dataspoke-secrets'' None \<noteq>
    read_namespaced_secret (sample_cluster ''k2'') 0 ''dataspoke-secrets'' None"
    by (simp add: sample_cluster_def sample_secret_def Let_def)
  then have "sample_cluster ''k1'' \<noteq> sample_cluster ''k2''" by metis
  moreover have "fst (resolve_secret_ref (k8s_backend Some (sample_cluster ''k1'')) sample_clock ''pg__password'' initial_resolver) = Inr ''s3cret''"
    by code_simp
  ultimately show ?thesis
    using sample_clusters_same credential_boundary [OF sample_clusters_same, of Some "''k1''" sample_clock "''pg__password''" initial_resolver "''k2''"]
    by blast
qed

section \<open>Listed references\<close>

lemma refs_of_secretD:
  assumes "info \<in> set (refs_of_secret secret)"
  shows "\<exists>d. data secret = Some d \<and> info_key info \<in> fst ` set d \<and> secret_name info = metadata_name secret \<and>
    metadata_name secret = full_secret_name (drop (length SOURCE_CRED_NAME_PREFIX) (metadata_name secret)) \<and>
    ref info = drop (length SOURCE_CRED_NAME_PREFIX) (metadata_name secret) @ ''__'' @ info_key info"
proof (cases "data secret")
  case None
  with assms show ?thesis by (simp add: refs_of_secret_def Let_def split: if_splits)
next
  case (Some d)
  with assms show ?thesis
    by (force simp: refs_of_secret_def Let_def full_secret_name_def py_startswith_iff split: if_splits)
qed

text \<open>What becomes of a listed reference that is pasted into a recipe: the scanner finds it as one reference, and it
  splits into the name and the key it was listed for.\<close>

definition usable_ref :: "secret_ref_info \<Rightarrow> bool" where
  "usable_ref info \<longleftrightarrow> (let name = drop (length SOURCE_CRED_NAME_PREFIX) (secret_name info) in
     scan_refs (''${'' @ ref info @ ''}'') = [Ref name (info_key info)] \<and> parse_name_key (ref info) = Inr (name, info_key info))"

text \<open>C14. Which listed references can be used. Every reference \<open>list_refs\<close> offers denotes the very Secret it was
  listed for, and verifies at the moment of the listing if a read of a listed Secret then answers with
  it. Pasted into a recipe it is found by the scanner and splits into the listed name and key exactly when the name
  after the prefix is a non-empty run of lower-case letters, digits and hyphens, the key is a non-empty run of the
  characters of a key, and the key neither begins with an underscore nor contains the separator. The listing itself
  checks none of this.\<close>

theorem listed_refs_usable:
  fixes info :: secret_ref_info
  defines "name \<equiv> drop (length SOURCE_CRED_NAME_PREFIX) (secret_name info)"
  assumes listed: "k8s_list_refs cl i = Inr infos" "info \<in> set infos"
    and agree: "\<And>ns secrets s. list_namespaced_secret cl i ns = Reply secrets \<Longrightarrow> s \<in> set secrets \<Longrightarrow>
      read_namespaced_secret cl i (metadata_name s) ns = Reply s"
  shows "full_secret_name name = secret_name info \<and> k8s_verify cl i name (info_key info) = Inr () \<and>
    (usable_ref info \<longleftrightarrow> name \<noteq> [] \<and> list_all name_char name \<and> info_key info \<noteq> [] \<and> list_all key_char (info_key info) \<and>
       \<not> py_contains ''__'' (CHR ''_'' # info_key info))"
proof -
  obtain ns where uc: "usable_client cl i = Inr ns"
    using listed(1) by (cases "usable_client cl i") (simp_all add: k8s_list_refs_def)
  then obtain secrets where ls: "list_namespaced_secret cl i ns = Reply secrets"
    using listed(1) by (cases "list_namespaced_secret cl i ns") (simp_all add: k8s_list_refs_def)
  with uc listed obtain secret where sec: "secret \<in> set secrets" "info \<in> set (refs_of_secret secret)"
    by (auto simp: k8s_list_refs_def)
  from refs_of_secretD [OF sec(2)] obtain d where d: "data secret = Some d" "info_key info \<in> fst ` set d"
    and sn: "secret_name info = metadata_name secret" "full_secret_name name = secret_name info"
    and rf: "ref info = name @ ''__'' @ info_key info" unfolding name_def by metis
  have "usable_ref info"
    if "name \<noteq> []" "list_all name_char name" "info_key info \<noteq> []" "list_all key_char (info_key info)"
      "\<not> py_contains ''__'' (CHR ''_'' # info_key info)"
  proof -
    have "match_ref (''${'' @ ref info @ ''}'') = Some (name, info_key info, [])"
      using that(1-4) by (simp add: match_ref_iff rf)
    moreover have "parse_name_key (ref info) = Inr (name, info_key info)"
      unfolding rf using parse_name_key_ref that(1,3,5) by blast
    ultimately show ?thesis by (simp add: usable_ref_def Let_def flip: name_def)
  qed
  moreover have "name \<noteq> [] \<and> list_all name_char name \<and> info_key info \<noteq> [] \<and> list_all key_char (info_key info) \<and>
      \<not> py_contains ''__'' (CHR ''_'' # info_key info)" if "usable_ref info"
  proof -
    from that have us: "scan_refs (''${'' @ ref info @ ''}'') = [Ref name (info_key info)]"
      "parse_name_key (name @ ''__'' @ info_key info) = Inr (name, info_key info)"
      by (simp_all add: usable_ref_def Let_def rf flip: name_def)
    have "Ref name (info_key info) \<in> set (scan_refs (''${'' @ ref info @ ''}''))" by (simp only: us(1)) simp
    from scan_refs_wf [OF this] us(2) parse_name_key_ref show ?thesis by blast
  qed
  moreover obtain v where "map_of d (info_key info) = Some v"
    using d(2) map_of_eq_None_iff [of d "info_key info"] by auto
  with agree [OF ls sec(1)] d(1) uc sn have "k8s_verify cl i name (info_key info) = Inr ()"
    by (simp add: k8s_verify_def secret_entry_def)
  ultimately show ?thesis using sn(2) by blast
qed

lemma sample_cluster_lists:
  "k8s_list_refs (sample_cluster ''k1'') 0 =
     Inr [\<lparr>ref = ''pg__password'', secret_name = ''dataspoke-source-cred-pg'', info_key = ''password''\<rparr>]"
  by code_simp

theorem listed_refs_usable_witness:
  "scan_refs ''${pg__password}'' = [Ref ''pg'' ''password''] \<and>
   k8s_verify (sample_cluster ''k1'') 0 ''pg'' ''password'' = Inr ()"
proof -
  have "read_namespaced_secret (sample_cluster ''k1'') 0 (metadata_name s) ns = Reply s"
    if "list_namespaced_secret (sample_cluster ''k1'') 0 ns = Reply secrets" "s \<in> set secrets" for ns secrets s
    using that by (auto simp: sample_cluster_def sample_secret_def Let_def)
  moreover have "list_all name_char ''pg''" "list_all key_char ''password''"
    "\<not> py_contains ''__'' (CHR ''_'' # ''password'')" by code_simp+
  ultimately show ?thesis
    using listed_refs_usable [OF sample_cluster_lists, of
        "\<lparr>ref = ''pg__password'', secret_name = ''dataspoke-source-cred-pg'', info_key = ''password''\<rparr>"]
    by (simp add: SOURCE_CRED_NAME_PREFIX_def usable_ref_def Let_def)
qed

text \<open>A key that begins with an underscore and a name with a dot are listed, and neither reference can be used: the
  first denotes another Secret, the second is not seen as a reference.\<close>

lemma unusable_listed_refs:
  "refs_of_secret (sample_secret ''dataspoke-source-cred-pg'' [(''_pw'', ''x'')]) =
     [\<lparr>ref = ''pg___pw'', secret_name = ''dataspoke-source-cred-pg'', info_key = ''_pw''\<rparr>] \<and>
   parse_name_key ''pg___pw'' = Inr (''pg_'', ''pw'') \<and>
   map ref (refs_of_secret (sample_secret ''dataspoke-source-cred-a.b'' [(''pw'', ''x'')])) = [''a.b__pw''] \<and>
   refs_in ''${a.b__pw}'' = []"
  by code_simp

text \<open>A caller that waited for the lock while another one failed finds the attempt made and
  goes on without a client.\<close>

lemma client_init_race:
  "fst (init_then_return loads ns (snd (init_then_return False ns initial_client))) = Inr (False, None)"
  by (simp add: init_then_return_def client_init_def initial_client_def)

section \<open>The eviction list\<close>

text \<open>Only the cache is bounded. A reference that is asked for again after it expired is
  dropped from the cache but not from the eviction list, and appended to the list once more;
  the list grows with every such round while the cache holds the one entry.\<close>

definition slow_clock :: clock where
  "slow_clock i = 60 * of_nat i"

fun rounds :: "nat \<Rightarrow> resolver" where
  "rounds 0 = initial_resolver"
| "rounds (Suc n) = snd (resolve_secret_ref sample_backend slow_clock ''pg__password'' (rounds n))"

lemma parse_sample_ref: "parse_name_key ''pg__password'' = Inr (''pg'', ''password'')"
  by code_simp

lemma rounds_state:
  "0 < n \<Longrightarrow> backend (rounds n) = Some sample_backend \<and>
     (\<exists>e. cache (rounds n) = [((''pg'', ''password''), ''s3cret'', e)] \<and> e \<le> slow_clock (moment (rounds n))) \<and>
     cache_order (rounds n) = replicate n (''pg'', ''password'')"
proof (induction n)
  case (Suc n)
  show ?case
  proof (cases n)
    case 0
    then show ?thesis
      by (simp add: resolve_secret_ref_def parse_sample_ref initial_resolver_def fetch_value_def get_backend_def
          sample_backend_def tick_def cache_put_def insert_entry_def CACHE_MAX_SIZE_def slow_clock_def TTL_SECONDS_def)
  next
    case (Suc m)
    with Suc.IH show ?thesis
      by (auto simp: resolve_secret_ref_def parse_sample_ref fetch_value_def get_backend_def forget_def
          sample_backend_def tick_def cache_put_def insert_entry_def CACHE_MAX_SIZE_def slow_clock_def TTL_SECONDS_def
          replicate_append_same algebra_simps)
  qed
qed simp

lemma eviction_list_unbounded:
  "0 < n \<Longrightarrow> \<exists>st. reachable_resolver sample_backend slow_clock st \<and>
     length (cache st) = 1 \<and> length (cache_order st) = n"
proof -
  assume "0 < n"
  have "reachable_resolver sample_backend slow_clock (rounds n)"
    unfolding reachable_resolver_def
    by (induction n) (auto intro: rtranclp.rtrancl_into_rtrancl resolver_step.resolve_ref)
  with rounds_state [OF \<open>0 < n\<close>] show ?thesis by force
qed

end
