(* ===== verification/Ingestion_Properties.thy ===== *)
theory Ingestion_Properties
  imports Ingestion_Sources Secret_Properties
begin

text \<open>
  The properties of the source registry: the two reverse lookups agree, the invariant of the
  source table under every sequence of user operations, what a saved source guarantees for its
  later run, and the masking of mirrored recipes.
\<close>

section \<open>The reverse lookups agree\<close>

definition winner_entry :: "source_dataset \<times> ingestion_source \<Rightarrow> rank \<times> nat \<times> nat option" where
  "winner_entry p = (reverse_lookup_key p, src_id (snd p), parent_source_id (snd p))"

text \<open>The one-pass selection the batch makes for one URN.\<close>

fun keep_best :: "(source_dataset \<times> ingestion_source) option \<Rightarrow> (source_dataset \<times> ingestion_source) list \<Rightarrow>
    (source_dataset \<times> ingestion_source) option" where
  "keep_best cur [] = cur"
| "keep_best None (p # ps) = keep_best (Some p) ps"
| "keep_best (Some q) (p # ps) =
     keep_best (Some (if reverse_lookup_key p < reverse_lookup_key q then p else q)) ps"

lemma keep_best_Some:
  "keep_best (Some q) ps = (case stable_min ps of
      None \<Rightarrow> Some q
    | Some p \<Rightarrow> Some (if reverse_lookup_key p < reverse_lookup_key q then p else q))"
proof (induction ps arbitrary: q)
  case (Cons p ps)
  show ?case
  proof (cases "stable_min ps")
    case None
    then show ?thesis using Cons by simp
  next
    case (Some m)
    then show ?thesis using Cons by (auto dest: less_trans order_less_le_trans)
  qed
qed simp

lemma keep_best_stable_min: "keep_best None ps = stable_min ps"
  by (cases ps) (auto simp: keep_best_Some split: option.splits)

lemma map_of_keep_winner:
  "map_of (keep_winner p ws) urn =
     (if dataset_urn (fst p) \<noteq> urn then map_of ws urn
      else case map_of ws urn of
          None \<Rightarrow> Some (winner_entry p)
        | Some cur \<Rightarrow> Some (if reverse_lookup_key p < fst cur then winner_entry p else cur))"
  by (auto simp: keep_winner_def Let_def winner_entry_def update_conv map_add_def split: option.splits)

lemma fold_keep_winner:
  "map_of ws urn = map_option winner_entry cur \<Longrightarrow>
     map_of (fold keep_winner ps ws) urn =
       map_option winner_entry (keep_best cur (filter (\<lambda>p. dataset_urn (fst p) = urn) ps))"
proof (induction ps arbitrary: ws cur)
  case (Cons p ps)
  show ?case
  proof (cases "dataset_urn (fst p) = urn")
    case False
    then have "map_of (keep_winner p ws) urn = map_option winner_entry cur"
      using Cons.prems by (simp add: map_of_keep_winner)
    from Cons.IH [OF this] False show ?thesis by simp
  next
    case True
    let ?cur = "case cur of None \<Rightarrow> p | Some q \<Rightarrow> if reverse_lookup_key p < reverse_lookup_key q then p else q"
    have "map_of (keep_winner p ws) urn = map_option winner_entry (Some ?cur)"
      using Cons.prems True by (simp add: map_of_keep_winner winner_entry_def split: option.splits)
    from Cons.IH [OF this] True show ?thesis by (cases cur) simp_all
  qed
qed simp

lemma stable_min_in: "stable_min ps = Some p \<Longrightarrow> p \<in> set ps"
  by (induction ps arbitrary: p) (auto split: option.splits if_splits)

lemma stable_min_None [simp]: "stable_min ps = None \<longleftrightarrow> ps = []"
  by (cases ps) (auto split: option.splits)

lemma stable_min_least:
  "stable_min ps = Some p \<Longrightarrow> q \<in> set ps \<Longrightarrow> reverse_lookup_key p \<le> reverse_lookup_key q"
  by (induction ps arbitrary: p) (auto split: option.splits if_splits)

lemma mapping_join_source: "(m, r) \<in> set (mapping_join db) \<longleftrightarrow>
    m \<in> set (mappings db) \<and> r \<in> set (sources db) \<and> src_id r = source_id m"
  by (auto simp: mapping_join_def)

lemma batch_owner_winner:
  assumes "distinct (map src_id (sources db))" "snd p \<in> set (sources db)"
  shows "batch_owner db (winner_entry p) = Some (resolve_wrapper db (snd p))"
  using row_get_unique [OF assms]
  by (auto simp: batch_owner_def winner_entry_def resolve_wrapper_def Let_def split: option.split
      simp del: row_get_None)

text \<open>C15. The batched reverse lookup computes, in one pass over the joined rows with two
  queries, exactly what the single lookup computes for each URN: it has an answer for every URN
  asked for and for no other, the same owner including the resolution of wrappers to their parents. Among
  rows of equal rank both take the first; that these are the same row supposes that the database delivers the rows to
  both queries in one order, as \<open>mapping_join\<close> does.\<close>

theorem reverse_lookup_batch_agrees:
  assumes "distinct (map src_id (sources db))"
  shows "reverse_lookup_batch urns db urn =
    (if urn \<in> set urns then Some (reverse_lookup urn db) else None)"
proof (cases "urn \<in> set urns")
  case True
  let ?rows = "filter (\<lambda>p. dataset_urn (fst p) \<in> set urns) (mapping_join db)"
  have "filter (\<lambda>p. dataset_urn (fst p) = urn) ?rows = filter (\<lambda>p. dataset_urn (fst p) = urn) (mapping_join db)"
    using True by (simp add: conj_commute cong: conj_cong)
  with fold_keep_winner [of "[]" urn None ?rows]
  have w: "map_of (fold keep_winner ?rows []) urn = map_option winner_entry
      (stable_min (filter (\<lambda>p. dataset_urn (fst p) = urn) (mapping_join db)))"
    by (simp add: keep_best_stable_min)
  show ?thesis
  proof (cases "stable_min (filter (\<lambda>p. dataset_urn (fst p) = urn) (mapping_join db))")
    case None
    with w True show ?thesis unfolding reverse_lookup_batch_def reverse_lookup_def Let_def
      by (simp del: stable_min_None)
  next
    case (Some p)
    then have "snd p \<in> set (sources db)"
      using stable_min_in [OF Some] mapping_join_source [of "fst p" "snd p" db] by simp
    from batch_owner_winner [OF assms this] Some w True show ?thesis
      unfolding reverse_lookup_batch_def reverse_lookup_def Let_def by simp
  qed
qed (simp add: reverse_lookup_batch_def Let_def)

section \<open>The source table\<close>

definition row_valid :: "ingestion_source \<Rightarrow> bool" where
  "row_valid r \<longleftrightarrow> (\<exists>config. parse_recipe (recipe r) = Inr (platform r, config)) \<and>
     (if src_mode r = ACTIVE_CUSTOM_MANAGED then cron_to_tier (schedule r) = Inr (schedule_tier r)
      else schedule_tier r = None)"

text \<open>What the table satisfies: the primary keys and foreign keys of the schema, wrappers and
  their parents only among the rows mirrored from DataHub, a parent never itself a wrapper,
  and every row a user can save valid.\<close>

definition keys_sound :: "ingestion_db \<Rightarrow> bool" where
  "keys_sound db \<longleftrightarrow> distinct (map src_id (sources db)) \<and>
     distinct (map (\<lambda>m. (source_id m, dataset_urn m)) (mappings db)) \<and>
     source_id ` set (mappings db) \<subseteq> src_id ` set (sources db)"

definition regular_parent :: "ingestion_source list \<Rightarrow> nat \<Rightarrow> bool" where
  "regular_parent rows p \<longleftrightarrow>
     (\<exists>q \<in> set rows. src_id q = p \<and> src_mode q = DATAHUB_MANAGED \<and> parent_source_id q = None)"

definition rows_sound :: "ingestion_source list \<Rightarrow> bool" where
  "rows_sound rows \<longleftrightarrow> (\<forall>r \<in> set rows.
     (src_mode r \<noteq> DATAHUB_MANAGED \<longrightarrow> row_valid r \<and> parent_source_id r = None) \<and>
     (\<forall>p. parent_source_id r = Some p \<longrightarrow> regular_parent rows p))"

definition sound_sources :: "ingestion_db \<Rightarrow> bool" where
  "sound_sources db \<longleftrightarrow> keys_sound db \<and> rows_sound (sources db)"

definition mirrored :: "ingestion_db \<Rightarrow> ingestion_source set" where
  "mirrored db = {r \<in> set (sources db). src_mode r = DATAHUB_MANAGED}"

lemma record_event_frame [simp]:
  "sources (record_source_event i n t st d db) = sources db"
  "mappings (record_source_event i n t st d db) = mappings db"
  by (simp_all add: record_source_event_def)

lemma sound_sources_event [simp]:
  "sound_sources (record_source_event i n t st d db) = sound_sources db"
  "mirrored (record_source_event i n t st d db) = mirrored db"
  by (simp_all add: sound_sources_def keys_sound_def mirrored_def)

lemma regular_parent_mono:
  "regular_parent rows p \<Longrightarrow> {r \<in> set rows. src_mode r = DATAHUB_MANAGED} \<subseteq> set rows' \<Longrightarrow> regular_parent rows' p"
  unfolding regular_parent_def by blast

lemma add_source_sound:
  assumes "sound_sources db" "src_id row \<notin> src_id ` set (sources db)"
    "row_valid row" "src_mode row \<noteq> DATAHUB_MANAGED" "parent_source_id row = None"
  shows "sound_sources (add_source row db)" "mirrored db \<subseteq> mirrored (add_source row db)"
proof -
  have "regular_parent (sources db @ [row]) p" if "regular_parent (sources db) p" for p
    by (rule regular_parent_mono [OF that]) auto
  with assms show "sound_sources (add_source row db)"
    by (auto simp: sound_sources_def keys_sound_def rows_sound_def add_source_def)
  show "mirrored db \<subseteq> mirrored (add_source row db)" by (auto simp: mirrored_def add_source_def)
qed

text \<open>Replacing a row that is not mirrored by a valid row with the same key.\<close>

lemma put_source_sound:
  assumes "sound_sources db" "row \<in> set (sources db)" "src_mode row \<noteq> DATAHUB_MANAGED"
    "src_id row' = src_id row" "parent_source_id row' = parent_source_id row"
    "src_mode row' \<noteq> DATAHUB_MANAGED \<Longrightarrow> row_valid row'"
  shows "sound_sources (put_source row' db)" "mirrored db \<subseteq> mirrored (put_source row' db)"
proof -
  let ?rows = "row_update src_id (src_id row') (\<lambda>r. row') (sources db)"
  have ids: "map src_id ?rows = map src_id (sources db)"
    by (auto simp: row_update_def)
  then have idset: "src_id ` set ?rows = src_id ` set (sources db)" by (metis list.set_map)
  have dist: "distinct (map src_id (sources db))"
    using assms(1) by (simp add: sound_sources_def keys_sound_def)
  have other: "r = row" if "r \<in> set (sources db)" "src_id r = src_id row" for r
    using that assms(2) dist by (meson distinct_map inj_onD)
  have mem: "r \<in> set ?rows \<longleftrightarrow> r = row' \<or> r \<in> set (sources db) \<and> r \<noteq> row" for r
    using assms(2,4) other by (auto simp: set_row_update)
  have mir: "{r \<in> set (sources db). src_mode r = DATAHUB_MANAGED} \<subseteq> set ?rows"
    using assms(3) mem by auto
  then have par: "regular_parent (sources db) p \<Longrightarrow> regular_parent ?rows p" for p
    by (rule regular_parent_mono [rotated])
  have none: "parent_source_id row = None"
    using assms(1,2,3) by (auto simp: sound_sources_def rows_sound_def)
  have "rows_sound ?rows"
    unfolding rows_sound_def
  proof
    fix r assume "r \<in> set ?rows"
    then consider "r = row'" | "r \<in> set (sources db)" using mem by blast
    then show "(src_mode r \<noteq> DATAHUB_MANAGED \<longrightarrow> row_valid r \<and> parent_source_id r = None) \<and>
      (\<forall>p. parent_source_id r = Some p \<longrightarrow> regular_parent ?rows p)"
    proof cases
      case 1
      then show ?thesis using assms(5,6) none by simp
    next
      case 2
      then show ?thesis using assms(1) par by (auto simp: sound_sources_def rows_sound_def)
    qed
  qed
  then show "sound_sources (put_source row' db)"
    using assms(1) ids idset by (simp add: sound_sources_def keys_sound_def put_source_def)
  show "mirrored db \<subseteq> mirrored (put_source row' db)"
    using mir by (auto simp: mirrored_def put_source_def)
qed

lemma cascade_no_children:
  "child_ids [i] rows = [] \<Longrightarrow> cascade_ids n [i] rows = [i]"
  by (induction n) simp_all

text \<open>A row that is not mirrored has no children, so deleting it deletes nothing else.\<close>

lemma remove_source_alone:
  assumes "sound_sources db" "row \<in> set (sources db)" "src_mode row \<noteq> DATAHUB_MANAGED"
  shows "sources (remove_source (src_id row) db) = row_delete src_id (src_id row) (sources db)"
    "mappings (remove_source (src_id row) db) = filter (\<lambda>m. source_id m \<noteq> src_id row) (mappings db)"
proof -
  have "parent_source_id r \<noteq> Some (src_id row)" if "r \<in> set (sources db)" for r
  proof
    assume "parent_source_id r = Some (src_id row)"
    with that assms(1) obtain q where "q \<in> set (sources db)" "src_id q = src_id row" "src_mode q = DATAHUB_MANAGED"
      by (auto simp: sound_sources_def rows_sound_def regular_parent_def)
    moreover have "distinct (map src_id (sources db))"
      using assms(1) by (simp add: sound_sources_def keys_sound_def)
    ultimately show False using assms(2,3) by (metis distinct_map inj_onD)
  qed
  then have "child_ids [src_id row] (sources db) = []"
    by (auto simp: child_ids_def filter_empty_conv split: option.splits)
  then show "sources (remove_source (src_id row) db) = row_delete src_id (src_id row) (sources db)"
    "mappings (remove_source (src_id row) db) = filter (\<lambda>m. source_id m \<noteq> src_id row) (mappings db)"
    by (simp_all add: remove_source_def row_delete_def cascade_no_children)
qed

lemma remove_source_sound:
  assumes "sound_sources db" "row \<in> set (sources db)" "src_mode row \<noteq> DATAHUB_MANAGED"
  shows "sound_sources (remove_source (src_id row) db)" "mirrored db \<subseteq> mirrored (remove_source (src_id row) db)"
proof -
  note alone = remove_source_alone [OF assms]
  let ?rows = "row_delete src_id (src_id row) (sources db)"
  have dist: "distinct (map src_id (sources db))"
    using assms(1) by (simp add: sound_sources_def keys_sound_def)
  have mir: "{r \<in> set (sources db). src_mode r = DATAHUB_MANAGED} \<subseteq> set ?rows"
    using assms(2,3) dist by (auto dest: inj_onD simp: distinct_map)
  then have par: "regular_parent (sources db) p \<Longrightarrow> regular_parent ?rows p" for p
    by (rule regular_parent_mono [rotated])
  have "rows_sound ?rows"
    using assms(1) par by (auto simp: sound_sources_def rows_sound_def)
  then show "sound_sources (remove_source (src_id row) db)"
    using assms(1) by (auto simp: sound_sources_def keys_sound_def alone distinct_row_delete distinct_map_filter)
  show "mirrored db \<subseteq> mirrored (remove_source (src_id row) db)"
    using mir by (auto simp: mirrored_def alone)
qed

lemma upsert_mapping_keys:
  "distinct (map (\<lambda>m. (source_id m, dataset_urn m)) ms) \<Longrightarrow>
     distinct (map (\<lambda>m. (source_id m, dataset_urn m)) (upsert_mapping now i d urn ms))"
  "source_id ` set (upsert_mapping now i d urn ms) \<subseteq> insert i (source_id ` set ms)"
proof -
  have "map (\<lambda>m. (source_id m, dataset_urn m))
      (map (\<lambda>m. if source_id m = i \<and> dataset_urn m = urn then m\<lparr>last_seen_at := now\<rparr> else m) ms) =
    map (\<lambda>m. (source_id m, dataset_urn m)) ms" by auto
  then show "distinct (map (\<lambda>m. (source_id m, dataset_urn m)) ms) \<Longrightarrow>
     distinct (map (\<lambda>m. (source_id m, dataset_urn m)) (upsert_mapping now i d urn ms))"
    by (auto simp: upsert_mapping_def simp del: map_map)
  show "source_id ` set (upsert_mapping now i d urn ms) \<subseteq> insert i (source_id ` set ms)"
    by (auto simp: upsert_mapping_def)
qed

lemma upsert_sound:
  assumes "sound_sources db" "i \<in> src_id ` set (sources db)"
  shows "sound_sources (upsert_dataset_mappings now i urns d db)"
proof -
  have "distinct (map (\<lambda>m. (source_id m, dataset_urn m)) (fold (upsert_mapping now i d) urns ms)) \<and>
    source_id ` set (fold (upsert_mapping now i d) urns ms) \<subseteq> src_id ` set (sources db)"
    if "distinct (map (\<lambda>m. (source_id m, dataset_urn m)) ms)" "source_id ` set ms \<subseteq> src_id ` set (sources db)" for ms
    using that
  proof (induction urns arbitrary: ms)
    case (Cons urn urns)
    from Cons.prems upsert_mapping_keys(2) [of now i d urn ms] assms(2)
    have "source_id ` set (upsert_mapping now i d urn ms) \<subseteq> src_id ` set (sources db)" by blast
    with Cons.IH [OF upsert_mapping_keys(1) [OF Cons.prems(1)]] show ?case by simp
  qed simp
  with assms(1) show ?thesis
    by (simp add: sound_sources_def keys_sound_def upsert_dataset_mappings_def)
qed

section \<open>The registry as a transition system\<close>

inductive registry_step ::
    "secret_backend \<Rightarrow> (string set \<Rightarrow> string list) \<Rightarrow> ingestion_state \<Rightarrow> ingestion_state \<Rightarrow> bool" for dflt iter where
  create: "new_id \<notin> src_id ` set (sources (fst s)) \<Longrightarrow>
    registry_step dflt iter s (snd (create_source dflt iter sid new_id now m name sched rcp s))"
| replace: "registry_step dflt iter s (snd (replace_source dflt iter sid uid now m name sched rcp s))"
| patch: "registry_step dflt iter s (snd (patch_source dflt iter sid uid now p s))"
| delete: "registry_step dflt iter s (snd (delete_source sid uid now s))"
| emitted: "i \<in> src_id ` set (sources (fst s)) \<Longrightarrow>
    registry_step dflt iter s (upsert_dataset_mappings now i urns d (fst s), snd s)"

text \<open>Sound, with every row of \<open>D\<close> still there as it was.\<close>

definition registry_ok :: "ingestion_source set \<Rightarrow> ingestion_state \<Rightarrow> bool" where
  "registry_ok D s \<longleftrightarrow> sound_sources (fst s) \<and> D \<subseteq> mirrored (fst s)"

lemma source_row_Inr: "source_row uid db = Inr row \<Longrightarrow> row \<in> set (sources db)"
  by (auto simp: source_row_def dest: row_get_SomeD split: option.splits)

text \<open>The row the three operations on an existing source work on.\<close>

lemma editable_row:
  assumes "rbind (source_row uid db) (\<lambda>row. rmap (\<lambda>_. row) (reject_if_datahub_managed (src_mode row))) = Inr row"
  shows "row \<in> set (sources db)" "src_mode row \<noteq> DATAHUB_MANAGED"
  using assms
  by (auto simp: result_simps reject_if_datahub_managed_def dest: source_row_Inr split: if_splits)

lemma checked_recipe_Inr: "checked_recipe rcp = Inr t \<Longrightarrow> \<exists>config. parse_recipe rcp = Inr (t, config)"
  by (auto simp: checked_recipe_def split: sum.splits prod.splits)

lemma checked_tier_Inr:
  "checked_tier m sched = Inr tier \<Longrightarrow>
     (if m = ACTIVE_CUSTOM_MANAGED then cron_to_tier sched = Inr tier else tier = None)"
  by (auto simp: checked_tier_def validate_and_derive_tier_def split: sum.splits if_splits)

lemma check_source_Inr:
  assumes "check_source dflt iter m sched rcp st = (Inr (t, tier), st')"
  shows "checked_recipe rcp = Inr t" "checked_tier m sched = Inr tier"
    "verify_recipe_secret_refs dflt iter rcp st = (Inr (), st')"
  using assms by (auto simp: check_source_def split: sum.splits prod.splits)

lemma patch_recipe_Inr:
  assumes "patch_recipe dflt iter p row st = (Inr row', st')"
  shows "src_id row' = src_id row" "src_mode row' = src_mode row" "parent_source_id row' = parent_source_id row"
    "schedule row' = schedule row" "schedule_tier row' = schedule_tier row"
    "(\<exists>config. parse_recipe (recipe row) = Inr (platform row, config)) \<Longrightarrow>
     (\<exists>config. parse_recipe (recipe row') = Inr (platform row', config))"
  using assms
  by (auto simp: patch_recipe_def dest: checked_recipe_Inr split: option.splits sum.splits prod.splits)

lemma patch_schedule_Inr:
  assumes "patch_schedule p row = Inr row'" "row_valid row"
  shows "src_id row' = src_id row" "src_mode row' = src_mode row" "parent_source_id row' = parent_source_id row"
    "row_valid row'"
  using assms
  by (auto simp: patch_schedule_def row_valid_def result_simps dest!: checked_tier_Inr split: option.splits)

lemma row_valid_frame:
  assumes "row_valid row" "src_mode row' = src_mode row" "schedule row' = schedule row"
    "schedule_tier row' = schedule_tier row"
    "(\<exists>config. parse_recipe (recipe row) = Inr (platform row, config)) \<Longrightarrow>
     (\<exists>config. parse_recipe (recipe row') = Inr (platform row', config))"
  shows "row_valid row'"
  using assms unfolding row_valid_def by simp

lemma create_ok:
  assumes "registry_ok D s" "new_id \<notin> src_id ` set (sources (fst s))"
  shows "registry_ok D (snd (create_source dflt iter sid new_id now m name sched rcp s))"
proof (cases "fst (create_source dflt iter sid new_id now m name sched rcp s)")
  case (Inl e)
  with assms(1) show ?thesis
    by (auto simp: create_source_def registry_ok_def Let_def split: sum.splits prod.splits)
next
  case (Inr row)
  then have m: "m \<noteq> DATAHUB_MANAGED"
    by (auto simp: create_source_def reject_if_datahub_managed_def split: if_splits)
  from Inr obtain t tier st' where c: "check_source dflt iter m sched rcp (snd s) = (Inr (t, tier), st')"
    by (auto simp: create_source_def Let_def split: sum.splits prod.splits)
  note ok = check_source_Inr [OF c]
  from m c obtain det where eq: "snd (create_source dflt iter sid new_id now m name sched rcp s) =
      (record_source_event sid now ''INGESTION.SOURCE_CREATE'' ''success'' det (add_source row (fst s)), st')"
    and row: "src_id row = new_id" "src_mode row = m" "parent_source_id row = None" "platform row = t"
      "recipe row = rcp" "schedule row = sched" "schedule_tier row = tier"
    using Inr by (auto simp: create_source_def reject_if_datahub_managed_def Let_def)
  have "row_valid row"
    using checked_recipe_Inr [OF ok(1)] checked_tier_Inr [OF ok(2)] row by (simp add: row_valid_def)
  with add_source_sound [of "fst s" row] assms m row show ?thesis
    by (auto simp: eq registry_ok_def)
qed

lemma replace_ok:
  assumes "registry_ok D s"
  shows "registry_ok D (snd (replace_source dflt iter sid uid now m name sched rcp s))"
proof (cases "fst (replace_source dflt iter sid uid now m name sched rcp s)")
  case (Inl e)
  with assms show ?thesis
    by (auto simp: replace_source_def registry_ok_def Let_def split: sum.splits prod.splits)
next
  case (Inr row')
  then obtain row where r: "rbind (source_row uid (fst s))
      (\<lambda>row. rmap (\<lambda>_. row) (reject_if_datahub_managed (src_mode row))) = Inr row"
    by (auto simp: replace_source_def split: sum.splits)
  note ed = editable_row [OF r]
  from Inr r obtain t tier st' where c: "check_source dflt iter m sched rcp (snd s) = (Inr (t, tier), st')"
    by (auto simp: replace_source_def Let_def split: sum.splits prod.splits)
  note ok = check_source_Inr [OF c]
  from r c obtain det where eq: "snd (replace_source dflt iter sid uid now m name sched rcp s) =
      (record_source_event sid now ''INGESTION.SOURCE_UPDATE'' ''success'' det (put_source row' (fst s)), st')"
    and row: "src_id row' = src_id row" "src_mode row' = m" "parent_source_id row' = parent_source_id row"
      "platform row' = t" "recipe row' = rcp" "schedule row' = sched" "schedule_tier row' = tier"
    using Inr by (auto simp: replace_source_def Let_def)
  have "row_valid row'"
    using checked_recipe_Inr [OF ok(1)] checked_tier_Inr [OF ok(2)] row by (simp add: row_valid_def)
  with put_source_sound [OF _ ed row(1,3)] assms show ?thesis
    by (auto simp: eq registry_ok_def)
qed

lemma patch_ok:
  assumes "registry_ok D s"
  shows "registry_ok D (snd (patch_source dflt iter sid uid now p s))"
proof (cases "fst (patch_source dflt iter sid uid now p s)")
  case (Inl e)
  with assms show ?thesis
    by (auto simp: patch_source_def registry_ok_def Let_def split: sum.splits prod.splits)
next
  case (Inr row')
  then obtain row where r: "rbind (source_row uid (fst s))
      (\<lambda>row. rmap (\<lambda>_. row) (reject_if_datahub_managed (src_mode row))) = Inr row"
    by (auto simp: patch_source_def split: sum.splits)
  note ed = editable_row [OF r]
  define row1 where "row1 = (case p_name p of Some (Some n) \<Rightarrow> row\<lparr>src_name := n\<rparr> | _ \<Rightarrow> row)"
  obtain res2 st' where p2: "patch_recipe dflt iter p row1 (snd s) = (res2, st')"
    by (cases "patch_recipe dflt iter p row1 (snd s)")
  with Inr r obtain row2 where res2: "res2 = Inr row2"
    by (cases res2) (simp_all add: patch_source_def Let_def row1_def [symmetric])
  note p2 = p2 [unfolded res2]
  with Inr r obtain row3 where p3: "patch_schedule p row2 = Inr row3"
    by (cases "patch_schedule p row2") (simp_all add: patch_source_def Let_def row1_def [symmetric])
  have row': "row' = row3\<lparr>updated_at := now\<rparr>"
    using Inr r p2 p3 by (simp add: patch_source_def Let_def row1_def [symmetric])
  have eq: "snd (patch_source dflt iter sid uid now p s) =
      (record_source_event sid now ''INGESTION.SOURCE_UPDATE'' ''success''
        [(''operation'', JStr ''PATCH''), (''fields_changed'', JList (fields_changed p))]
        (put_source row' (fst s)), st')"
    using r p2 p3 by (simp add: patch_source_def Let_def row1_def [symmetric] row')
  have v: "row_valid row" using assms ed by (auto simp: registry_ok_def sound_sources_def rows_sound_def)
  have r1: "src_id row1 = src_id row" "src_mode row1 = src_mode row" "parent_source_id row1 = parent_source_id row"
    by (simp_all add: row1_def split: option.splits)
  have v1: "row_valid row1"
    by (rule row_valid_frame [OF v]) (simp_all add: row1_def split: option.splits)
  note r2 = patch_recipe_Inr [OF p2]
  have "row_valid row2" by (rule row_valid_frame [OF v1 r2(2,4,5,6)])
  note r3 = patch_schedule_Inr [OF p3 this]
  have "row_valid row'" using r3(4) by (simp add: row' row_valid_def)
  with put_source_sound [OF _ ed, of row'] assms r1 r2 r3 show ?thesis
    by (auto simp: eq registry_ok_def row')
qed

lemma delete_ok:
  assumes "registry_ok D s"
  shows "registry_ok D (snd (delete_source sid uid now s))"
proof (cases "rbind (source_row uid (fst s)) (\<lambda>row. rmap (\<lambda>_. row) (reject_if_datahub_managed (src_mode row)))")
  case (Inl e)
  with assms show ?thesis by (simp add: delete_source_def)
next
  case (Inr row)
  with remove_source_sound [OF _ editable_row [OF Inr]] assms show ?thesis
    by (auto simp: delete_source_def registry_ok_def)
qed

interpretation registry: step_invariant "registry_step dflt iter" "registry_ok D" for dflt iter D
proof
  fix s s' assume "registry_step dflt iter s s'" "registry_ok D s"
  then show "registry_ok D s'"
  proof cases
    case (emitted i now urns d)
    with \<open>registry_ok D s\<close> upsert_sound [of "fst s" i now urns d] show ?thesis
      by (simp add: registry_ok_def mirrored_def upsert_dataset_mappings_def)
  qed (simp_all add: create_ok replace_ok patch_ok delete_ok)
qed

text \<open>C16. Starting from any table that satisfies the schema's keys and holds only valid user
  rows, every sequence of creates, replacements, patches, deletions and recorded runs, each
  accepted or refused, keeps it so: keys stay unique, no mapping outlives its source, every
  row a user manages has a well-formed recipe whose type is its platform and a tier that is
  exactly the tier of its schedule; and every row mirrored from DataHub is still there,
  unchanged.\<close>

theorem registry_sound:
  assumes "sound_sources (fst s)" "(registry_step dflt iter)\<^sup>*\<^sup>* s s'"
  shows "sound_sources (fst s') \<and>
    {r \<in> set (sources (fst s)). src_mode r = DATAHUB_MANAGED} \<subseteq> set (sources (fst s'))"
proof -
  have "registry_ok (mirrored (fst s)) s" using assms(1) by (simp add: registry_ok_def)
  from registry.run_keeps [OF assms(2) this] show ?thesis
    by (auto simp: registry_ok_def mirrored_def)
qed

definition sample_iter :: "string set \<Rightarrow> string list" where
  "sample_iter S = sorted_list_of_set S"

definition managed_row :: ingestion_source where
  "managed_row = \<lparr>src_id = 1, src_mode = DATAHUB_MANAGED, src_name = ''dh'', platform = ''kafka'',
     recipe = JObj [], schedule = None, schedule_tier = None, datahub_source_urn = Some ''urn:li:x'',
     parent_source_id = None, status = ''OK'', updated_at = 0\<rparr>"

definition sample_state :: ingestion_state where
  "sample_state = (\<lparr>sources = [managed_row], mappings = [], events = []\<rparr>, initial_resolver)"

definition sample_create :: "(ds_error, ingestion_source) result \<times> ingestion_state" where
  "sample_create = create_source sample_backend sample_iter ''7'' 7 100 ACTIVE_CUSTOM_MANAGED ''pg'' (Some '' @daily '')
     sample_recipe sample_state"

lemma sample_state_sound: "sound_sources (fst sample_state)"
  by (simp add: sample_state_def sound_sources_def keys_sound_def rows_sound_def managed_row_def)

lemma sample_create_step: "(registry_step sample_backend sample_iter)\<^sup>*\<^sup>* sample_state (snd sample_create)"
  unfolding sample_create_def
  by (rule r_into_rtranclp, rule registry_step.create) (simp add: sample_state_def managed_row_def)

lemma sample_create_rows:
  "map (\<lambda>r. (src_id r, platform r, schedule_tier r)) (sources (fst (snd sample_create))) =
     [(1, ''kafka'', None), (7, ''postgres'', Some ''daily'')]"
  by code_simp

theorem registry_sound_witness:
  "sound_sources (fst sample_state) \<and>
   map src_id (sources (fst (snd sample_create))) = [1, 7] \<and>
   sound_sources (fst (snd sample_create)) \<and> managed_row \<in> set (sources (fst (snd sample_create)))"
proof -
  have "managed_row \<in> {r \<in> set (sources (fst sample_state)). src_mode r = DATAHUB_MANAGED}"
    by (simp add: sample_state_def managed_row_def)
  moreover have "map src_id (sources (fst (snd sample_create))) = [1, 7]"
    using arg_cong [OF sample_create_rows, of "map fst"] by (simp add: comp_def)
  ultimately show ?thesis
    using registry_sound [OF sample_state_sound sample_create_step] sample_state_sound by blast
qed

text \<open>C17. The tier lists the scheduled runs read are exact: after any sequence of user
  operations on a sound table, a source is listed for a tier precisely when it is an active
  custom-managed source whose stored schedule is a cron expression of that tier, with blanks
  around it ignored; a source without a schedule is listed for none.\<close>

theorem tier_listing_exact:
  assumes "sound_sources (fst s)" "(registry_step dflt iter)\<^sup>*\<^sup>* s s'"
  shows "r \<in> set (list_active_sources_for_tier tier (fst s')) \<longleftrightarrow>
    r \<in> set (sources (fst s')) \<and> src_mode r = ACTIVE_CUSTOM_MANAGED \<and>
    (\<exists>cron. schedule r = Some cron \<and> map_of CRON_TO_TIER (py_strip cron) = Some tier)"
proof -
  have "registry_ok {} s" using assms(1) by (simp add: registry_ok_def)
  from registry.run_keeps [OF assms(2) this] have "rows_sound (sources (fst s'))"
    by (simp add: registry_ok_def sound_sources_def)
  then have "cron_to_tier (schedule r) = Inr (schedule_tier r)"
    if "r \<in> set (sources (fst s'))" "src_mode r = ACTIVE_CUSTOM_MANAGED"
    using that by (auto simp: rows_sound_def row_valid_def)
  then show ?thesis
    by (auto simp: list_active_sources_for_tier_def cron_to_tier_def split: option.splits)
qed

theorem tier_listing_exact_witness:
  "sound_sources (fst sample_state) \<and>
   (\<exists>r cron. list_active_sources_for_tier ''daily'' (fst (snd sample_create)) = [r] \<and> src_id r = 7 \<and>
     schedule r = Some cron \<and> map_of CRON_TO_TIER (py_strip cron) = Some ''daily'')"
proof -
  have "map src_id (list_active_sources_for_tier ''daily'' (fst (snd sample_create))) = [7]"
    by code_simp
  then obtain r where r: "list_active_sources_for_tier ''daily'' (fst (snd sample_create)) = [r]" "src_id r = 7"
    by auto
  then have "r \<in> set (list_active_sources_for_tier ''daily'' (fst (snd sample_create)))" by simp
  with tier_listing_exact [OF sample_state_sound sample_create_step] r sample_state_sound show ?thesis by blast
qed

section \<open>The owner of a dataset\<close>

text \<open>C18. In a sound table a dataset has an owner exactly when some source covers it, the
  owner is a regular source and never a wrapper, and it is the source, or the parent of the
  wrapper, that covers the dataset with the best rank: emitted before pipeline name before
  matched, then regular before wrapper, then most recently seen.\<close>

theorem reverse_lookup_owner:
  assumes "sound_sources db"
  shows "(reverse_lookup urn db = None \<longleftrightarrow> urn \<notin> dataset_urn ` set (mappings db)) \<and>
    (\<forall>owner. reverse_lookup urn db = Some owner \<longrightarrow>
       owner \<in> set (sources db) \<and> parent_source_id owner = None \<and>
       (\<exists>m r. m \<in> set (mappings db) \<and> dataset_urn m = urn \<and> r \<in> set (sources db) \<and> src_id r = source_id m \<and>
          (r = owner \<or> parent_source_id r = Some (src_id owner)) \<and>
          (\<forall>m' r'. m' \<in> set (mappings db) \<and> dataset_urn m' = urn \<and> r' \<in> set (sources db) \<and> src_id r' = source_id m' \<longrightarrow>
             reverse_lookup_rank (derivation m) (parent_source_id r \<noteq> None) (last_seen_at m) \<le>
             reverse_lookup_rank (derivation m') (parent_source_id r' \<noteq> None) (last_seen_at m'))))"
    (is "?none \<and> (\<forall>owner. _ \<longrightarrow> ?best owner)")
proof
  let ?rows = "filter (\<lambda>p. dataset_urn (fst p) = urn) (mapping_join db)"
  have fk: "source_id ` set (mappings db) \<subseteq> src_id ` set (sources db)"
    using assms by (simp add: sound_sources_def keys_sound_def)
  have "?rows = [] \<longleftrightarrow> urn \<notin> dataset_urn ` set (mappings db)"
  proof
    assume "?rows = []"
    then have no: "(m, r) \<notin> set (mapping_join db)" if "dataset_urn m = urn" for m r
      using that by (auto simp: filter_empty_conv)
    show "urn \<notin> dataset_urn ` set (mappings db)"
    proof
      assume "urn \<in> dataset_urn ` set (mappings db)"
      then obtain m where m: "m \<in> set (mappings db)" "dataset_urn m = urn" by blast
      with fk obtain r where "r \<in> set (sources db)" "src_id r = source_id m" by (metis image_iff subsetD image_eqI)
      with m no show False by (simp add: mapping_join_source)
    qed
  next
    assume "urn \<notin> dataset_urn ` set (mappings db)"
    then show "?rows = []" by (auto simp: filter_empty_conv mapping_join_source)
  qed
  then show ?none by (simp add: reverse_lookup_def)
next
  have "?best owner" if "reverse_lookup urn db = Some owner" for owner
  proof -
  from that
  obtain m r where min: "stable_min (filter (\<lambda>p. dataset_urn (fst p) = urn) (mapping_join db)) = Some (m, r)"
    and owner: "owner = resolve_wrapper db r" by (auto simp: reverse_lookup_def)
  from stable_min_in [OF min] have mr: "m \<in> set (mappings db)" "dataset_urn m = urn" "r \<in> set (sources db)"
    "src_id r = source_id m" by (auto simp: mapping_join_source)
  have best: "reverse_lookup_rank (derivation m) (parent_source_id r \<noteq> None) (last_seen_at m) \<le>
      reverse_lookup_rank (derivation m') (parent_source_id r' \<noteq> None) (last_seen_at m')"
    if "m' \<in> set (mappings db) \<and> dataset_urn m' = urn \<and> r' \<in> set (sources db) \<and> src_id r' = source_id m'" for m' r'
    using stable_min_least [OF min, of "(m', r')"] that by (simp add: mapping_join_source reverse_lookup_key_def)
  have "owner \<in> set (sources db) \<and> parent_source_id owner = None \<and> (r = owner \<or> parent_source_id r = Some (src_id owner))"
  proof (cases "parent_source_id r")
    case None
    with owner mr show ?thesis by (simp add: resolve_wrapper_def)
  next
    case (Some p)
    with assms mr(3) obtain q where q: "q \<in> set (sources db)" "src_id q = p" "parent_source_id q = None"
      by (auto simp: sound_sources_def rows_sound_def regular_parent_def)
    have "row_get src_id p (sources db) = Some q"
      using row_get_unique [of src_id "sources db" q] q assms by (simp add: sound_sources_def keys_sound_def)
    with owner Some q show ?thesis by (simp add: resolve_wrapper_def)
  qed
  with mr best show "?best owner" by blast
  qed
  then show "\<forall>owner. reverse_lookup urn db = Some owner \<longrightarrow> ?best owner" by blast
qed

definition wrapper_row :: ingestion_source where
  "wrapper_row = managed_row\<lparr>src_id := 2, src_name := ''[CLI] dh'', parent_source_id := Some 1\<rparr>"

definition covered_db :: ingestion_db where
  "covered_db = \<lparr>sources = [managed_row, wrapper_row],
     mappings = [\<lparr>source_id = 1, dataset_urn = ''u'', derivation = ''matched'', first_seen_at = 1, last_seen_at = 9\<rparr>,
                 \<lparr>source_id = 2, dataset_urn = ''u'', derivation = ''emitted'', first_seen_at = 1, last_seen_at = 2\<rparr>],
     events = []\<rparr>"

lemma covered_db_sound: "sound_sources covered_db"
  by (auto simp: covered_db_def sound_sources_def keys_sound_def rows_sound_def regular_parent_def
      managed_row_def wrapper_row_def)

theorem reverse_lookup_owner_witness:
  "sound_sources covered_db \<and>
   (\<exists>owner. reverse_lookup ''u'' covered_db = Some owner \<and> src_id owner = 1 \<and> parent_source_id owner = None)"
proof -
  have "map_option src_id (reverse_lookup ''u'' covered_db) = Some 1" by code_simp
  then obtain owner where "reverse_lookup ''u'' covered_db = Some owner" "src_id owner = 1" by auto
  with covered_db_sound reverse_lookup_owner [OF covered_db_sound, of "''u''"] show ?thesis by blast
qed

theorem reverse_lookup_batch_agrees_witness:
  "distinct (map src_id (sources covered_db)) \<and>
   reverse_lookup_batch [''u'', ''v''] covered_db ''u'' = Some (reverse_lookup ''u'' covered_db) \<and>
   reverse_lookup_batch [''u'', ''v''] covered_db ''v'' = Some None \<and>
   reverse_lookup_batch [''u'', ''v''] covered_db ''w'' = None"
proof -
  have d: "distinct (map src_id (sources covered_db))" by code_simp
  have "reverse_lookup ''v'' covered_db = None" by code_simp
  with d reverse_lookup_batch_agrees [OF d, of "[''u'', ''v'']"] show ?thesis by simp
qed

section \<open>A saved source runs\<close>

lemma finite_collect_refs: "finite (collect_refs j {})"
proof (induction j)
  case (JObj kvs)
  have "finite (collect_refs (snd kv) {})" if "kv \<in> set kvs" for kv
    by (rule JObj [OF that]) (cases kv, simp)
  then show ?case unfolding collect_refs_JObj by simp
next
  case (JList js)
  then show ?case unfolding collect_refs_JList by simp
qed simp_all

lemma finite_extract_secret_refs: "finite (extract_secret_refs rcp)"
  by (auto simp: extract_secret_refs_def finite_collect_refs simp del: collect_refs.simps
      split: sum.splits)

lemma verify_secret_ref_Inr:
  assumes "verify_secret_ref dflt rf st = (Inr u, st')" "stays dflt clk b lo st"
  shows "\<exists>name key i. parse_name_key rf = Inr (name, key) \<and> verify b i name key = Inr u"
    "stays dflt clk b lo st'"
proof -
  obtain st1 where g: "get_backend dflt st = (b, st1)" and st1: "stays dflt clk b lo st1"
    using stays_get_backend [OF assms(2)] by blast
  then obtain name key where "parse_name_key rf = Inr (name, key)"
    "verify b (moment st1) name key = Inr u" "st' = tick st1"
    using assms(1) by (auto simp: verify_secret_ref_def split: sum.splits)
  with st1 show "\<exists>name key i. parse_name_key rf = Inr (name, key) \<and> verify b i name key = Inr u"
    "stays dflt clk b lo st'" by (auto simp: stays_tick)
qed

lemma verify_each_Inr:
  assumes "verify_each dflt refs st = (Inr u, st')" "stays dflt clk b lo st"
  shows "\<forall>rf \<in> set refs. \<exists>name key i. parse_name_key rf = Inr (name, key) \<and> verify b i name key = Inr ()"
    "stays dflt clk b lo st'"
proof -
  have "(\<forall>rf \<in> set refs. \<exists>name key i. parse_name_key rf = Inr (name, key) \<and> verify b i name key = Inr ()) \<and>
    stays dflt clk b lo st'"
    using assms
  proof (induction refs arbitrary: st)
    case (Cons rf refs)
    then obtain st1 where v: "verify_secret_ref dflt rf st = (Inr (), st1)" "verify_each dflt refs st1 = (Inr u, st')"
      by (auto split: prod.splits sum.splits)
    note v1 = verify_secret_ref_Inr [OF v(1) Cons.prems(2)]
    from Cons.IH [OF v(2) v1(2)] v1(1) show ?case by simp
  qed simp
  then show "\<forall>rf \<in> set refs. \<exists>name key i. parse_name_key rf = Inr (name, key) \<and> verify b i name key = Inr ()"
    "stays dflt clk b lo st'" by auto
qed

lemma verified_recipe_resolves:
  assumes clk: "mono clk" and iter: "\<And>S. finite S \<Longrightarrow> set (iter S) = S"
    and bk: "stays (k8s_backend decode cl) clk (k8s_backend decode cl) lo st"
    and frozen: "\<And>i j name key. secret_entry cl i name key = secret_entry cl j name key"
    and decodes: "\<And>i name key v. secret_entry cl i name key = Inr v \<Longrightarrow> decode v \<noteq> None"
    and refs: "collect_refs rcp {} \<subseteq> extract_secret_refs rcp"
    and ver: "verify_recipe_secret_refs (k8s_backend decode cl) iter rcp st = (Inr u, st')"
    and later: "stays (k8s_backend decode cl) clk (k8s_backend decode cl) lo st2"
  shows "\<exists>out st''. resolve_recipe_secrets (k8s_backend decode cl) clk rcp st2 = (Inr out, st'')"
proof -
  let ?b = "k8s_backend decode cl"
  have "verify_each ?b (iter (extract_secret_refs rcp)) st = (Inr u, st')"
    using ver by (simp add: verify_recipe_secret_refs_def)
  note ve = verify_each_Inr [OF this bk]
  have readable: "\<exists>name key. parse_name_key rf = Inr (name, key) \<and> (\<forall>j. \<exists>v. read_value ?b j name key = Inr v)"
    if "rf \<in> collect_refs rcp {}" for rf
  proof -
    have "rf \<in> set (iter (extract_secret_refs rcp))"
      using that refs iter [OF finite_extract_secret_refs, of rcp] by auto
    with ve(1) obtain name key i where p: "parse_name_key rf = Inr (name, key)" and "verify ?b i name key = Inr ()"
      by blast
    then obtain v where "secret_entry cl i name key = Inr v"
      by (auto simp: k8s_backend_def k8s_verify_def result_simps)
    then have "secret_entry cl j name key = Inr v" for j using frozen by metis
    then have "\<exists>w. read_value ?b j name key = Inr w" for j
      using decodes by (fastforce simp: k8s_backend_def k8s_read_value_def split: option.splits)
    with p show ?thesis by blast
  qed
  obtain res st'' where r: "resolve_recipe_secrets ?b clk rcp st2 = (res, st'')"
    by (cases "resolve_recipe_secrets ?b clk rcp st2")
  have "\<not> culprit ?b lo (moment st'') (collect_refs rcp {}) e" for e
  proof
    assume "culprit ?b lo (moment st'') (collect_refs rcp {}) e"
    then obtain rf where rf: "rf \<in> collect_refs rcp {}" and
      bad: "parse_name_key rf = Inl e \<or>
        (\<exists>name key j. parse_name_key rf = Inr (name, key) \<and> read_value ?b j name key = Inl e)"
      unfolding culprit_def by blast
    from readable [OF rf] bad show False by auto (metis sum.distinct(1))
  qed
  moreover have "case res of Inr out \<Rightarrow> True | Inl e \<Rightarrow> culprit ?b lo (moment st'') (collect_refs rcp {}) e"
    using runs_substitute(1) [OF clk, of ?b ?b lo "moment st''" rcp] later r
    unfolding runs_def resolve_recipe_secrets_def by (fastforce split: sum.splits)
  ultimately show ?thesis using r by (cases res) auto
qed

text \<open>C19. A recipe that was accepted can be resolved. Let a create, a replacement or a patch with a recipe succeed with the
  Kubernetes backend, and let the recipe hold references only inside \<open>source.config\<close> (the part that is
  checked), the backend stay bound, every Secret stay as it is and every value decode to text. Then at any later
  moment resolving the stored recipe returns a value: no reference is malformed, missing or refused.\<close>

theorem saved_source_resolves:
  assumes clk: "mono clk" and iter: "\<And>S. finite S \<Longrightarrow> set (iter S) = S"
    and reach: "reachable_resolver (k8s_backend decode cl) clk (snd s)"
    and bound: "backend (snd s) \<in> {None, Some (k8s_backend decode cl)}"
    and frozen: "\<And>i j name key. secret_entry cl i name key = secret_entry cl j name key"
    and decodes: "\<And>i name key v. secret_entry cl i name key = Inr v \<Longrightarrow> decode v \<noteq> None"
    and refs: "collect_refs rcp {} \<subseteq> extract_secret_refs rcp"
    and saved: "create_source (k8s_backend decode cl) iter sid new_id now m name sched rcp s = (Inr row, s') \<or>
      replace_source (k8s_backend decode cl) iter sid uid now m name sched rcp s = (Inr row, s') \<or>
      p_recipe p = Some (Some rcp) \<and> patch_source (k8s_backend decode cl) iter sid uid now p s = (Inr row, s')"
    and later: "reachable_resolver (k8s_backend decode cl) clk st" "backend st \<in> {None, Some (k8s_backend decode cl)}"
  shows "recipe row = rcp \<and> (\<exists>out st''. resolve_recipe_secrets (k8s_backend decode cl) clk (recipe row) st = (Inr out, st''))"
proof -
  let ?b = "k8s_backend decode cl"
  have stays: "stays ?b clk ?b 0 st'" if "reachable_resolver ?b clk st'" "backend st' \<in> {None, Some ?b}" for st'
    using reachable_resolver_ok [OF clk that(1)] that(2) by (auto simp: stays_def bound_def)
  from saved have "recipe row = rcp \<and> (\<exists>st'. verify_recipe_secret_refs ?b iter rcp (snd s) = (Inr (), st'))"
  proof (elim disjE conjE)
    assume "p_recipe p = Some (Some rcp)" "patch_source ?b iter sid uid now p s = (Inr row, s')"
    then show ?thesis
      by (auto simp: patch_source_def patch_recipe_def patch_schedule_def result_simps Let_def
          split: sum.splits prod.splits option.splits)
  qed (auto simp: create_source_def replace_source_def check_source_def Let_def split: sum.splits prod.splits)
  then obtain st' where row: "recipe row = rcp" and ver: "verify_recipe_secret_refs ?b iter rcp (snd s) = (Inr (), st')"
    by blast
  from verified_recipe_resolves [OF clk iter stays [OF reach bound] frozen decodes refs ver stays [OF later]] row
  show ?thesis by simp
qed

lemma sample_cluster_entry:
  "secret_entry (sample_cluster pw) i name key =
     (if name = ''pg'' \<and> key = ''password'' then Inr ''s3cret'' else Inl SecretRefNotFound)"
  by (auto simp: secret_entry_def sample_cluster_def usable_client_def require_k8s_client_def init_then_return_def
      client_init_def initial_client_def full_secret_name_def SOURCE_CRED_NAME_PREFIX_def sample_secret_def Let_def)

theorem saved_source_resolves_witness:
  "\<exists>row s' out st''. create_source (k8s_backend Some (sample_cluster ''k'')) sample_iter ''7'' 7 100 ACTIVE_CUSTOM_MANAGED
      ''pg'' (Some ''@daily'') sample_recipe sample_state = (Inr row, s') \<and>
    resolve_recipe_secrets (k8s_backend Some (sample_cluster ''k'')) sample_clock (recipe row) initial_resolver = (Inr out, st'')"
proof -
  let ?b = "k8s_backend Some (sample_cluster ''k'')"
  let ?c = "create_source ?b sample_iter ''7'' 7 100 ACTIVE_CUSTOM_MANAGED ''pg'' (Some ''@daily'') sample_recipe sample_state"
  have "(case fst ?c of Inr r \<Rightarrow> True | Inl e \<Rightarrow> False)" by code_simp
  then obtain row s' where c: "?c = (Inr row, s')"
    by (cases "?c") (auto split: sum.splits)
  have it: "set (sample_iter S) = S" if "finite S" for S using that by (simp add: sample_iter_def)
  have rc: "reachable_resolver ?b sample_clock (snd sample_state)"
    by (simp add: reachable_resolver_def sample_state_def)
  have bk: "backend (snd sample_state) \<in> {None, Some ?b}"
    by (simp add: sample_state_def initial_resolver_def)
  have rf: "collect_refs sample_recipe {} \<subseteq> extract_secret_refs sample_recipe" by code_simp
  show ?thesis
    using saved_source_resolves [OF sample_clock_mono it rc bk _ _ rf disjI1 [OF c] rc bk] c
    by (auto simp: sample_cluster_entry sample_state_def)
qed

text \<open>Extraction reads the source configuration only; resolution substitutes everywhere. A
  reference elsewhere in the recipe is substituted without having been verified.\<close>

lemma unverified_reference:
  "let rcp = JObj [(''source'', JObj [(''type'', JStr ''postgres'')]), (''sink'', JStr ''${pg__password}'')] in
   extract_secret_refs rcp = {} \<and>
   fst (resolve_recipe_secrets sample_backend sample_clock rcp initial_resolver) =
     Inr (JObj [(''source'', JObj [(''type'', JStr ''postgres'')]), (''sink'', JStr ''s3cret'')])"
  by code_simp

text \<open>A replacement may turn a user's row into a mirrored one, which no user operation can
  change or remove afterwards.\<close>

lemma replace_makes_readonly:
  "let s = snd (replace_source sample_backend sample_iter ''7'' (Some 7) 200 DATAHUB_MANAGED ''pg'' None sample_recipe
       (snd sample_create)) in
   map src_mode (sources (fst s)) = [DATAHUB_MANAGED, DATAHUB_MANAGED] \<and>
   fst (delete_source ''7'' (Some 7) 300 s) = Inl (ConflictError ''INGESTION_SOURCE_READONLY'')"
  by code_simp

section \<open>Masking\<close>

abbreviation secret_key :: "string \<Rightarrow> bool" where
  "secret_key k \<equiv> py_lower k \<in> set PLAINTEXT_SECRET_KEYS"

text \<open>No string directly under a secret key but a reference or the mask, anywhere inside.\<close>

fun plaintext_free :: "json \<Rightarrow> bool" where
  "plaintext_free (JObj kvs) \<longleftrightarrow> (\<forall>kv \<in> set kvs.
     (\<forall>v. snd kv = JStr v \<longrightarrow> secret_key (fst kv) \<longrightarrow> is_inline_ref v \<or> v = MASKED_VALUE) \<and>
     plaintext_free (snd kv))"
| "plaintext_free (JList js) \<longleftrightarrow> (\<forall>j \<in> set js. plaintext_free j)"
| "plaintext_free _ \<longleftrightarrow> True"

text \<open>The same value but for masked strings under secret keys.\<close>

inductive masks :: "json \<Rightarrow> json \<Rightarrow> bool" where
  same: "masks j j"
| items: "list_all2 masks js js' \<Longrightarrow> masks (JList js) (JList js')"
| fields: "list_all2 (\<lambda>kv kv'. fst kv' = fst kv \<and> (masks (snd kv) (snd kv') \<or>
      secret_key (fst kv) \<and> (\<exists>v. snd kv = JStr v \<and> \<not> is_inline_ref v) \<and> snd kv' = JStr MASKED_VALUE)) kvs kvs' \<Longrightarrow>
    masks (JObj kvs) (JObj kvs')"

lemma mask_item_eq:
  "mask_item (k, v) = (k, case v of
      JStr s \<Rightarrow> (if secret_key k \<and> \<not> is_inline_ref s then JStr MASKED_VALUE else v)
    | _ \<Rightarrow> mask_json v)"
  by (cases v) simp_all

lemma mask_item_fst [simp]: "fst (mask_item kv) = fst kv"
  by (cases kv) (simp add: mask_item_eq)

lemma mask_item_good:
  assumes "plaintext_free (mask_json (snd kv))" "mask_json (mask_json (snd kv)) = mask_json (snd kv)"
    "masks (snd kv) (mask_json (snd kv))"
  shows "(\<forall>v. snd (mask_item kv) = JStr v \<longrightarrow> secret_key (fst kv) \<longrightarrow> is_inline_ref v \<or> v = MASKED_VALUE) \<and>
      plaintext_free (snd (mask_item kv))"
    and "mask_item (mask_item kv) = mask_item kv"
    and "masks (snd kv) (snd (mask_item kv)) \<or>
      secret_key (fst kv) \<and> (\<exists>v. snd kv = JStr v \<and> \<not> is_inline_ref v) \<and> snd (mask_item kv) = JStr MASKED_VALUE"
  using assms by (cases kv; cases "snd kv"; auto simp: mask_item_eq)+

lemma mask_json_correct:
  shows mask_json_free: "plaintext_free (mask_json j)"
    and mask_json_idem: "mask_json (mask_json j) = mask_json j"
    and mask_json_masks: "masks j (mask_json j)"
proof (induction j)
  case (JObj kvs)
  {
    fix kv assume kv: "kv \<in> set kvs"
    have "snd kv \<in> Basic_BNFs.snds kv" by (cases kv) simp
    note mask_item_good [OF JObj [OF kv this]]
  }
  note good = this
  {
    case 1
    show ?case using good(1) by auto
  next
    case 2
    show ?case using good(2) by simp
  next
    case 3
    show ?case unfolding mask_json.simps
      by (rule masks.fields) (simp add: list_all2_map2 list_all2_same good(3))
  }
qed (auto intro: masks.intros simp: list_all2_conv_all_nth)

lemma dict_get_present: "dict_get d k = v \<Longrightarrow> v \<noteq> JNull \<Longrightarrow> k \<in> fst ` set d"
  by (auto simp: dict_get_def dest: map_of_SomeD split: option.splits intro: rev_image_eqI)

text \<open>C20. Masking a mirrored recipe whose source configuration is an object leaves no plaintext string as the
  direct value of a known secret key, in any letter case, in any object inside the configuration. A string in a list
  under such a key is not masked (\<open>mask_keeps_listed_secrets\<close> below). Masking changes nothing else, neither in the
  configuration nor outside it, and masking again changes nothing.\<close>

theorem mask_recipe_safe:
  assumes "mask_recipe_secrets rcp = Inr out" "dict_get rcp ''source'' = JObj src" "dict_get src ''config'' = JObj cfg"
  shows "\<exists>src' cfg'. dict_get out ''source'' = JObj src' \<and> dict_get src' ''config'' = JObj cfg' \<and>
    plaintext_free (JObj cfg') \<and> masks (JObj cfg) (JObj cfg') \<and>
    (\<forall>k. k \<noteq> ''config'' \<longrightarrow> dict_get src' k = dict_get src k) \<and>
    (\<forall>k. k \<noteq> ''source'' \<longrightarrow> dict_get out k = dict_get rcp k) \<and>
    mask_recipe_secrets out = Inr out"
proof -
  have ne: "src \<noteq> []" using assms(3) by (auto simp: dict_get_def)
  let ?cfg = "map mask_item cfg" and ?upd = "\<lambda>c. update_key ''config'' (JObj c) src"
  have k1: "''source'' \<in> fst ` set rcp" using dict_get_present [OF assms(2)] by simp
  have k2: "''config'' \<in> fst ` set src" using dict_get_present [OF assms(3)] by simp
  have out: "out = update_key ''source'' (JObj (?upd ?cfg)) rcp"
    using assms ne by (simp add: mask_recipe_secrets_def)
  have again: "map mask_item ?cfg = ?cfg" using mask_json_idem [of "JObj cfg"] by simp
  have "?upd ?cfg \<noteq> []" using ne by (simp add: update_key_def)
  then have "mask_recipe_secrets out = Inr out"
    using k1 k2 again by (simp add: out mask_recipe_secrets_def del: map_map map_eq_conv)
  then show ?thesis
    using k1 k2 mask_json_free [of "JObj cfg"] mask_json_masks [of "JObj cfg"] by (auto simp: out)
qed

definition leaky_recipe :: jdict where
  "leaky_recipe = [(''source'', JObj [(''type'', JStr ''mysql''),
     (''config'', JObj [(''Password'', JStr ''hunter2''), (''token'', JStr ''${pg__token}'')])])]"

theorem mask_recipe_safe_witness:
  "\<exists>out src' cfg'. mask_recipe_secrets leaky_recipe = Inr out \<and>
     dict_get out ''source'' = JObj src' \<and> dict_get src' ''config'' = JObj cfg' \<and> plaintext_free (JObj cfg')"
proof -
  have m: "mask_recipe_secrets leaky_recipe = Inr [(''source'', JObj [(''type'', JStr ''mysql''),
     (''config'', JObj [(''Password'', JStr ''********''), (''token'', JStr ''${pg__token}'')])])]"
    by code_simp
  have "dict_get leaky_recipe ''source'' = JObj [(''type'', JStr ''mysql''),
     (''config'', JObj [(''Password'', JStr ''hunter2''), (''token'', JStr ''${pg__token}'')])]"
    "dict_get [(''type'', JStr ''mysql''),
     (''config'', JObj [(''Password'', JStr ''hunter2''), (''token'', JStr ''${pg__token}'')])] ''config'' =
     JObj [(''Password'', JStr ''hunter2''), (''token'', JStr ''${pg__token}'')]"
    by code_simp+
  from mask_recipe_safe [OF m this] m show ?thesis by blast
qed

text \<open>Masking raises on a recipe whose \<open>source\<close> is a bare string, and keeps strings of a list
  under a secret key.\<close>

lemma mask_recipe_raises: "mask_recipe_secrets [(''source'', JStr ''kafka'')] = Inl ''AttributeError''"
  by code_simp

lemma mask_keeps_listed_secrets:
  "mask_json (JObj [(''credentials'', JList [JStr ''hunter2''])]) = JObj [(''credentials'', JList [JStr ''hunter2''])]"
  by code_simp

end
