(* ===== verification/Ingestion_Mirror_Step.thy ===== *)
theory Ingestion_Mirror_Step
  imports Ingestion_Mirror Ingestion_Properties
begin

text \<open>
  Step 1 of the sweep as a whole: after it the mirrored rows say what DataHub says, and a second one finds nothing to do; what it
  leaves of the user's own sources, of the mappings and of the soundness of the tables.
\<close>

section \<open>Settled after one step\<close>

definition parents_in :: "ingestion_db \<Rightarrow> dh_source list \<Rightarrow> parents" where
  "parents_in db dhs = rev (map (\<lambda>u. (u, row_id db u)) (write_urns (regular_writes dhs)))"

definition sources_settled :: "sweep_world \<Rightarrow> ingestion_db \<Rightarrow> bool" where
  "sources_settled w db \<longleftrightarrow> (\<exists>dhs. sw_sources w = Some dhs \<and> distinct_ids db \<and> parents_hashable w (parents_in db dhs) dhs \<and>
     (\<forall>k \<in> set (all_writes w (parents_in db dhs) dhs). as_written w db k) \<and>
     stale_rows (write_urns (all_writes w (parents_in db dhs) dhs)) db = [])"

text \<open>The answer names each source once, and a new row gets an identifier of its own.\<close>

definition sources_answer_ok :: "sweep_world \<Rightarrow> ingestion_db \<Rightarrow> bool" where
  "sources_answer_ok w db \<longleftrightarrow> (\<forall>dhs. sw_sources w = Some dhs \<longrightarrow> distinct (map ds_urn dhs) \<and> inj_on (sw_new_id w) (ds_urn ` set dhs) \<and>
     (\<forall>s \<in> set dhs. id_unused w (ds_urn s) db))"

definition users_unparented :: "ingestion_db \<Rightarrow> bool" where
  "users_unparented db \<longleftrightarrow> (\<forall>r \<in> set (sources db). src_mode r \<noteq> DATAHUB_MANAGED \<longrightarrow> parent_source_id r = None)"

lemma managed_rows_unique:
  assumes "distinct_ids db" "managed_rows u db = [row]" "r \<in> set (sources db)" "src_id r = src_id row"
  shows "r = row"
  using assms managed_rowsD [of row u db] by (auto simp: distinct_ids_def distinct_map dest: inj_onD)

lemma written_unique: "written w db k i \<Longrightarrow> written w db k j \<Longrightarrow> i = j"
  by (auto simp: written_def)

lemma written_row:
  assumes "distinct_ids db" "written w db k i" "r \<in> set (sources db)" "src_id r = i"
  shows "datahub_source_urn r = Some (ds_urn (fst k)) \<and> src_mode r = DATAHUB_MANAGED \<and> parent_source_id r = snd k"
proof -
  obtain row where row: "managed_rows (ds_urn (fst k)) db = [row]" "src_id row = i" "mirrors_answer w (fst k) (snd k) row"
    using assms(2) by (auto simp: written_def)
  then have "r = row" using managed_rows_unique [OF assms(1) row(1) assms(3)] assms(4) by simp
  with row(1,3) managed_rowsD [of row "ds_urn (fst k)" db] mirrors_answer_parent show ?thesis by auto
qed

lemma written_kept:
  assumes "written w db k i" "i \<notin> gone"
  shows "written w (without gone db) k i"
proof -
  obtain row where row: "managed_rows (ds_urn (fst k)) db = [row]" "src_id row = i" "mirrors_answer w (fst k) (snd k) row"
    using assms(1) by (auto simp: written_def)
  have "managed_rows u (without gone db) = filter (\<lambda>r. src_id r \<notin> gone) (managed_rows u db)" for u
    by (simp add: managed_rows_def without_def conj_commute)
  with row assms(2) show ?thesis by (simp add: written_def)
qed

text \<open>The two passes, before the removal.\<close>

lemma passes_written:
  assumes ok: "write_each w (regular_writes dhs) db = Inr (is1, db1)" "ps = rev (zip (write_urns (regular_writes dhs)) is1)"
      "write_each w (wrapper_writes w ps dhs) db1 = Inr (is2, db2)"
    and ids: "distinct_ids db" and ans: "distinct (map ds_urn dhs)" "inj_on (sw_new_id w) (ds_urn ` set dhs)"
      "\<forall>s \<in> set dhs. id_unused w (ds_urn s) db"
  shows "distinct_ids db1" "distinct_ids db2" "mappings db2 = mappings db" "ingestion_db.events db2 = ingestion_db.events db"
    "mappings db1 = mappings db" "ingestion_db.events db1 = ingestion_db.events db"
    "user_rows db1 = user_rows db" "user_rows db2 = user_rows db"
    "list_all2 (written w db2) (regular_writes dhs) is1" "list_all2 (written w db2) (wrapper_writes w ps dhs) is2"
proof -
  have dis: "distinct (write_urns (regular_writes dhs) @ write_urns (wrapper_writes w ps dhs))"
    using distinct_all_writes [OF ans(1), of w ps] by (simp add: all_writes_def)
  have sub: "set (write_urns (regular_writes dhs)) \<subseteq> ds_urn ` set dhs" "set (write_urns (wrapper_writes w ps dhs)) \<subseteq> ds_urn ` set dhs"
    using set_all_writes [of w ps dhs] by (auto simp: all_writes_def)
  have "writes_ok w (regular_writes dhs) db"
    using ids dis ans(2,3) sub(1) inj_on_subset by (fastforce simp: writes_ok_def)
  note 1 = write_each_spec [OF ok(1) this]
  have "id_unused w u db1" if "u \<in> set (write_urns (wrapper_writes w ps dhs))" for u
  proof -
    have u: "u \<in> ds_urn ` set dhs" "u \<notin> set (write_urns (regular_writes dhs))" using that sub dis by auto
    then have "sw_new_id w u \<notin> sw_new_id w ` set (write_urns (regular_writes dhs))"
      using ans(2) sub(1) by (auto dest: inj_onD)
    moreover have "sw_new_id w u \<notin> src_id ` set (sources db)" using ans(3) u(1) by (auto simp: id_unused_def)
    ultimately show ?thesis using 1 unfolding id_unused_def by blast
  qed
  then have "writes_ok w (wrapper_writes w ps dhs) db1"
    using 1 dis ans(2) sub(2) inj_on_subset by (fastforce simp: writes_ok_def)
  note 2 = write_each_spec [OF ok(3) this]
  have keep: "managed_rows (ds_urn (fst k)) db2 = managed_rows (ds_urn (fst k)) db1" if "k \<in> set (regular_writes dhs)" for k
  proof -
    have "ds_urn (fst k) \<in> set (write_urns (regular_writes dhs))" using that by (simp add: write_urns_def)
    with 2 dis show ?thesis by auto
  qed
  have "list_all2 (written w db1) (regular_writes dhs) is1" using 1 by blast
  then show "list_all2 (written w db2) (regular_writes dhs) is1"
    by (rule list.rel_mono_strong) (simp add: written_def keep)
  show "distinct_ids db1" "distinct_ids db2" "mappings db2 = mappings db" "ingestion_db.events db2 = ingestion_db.events db"
    "mappings db1 = mappings db" "ingestion_db.events db1 = ingestion_db.events db"
    "user_rows db1 = user_rows db" "user_rows db2 = user_rows db" "list_all2 (written w db2) (wrapper_writes w ps dhs) is2"
    using 1 2 by auto
qed

lemma list_all2_right: "list_all2 P xs ys \<Longrightarrow> y \<in> set ys \<Longrightarrow> \<exists>x \<in> set xs. P x y"
  by (induction xs ys rule: list_all2_induct) auto

lemma list_all2_left: "list_all2 P xs ys \<Longrightarrow> x \<in> set xs \<Longrightarrow> \<exists>y \<in> set ys. P x y"
  by (induction xs ys rule: list_all2_induct) auto

lemma list_all2_map_id: "list_all2 (written w db) ws is \<Longrightarrow> map (row_id db) (write_urns ws) = is"
  by (induction ws "is" rule: list_all2_induct) (auto simp: written_row_id)

lemma zip_with_map: "zip xs (map f xs) = map (\<lambda>u. (u, f u)) xs"
  by (simp add: zip_map2 zip_same_conv_map)

text \<open>What the removal takes away.\<close>

lemma settled_after:
  assumes hash: "parents_hashable w ps dhs" and src: "sw_sources w = Some dhs"
    and ps: "ps = rev (zip (write_urns (regular_writes dhs)) is1)" and ids: "distinct_ids db2"
    and reg: "list_all2 (written w db2) (regular_writes dhs) is1" and wra: "list_all2 (written w db2) (wrapper_writes w ps dhs) is2"
    and users: "users_unparented db2"
    and db': "db' = remove_rows (stale_rows (write_urns (all_writes w ps dhs)) db2) db2"
  shows "\<exists>gone. db' = without gone db2 \<and> gone \<inter> src_id ` set (user_rows db2) = {} \<and> sources_settled w db' \<and>
    parents_in db' dhs = ps"
proof -
  let ?ws = "all_writes w ps dhs" and ?users = "src_id ` set (user_rows db2)"
  let ?K = "set is1 \<union> set is2 \<union> ?users"
  let ?stale = "stale_rows (write_urns ?ws) db2"
  have all: "list_all2 (written w db2) ?ws (is1 @ is2)"
    unfolding all_writes_def using reg wra by (rule list_all2_appendI)
  have obt: "\<exists>k \<in> set ?ws. written w db2 k i" if "i \<in> set is1 \<union> set is2" for i
    using list_all2_right [OF all, of i] that by simp
  have psK: "snd ` set ps \<subseteq> set is1" by (auto simp: ps dest: set_zip_rightD)
  have parK: "p \<in> ?K" if "k \<in> set ?ws" "snd k = Some p" for k p
  proof -
    have "k \<in> set (wrapper_writes w ps dhs)" using that by (auto simp: all_writes_def dest: regular_writes_member)
    from wrapper_writes_member [OF this] that(2) psK show ?thesis by auto
  qed
  have usersK: "parent_source_id r = None \<and> src_mode r \<noteq> DATAHUB_MANAGED"
    if "r \<in> set (sources db2)" "src_id r \<in> ?users" for r
  proof -
    from that(2) obtain q where "q \<in> set (sources db2)" "src_mode q \<noteq> DATAHUB_MANAGED" "src_id q = src_id r"
      by (auto simp: user_rows_def)
    then have "q = r" using that(1) ids by (auto simp: distinct_ids_def distinct_map dest: inj_onD)
    with \<open>src_mode q \<noteq> DATAHUB_MANAGED\<close> users that(1) show ?thesis by (simp add: users_unparented_def)
  qed
  have "kept_apart ?K (sources db2)"
    unfolding kept_apart_def
  proof (intro ballI impI allI)
    fix r p assume r: "r \<in> set (sources db2)" "src_id r \<in> ?K" "parent_source_id r = Some p"
    then have "src_id r \<in> set is1 \<union> set is2" using usersK [OF r(1)] by auto
    then obtain k where "k \<in> set ?ws" "written w db2 k (src_id r)" using obt by blast
    with written_row [OF ids this(2) r(1) refl] r(3) parK [of k p] show "p \<in> ?K" by simp
  qed
  moreover have "src_id ` set ?stale \<inter> ?K = {}"
  proof -
    have "src_id r \<notin> ?K" if "r \<in> set ?stale" for r
    proof
      assume K: "src_id r \<in> ?K"
      have r: "r \<in> set (sources db2)" "src_mode r = DATAHUB_MANAGED" using that by (auto simp: stale_rows_def)
      then have "src_id r \<in> set is1 \<union> set is2" using K usersK [OF r(1)] by blast
      then obtain k where k: "k \<in> set ?ws" "written w db2 k (src_id r)" using obt by blast
      then have "ds_urn (fst k) \<in> set (write_urns ?ws)" by (simp add: write_urns_def)
      with written_row [OF ids k(2) r(1) refl] that show False by (simp add: stale_rows_def)
    qed
    then show ?thesis by blast
  qed
  ultimately have "\<exists>gone. remove_rows ?stale db2 = without gone db2 \<and> gone \<inter> ?K = {} \<and> src_id ` set ?stale \<subseteq> gone"
    by (rule remove_rows_without)
  then obtain gone where gone: "db' = without gone db2" "gone \<inter> ?K = {}" "src_id ` set ?stale \<subseteq> gone"
    using db' by auto
  have wr': "written w db' k i" if "written w db2 k i" "i \<in> ?K" for k i
    unfolding gone(1) by (rule written_kept [OF that(1)]) (use gone(2) that(2) in blast)
  have "list_all2 (written w db') (regular_writes dhs) is1"
    using reg by (rule list.rel_mono_strong) (auto intro: wr')
  then have "map (row_id db') (write_urns (regular_writes dhs)) = is1" by (rule list_all2_map_id)
  then have par: "parents_in db' dhs = ps"
    unfolding parents_in_def ps zip_with_map [symmetric] by simp
  have "as_written w db' k" if "k \<in> set ?ws" for k
  proof -
    from list_all2_left [OF all that] obtain i where "i \<in> set (is1 @ is2)" "written w db2 k i" by blast
    with wr' [of k i] show ?thesis by (auto simp: as_written_def)
  qed
  moreover have "stale_rows (write_urns ?ws) db' = []"
    using gone(3) by (auto simp: stale_rows_def gone(1) without_def filter_empty_conv)
  moreover have "distinct_ids db'" using ids by (auto simp: gone(1) without_def distinct_ids_def distinct_map_filter)
  ultimately have "sources_settled w db'"
    unfolding sources_settled_def using src hash par by auto
  with gone par show ?thesis by blast
qed

text \<open>Over the same answers a settled table stays as it is.\<close>

definition mirrored_count :: "sweep_world \<Rightarrow> ingestion_db \<Rightarrow> nat" where
  "mirrored_count w db = (case sw_sources w of None \<Rightarrow> 0 | Some dhs \<Rightarrow> length (all_writes w (parents_in db dhs) dhs))"

lemma sync_sources_settled:
  assumes "sources_settled w db" "sw_sources w2 = sw_sources w" "sw_json w2 = sw_json w"
  shows "\<exists>db'. sync_sources w2 db = (Inr (mirrored_count w db, 0), db') \<and> same_rows (sources db') (sources db) \<and> mappings db' = mappings db \<and>
    ingestion_db.events db' = ingestion_db.events db"
proof -
  obtain dhs where s: "sw_sources w = Some dhs" "distinct_ids db" "parents_hashable w (parents_in db dhs) dhs"
    "\<forall>k \<in> set (all_writes w (parents_in db dhs) dhs). as_written w db k"
    "stale_rows (write_urns (all_writes w (parents_in db dhs) dhs)) db = []"
    using assms(1) unfolding sources_settled_def by blast
  let ?ps = "parents_in db dhs"
  have wp: "wrapper_parent w2 ps x = wrapper_parent w ps x" for ps x by (simp add: wrapper_parent_def assms(3))
  then have "wrapper_write w2 ps = wrapper_write w ps" for ps by (simp add: fun_eq_iff wrapper_write_def)
  with wp have hash: "parents_hashable w2 ?ps dhs" and ww: "wrapper_writes w2 ?ps dhs = wrapper_writes w ?ps dhs"
    using s(3) by (simp_all add: parents_hashable_def wrapper_writes_def)
  obtain db1 where 1: "write_each w2 (regular_writes dhs) db = Inr (map (row_id db) (write_urns (regular_writes dhs)), db1)"
      "same_rows (sources db1) (sources db)" "mappings db1 = mappings db" "ingestion_db.events db1 = ingestion_db.events db"
    using write_each_again [of "regular_writes dhs" w db w2] s(2,4) assms(3) by (auto simp: all_writes_def)
  have "\<forall>k \<in> set (wrapper_writes w ?ps dhs). as_written w db1 k"
    using s(4) written_same [OF _ 1(2)] by (auto simp: all_writes_def as_written_def) blast
  then obtain is2 db2 where 2: "write_each w2 (wrapper_writes w ?ps dhs) db1 = Inr (is2, db2)"
      "same_rows (sources db2) (sources db1)" "mappings db2 = mappings db1" "ingestion_db.events db2 = ingestion_db.events db1"
    using write_each_again [of "wrapper_writes w ?ps dhs" w db1 w2] s(2) 1(2) distinct_ids_same assms(3) by blast
  have a: "rfold (pass_a_source w2) dhs ([], db) = Inr (?ps, db1)"
    by (simp add: pass_a_writes 1(1) parents_in_def zip_map2 zip_same_conv_map rev_map)
  have fst_ps: "map fst ?ps = rev (write_urns (regular_writes dhs))" by (simp add: parents_in_def rev_map o_def)
  have b: "rfold (pass_b_source w2 ?ps) dhs (map fst ?ps, db1) = Inr (rev (write_urns (wrapper_writes w ?ps dhs)) @ map fst ?ps, db2)"
    by (simp add: pass_b_writes [OF hash] ww 2(1))
  have same2: "same_rows (sources db2) (sources db)" using 1(2) 2(2) same_rows_trans by blast
  have stale: "stale_rows (rev (write_urns (wrapper_writes w ?ps dhs)) @ map fst ?ps) db2 = []"
  proof -
    have seen: "set (rev (write_urns (wrapper_writes w ?ps dhs)) @ map fst ?ps) = set (write_urns (all_writes w ?ps dhs))"
      unfolding fst_ps by (auto simp: all_writes_def)
    have "same_rows (stale_rows (write_urns (all_writes w ?ps dhs)) db2) (stale_rows (write_urns (all_writes w ?ps dhs)) db)"
      unfolding stale_rows_def by (rule same_rows_filter [OF same2]) simp
    then have "stale_rows (write_urns (all_writes w ?ps dhs)) db2 = []" using s(5) by (simp add: same_rows_def)
    then show ?thesis using seen by (simp only: stale_rows_def)
  qed
  have "length (rev (write_urns (wrapper_writes w ?ps dhs)) @ map fst ?ps) = mirrored_count w db"
    unfolding fst_ps by (simp add: mirrored_count_def s(1) all_writes_def write_urns_def)
  then have "sync_sources w2 db = (Inr (mirrored_count w db, 0), db2)"
    using a b stale by (simp add: sync_sources_def assms(2) s(1) Let_def remove_rows_def)
  with same2 1(3,4) 2(3,4) show ?thesis by auto
qed

text \<open>A step that succeeds on sound tables.\<close>

lemma users_unparented_rows: "users_unparented db \<longleftrightarrow> (\<forall>r \<in> set (user_rows db). parent_source_id r = None)"
  by (auto simp: users_unparented_def user_rows_def)

lemma sync_sources_settles:
  assumes ok: "sync_sources w db = (Inr (n, removed), db')" and snd: "sound_sources db" and ans: "sources_answer_ok w db"
  shows "sources_settled w db'" "n = mirrored_count w db'" "distinct_ids db'" "ingestion_db.events db' = ingestion_db.events db"
    "\<exists>gone. db' = without gone db' \<and> mappings db' = filter (\<lambda>m. source_id m \<notin> gone) (mappings db) \<and>
       gone \<inter> src_id ` set (user_rows db) = {} \<and> src_id ` set (sources db) \<subseteq> src_id ` set (sources db') \<union> gone"
    "user_rows db' = user_rows db"
proof -
  obtain dhs is1 db1 is2 db2 ps where *: "sw_sources w = Some dhs" "write_each w (regular_writes dhs) db = Inr (is1, db1)"
    "ps = rev (zip (write_urns (regular_writes dhs)) is1)" "parents_hashable w ps dhs"
    "write_each w (wrapper_writes w ps dhs) db1 = Inr (is2, db2)"
    "n = length (all_writes w ps dhs)" "removed = length (stale_rows (write_urns (all_writes w ps dhs)) db2)"
    "db' = remove_rows (stale_rows (write_urns (all_writes w ps dhs)) db2) db2"
    by (rule sync_sources_Inr [OF ok])
  have ids: "distinct_ids db" using snd by (simp add: sound_sources_def keys_sound_def distinct_ids_def)
  have "distinct (map ds_urn dhs)" "inj_on (sw_new_id w) (ds_urn ` set dhs)" "\<forall>s \<in> set dhs. id_unused w (ds_urn s) db"
    using ans *(1) by (auto simp: sources_answer_ok_def)
  note p = passes_written [OF *(2,3,5) ids this]
  have "users_unparented db" using snd by (simp add: users_unparented_def sound_sources_def rows_sound_def)
  then have "users_unparented db2" by (simp add: users_unparented_rows p(8))
  then obtain gone where gone: "db' = without gone db2" "gone \<inter> src_id ` set (user_rows db2) = {}" "sources_settled w db'"
      "parents_in db' dhs = ps"
    using settled_after [OF *(4,1,3) p(2,9,10) _ *(8)] by metis
  show "sources_settled w db'" by (rule gone(3))
  show "n = mirrored_count w db'" by (simp add: mirrored_count_def *(1,6) gone(4))
  show "distinct_ids db'" "ingestion_db.events db' = ingestion_db.events db"
    using p(2,4) by (auto simp: gone(1) without_def distinct_ids_def distinct_map_filter)
  have "brings (regular_writes dhs @ wrapper_writes w ps dhs) db db2"
    using brings_trans write_each_brings *(2,5) by blast
  from brings_ids [OF this]
  have "src_id ` set (sources db) \<subseteq> src_id ` set (sources db') \<union> gone" by (auto simp: gone(1) without_def)
  with gone(2) p(3,8) show "\<exists>gone. db' = without gone db' \<and> mappings db' = filter (\<lambda>m. source_id m \<notin> gone) (mappings db) \<and>
       gone \<inter> src_id ` set (user_rows db) = {} \<and> src_id ` set (sources db) \<subseteq> src_id ` set (sources db') \<union> gone"
    by (intro exI [of _ gone]) (simp add: gone(1) without_without, simp add: without_def)
  have "filter (\<lambda>r. src_id r \<notin> gone) (user_rows db2) = user_rows db2"
    using gone(2) by (auto simp: filter_id_conv)
  moreover have "user_rows db' = filter (\<lambda>r. src_id r \<notin> gone) (user_rows db2)"
    by (simp add: gone(1) without_def user_rows_def conj_commute)
  ultimately show "user_rows db' = user_rows db" using p(8) by simp
qed

end
