(* ===== verification/Ingestion_Settled.thy ===== *)
theory Ingestion_Settled
  imports Ingestion_Mirror_Step
begin

text \<open>
  The later steps of the sweep, each with what it leaves and why running it again over the same answers finds nothing to do: the
  mapping of datasets, the registry, the links by pipeline name, and the evidence of ingestion.
\<close>

section \<open>Mappings without their time stamps\<close>

definition forget_mapping :: "source_dataset \<Rightarrow> source_dataset" where
  "forget_mapping m = m\<lparr>last_seen_at := 0\<rparr>"

lemma forget_mapping_simps [simp]:
  "source_id (forget_mapping m) = source_id m" "dataset_urn (forget_mapping m) = dataset_urn m"
  "derivation (forget_mapping m) = derivation m" "forget_mapping (m\<lparr>last_seen_at := t\<rparr>) = forget_mapping m"
  by (simp_all add: forget_mapping_def)

definition same_maps :: "source_dataset list \<Rightarrow> source_dataset list \<Rightarrow> bool" where
  "same_maps ms ms' \<longleftrightarrow> map forget_mapping ms = map forget_mapping ms'"

lemma same_maps_refl [simp]: "same_maps ms ms"
  by (simp add: same_maps_def)

lemma same_maps_trans: "same_maps a b \<Longrightarrow> same_maps b c \<Longrightarrow> same_maps a c"
  by (simp add: same_maps_def)

text \<open>What the step reads of a mapping.\<close>

definition read_mapping :: "source_dataset \<Rightarrow> nat \<times> string \<times> string" where
  "read_mapping m = (source_id m, dataset_urn m, derivation m)"

lemma same_maps_read: "same_maps ms ms' \<Longrightarrow> map read_mapping ms = map read_mapping ms'"
proof -
  assume "same_maps ms ms'"
  then have "map read_mapping (map forget_mapping ms) = map read_mapping (map forget_mapping ms')" by (simp add: same_maps_def)
  then show ?thesis by (simp add: read_mapping_def [abs_def] o_def)
qed

lemma same_maps_set: "same_maps ms ms' \<Longrightarrow> read_mapping ` set ms = read_mapping ` set ms'"
  by (metis same_maps_read list.set_map)

lemma same_maps_ex: "same_maps ms ms' \<Longrightarrow> (\<And>m. P m = Q (read_mapping m)) \<Longrightarrow> (\<exists>m \<in> set ms. P m) = (\<exists>m \<in> set ms'. P m)"
proof -
  assume same: "same_maps ms ms'" and P: "\<And>m. P m = Q (read_mapping m)"
  have "(\<exists>m \<in> set ms. P m) = (\<exists>k \<in> read_mapping ` set ms. Q k)" for ms by (simp add: P)
  then show ?thesis by (simp only: same_maps_set [OF same])
qed

lemma unmapped_same: "same_maps ms ms' \<Longrightarrow> unmapped i ms u = unmapped i ms' u"
  unfolding unmapped_def
  by (subst same_maps_ex [where Q = "\<lambda>k. fst k = i \<and> fst (snd k) = u"]) (auto simp: at_key_def read_mapping_def)

lemma same_maps_datasets: "same_maps ms ms' \<Longrightarrow> mapped_datasets i ms = mapped_datasets i ms'"
proof -
  have eq: "mapped_datasets i ms = map (\<lambda>k. fst (snd k)) (filter (\<lambda>k. fst k = i) (map read_mapping ms))" for ms
    by (simp add: mapped_datasets_def filter_map read_mapping_def o_def)
  assume "same_maps ms ms'"
  then show ?thesis unfolding eq by (simp only: same_maps_read)
qed

section \<open>Step 2\<close>

lemma upsert_guarded_same:
  assumes "\<exists>m \<in> set ms. at_key (source_id new) (dataset_urn new) m"
    "\<And>m. m \<in> set ms \<Longrightarrow> at_key (source_id new) (dataset_urn new) m \<Longrightarrow> guard m \<Longrightarrow> forget_mapping (upd m) = forget_mapping m"
  shows "same_maps (upsert_guarded guard upd new ms) ms"
  using assms by (auto simp: upsert_guarded_def same_maps_def)

lemma upsert_matched_present: "\<not> unmapped i ms u \<Longrightarrow> same_maps (upsert_matched now i u ms) ms"
  unfolding upsert_matched_def by (rule upsert_guarded_same) (auto simp: unmapped_def)

lemma fold_matched_present:
  "\<forall>u \<in> set us. \<not> unmapped i ms u \<Longrightarrow> same_maps (fold (upsert_matched now i) us ms) ms"
proof (induction us arbitrary: ms)
  case (Cons u us)
  have 1: "same_maps (upsert_matched now i u ms) ms" using Cons.prems by (simp add: upsert_matched_present)
  moreover have "\<forall>v \<in> set us. \<not> unmapped i (upsert_matched now i u ms) v" using Cons.prems unmapped_same [OF 1] by simp
  ultimately show ?case using Cons.IH same_maps_trans by (metis fold_simps(2))
qed simp

text \<open>A source's mappings agree with what its patterns match.\<close>

definition mapping_settled :: "sweep_world \<Rightarrow> string list \<Rightarrow> source_dataset list \<Rightarrow> ingestion_source \<Rightarrow> bool" where
  "mapping_settled w urns ms r \<longleftrightarrow> (\<forall>u \<in> set (matched_urns w urns r). \<not> unmapped (src_id r) ms u) \<and>
     (patterns_degraded w urns r \<or>
      (\<forall>m \<in> set ms. source_id m = src_id r \<longrightarrow> derivation m = ''matched'' \<longrightarrow> dataset_urn m \<in> set (matched_urns w urns r)))"

lemma mapping_settled_same: "same_maps ms ms' \<Longrightarrow> mapping_settled w urns ms r \<Longrightarrow> mapping_settled w urns ms' r"
proof -
  assume same: "same_maps ms ms'" and set: "mapping_settled w urns ms r"
  let ?us = "set (matched_urns w urns r)"
  have "(\<exists>m \<in> set ms. source_id m = src_id r \<and> derivation m = ''matched'' \<and> dataset_urn m \<notin> ?us) =
      (\<exists>m \<in> set ms'. source_id m = src_id r \<and> derivation m = ''matched'' \<and> dataset_urn m \<notin> ?us)"
    by (rule same_maps_ex [OF same, where Q = "\<lambda>k. fst k = src_id r \<and> snd (snd k) = ''matched'' \<and> fst (snd k) \<notin> ?us"])
      (simp add: read_mapping_def)
  with set unmapped_same [OF same] show ?thesis unfolding mapping_settled_def by auto
qed

lemma map_source_settled:
  assumes "mapping_settled w urns ms r"
  shows "same_maps (map_source w urns r ms) ms" "mapped_count w urns r ms = 0"
proof -
  let ?us = "matched_urns w urns r"
  have same: "same_maps (fold (upsert_matched (sw_now w) (src_id r)) ?us ms) ms"
    by (rule fold_matched_present) (use assms in \<open>simp add: mapping_settled_def\<close>)
  have prune: "prune_matched (src_id r) ?us ms' = ms'" if "same_maps ms' ms" "\<not> patterns_degraded w urns r" for ms'
  proof -
    have "mapping_settled w urns ms' r" by (rule mapping_settled_same [OF _ assms]) (use that(1) in \<open>simp add: same_maps_def\<close>)
    with that(2) show ?thesis by (auto simp: prune_matched_def mapping_settled_def filter_id_conv)
  qed
  show "same_maps (map_source w urns r ms) ms"
    using same prune [OF same] by (simp add: map_source_def Let_def)
  show "mapped_count w urns r ms = 0"
    using assms by (auto simp: mapped_count_def mapping_settled_def filter_empty_conv)
qed

lemma map_sources_settled:
  "\<forall>r \<in> set rows. mapping_settled w urns ms r \<Longrightarrow> \<exists>ms'. map_sources w urns rows (n, ms) = (n, ms') \<and> same_maps ms' ms"
proof (induction rows arbitrary: ms)
  case (Cons r rows)
  note 1 = map_source_settled [of w urns ms r]
  have "\<forall>r' \<in> set rows. mapping_settled w urns (map_source w urns r ms) r'"
    using Cons.prems 1(1) mapping_settled_same [of ms "map_source w urns r ms"] by (simp add: same_maps_def)
  from Cons.IH [OF this] obtain ms' where "map_sources w urns rows (n, map_source w urns r ms) = (n, ms')"
    "same_maps ms' (map_source w urns r ms)" by blast
  with 1 Cons.prems same_maps_trans show ?case by (metis add_0_right list.set_intros(1) map_sources.simps(2))
qed simp

text \<open>The first run: a source's own mappings are settled, the others' are as they were.\<close>

definition mappings_of :: "nat \<Rightarrow> source_dataset list \<Rightarrow> source_dataset list" where
  "mappings_of i = filter (\<lambda>m. source_id m = i)"

lemma mapping_settled_own:
  "mappings_of (src_id r) ms = mappings_of (src_id r) ms' \<Longrightarrow> mapping_settled w urns ms r = mapping_settled w urns ms' r"
proof -
  assume "mappings_of (src_id r) ms = mappings_of (src_id r) ms'"
  then have "set (mappings_of (src_id r) ms) = set (mappings_of (src_id r) ms')" by simp
  then have eq: "m \<in> set ms \<and> source_id m = src_id r \<longleftrightarrow> m \<in> set ms' \<and> source_id m = src_id r" for m
    by (auto simp: mappings_of_def)
  then have "unmapped (src_id r) ms u = unmapped (src_id r) ms' u" for u by (auto simp: unmapped_def at_key_def)
  with eq show ?thesis unfolding mapping_settled_def by blast
qed

lemma upsert_guarded_of:
  assumes "\<And>m. source_id (upd m) = source_id m" "source_id new \<noteq> i"
  shows "mappings_of i (upsert_guarded guard upd new ms) = mappings_of i ms"
proof -
  have "filter (\<lambda>m. source_id m = i) (map (\<lambda>m. if at_key (source_id new) u m \<and> guard m then upd m else m) ms) =
      filter (\<lambda>m. source_id m = i) ms" for u
    using assms by (induction ms) (auto simp: at_key_def)
  with assms(2) show ?thesis by (simp add: upsert_guarded_def mappings_of_def)
qed

lemma map_source_of: "src_id r \<noteq> i \<Longrightarrow> mappings_of i (map_source w urns r ms) = mappings_of i ms"
proof -
  assume i: "src_id r \<noteq> i"
  have "mappings_of i (fold (upsert_matched t (src_id r)) us ms) = mappings_of i ms" for t us
    by (induction us arbitrary: ms) (simp_all add: upsert_matched_def upsert_guarded_of i)
  moreover have "mappings_of i (prune_matched (src_id r) us ms') = mappings_of i ms'" for us ms'
    using i by (auto simp: mappings_of_def prune_matched_def intro: filter_cong)
  ultimately show ?thesis by (simp add: map_source_def Let_def)
qed

lemma upsert_guarded_keys:
  assumes "\<And>m. source_id (upd m) = source_id m \<and> dataset_urn (upd m) = dataset_urn m"
  shows "unmapped i (upsert_guarded guard upd new ms) u \<longleftrightarrow>
    unmapped i ms u \<and> \<not> (i = source_id new \<and> u = dataset_urn new)"
proof (cases "\<exists>m \<in> set ms. at_key (source_id new) (dataset_urn new) m")
  case True
  let ?f = "\<lambda>m. if at_key (source_id new) (dataset_urn new) m \<and> guard m then upd m else m"
  have "at_key i u (?f m) = at_key i u m" for m using assms by (simp add: at_key_def)
  then have "unmapped i (map ?f ms) u = unmapped i ms u" by (simp only: unmapped_def list.set_map ball_simps bex_simps)
  moreover have "upsert_guarded guard upd new ms = map ?f ms" using True by (simp only: upsert_guarded_def if_True)
  moreover have "i = source_id new \<and> u = dataset_urn new \<Longrightarrow> \<not> unmapped i ms u" using True unfolding unmapped_def by blast
  ultimately show ?thesis by (simp only:) blast
qed (auto simp: unmapped_def upsert_guarded_def at_key_def)

lemma fold_matched_keys: "unmapped i (fold (upsert_matched now j) us ms) u \<longleftrightarrow> unmapped i ms u \<and> \<not> (i = j \<and> u \<in> set us)"
  by (induction us arbitrary: ms) (auto simp: upsert_matched_def upsert_guarded_keys)

lemma prune_keeps: "u \<in> set us \<Longrightarrow> unmapped i (prune_matched i us ms) u = unmapped i ms u"
  by (auto simp: unmapped_def prune_matched_def at_key_def)

lemma map_source_settles: "mapping_settled w urns (map_source w urns r ms) r"
  by (auto simp: mapping_settled_def map_source_def Let_def fold_matched_keys prune_keeps) (auto simp: prune_matched_def)

lemma map_sources_of: "i \<notin> src_id ` set rows \<Longrightarrow> mappings_of i (snd (map_sources w urns rows (n, ms))) = mappings_of i ms"
  by (induction rows arbitrary: n ms) (auto simp: map_source_of)

lemma map_sources_settles:
  "distinct (map src_id rows) \<Longrightarrow> r \<in> set rows \<Longrightarrow> mapping_settled w urns (snd (map_sources w urns rows (n, ms))) r"
proof (induction rows arbitrary: n ms)
  case (Cons r' rows)
  show ?case
  proof (cases "r \<in> set rows")
    case True
    with Cons show ?thesis by simp
  next
    case False
    with Cons.prems have r: "r = r'" "src_id r \<notin> src_id ` set rows" by auto
    from mapping_settled_own [OF map_sources_of [OF r(2)]] map_source_settles show ?thesis
      by (simp add: r(1))
  qed
qed simp

section \<open>Step 4\<close>

definition linked :: "source_dataset list \<Rightarrow> nat \<times> string \<Rightarrow> bool" where
  "linked ms p \<longleftrightarrow> \<not> unmapped (fst p) ms (snd p) \<and>
     (\<forall>m \<in> set ms. at_key (fst p) (snd p) m \<longrightarrow> derivation m = ''emitted'' \<or> derivation m = ''pipeline_name'')"

lemma linked_same: "same_maps ms ms' \<Longrightarrow> linked ms p = linked ms' p"
proof -
  assume same: "same_maps ms ms'"
  have "(\<exists>m \<in> set ms. at_key (fst p) (snd p) m \<and> derivation m \<noteq> ''emitted'' \<and> derivation m \<noteq> ''pipeline_name'') =
      (\<exists>m \<in> set ms'. at_key (fst p) (snd p) m \<and> derivation m \<noteq> ''emitted'' \<and> derivation m \<noteq> ''pipeline_name'')"
    by (rule same_maps_ex [OF same, where Q = "\<lambda>k. fst k = fst p \<and> fst (snd k) = snd p \<and> snd (snd k) \<noteq> ''emitted'' \<and>
          snd (snd k) \<noteq> ''pipeline_name''"]) (simp add: read_mapping_def at_key_def)
  with unmapped_same [OF same] show ?thesis unfolding linked_def by auto
qed

lemma upsert_pipeline_linked: "linked ms p \<Longrightarrow> same_maps (upsert_pipeline now p ms) ms"
  unfolding upsert_pipeline_def split_def
  by (rule upsert_guarded_same) (auto simp: linked_def unmapped_def forget_mapping_def at_key_def intro!: source_dataset.equality)

lemma link_pipelines_settled:
  assumes "\<forall>p \<in> set links. linked ms p"
  shows "\<exists>ms'. link_pipelines now links ms = (0, ms') \<and> same_maps ms' ms"
proof -
  have "\<not> (link_written ms p \<and> \<not> linked_before ms p)" if "linked ms p" for p
    using that by (cases p) (auto simp: linked_def link_written_def linked_before_def unmapped_def)
  then have "filter (\<lambda>p. link_written ms p \<and> \<not> linked_before ms p) links = []" using assms by (auto simp: filter_empty_conv)
  moreover have "same_maps (fold (upsert_pipeline now) links ms) ms" using assms
  proof (induction links arbitrary: ms)
    case (Cons p links)
    have 1: "same_maps (upsert_pipeline now p ms) ms" using Cons.prems by (simp add: upsert_pipeline_linked)
    then have "\<forall>q \<in> set links. linked (upsert_pipeline now p ms) q" using Cons.prems linked_same [OF 1] by simp
    from same_maps_trans [OF Cons.IH [OF this] 1] show ?case by simp
  qed simp
  ultimately show ?thesis by (simp add: link_pipelines_def)
qed

lemma upsert_pipeline_keys: "unmapped i (upsert_pipeline now p ms) u \<longleftrightarrow> unmapped i ms u \<and> (i, u) \<noteq> p"
  unfolding upsert_pipeline_def split_def by (subst upsert_guarded_keys) (auto simp: prod_eq_iff)

lemma upsert_pipeline_member:
  "m \<in> set (upsert_pipeline now p ms) \<Longrightarrow> m \<in> set ms \<or> derivation m = ''pipeline_name'' \<and> at_key (fst p) (snd p) m"
  by (auto simp: upsert_pipeline_def split_def upsert_guarded_def at_key_def split: if_splits)

lemma upsert_pipeline_emitted:
  "m \<in> set (upsert_pipeline now p ms) \<Longrightarrow> at_key (fst p) (snd p) m \<Longrightarrow> derivation m = ''emitted'' \<or> derivation m = ''pipeline_name''"
  by (auto simp: upsert_pipeline_def split_def upsert_guarded_def at_key_def split: if_splits)

lemma upsert_pipeline_links: "linked (upsert_pipeline now p ms) p"
  unfolding linked_def using upsert_pipeline_emitted by (auto simp: upsert_pipeline_keys)

lemma linked_kept: "linked ms p \<Longrightarrow> linked (upsert_pipeline now q ms) p"
  unfolding linked_def by (auto simp: upsert_pipeline_keys dest!: upsert_pipeline_member)

lemma link_pipelines_settles:
  assumes "p \<in> set links"
  shows "linked (fold (upsert_pipeline now) links ms) p"
proof -
  have keep: "linked (fold (upsert_pipeline now) qs ms) p" if "linked ms p" for qs ms
    using that by (induction qs arbitrary: ms) (simp_all add: linked_kept)
  show ?thesis using assms
  proof (induction links arbitrary: ms)
    case (Cons q links)
    then show ?case using keep upsert_pipeline_links by (cases "p = q") auto
  qed simp
qed

lemma link_pipelines_keeps: "mapping_settled w urns ms r \<Longrightarrow> mapping_settled w urns (fold (upsert_pipeline now) links ms) r"
proof (induction links arbitrary: ms)
  case (Cons p links)
  have "mapping_settled w urns (upsert_pipeline now p ms) r"
    using Cons.prems upsert_pipeline_member [of _ now p ms] unfolding mapping_settled_def
    by (fastforce simp: upsert_pipeline_keys)
  from Cons.IH [OF this] show ?case by simp
qed simp

end
