(* ===== verification/Ingestion_Evidence.thy ===== *)
theory Ingestion_Evidence
  imports Ingestion_Settled
begin

text \<open>
  The dataset registry and the evidence of ingestion: what reconciling and refreshing leave, and that a step which books evidence
  appends to what is booked and, over the same answers, appends nothing the second time.
\<close>

section \<open>The registry\<close>

definition reconciled :: "string list \<Rightarrow> registry_row list \<Rightarrow> bool" where
  "reconciled urns rows \<longleftrightarrow> set urns \<subseteq> reg_dataset_urn ` set rows \<and>
     (\<forall>r \<in> set rows. (reg_dataset_urn r \<in> set urns \<longrightarrow> reg_datahub_registered r) \<and>
        (urns \<noteq> [] \<longrightarrow> reg_dataset_urn r \<notin> set urns \<longrightarrow> \<not> reg_datahub_registered r))"

lemma reconcile_registry_reconciles: "reconciled urns (snd (reconcile_registry urns rows))"
proof -
  let ?rows' = "snd (reconcile_registry urns rows)"
  have "map reg_dataset_urn ?rows' =
      map reg_dataset_urn rows @ filter (\<lambda>u. u \<notin> reg_dataset_urn ` set rows) (add_new [] urns)"
    by (simp add: reconcile_registry_def Let_def new_registry_row_def o_def)
  then have "set (map reg_dataset_urn ?rows') =
      set (map reg_dataset_urn rows @ filter (\<lambda>u. u \<notin> reg_dataset_urn ` set rows) (add_new [] urns))" by (simp only:)
  then have "set urns \<subseteq> reg_dataset_urn ` set ?rows'" by auto
  moreover have "(reg_dataset_urn r \<in> set urns \<longrightarrow> reg_datahub_registered r) \<and>
      (urns \<noteq> [] \<longrightarrow> reg_dataset_urn r \<notin> set urns \<longrightarrow> \<not> reg_datahub_registered r)" if "r \<in> set ?rows'" for r
    using that by (auto simp: reconcile_registry_def Let_def new_registry_row_def split: if_splits)
  ultimately show ?thesis by (simp add: reconciled_def)
qed

lemma reconcile_registry_settled:
  assumes "reconciled urns rows"
  shows "reconcile_registry urns rows = (\<lparr>rg_inserted = 0, rg_marked_true = 0, rg_marked_false = 0\<rparr>, rows)"
proof -
  have "filter (\<lambda>u. u \<notin> reg_dataset_urn ` set rows) (add_new [] urns) = []"
    using assms by (auto simp: filter_empty_conv reconciled_def)
  moreover have "filter (\<lambda>r. reg_dataset_urn r \<in> set urns \<and> \<not> reg_datahub_registered r) rows = []"
    "filter (\<lambda>r. (urns \<noteq> [] \<and> reg_dataset_urn r \<notin> set urns) \<and> reg_datahub_registered r) rows = []"
    using assms by (auto simp: filter_empty_conv reconciled_def)
  moreover have "map (\<lambda>r. if reg_dataset_urn r \<in> set urns then r\<lparr>reg_datahub_registered := True\<rparr>
      else if urns \<noteq> [] \<and> reg_dataset_urn r \<notin> set urns then r\<lparr>reg_datahub_registered := False\<rparr> else r) rows = rows"
    using assms by (intro map_idI) (auto simp: reconciled_def intro!: registry_row.equality)
  ultimately show ?thesis by (simp only: reconcile_registry_def Let_def) simp
qed

text \<open>The attributes of a dataset are those of the answer.\<close>

definition attributed :: "registry_row list \<Rightarrow> string \<times> attribute_read \<Rightarrow> bool" where
  "attributed rows p \<longleftrightarrow> fst p \<in> reg_dataset_urn ` set rows \<and>
     (\<forall>r \<in> set rows. reg_dataset_urn r = fst p \<longrightarrow> with_attributes p r = r)"

lemma with_attributes_simps [simp]:
  "reg_dataset_urn (with_attributes p r) = reg_dataset_urn r"
  "reg_datahub_registered (with_attributes p r) = reg_datahub_registered r"
  "with_attributes p (with_attributes p r) = with_attributes p r"
  by (cases p; simp add: with_attributes_def)+

lemma new_registry_row_simps [simp]:
  "reg_dataset_urn (new_registry_row b u) = u" "reg_datahub_registered (new_registry_row b u) = b"
  by (simp_all add: new_registry_row_def)

lemma upsert_attribute_settled: "attributed rows p \<Longrightarrow> upsert_attribute p rows = rows"
  by (auto simp: attributed_def upsert_attribute_def row_update_def intro!: map_idI)

lemma upsert_attribute_keys: "reg_dataset_urn ` set (upsert_attribute p rows) = insert (fst p) (reg_dataset_urn ` set rows)"
proof -
  have "reg_dataset_urn ` set (row_update reg_dataset_urn (fst p) (with_attributes p) rows) = reg_dataset_urn ` set rows"
    by (rule key_row_update) simp
  then show ?thesis by (auto simp: upsert_attribute_def)
qed

lemma upsert_attribute_member:
  assumes "r \<in> set (upsert_attribute p rows)"
  shows "r \<in> set rows \<and> reg_dataset_urn r \<noteq> fst p \<or>
    (\<exists>r0 \<in> set rows. reg_dataset_urn r0 = fst p \<and> r = with_attributes p r0) \<or>
    fst p \<notin> reg_dataset_urn ` set rows \<and> r = with_attributes p (new_registry_row False (fst p))"
proof (cases "fst p \<in> reg_dataset_urn ` set rows")
  case True
  with assms have "r \<in> (\<lambda>r. if reg_dataset_urn r = fst p then with_attributes p r else r) ` set rows"
    by (simp add: upsert_attribute_def row_update_def)
  then show ?thesis by force
next
  case False
  with assms show ?thesis by (force simp: upsert_attribute_def)
qed

lemma upsert_attribute_attributes: "attributed (upsert_attribute p rows) p"
  using upsert_attribute_member [of _ p rows] by (fastforce simp: attributed_def upsert_attribute_keys)

lemma attributed_kept: "attributed rows p \<Longrightarrow> fst q \<noteq> fst p \<Longrightarrow> attributed (upsert_attribute q rows) p"
  using upsert_attribute_member [of _ q rows] by (fastforce simp: attributed_def upsert_attribute_keys)

lemma reconciled_kept:
  assumes "reconciled urns rows"
  shows "reconciled urns (upsert_attribute q rows)"
proof -
  have "(reg_dataset_urn r \<in> set urns \<longrightarrow> reg_datahub_registered r) \<and>
      (urns \<noteq> [] \<longrightarrow> reg_dataset_urn r \<notin> set urns \<longrightarrow> \<not> reg_datahub_registered r)" if "r \<in> set (upsert_attribute q rows)" for r
    using upsert_attribute_member [OF that] assms by (auto simp: reconciled_def)
  with assms show ?thesis by (auto simp: reconciled_def upsert_attribute_keys)
qed

lemma fold_attributes:
  assumes "distinct (map fst ps)"
  shows "p \<in> set ps \<Longrightarrow> attributed (fold upsert_attribute ps rows) p"
proof -
  have keep: "attributed (fold upsert_attribute qs rows) p" if "attributed rows p" "fst p \<notin> fst ` set qs" for qs rows p
    using that by (induction qs arbitrary: rows) (auto simp: attributed_kept)
  show "p \<in> set ps \<Longrightarrow> attributed (fold upsert_attribute ps rows) p" using assms
  proof (induction ps arbitrary: rows)
    case (Cons q ps)
    then show ?case using keep [OF upsert_attribute_attributes, of q ps rows] by (cases "p = q") auto
  qed simp
qed

lemma fold_attributes_settled: "\<forall>p \<in> set ps. attributed rows p \<Longrightarrow> fold upsert_attribute ps rows = rows"
  by (induction ps) (simp_all add: upsert_attribute_settled)

definition registry_settled :: "sweep_world \<Rightarrow> string list \<Rightarrow> registry_row list \<Rightarrow> bool" where
  "registry_settled w urns rows \<longleftrightarrow> (sw_reconcile_ok w \<longrightarrow> reconciled urns rows) \<and>
     (\<forall>ps. sw_attributes w = Some ps \<longrightarrow> sw_upsert_ok w \<longrightarrow> (\<forall>p \<in> set ps. DATASET_URN_RE (fst p) \<longrightarrow> attributed rows p))"

lemma registry_settles:
  assumes "\<And>ps. sw_attributes w = Some ps \<Longrightarrow> distinct (map fst ps)"
  shows "registry_settled w urns (snd (sync_dataset_attributes w (snd (registry_step_of w urns rows))))"
proof -
  let ?rows1 = "snd (registry_step_of w urns rows)"
  have rec: "sw_reconcile_ok w \<longrightarrow> reconciled urns ?rows1"
    by (simp add: registry_step_of_def reconcile_registry_reconciles)
  have keep: "reconciled urns rows' \<Longrightarrow> reconciled urns (fold upsert_attribute ps rows')" for ps rows'
    by (induction ps arbitrary: rows') (simp_all add: reconciled_kept)
  show ?thesis
  proof (cases "sw_attributes w")
    case None
    with rec show ?thesis by (simp add: registry_settled_def sync_dataset_attributes_def)
  next
    case (Some ps)
    have dist: "distinct (map fst (filter (\<lambda>p. DATASET_URN_RE (fst p)) ps))"
      using assms [OF Some] by (simp add: distinct_map_filter)
    show ?thesis
    proof (cases "ps = [] \<or> \<not> sw_upsert_ok w")
      case True
      with rec Some show ?thesis by (auto simp: registry_settled_def sync_dataset_attributes_def)
    next
      case False
      with rec Some keep fold_attributes [OF dist] show ?thesis
        by (auto simp: registry_settled_def sync_dataset_attributes_def upsert_dataset_attributes_def Let_def)
    qed
  qed
qed

lemma registry_settled_step:
  assumes "registry_settled w urns rows"
  shows "registry_step_of w urns rows = (\<lparr>rg_inserted = 0, rg_marked_true = 0, rg_marked_false = 0\<rparr>, rows)"
    "snd (sync_dataset_attributes w rows) = rows"
proof -
  show "registry_step_of w urns rows = (\<lparr>rg_inserted = 0, rg_marked_true = 0, rg_marked_false = 0\<rparr>, rows)"
    using assms by (simp add: registry_step_of_def registry_settled_def reconcile_registry_settled)
  have "fold upsert_attribute (filter (\<lambda>p. DATASET_URN_RE (fst p)) ps) rows = rows"
    if "sw_attributes w = Some ps" "sw_upsert_ok w" for ps
    using assms that by (intro fold_attributes_settled) (simp add: registry_settled_def)
  then show "snd (sync_dataset_attributes w rows) = rows"
    by (auto simp: sync_dataset_attributes_def upsert_dataset_attributes_def Let_def split: option.split)
qed

lemma sync_attributes_count: "fst (sync_dataset_attributes w rows) = fst (sync_dataset_attributes w rows')"
  by (simp add: sync_dataset_attributes_def upsert_dataset_attributes_def Let_def split: option.split)

section \<open>Recorders\<close>

text \<open>A recorder appends to the observations, and does nothing where its own are already there.\<close>

locale recorder =
  fixes observe :: "'x \<Rightarrow> observation list \<Rightarrow> observation list"
  assumes appends: "\<exists>new. observe x obs = obs @ new"
    and settles: "observe x (observe x obs @ later) = observe x obs @ later"
begin

lemma fold_appends: "\<exists>new. fold observe xs obs = obs @ new"
proof (induction xs arbitrary: obs)
  case (Cons x xs)
  obtain a where "observe x obs = obs @ a" using appends by blast
  moreover obtain b where "fold observe xs (observe x obs) = observe x obs @ b" using Cons.IH by blast
  ultimately show ?case by simp
qed simp

lemma fold_settles: "fold observe xs (fold observe xs obs @ later) = fold observe xs obs @ later"
proof (induction xs arbitrary: obs)
  case (Cons x xs)
  obtain b where b: "fold observe xs (observe x obs) = observe x obs @ b" using fold_appends by blast
  have "observe x (fold observe (x # xs) obs @ later) = fold observe (x # xs) obs @ later"
    using settles [of x obs "b @ later"] b by simp
  with Cons.IH [of "observe x obs"] show ?case by simp
qed simp

lemma fold_recorder: "recorder (fold observe)"
  by unfold_locales (rule fold_appends, rule fold_settles)

end

lemma booked_append: "booked i k (obs @ later) \<longleftrightarrow> booked i k obs \<or> booked i k later"
  by (auto simp: booked_def)

lemma booked_at_append: "booked_at i k t (obs @ later) \<longleftrightarrow> booked_at i k t obs \<or> booked_at i k t later"
  by (auto simp: booked_at_def)

interpretation request_recorder: recorder "mirror_request c i" for c i
proof
  show "\<exists>new. mirror_request c i x obs = obs @ new" for x obs
    by (auto simp: mirror_request_def split: option.split prod.split)
  show "mirror_request c i x (mirror_request c i x obs @ later) = mirror_request c i x obs @ later" for x obs later
    by (auto simp: mirror_request_def booked_append split: option.split prod.split) (simp_all add: booked_def)
qed

interpretation execution_recorder: recorder "mirror_execution_requests w" for w
proof
  show "\<exists>new. mirror_execution_requests w r obs = obs @ new" for r obs
    using request_recorder.fold_appends by (simp add: mirror_execution_requests_def split: option.split)
  show "mirror_execution_requests w r (mirror_execution_requests w r obs @ later) = mirror_execution_requests w r obs @ later" for r obs later
    using request_recorder.fold_settles by (simp add: mirror_execution_requests_def split: option.split)
qed

lemma book_observations_appends: "\<exists>new. book_observations i os obs = obs @ new"
  by (simp add: book_observations_def)

lemma book_observations_settles: "book_observations i os (book_observations i os obs @ later) = book_observations i os obs @ later"
proof -
  have "booked_at i (fst k) (fst (snd k)) (book_observations i os obs @ later)" if "k \<in> set os" for k
  proof (cases "booked_at i (fst k) (fst (snd k)) obs")
    case False
    then have "\<lparr>bk_source = i, bk_key = fst k, bk_type = ''INGESTION.COMPLETE'', bk_status = ''success'', bk_extra = snd (snd k),
        bk_at = fst (snd k)\<rparr> \<in> set (book_observations i os obs)"
      using that by (force simp: book_observations_def split_def)
    then show ?thesis unfolding booked_at_append by (force simp: booked_at_def)
  qed (simp add: booked_at_append book_observations_def)
  then have "filter (\<lambda>(k, t, _). \<not> booked_at i k t (book_observations i os obs @ later)) os = []"
    by (auto simp: filter_empty_conv)
  then show ?thesis by (simp add: book_observations_def [of i os "book_observations i os obs @ later"])
qed

interpretation passive_recorder: recorder "observe_passive w ms" for w ms
  by unfold_locales (simp_all add: observe_passive_def book_observations_appends book_observations_settles)

interpretation last_recorder: recorder "observe_last_for_source w vals ms" for w vals ms
  by unfold_locales (simp_all add: observe_last_for_source_def book_observations_appends book_observations_settles)

lemma observe_last_appends: "observe_last_ingested w rows ms obs = Inr obs' \<Longrightarrow> \<exists>new. obs' = obs @ new"
  using last_recorder.fold_appends by (auto simp: observe_last_ingested_def split: if_splits last_read.splits)

lemma observe_last_settles: "observe_last_ingested w rows ms obs = Inr obs' \<Longrightarrow> observe_last_ingested w rows ms obs' = Inr obs'"
  using last_recorder.fold_settles [of w _ ms rows obs "[]"]
  by (auto simp: observe_last_ingested_def split: if_splits last_read.splits)

section \<open>The same answers read later\<close>

text \<open>Nothing about the answers differs, and no instant in them was too far ahead of the first sweep to be accepted then but not
  of the second.\<close>

definition same_answers :: "sweep_world \<Rightarrow> sweep_world \<Rightarrow> bool" where
  "same_answers w w2 \<longleftrightarrow> (\<exists>t c f. w2 = w\<lparr>sw_now := t, sw_clock := c, sw_new_id := f\<rparr>) \<and>
     (\<forall>u xs. sw_executions w u = Some xs \<longrightarrow> (\<forall>x \<in> set xs. execution_instant (sw_clock w2) x = execution_instant (sw_clock w) x)) \<and>
     (\<forall>u ops. sw_operations w u = Some ops \<longrightarrow> (\<forall>op \<in> set ops. observed_at (sw_clock w2) (snd op) = observed_at (sw_clock w) (snd op))) \<and>
     (\<forall>vals. sw_last w = Last_values vals \<longrightarrow>
        (\<forall>v \<in> set vals. observed_at (sw_clock w2) (snd v) = observed_at (sw_clock w) (snd v)))"

lemma same_answers_eq:
  assumes "same_answers w w2"
  shows "sw_json w2 = sw_json w" "sw_sdk w2 = sw_sdk w" "sw_match_raises w2 = sw_match_raises w" "sw_sources w2 = sw_sources w"
    "sw_datasets w2 = sw_datasets w" "sw_reconcile_ok w2 = sw_reconcile_ok w" "sw_attributes w2 = sw_attributes w"
    "sw_upsert_ok w2 = sw_upsert_ok w" "sw_pipelines w2 = sw_pipelines w" "sw_executions w2 = sw_executions w"
    "sw_operations w2 = sw_operations w" "sw_last w2 = sw_last w" "sw_observe_ok w2 = sw_observe_ok w"
  using assms by (auto simp: same_answers_def)

lemma mirror_request_clock:
  "execution_instant c2 x = execution_instant c x \<Longrightarrow> mirror_request c2 i x obs = mirror_request c i x obs"
  unfolding mirror_request_def by (simp only:)

lemma map_filter_agree: "(\<And>x. x \<in> set xs \<Longrightarrow> f x = g x) \<Longrightarrow> List.map_filter f xs = List.map_filter g xs"
  by (induction xs) (auto simp: List.map_filter_simps split: option.split)

lemma mirror_executions_same:
  assumes "same_answers w w2"
  shows "mirror_execution_requests w2 r obs = mirror_execution_requests w r obs"
proof -
  have "fold (mirror_request (sw_clock w2) i) xs obs = fold (mirror_request (sw_clock w) i) xs obs"
    if "sw_executions w u = Some xs" for u xs i
  proof (rule fold_cong [OF refl refl], rule ext)
    fix x obs assume "x \<in> set xs"
    then have "execution_instant (sw_clock w2) x = execution_instant (sw_clock w) x"
      using assms that unfolding same_answers_def by blast
    then show "mirror_request (sw_clock w2) i x obs = mirror_request (sw_clock w) i x obs" by (rule mirror_request_clock)
  qed
  then show ?thesis by (simp add: mirror_execution_requests_def same_answers_eq [OF assms] split: option.split)
qed

lemma operations_same:
  assumes "same_answers w w2"
  shows "operations_of w2 u = operations_of w u"
proof (cases "sw_operations w u")
  case (Some ops)
  have "observed_at (sw_clock w2) (snd x) = observed_at (sw_clock w) (snd x)" if "x \<in> set ops" for x
    using assms Some that by (simp add: same_answers_def)
  then show ?thesis
    unfolding operations_of_def same_answers_eq [OF assms] Some option.case
    by (intro map_filter_agree) (auto split: option.split)
qed (simp add: operations_of_def same_answers_eq [OF assms])

lemma observe_passive_same:
  assumes "same_answers w w2" "same_maps ms2 ms"
  shows "observe_passive w2 ms2 r obs = observe_passive w ms r obs"
proof -
  have "operations_of w2 = operations_of w" by (simp add: fun_eq_iff operations_same [OF assms(1)])
  then show ?thesis
    by (simp add: observe_passive_def passive_observations_def same_maps_datasets [OF assms(2)] same_answers_eq [OF assms(1)])
qed

lemma observe_last_same:
  assumes "same_answers w w2" "same_maps ms2 ms" "same_rows rows2 rows"
  shows "observe_last_ingested w2 rows2 ms2 obs = observe_last_ingested w rows ms obs"
proof -
  have "last_observations (sw_clock w2) vals i ms2 = last_observations (sw_clock w) vals i ms"
    if "sw_last w = Last_values vals" for vals i
  proof -
    have "observed_at (sw_clock w2) v = observed_at (sw_clock w) v" if "map_of vals u = Some v" for u v
      using assms(1) \<open>sw_last w = Last_values vals\<close> map_of_SomeD [OF that] by (auto simp: same_answers_def)
    then show ?thesis
      unfolding last_observations_def same_maps_datasets [OF assms(2)]
      by (intro map_filter_agree) (auto split: option.split)
  qed
  then have f: "observe_last_for_source w2 vals ms2 r = observe_last_for_source w vals ms r" if "sw_last w = Last_values vals" for vals r
    using that by (simp add: fun_eq_iff observe_last_for_source_def same_answers_eq [OF assms(1)])
  have "same_rows (filter (\<lambda>r. parent_source_id r = None) rows2) (filter (\<lambda>r. parent_source_id r = None) rows)"
    by (rule same_rows_filter [OF assms(3)]) simp
  then have e: "(filter (\<lambda>r. parent_source_id r = None) rows2 = []) = (filter (\<lambda>r. parent_source_id r = None) rows = [])"
    by (metis list.map_disc_iff same_rows_def)
  have "fold (observe_last_for_source w vals ms) rows2 obs = fold (observe_last_for_source w vals ms) rows obs" for vals
    by (rule same_rows_fold [OF assms(3)]) (simp add: fun_eq_iff observe_last_for_source_def)
  moreover have "observe_last_for_source w2 vals ms2 = observe_last_for_source w vals ms" if "sw_last w = Last_values vals" for vals
    using f [OF that] by (simp add: fun_eq_iff)
  ultimately show ?thesis
    using e by (simp add: observe_last_ingested_def same_answers_eq [OF assms(1)] split: last_read.split)
qed

end
