(* ===== verification/Ingestion_Sweep_Properties.thy ===== *)
theory Ingestion_Sweep_Properties
  imports Ingestion_Evidence
begin

text \<open>
  The sweep as a whole: a second sweep over the same answers changes time stamps only and counts nothing, and what no sweep
  touches, whether it ends well or not.
\<close>

section \<open>A successful sweep, step by step\<close>

definition evidence_pass :: "sweep_world \<Rightarrow> ingestion_source list \<Rightarrow> source_dataset list \<Rightarrow> observation list \<Rightarrow> observation list" where
  "evidence_pass w rows ms obs = fold (observe_passive w ms) rows (fold (mirror_execution_requests w) rows obs)"

definition links_of :: "sweep_world \<Rightarrow> string list \<Rightarrow> ingestion_source list \<Rightarrow> (nat \<times> string) list" where
  "links_of w urns rows =
     (if urns = [] then [] else case sw_pipelines w of None \<Rightarrow> [] | Some ps \<Rightarrow> pipeline_links rows ps)"

definition sweep_mappings :: "sweep_world \<Rightarrow> string list \<Rightarrow> ingestion_db \<Rightarrow> source_dataset list" where
  "sweep_mappings w urns db =
     fold (upsert_pipeline (sw_now w)) (links_of w urns (sources db)) (snd (map_sources w urns (sources db) (0, mappings db)))"

definition sweep_registry :: "sweep_world \<Rightarrow> string list \<Rightarrow> registry_row list \<Rightarrow> registry_row list" where
  "sweep_registry w urns rows = snd (sync_dataset_attributes w (snd (registry_step_of w urns rows)))"

definition sweep_counts :: "sweep_world \<Rightarrow> string list \<Rightarrow> ingestion_db \<Rightarrow> registry_row list \<Rightarrow> nat \<times> nat \<Rightarrow> nat \<times> nat \<Rightarrow> sweep_summary" where
  "sweep_counts w urns db rows sr obs =
     \<lparr>sy_sources_synced = fst sr, sy_sources_removed = snd sr,
      sy_datasets_mapped = fst (map_sources w urns (sources db) (0, mappings db)),
      sy_pipeline_links = fst (link_pipelines (sw_now w) (links_of w urns (sources db))
         (snd (map_sources w urns (sources db) (0, mappings db)))),
      sy_events_mirrored = fst obs, sy_last_ingested_observed = snd obs,
      sy_registry_inserted = rg_inserted (fst (registry_step_of w urns rows)),
      sy_registry_marked_true = rg_marked_true (fst (registry_step_of w urns rows)),
      sy_registry_marked_false = rg_marked_false (fst (registry_step_of w urns rows)),
      sy_attrs_synced = fst (sync_dataset_attributes w (snd (registry_step_of w urns rows))),
      sy_zero_coverage = length (filter (zero_coverage w urns) (sources db)),
      sy_pattern_degraded = length (filter (patterns_degraded w urns) (sources db))\<rparr>"

lemma sweep_success:
  "run_sweep w s = (Inr sm, s') \<longleftrightarrow> (\<exists>sr db1 urns obs2 obs3.
     sync_sources w (ss_db s) = (Inr sr, db1) \<and> sw_datasets w = Some urns \<and> (urns = [] \<or> sw_pipelines w \<noteq> None) \<and>
     obs2 = evidence_pass w (sources db1) (sweep_mappings w urns db1) (ss_observed s) \<and>
     observe_last_ingested w (sources db1) (sweep_mappings w urns db1) obs2 = Inr obs3 \<and>
     sm = sweep_counts w urns db1 (ss_registry s) sr (length obs2 - length (ss_observed s), length obs3 - length obs2) \<and>
     s' = s\<lparr>ss_db := db1\<lparr>mappings := sweep_mappings w urns db1\<rparr>, ss_registry := sweep_registry w urns (ss_registry s), ss_observed := obs3\<rparr>)"
proof (cases "sync_sources w (ss_db s)")
  case (Pair res db1)
  show ?thesis
  proof (cases res)
    case (Inl e)
    with Pair show ?thesis by (simp add: run_sweep_def)
  next
    case (Inr sr)
    obtain n k where sr: "sr = (n, k)" by fastforce
    show ?thesis
    proof (cases "sw_datasets w")
      case None
      with Pair Inr sr show ?thesis by (simp add: run_sweep_def)
    next
      case (Some urns)
      show ?thesis
      proof (cases "urns = []")
        case True
        with Pair Inr Some sr show ?thesis
          by (auto simp: run_sweep_def Let_def split_def pipeline_step_def observe_step_def sweep_mappings_def links_of_def
              evidence_pass_def sweep_registry_def sweep_counts_def empty_summary_def link_pipelines_def split: sum.splits)
      next
        case False
        with Pair Inr Some sr show ?thesis
          by (cases "sw_pipelines w")
            (auto simp: run_sweep_def Let_def split_def pipeline_step_def observe_step_def sweep_mappings_def links_of_def
              evidence_pass_def sweep_registry_def sweep_counts_def empty_summary_def link_pipelines_def split: sum.splits)
      qed
    qed
  qed
qed

section \<open>The second sweep\<close>

definition sweep_answers_ok :: "sweep_world \<Rightarrow> sweep_state \<Rightarrow> bool" where
  "sweep_answers_ok w s \<longleftrightarrow> sources_answer_ok w (ss_db s) \<and> (\<forall>ps. sw_attributes w = Some ps \<longrightarrow> distinct (map fst ps))"

definition unstamped :: "sweep_state \<Rightarrow> sweep_state" where
  "unstamped s = s\<lparr>ss_db := (ss_db s)\<lparr>sources := map forget_row (sources (ss_db s)), mappings := map forget_mapping (mappings (ss_db s))\<rparr>\<rparr>"

definition nothing_new :: "sweep_summary \<Rightarrow> sweep_summary" where
  "nothing_new sm = sm\<lparr>sy_sources_removed := 0, sy_datasets_mapped := 0, sy_pipeline_links := 0, sy_events_mirrored := 0,
     sy_last_ingested_observed := 0, sy_registry_inserted := 0, sy_registry_marked_true := 0, sy_registry_marked_false := 0\<rparr>"

lemma recipe_forget [simp]: "sweep_recipe (forget_row r) = sweep_recipe r"
  by (simp add: sweep_recipe_def)

lemma candidates_forget [simp]:
  "candidates_for urns (forget_row r) = candidates_for urns r" "matcher_failed w urns (forget_row r) = matcher_failed w urns r"
  unfolding candidates_for_def matcher_failed_def recipe_forget by (rule refl)+

lemma matching_forget [simp]:
  "matched_urns w urns (forget_row r) = matched_urns w urns r"
  "patterns_degraded w urns (forget_row r) = patterns_degraded w urns r"
  "zero_coverage w urns (forget_row r) = zero_coverage w urns r"
  unfolding matched_urns_def patterns_degraded_def zero_coverage_def recipe_forget candidates_forget forget_row_simps by (rule refl)+

lemma matching_same:
  assumes "same_answers w w2"
  shows "matched_urns w2 = matched_urns w" "patterns_degraded w2 = patterns_degraded w" "zero_coverage w2 = zero_coverage w"
  by (simp_all add: fun_eq_iff matched_urns_def patterns_degraded_def zero_coverage_def matcher_failed_def same_answers_eq [OF assms])

lemma same_rows_ball: "same_rows rows rows' \<Longrightarrow> (\<And>r. P (forget_row r) = P r) \<Longrightarrow> (\<forall>r \<in> set rows. P r) = (\<forall>r \<in> set rows'. P r)"
proof -
  assume same: "same_rows rows rows'" and P: "\<And>r. P (forget_row r) = P r"
  then have "(\<forall>r \<in> forget_row ` set rows. P r) = (\<forall>r \<in> forget_row ` set rows'. P r)" by (metis list.set_map same_rows_def)
  then show ?thesis by (simp add: P)
qed

lemma find_same:
  "(\<And>r. P (forget_row r) = P r) \<Longrightarrow> find P (map forget_row rows) = map_option forget_row (find P rows)"
  by (induction rows) simp_all

lemma pipeline_links_same:
  assumes "same_rows rows rows'"
  shows "pipeline_links rows ps = pipeline_links rows' ps"
proof -
  have reg: "regular_urn (map forget_row rows) i = regular_urn rows i" for rows i
    unfolding regular_urn_def by (subst find_same) (simp_all split: option.split)
  have nm: "pipeline_name_of (map forget_row rows) (forget_row r) = pipeline_name_of rows r" for rows r
    by (simp add: pipeline_name_of_def reg split: mode.split option.split)
  have "pipeline_sources (map forget_row rows) n = pipeline_sources rows n" for rows n
    by (simp add: pipeline_sources_def filter_map o_def nm)
  then have "pipeline_links (map forget_row rows) ps = pipeline_links rows ps" for rows
    by (simp add: pipeline_links_def cong: option.case_cong)
  then show ?thesis using assms by (metis same_rows_def)
qed

lemma evidence_same:
  assumes "same_answers w w2" "same_maps ms2 ms" "same_rows rows2 rows"
  shows "evidence_pass w2 rows2 ms2 obs = evidence_pass w rows ms obs"
proof -
  have "mirror_execution_requests w2 = mirror_execution_requests w" by (simp add: fun_eq_iff mirror_executions_same [OF assms(1)])
  moreover have "observe_passive w2 ms2 = observe_passive w ms" by (simp add: fun_eq_iff observe_passive_same [OF assms(1,2)])
  moreover have "fold (mirror_execution_requests w) rows2 obs = fold (mirror_execution_requests w) rows obs"
    by (rule same_rows_fold [OF assms(3)]) (simp add: fun_eq_iff mirror_execution_requests_def split: option.split)
  moreover have "fold (observe_passive w ms) rows2 obs' = fold (observe_passive w ms) rows obs'" for obs'
    by (rule same_rows_fold [OF assms(3)]) (simp add: fun_eq_iff observe_passive_def)
  ultimately show ?thesis by (simp add: evidence_pass_def)
qed

lemma evidence_settles: "evidence_pass w rows ms (evidence_pass w rows ms obs @ later) = evidence_pass w rows ms obs @ later"
proof -
  let ?o1 = "fold (mirror_execution_requests w) rows obs"
  obtain a where a: "evidence_pass w rows ms obs = ?o1 @ a"
    using passive_recorder.fold_appends unfolding evidence_pass_def by blast
  have "fold (mirror_execution_requests w) rows (evidence_pass w rows ms obs @ later) = evidence_pass w rows ms obs @ later"
    using execution_recorder.fold_settles [of w rows obs "a @ later"] unfolding a by simp
  then show ?thesis
    unfolding evidence_pass_def [of w rows ms "evidence_pass w rows ms obs @ later"]
    by (simp add: evidence_pass_def passive_recorder.fold_settles)
qed

text \<open>C38. The sweep is idempotent. Take a sweep that ends well on sound tables, where DataHub named each source and each dataset
  once and every new row got an identifier of its own. A later sweep to which DataHub answers the same also ends well. It reports
  the same mirrored sources, refreshed attributes and degraded or uncovered sources, and counts nothing else: no source removed, no
  dataset mapped, no pipeline linked, no event mirrored or observed, no registry row inserted or flipped. The tables, the registry
  and the booked evidence are as the first sweep left them, apart from time stamps.\<close>

theorem sweep_idempotent:
  assumes "sound_sources (ss_db s)" "sweep_answers_ok w s" "run_sweep w s = (Inr sm, s')" "same_answers w w2"
  shows "\<exists>s''. run_sweep w2 s' = (Inr (nothing_new sm), s'') \<and> unstamped s'' = unstamped s'"
proof -
  obtain sr db1 urns obs2 obs3 where 1: "sync_sources w (ss_db s) = (Inr sr, db1)" "sw_datasets w = Some urns"
      "urns = [] \<or> sw_pipelines w \<noteq> None"
      "obs2 = evidence_pass w (sources db1) (sweep_mappings w urns db1) (ss_observed s)"
      "observe_last_ingested w (sources db1) (sweep_mappings w urns db1) obs2 = Inr obs3"
      "sm = sweep_counts w urns db1 (ss_registry s) sr (length obs2 - length (ss_observed s), length obs3 - length obs2)"
      "s' = s\<lparr>ss_db := db1\<lparr>mappings := sweep_mappings w urns db1\<rparr>, ss_registry := sweep_registry w urns (ss_registry s), ss_observed := obs3\<rparr>"
    using assms(3) unfolding sweep_success by blast
  note eqs = same_answers_eq [OF assms(4)]
  let ?db = "ss_db s'" and ?ms = "sweep_mappings w urns db1" and ?reg = "sweep_registry w urns (ss_registry s)"
  have db: "?db = db1\<lparr>mappings := ?ms\<rparr>" using 1(7) by simp
  have ans: "sources_answer_ok w (ss_db s)" using assms(2) by (simp add: sweep_answers_ok_def)
  have "sync_sources w (ss_db s) = (Inr (fst sr, snd sr), db1)" using 1(1) by simp
  note mir = sync_sources_settles [OF this assms(1) ans]
  have set1: "sources_settled w ?db" "fst sr = mirrored_count w ?db" "distinct_ids db1"
  proof -
    have man: "managed_rows u ?db = managed_rows u db1" for u by (simp add: db managed_rows_def)
    then have "row_id ?db = row_id db1" by (simp add: fun_eq_iff row_id_def)
    then have par: "parents_in ?db = parents_in db1" by (simp add: fun_eq_iff parents_in_def)
    have "as_written w ?db = as_written w db1" by (simp add: fun_eq_iff as_written_def written_def man)
    moreover have "stale_rows us ?db = stale_rows us db1" for us by (simp add: db stale_rows_def)
    moreover have "distinct_ids ?db = distinct_ids db1" by (simp add: db distinct_ids_def)
    ultimately have "sources_settled w ?db = sources_settled w db1" by (simp add: sources_settled_def par)
    with mir show "sources_settled w ?db" "distinct_ids db1" by simp_all
    show "fst sr = mirrored_count w ?db" using mir(2) by (simp only: mirrored_count_def par)
  qed
  obtain db2 where db2: "sync_sources w2 ?db = (Inr (mirrored_count w ?db, 0), db2)" "same_rows (sources db2) (sources db1)"
      "mappings db2 = ?ms" "ingestion_db.events db2 = ingestion_db.events db1"
    using sync_sources_settled [OF set1(1) eqs(4,1)] by (auto simp: db)
  let ?rows = "sources db1" and ?rows2 = "sources db2"
  have "\<forall>r \<in> set ?rows. mapping_settled w urns ?ms r"
    unfolding sweep_mappings_def using map_sources_settles set1(3) link_pipelines_keeps by (auto simp: distinct_ids_def)
  then have "\<forall>r \<in> set ?rows2. mapping_settled w2 urns ?ms r"
    by (subst same_rows_ball [OF db2(2)]) (simp_all add: mapping_settled_def matching_same [OF assms(4)])
  then obtain ms1 where ms1: "map_sources w2 urns ?rows2 (0, ?ms) = (0, ms1)" "same_maps ms1 ?ms"
    using map_sources_settled by blast
  have links: "links_of w2 urns ?rows2 = links_of w urns ?rows"
    by (simp add: links_of_def eqs pipeline_links_same [OF db2(2)] cong: option.case_cong)
  have "linked ms1 p" if "p \<in> set (links_of w urns ?rows)" for p
    using link_pipelines_settles [OF that] linked_same [OF ms1(2)] by (simp add: sweep_mappings_def)
  then obtain ms2 where ms2: "link_pipelines (sw_now w2) (links_of w urns ?rows) ms1 = (0, ms2)" "same_maps ms2 ms1"
    using link_pipelines_settled by blast
  have new: "sweep_mappings w2 urns db2 = ms2"
    unfolding sweep_mappings_def [of w2 urns db2] db2(3) links ms1(1) using ms2(1) by (simp add: link_pipelines_def)
  have same: "same_maps ms2 ?ms" using ms1(2) ms2(2) same_maps_trans by blast
  have reg: "registry_settled w2 urns ?reg"
    using registry_settles [of w urns "ss_registry s"] assms(2)
    by (simp add: registry_settled_def eqs sweep_registry_def sweep_answers_ok_def)
  obtain late where late: "obs3 = obs2 @ late" using observe_last_appends [OF 1(5)] by blast
  have ev: "evidence_pass w2 ?rows2 ms2 obs3 = obs3"
    unfolding evidence_same [OF assms(4) same db2(2)] late 1(4) by (rule evidence_settles)
  have last: "observe_last_ingested w2 ?rows2 ms2 obs3 = Inr obs3"
    unfolding observe_last_same [OF assms(4) same db2(2)] by (rule observe_last_settles [OF 1(5)])
  let ?s'' = "s'\<lparr>ss_db := db2\<lparr>mappings := ms2\<rparr>\<rparr>"
  have cnt: "nothing_new sm = sweep_counts w2 urns db2 ?reg (mirrored_count w ?db, 0) (0, 0)"
  proof -
    have len: "length (filter P ?rows2) = length (filter P ?rows)" if P: "\<And>r. P (forget_row r) = P r" for P
    proof -
      have "same_rows (filter P ?rows2) (filter P ?rows)" by (rule same_rows_filter [OF db2(2)]) (rule P)
      then show ?thesis by (metis length_map same_rows_def)
    qed
    have "fst (sync_dataset_attributes w2 ?reg) = fst (sync_dataset_attributes w (snd (registry_step_of w urns (ss_registry s))))"
      by (simp add: sync_dataset_attributes_def upsert_dataset_attributes_def Let_def eqs split: option.split)
    then show ?thesis
      using set1(2) by (simp add: nothing_new_def 1(6) sweep_counts_def ms1(1) ms2(1) db2(3) links matching_same [OF assms(4)] len
          registry_settled_step(1) [OF reg])
  qed
  have "run_sweep w2 s' = (Inr (nothing_new sm), ?s'')"
    unfolding sweep_success
  proof (intro exI conjI)
    show "sync_sources w2 (ss_db s') = (Inr (mirrored_count w ?db, 0), db2)" by (rule db2(1))
    show "sw_datasets w2 = Some urns" "urns = [] \<or> sw_pipelines w2 \<noteq> None" using 1(2,3) by (simp_all add: eqs)
    show "obs3 = evidence_pass w2 ?rows2 (sweep_mappings w2 urns db2) (ss_observed s')" by (simp add: new ev 1(7))
    show "observe_last_ingested w2 ?rows2 (sweep_mappings w2 urns db2) obs3 = Inr obs3" by (simp add: new last)
    show "nothing_new sm = sweep_counts w2 urns db2 (ss_registry s') (mirrored_count w ?db, 0)
        (length obs3 - length (ss_observed s'), length obs3 - length obs3)"
      using cnt by (simp add: 1(7))
    show "?s'' = s'\<lparr>ss_db := db2\<lparr>mappings := sweep_mappings w2 urns db2\<rparr>, ss_registry := sweep_registry w2 urns (ss_registry s'),
        ss_observed := obs3\<rparr>"
      using registry_settled_step [OF reg] by (simp add: new 1(7) sweep_registry_def)
  qed
  moreover have "unstamped ?s'' = unstamped s'"
    using db2(2,4) same by (simp add: unstamped_def db same_rows_def same_maps_def)
  ultimately show ?thesis by blast
qed

end
