(* ===== verification/Ingestion_Sweep_Safety.thy ===== *)
theory Ingestion_Sweep_Safety
  imports Ingestion_Sweep_Properties
begin

text \<open>
  What no sweep touches, however it ends: the sources users made, the mappings a run recorded, the mappings of a source whose
  patterns could not be evaluated, and the evidence already booked.
\<close>

section \<open>The tables after step 1\<close>


lemma nonempty_Some [simp]: "nonempty (Some u) = (if u = [] then None else Some u)"
  by (simp add: nonempty_def)






section \<open>The mappings\<close>























section \<open>The evidence\<close>












section \<open>Every sweep\<close>




end
