(* ===== verification/Ingestion_Sweep_Example.thy ===== *)
theory Ingestion_Sweep_Example
  imports Ingestion_Sweep_Safety Recipe_Matcher
begin

text \<open>
  One sweep run out: the answers DataHub gives, the tables before, and that the two theorems on the sweep apply to it.
\<close>

section \<open>A sweep run out\<close>

text \<open>DataHub reports a Kafka source with its CLI wrapper and one dataset its pattern selects; an execution is booked on the
  wrapper; a row mirrored earlier is gone. The second sweep runs two seconds later.\<close>

definition sample_dataset :: string where
  "sample_dataset = ''urn:li:dataset:(urn:li:dataPlatform:postgres,db.s.t,PROD)''"

definition sample_wrapper :: dh_source where
  "sample_wrapper = \<lparr>ds_urn = ''src:w'', ds_name = None, ds_executor = Some ''__datahub_cli_'', ds_recipe = ''W'', ds_interval = None\<rparr>"

definition sample_source :: dh_source where
  "sample_source = \<lparr>ds_urn = ''src:a'', ds_name = Some ''pg'', ds_executor = None, ds_recipe = ''A'', ds_interval = Some ''@daily''\<rparr>"

definition sample_world :: sweep_world where
  "sample_world = \<lparr>sw_clock = 5000000, sw_now = 5, sw_new_id = (\<lambda>u. if u = ''src:a'' then 11 else 12),
     sw_json = (\<lambda>t. if t = ''A'' then Some sample_matched else Some (JObj [(''pipeline_name'', JStr ''src:a'')])),
     sw_sdk = sample_sdk, sw_match_raises = (\<lambda>_ _. False),
     sw_sources = Some [sample_wrapper, sample_source],
     sw_datasets = Some [sample_dataset], sw_reconcile_ok = True,
     sw_attributes = Some [(sample_dataset, \<lparr>ar_tags = [''urn:li:tag:pii''], ar_terms = [], ar_primary = True\<rparr>)], sw_upsert_ok = True,
     sw_pipelines = Some [(sample_dataset, Some ''src:a'')],
     sw_executions = (\<lambda>u. if u = ''src:w'' then Some [\<lparr>xr_urn = ''urn:li:x:1'', xr_status = ''SUCCESS'', xr_start = JInt 3,
       xr_requested = JNull, xr_duration = JInt 7\<rparr>] else Some []),
     sw_operations = (\<lambda>_. None), sw_last = Last_values [(sample_dataset, JInt 4)], sw_observe_ok = (\<lambda>_. True)\<rparr>"

definition gone_row :: ingestion_source where
  "gone_row = managed_row\<lparr>datahub_source_urn := Some ''src:gone''\<rparr>"

definition sample_tables :: sweep_state where
  "sample_tables = \<lparr>ss_db = \<lparr>sources = [gone_row], mappings = [], events = []\<rparr>, ss_registry = [], ss_observed = []\<rparr>"

definition later_world :: sweep_world where
  "later_world = sample_world\<lparr>sw_now := 7, sw_clock := 7000000\<rparr>"

lemma sample_tables_sound: "sound_sources (ss_db sample_tables)"
  by (auto simp: sample_tables_def gone_row_def managed_row_def sound_sources_def keys_sound_def rows_sound_def)

lemma sample_answers: "sweep_answers_ok sample_world sample_tables"
  by (auto simp: sweep_answers_ok_def sources_answer_ok_def id_unused_def sample_world_def sample_wrapper_def sample_source_def sample_tables_def gone_row_def managed_row_def
      inj_on_def)

lemma sample_later: "same_answers sample_world later_world"
  by (auto simp: same_answers_def later_world_def sample_world_def execution_instant_def accept_instant_def OBSERVED_AT_MAX_SKEW_def
      split: if_splits)

definition wrapper_recipe :: jdict where
  "wrapper_recipe = [(''pipeline_name'', JStr ''src:a'')]"

definition source_recipe :: jdict where
  "source_recipe = (case sample_matched of JObj d \<Rightarrow> d | _ \<Rightarrow> [])"

lemma sample_kinds: "is_wrapper_source sample_wrapper" "\<not> is_wrapper_source sample_source"
  by code_simp+

lemma sample_masked: "mask_recipe_secrets wrapper_recipe = Inr wrapper_recipe" "mask_recipe_secrets source_recipe = Inr source_recipe"
  by code_simp+

lemma sample_recipes: "parse_recipe_str_safe (sw_json sample_world) (ds_recipe sample_wrapper) = wrapper_recipe"
  "parse_recipe_str_safe (sw_json sample_world) (ds_recipe sample_source) = source_recipe"
  by (simp_all add: parse_recipe_str_safe_def sample_world_def sample_wrapper_def sample_source_def wrapper_recipe_def source_recipe_def sample_matched_def)

definition sample_row :: ingestion_source where
  "sample_row = mirror_fields sample_world sample_source None source_recipe (blank_row sample_world ''src:a'')"

definition sample_wrapper_row :: ingestion_source where
  "sample_wrapper_row = mirror_fields sample_world sample_wrapper (Some 11) wrapper_recipe (blank_row sample_world ''src:w'')"

lemma sample_urns: "ds_urn sample_wrapper = ''src:w''" "ds_urn sample_source = ''src:a''" "sw_sources sample_world = Some [sample_wrapper, sample_source]"
  by (simp_all add: sample_wrapper_def sample_source_def sample_world_def)

lemma sample_row_ids: "src_id sample_row = 11" "datahub_source_urn sample_row = Some ''src:a''" "src_mode sample_row = DATAHUB_MANAGED" "parent_source_id sample_row = None"
  "src_id sample_wrapper_row = 12" "datahub_source_urn sample_wrapper_row = Some ''src:w''" "src_mode sample_wrapper_row = DATAHUB_MANAGED" "parent_source_id sample_wrapper_row = Some 11"
  by (simp_all add: sample_row_def sample_wrapper_row_def blank_row_def sample_world_def)

lemma sample_upsert_source: "upsert_managed_row sample_world sample_source None (ss_db sample_tables) = Inr (11, add_source sample_row (ss_db sample_tables))"
  using sample_row_ids(1) by (simp add: upsert_managed_row_def sample_recipes sample_masked sample_urns managed_rows_def sample_tables_def gone_row_def sample_row_def Let_def)

lemma sample_upsert_wrapper: "upsert_managed_row sample_world sample_wrapper (Some 11) (add_source sample_row (ss_db sample_tables)) =
   Inr (12, add_source sample_wrapper_row (add_source sample_row (ss_db sample_tables)))"
  using sample_row_ids by (simp add: upsert_managed_row_def sample_recipes sample_masked sample_urns managed_rows_def sample_tables_def gone_row_def sample_wrapper_row_def[symmetric] Let_def add_source_def)

lemma sample_wrapper_parent: "wrapper_parent sample_world [(''src:a'', 11)] sample_wrapper = Inr (Some 11)"
  by (simp add: wrapper_parent_def sample_recipes wrapper_recipe_def dict_get_def)

lemma sample_stale:
  "stale_rows [''src:w'', ''src:a''] (add_source sample_wrapper_row (add_source sample_row (ss_db sample_tables))) = [gone_row]"
  using sample_row_ids by (simp add: stale_rows_def add_source_def sample_tables_def gone_row_def managed_row_def)

lemma sample_sync:
  "\<exists>db. sync_sources sample_world (ss_db sample_tables) = (Inr (2, 1), db)"
  by (simp add: sync_sources_def sample_urns pass_a_step pass_b_step regular_source_def sample_kinds sample_upsert_source
      sample_upsert_wrapper sample_wrapper_parent sample_stale)

lemma sample_sweeps:
  "\<exists>sm s'. run_sweep sample_world sample_tables = (Inr sm, s') \<and> sy_sources_synced sm = 2 \<and> sy_sources_removed sm = 1"
proof -
  obtain db where db: "sync_sources sample_world (ss_db sample_tables) = (Inr (2, 1), db)" using sample_sync by blast
  have counts: "sy_sources_synced (sweep_counts w us d rs (2, 1) os) = 2 \<and> sy_sources_removed (sweep_counts w us d rs (2, 1) os) = 1"
    for w us d rs os by (simp add: sweep_counts_def)
  let ?ms = "sweep_mappings sample_world [sample_dataset] db" and ?rows = "sources db"
  have "\<exists>obs. observe_last_ingested sample_world ?rows ?ms (evidence_pass sample_world ?rows ?ms []) = Inr obs"
    by (simp add: observe_last_ingested_def sample_world_def)
  then obtain obs where "observe_last_ingested sample_world ?rows ?ms (evidence_pass sample_world ?rows ?ms []) = Inr obs" by blast
  moreover have "sw_datasets sample_world = Some [sample_dataset]" "sw_pipelines sample_world \<noteq> None" "ss_observed sample_tables = []"
    by (simp_all add: sample_world_def sample_tables_def)
  ultimately have "run_sweep sample_world sample_tables =
     (Inr (sweep_counts sample_world [sample_dataset] db (ss_registry sample_tables) (2, 1)
        (length (evidence_pass sample_world ?rows ?ms []) - 0, length obs - length (evidence_pass sample_world ?rows ?ms []))),
      sample_tables\<lparr>ss_db := db\<lparr>mappings := ?ms\<rparr>, ss_registry := sweep_registry sample_world [sample_dataset] (ss_registry sample_tables),
        ss_observed := obs\<rparr>)"
    unfolding sweep_success using db by (intro exI [of _ "(2, 1)"] exI [of _ db] exI [of _ "[sample_dataset]"]
      exI [of _ "evidence_pass sample_world ?rows ?ms []"] exI [of _ obs]) simp
  then show ?thesis by (metis counts)
qed

text \<open>Two inputs the code does not take as meant: the name of a dataset is cut at its own comma, and a list under
  \<open>pipeline_name\<close> raises.\<close>

lemma comma_in_name:
  "name_from_dataset_urn ''urn:li:dataset:(urn:li:dataPlatform:s3,bucket/a,b.csv,PROD)'' = Some ''b.csv''"
  by code_simp

lemma unhashable_parent:
  assumes "parse_recipe_str_safe (sw_json w) (ds_recipe s) = [(''pipeline_name'', JList [JNull])]"
  shows "wrapper_parent w ps s = Inl (UncaughtError ''TypeError'')"
  by (simp add: wrapper_parent_def assms dict_get_def)

theorem sweep_idempotent_witness:
  "\<exists>sm s' s''. run_sweep sample_world sample_tables = (Inr sm, s') \<and> sy_sources_synced sm = 2 \<and> sy_sources_removed sm = 1 \<and>
     run_sweep later_world s' = (Inr (nothing_new sm), s'') \<and> unstamped s'' = unstamped s'"
proof -
  obtain sm s' where s': "run_sweep sample_world sample_tables = (Inr sm, s')" "sy_sources_synced sm = 2" "sy_sources_removed sm = 1"
    using sample_sweeps by blast
  from sweep_idempotent [OF sample_tables_sound sample_answers s'(1) sample_later] s' show ?thesis by blast
qed


end
