(* ===== verification/Ingestion_Extractor.thy ===== *)
theory Ingestion_Extractor
  imports Recipe
begin

text \<open>
  \<open>src/backend/ingestion/extractors.py\<close>: the dispatch on \<open>source.type\<close> and the PostgreSQL extractor. The database, the URN
  builders and \<open>AllowDenyPattern\<close> of the DataHub SDK, and whether DataHub accepts an aspect are fields of the environment; the
  aspects DataHub accepted are the log an extractor returns.
\<close>

section \<open>Aspects\<close>

datatype datahub_type = NumberType | BooleanType | StringType | DateType | TimeType | BytesType | ArrayType

definition PG_TO_DATAHUB_TYPE :: "(string \<times> datahub_type) list" where
  "PG_TO_DATAHUB_TYPE =
     [(''integer'', NumberType), (''bigint'', NumberType), (''smallint'', NumberType), (''numeric'', NumberType), (''real'', NumberType),
      (''double precision'', NumberType), (''boolean'', BooleanType), (''text'', StringType), (''character varying'', StringType),
      (''character'', StringType), (''varchar'', StringType), (''char'', StringType), (''date'', DateType),
      (''timestamp with time zone'', TimeType), (''timestamp without time zone'', TimeType), (''time with time zone'', TimeType),
      (''time without time zone'', TimeType), (''jsonb'', StringType), (''json'', StringType), (''uuid'', StringType), (''bytea'', BytesType),
      (''ARRAY'', ArrayType)]"

record pg_schema_field =
  sf_path :: string
  sf_native :: string
  sf_type :: datahub_type
  sf_nullable :: bool
  sf_description :: "string option"

datatype container_key = Database_key string string | Schema_key string string string

datatype pg_aspect =
    Container_aspect container_key nat
  | Status_aspect
  | Container_of container_key
  | Browse_path container_key container_key
  | Properties_aspect string string string jdict
  | Schema_aspect string "pg_schema_field list"

type_synonym emitted_log = "(string \<times> pg_aspect) list"

section \<open>The database and the SDK\<close>

record pg_column =
  pg_schema :: string
  pg_table :: string
  pg_name :: string
  pg_type :: string
  pg_nullable :: string
  pg_comment :: "string option"
  pg_table_comment :: "string option"

datatype pg_answer = Connection_failed string | Fetch_raises | Columns "pg_column list"

text \<open>
  \<open>gen_containers\<close> answers with the URNs of the aspects of a container, in order. Three calls of the SDK may raise: the test of
  a schema against the patterns, for one that does not compile; the key of the database; and the URN of a table.
\<close>

record extract_env =
  ex_connect :: "json \<Rightarrow> int \<Rightarrow> json \<Rightarrow> json \<Rightarrow> json \<Rightarrow> pg_answer"
  ex_sdk :: sdk
  ex_units :: "container_key \<Rightarrow> string list"
  ex_dataset_urn :: "string \<Rightarrow> string \<Rightarrow> string \<Rightarrow> string"
  ex_allowed_raises :: "json \<Rightarrow> json \<Rightarrow> string \<Rightarrow> bool"
  ex_key_raises :: "json \<Rightarrow> string \<Rightarrow> bool"
  ex_urn_raises :: "string \<Rightarrow> string \<Rightarrow> string \<Rightarrow> bool"
  ex_accepts :: "string \<Rightarrow> pg_aspect \<Rightarrow> bool"
  ex_str :: "json \<Rightarrow> string"

record extraction_result =
  xt_discovered :: "string list"
  xt_emitted :: "string list"
  xt_errors :: "string list"
  xt_warnings :: "string list"

section \<open>Configuration\<close>

definition parse_env_from_config :: "jdict \<Rightarrow> string \<Rightarrow> string" where
  "parse_env_from_config config default_env =
     (case dict_get_or config ''env'' (JStr default_env) of JStr env \<Rightarrow> env | _ \<Rightarrow> default_env)"

text \<open>\<open>int(s)\<close>: white space around an optional sign and digits, with single underscores between digits.\<close>

fun digits_value :: "nat \<Rightarrow> string \<Rightarrow> nat option" where
  "digits_value acc [] = Some acc"
| "digits_value acc (c # cs) =
     (if is_digit c then digits_value (10 * acc + digit_val c) cs
      else if c = CHR ''_'' \<and> cs \<noteq> [] \<and> is_digit (hd cs) then digits_value acc cs else None)"

definition unsigned_value :: "string \<Rightarrow> int option" where
  "unsigned_value s = (if s \<noteq> [] \<and> is_digit (hd s) then map_option int (digits_value 0 s) else None)"

definition py_int :: "string \<Rightarrow> int option" where
  "py_int s = (case py_strip s of
      [] \<Rightarrow> None
    | c # cs \<Rightarrow> if c = CHR ''-'' then map_option uminus (unsigned_value cs) else if c = CHR ''+'' then unsigned_value cs
        else unsigned_value (c # cs))"

text \<open>\<open>host_port.rsplit(":", 1)\<close>.\<close>

definition host_and_port :: "string \<Rightarrow> string \<times> int" where
  "host_and_port hp =
     (if CHR '':'' \<in> set hp
      then (rev (drop 1 (dropWhile (\<lambda>c. c \<noteq> CHR '':'') (rev hp))),
            case py_int (rev (takeWhile (\<lambda>c. c \<noteq> CHR '':'') (rev hp))) of Some p \<Rightarrow> p | None \<Rightarrow> 5432)
      else (hp, 5432))"

text \<open>The membership test on \<open>host_port\<close> raises for a value that is not a container.\<close>

definition connection_target :: "jdict \<Rightarrow> (string, json \<times> int) result" where
  "connection_target config = (case dict_get_or config ''host_port'' (JStr ''localhost:5432'') of
      JStr hp \<Rightarrow> (case host_and_port hp of (h, p) \<Rightarrow> Inr (JStr h, p))
    | JList js \<Rightarrow> if JStr '':'' \<in> set js then Inl ''AttributeError'' else Inr (JList js, 5432)
    | JObj kvs \<Rightarrow> if '':'' \<in> fst ` set kvs then Inl ''AttributeError'' else Inr (JObj kvs, 5432)
    | _ \<Rightarrow> Inl ''TypeError'')"

text \<open>The schemas a pattern allows; a pattern that is not a dict allows all. An \<open>ImportError\<close> of the SDK leaves
  nothing filtered; any other exception of the import propagates. No answer for a schema is an exception of \<open>allowed\<close>.\<close>

definition schema_filter :: "extract_env \<Rightarrow> jdict \<Rightarrow> (string, string \<Rightarrow> bool option) result" where
  "schema_filter env config =
     (let (allow, deny) = (case map_of config ''schema_pattern'' of
            Some (JObj sp) \<Rightarrow> (dict_get_or sp ''allow'' (JList [JStr ''.*'']), dict_get_or sp ''deny'' (JList []))
          | _ \<Rightarrow> (JList [JStr ''.*''], JList []))
      in case importing (ex_sdk env) of
           ImportFails \<Rightarrow> Inr (\<lambda>_. Some True)
         | ImportRaises \<Rightarrow> Inl ''import''
         | Imported \<Rightarrow>
             (case allow_deny_pattern (ex_sdk env) allow deny of
                Some p \<Rightarrow> Inr (\<lambda>schema. if ex_allowed_raises env allow deny schema then None else Some (p schema))
              | None \<Rightarrow> Inl ''ValidationError''))"

section \<open>Tables\<close>

type_synonym pg_tables = "((string \<times> string) \<times> pg_column list) list"

definition table_key :: "pg_column \<Rightarrow> string \<times> string" where
  "table_key c = (pg_schema c, pg_table c)"

definition add_column :: "(string \<Rightarrow> bool) \<Rightarrow> pg_column \<Rightarrow> pg_tables \<Rightarrow> pg_tables" where
  "add_column allowed c ts =
     (let k = table_key c in
      if \<not> allowed (pg_schema c) then ts
      else if k \<in> fst ` set ts then map (\<lambda>(k', cs). (k', if k' = k then cs @ [c] else cs)) ts
      else ts @ [(k, [c])])"

definition group_tables :: "(string \<Rightarrow> bool) \<Rightarrow> pg_column list \<Rightarrow> pg_tables" where
  "group_tables allowed cs = fold (add_column allowed) cs []"

definition table_name_of :: "string \<Rightarrow> string \<times> string \<Rightarrow> string" where
  "table_name_of database k = database @ ''.'' @ fst k @ ''.'' @ snd k"

definition field_of :: "pg_column \<Rightarrow> pg_schema_field" where
  "field_of c = \<lparr>sf_path = pg_name c, sf_native = pg_type c,
     sf_type = (case map_of PG_TO_DATAHUB_TYPE (pg_type c) of Some t \<Rightarrow> t | None \<Rightarrow> StringType),
     sf_nullable = (pg_nullable c = ''YES''), sf_description = pg_comment c\<rparr>"

definition table_description :: "string \<Rightarrow> pg_column list \<Rightarrow> string" where
  "table_description dataset_name cs =
     (case (case cs of [] \<Rightarrow> None | c # _ \<Rightarrow> pg_table_comment c) of
        Some t \<Rightarrow> if t = [] then ''Ingested by DataSpoke: '' @ dataset_name else t
      | None \<Rightarrow> ''Ingested by DataSpoke: '' @ dataset_name)"

section \<open>Emission\<close>

text \<open>Containers are emitted one by one, a failure leaving the rest to be tried.\<close>

definition emit_unit :: "extract_env \<Rightarrow> container_key \<Rightarrow> nat \<times> string \<Rightarrow> emitted_log \<Rightarrow> emitted_log" where
  "emit_unit env k p out =
     (if snd p = [] \<or> \<not> ex_accepts env (snd p) (Container_aspect k (fst p)) then out
      else out @ [(snd p, Container_aspect k (fst p))])"

definition emit_container :: "extract_env \<Rightarrow> container_key \<Rightarrow> emitted_log \<Rightarrow> emitted_log" where
  "emit_container env k out = fold (emit_unit env k) (enumerate 0 (ex_units env k)) out"

text \<open>The aspects of a dataset stop at the first that fails.\<close>

fun emit_all :: "extract_env \<Rightarrow> string \<Rightarrow> pg_aspect list \<Rightarrow> emitted_log \<Rightarrow> bool \<times> emitted_log" where
  "emit_all env u [] out = (True, out)"
| "emit_all env u (a # as) out = (if ex_accepts env u a then emit_all env u as (out @ [(u, a)]) else (False, out))"

definition dataset_aspects :: "string \<Rightarrow> string \<Rightarrow> string \<Rightarrow> string \<times> string \<Rightarrow> pg_column list \<Rightarrow> pg_aspect list" where
  "dataset_aspects source_id database fabric k cs =
     (let dbk = Database_key database fabric; sk = Schema_key database (fst k) fabric; dn = table_name_of database k; sn = fst k @ ''.'' @ snd k in
      [Status_aspect, Container_of sk, Browse_path dbk sk,
       Properties_aspect sn dn (table_description dn cs)
         [(''source'', JStr ''dataspoke-ingestion''), (''source_id'', JStr source_id), (''database'', JStr database), (''schema'', JStr (fst k))],
       Schema_aspect sn (map field_of cs)])"

record crawl =
  cw_out :: emitted_log
  cw_schemas :: "string list"
  cw_emitted :: "string list"
  cw_errors :: "string list"

definition crawl_table ::
  "extract_env \<Rightarrow> string \<Rightarrow> string \<Rightarrow> string \<Rightarrow> (string \<times> string) \<times> pg_column list \<Rightarrow> crawl \<Rightarrow> crawl" where
  "crawl_table env source_id database fabric = (\<lambda>(k, cs) cw.
     (let new_schema = fst k \<notin> set (cw_schemas cw);
          out1 = (if new_schema then emit_container env (Schema_key database (fst k) fabric) (cw_out cw) else cw_out cw);
          u = ex_dataset_urn env ''postgres'' (table_name_of database k) fabric;
          (ok, out2) = emit_all env u (dataset_aspects source_id database fabric k cs) out1
      in \<lparr>cw_out = out2, cw_schemas = (if new_schema then cw_schemas cw @ [fst k] else cw_schemas cw),
          cw_emitted = (if ok then cw_emitted cw @ [u] else cw_emitted cw),
          cw_errors = (if ok then cw_errors cw else cw_errors cw @ [''Failed to emit aspects for '' @ table_name_of database k])\<rparr>))"

definition crawl_tables :: "extract_env \<Rightarrow> string \<Rightarrow> string \<Rightarrow> string \<Rightarrow> pg_tables \<Rightarrow> crawl" where
  "crawl_tables env source_id database fabric ts =
     fold (crawl_table env source_id database fabric) ts
       \<lparr>cw_out = emit_container env (Database_key database fabric) [], cw_schemas = [], cw_emitted = [], cw_errors = []\<rparr>"

definition nothing_found :: "string list \<Rightarrow> string list \<Rightarrow> extraction_result" where
  "nothing_found errs warns = \<lparr>xt_discovered = [], xt_emitted = [], xt_errors = errs, xt_warnings = warns\<rparr>"

definition config_text :: "extract_env \<Rightarrow> json \<Rightarrow> string" where
  "config_text env v = (case v of JStr s \<Rightarrow> s | _ \<Rightarrow> ex_str env v)"

definition extract_postgres ::
  "extract_env \<Rightarrow> string \<Rightarrow> jdict \<Rightarrow> bool \<Rightarrow> string \<Rightarrow> (string, extraction_result) result \<times> emitted_log" where
  "extract_postgres env source_id config dry_run default_env =
     (case connection_target config of
        Inl e \<Rightarrow> (Inl e, [])
      | Inr (host, port) \<Rightarrow>
          (let fabric = parse_env_from_config config default_env; dbv = dict_get_or config ''database'' (JStr []); database = config_text env dbv in
           case schema_filter env config of
             Inl e \<Rightarrow> (Inl e, [])
           | Inr allowed \<Rightarrow>
               (case ex_connect env host port (dict_get_or config ''username'' (JStr [])) (dict_get_or config ''password'' (JStr [])) dbv of
                  Connection_failed e \<Rightarrow> (Inr (nothing_found [''PostgreSQL connection failed: '' @ e] []), [])
                | Fetch_raises \<Rightarrow> (Inl ''fetch'', [])
                | Columns cols \<Rightarrow>
                    if cols = [] then (Inr (nothing_found [] [''No columns found in database'']), [])
                    else if list_ex (\<lambda>c. allowed (pg_schema c) = None) cols then (Inl ''re.error'', [])
                    else (let ts = group_tables (\<lambda>schema. allowed schema = Some True) cols in
                      if ts = [] then (Inr (nothing_found [] [''No tables matched schema_pattern filter'']), [])
                      else if ex_key_raises env dbv fabric \<or> list_ex (\<lambda>t. ex_urn_raises env ''postgres'' (table_name_of database (fst t)) fabric) ts
                      then (Inl ''sdk'', [])
                      else (let discovered = map (\<lambda>t. ex_dataset_urn env ''postgres'' (table_name_of database (fst t)) fabric) ts in
                        if dry_run
                        then (Inr \<lparr>xt_discovered = discovered, xt_emitted = [], xt_errors = [], xt_warnings = []\<rparr>, [])
                        else (let cw = crawl_tables env source_id database fabric ts
                              in (Inr \<lparr>xt_discovered = discovered, xt_emitted = cw_emitted cw, xt_errors = cw_errors cw, xt_warnings = []\<rparr>,
                                  cw_out cw)))))))"

text \<open>\<open>recipe.get("source", {}).get("type", "")\<close>: a source that is no dict has no \<open>get\<close>, and a type that is a list or a dict
  cannot be looked up.\<close>

definition run_extractor ::
  "extract_env \<Rightarrow> string \<Rightarrow> jdict \<Rightarrow> bool \<Rightarrow> string \<Rightarrow> (string, extraction_result) result \<times> emitted_log" where
  "run_extractor env source_id recipe dry_run default_env =
     (case dict_get_or recipe ''source'' (JObj []) of
        JObj source \<Rightarrow>
          (case dict_get_or source ''type'' (JStr []) of
             JList _ \<Rightarrow> (Inl ''TypeError'', [])
           | JObj _ \<Rightarrow> (Inl ''TypeError'', [])
           | ty \<Rightarrow>
               if ty = JStr ''postgres''
               then (case dict_get_or source ''config'' (JObj []) of
                       JObj config \<Rightarrow> extract_postgres env source_id config dry_run default_env
                     | _ \<Rightarrow> (Inl ''AttributeError'', []))
               else (Inr (nothing_found [''No ACTIVE_CUSTOM_MANAGED extractor registered''] []), []))
      | _ \<Rightarrow> (Inl ''AttributeError'', []))"

section \<open>Grouping\<close>

text \<open>The tables are the distinct (schema, table) pairs of an allowed schema, each with its own columns in the order read.\<close>

definition grouped :: "(string \<Rightarrow> bool) \<Rightarrow> pg_column list \<Rightarrow> pg_tables \<Rightarrow> bool" where
  "grouped allowed cols ts \<longleftrightarrow> distinct (map fst ts) \<and>
     fst ` set ts = table_key ` {c \<in> set cols. allowed (pg_schema c)} \<and>
     (\<forall>t \<in> set ts. snd t = filter (\<lambda>c. table_key c = fst t) cols)"

lemma add_column_grouped:
  assumes "grouped allowed cols ts"
  shows "grouped allowed (cols @ [c]) (add_column allowed c ts)"
proof (cases "allowed (pg_schema c)")
  case False
  have "fst t \<noteq> table_key c" if "t \<in> set ts" for t
  proof -
    have "fst t \<in> table_key ` {c \<in> set cols. allowed (pg_schema c)}" using that assms by (auto simp: grouped_def)
    with False show ?thesis by (auto simp: table_key_def)
  qed
  moreover have "{d \<in> set (cols @ [c]). allowed (pg_schema d)} = {d \<in> set cols. allowed (pg_schema d)}" using False by auto
  ultimately show ?thesis using assms False by (fastforce simp: grouped_def add_column_def)
next
  case True
  let ?k = "table_key c"
  have allowed: "{d \<in> set (cols @ [c]). allowed (pg_schema d)} = insert c {d \<in> set cols. allowed (pg_schema d)}" using True by auto
  show ?thesis
  proof (cases "?k \<in> fst ` set ts")
    case old: True
    let ?ts = "map (\<lambda>(k', cs). (k', if k' = ?k then cs @ [c] else cs)) ts"
    have keys: "map fst ?ts = map fst ts" by (induction ts) auto
    then have "fst ` set ?ts = fst ` set ts" by (metis list.set_map)
    moreover have "snd t = filter (\<lambda>d. table_key d = fst t) (cols @ [c])" if "t \<in> set ?ts" for t
      using that assms by (auto simp: grouped_def)
    moreover have "distinct (map fst ?ts)" using keys assms by (simp only: grouped_def)
    moreover have "add_column allowed c ts = ?ts" using True old by (simp add: add_column_def)
    moreover have "table_key ` {d \<in> set (cols @ [c]). allowed (pg_schema d)} = fst ` set ts"
      using old assms unfolding allowed grouped_def by auto
    ultimately show ?thesis unfolding grouped_def by simp
  next
    case new: False
    have "table_key d \<noteq> ?k" if "d \<in> set cols" for d
    proof
      assume eq: "table_key d = ?k"
      then have "allowed (pg_schema d)" using True by (simp add: table_key_def)
      with that eq assms have "?k \<in> fst ` set ts" by (simp add: grouped_def) (metis (mono_tags, lifting) imageI mem_Collect_eq)
      with new show False by simp
    qed
    then have "filter (\<lambda>d. table_key d = ?k) cols = []" by (simp add: filter_empty_conv)
    moreover have "fst t \<noteq> ?k" if "t \<in> set ts" for t using that new by (metis imageI)
    ultimately show ?thesis using assms new True allowed unfolding grouped_def
      by (auto simp: add_column_def)
  qed
qed

lemma group_tables_grouped: "grouped allowed cols (group_tables allowed cols)"
proof -
  have "grouped allowed (pre @ cols) (fold (add_column allowed) cols ts)" if "grouped allowed pre ts" for pre ts
    using that
  proof (induction cols arbitrary: pre ts)
    case (Cons c cols)
    from Cons.IH [OF add_column_grouped [OF Cons.prems, of c]] show ?case by simp
  qed simp
  moreover have "grouped allowed [] []" by (simp add: grouped_def)
  ultimately show ?thesis unfolding group_tables_def by fastforce
qed

section \<open>What an extractor reports\<close>

text \<open>A dataset is reported as emitted exactly when DataHub accepted all its aspects, and there is an error for every other one.\<close>

definition fully_sent :: "emitted_log \<Rightarrow> string \<Rightarrow> pg_aspect list \<Rightarrow> bool" where
  "fully_sent out u as \<longleftrightarrow> (\<forall>a \<in> set as. (u, a) \<in> set out)"

lemma emit_all_sent: "emit_all env u as out = (ok, out') \<Longrightarrow>
    set out \<subseteq> set out' \<and> (ok \<longleftrightarrow> (\<forall>a \<in> set as. ex_accepts env u a)) \<and> (ok \<longrightarrow> fully_sent out' u as)"
proof (induction as arbitrary: out)
  case (Cons a as)
  show ?case
  proof (cases "ex_accepts env u a")
    case True
    with Cons.prems have "emit_all env u as (out @ [(u, a)]) = (ok, out')" by simp
    from Cons.IH [OF this] True show ?thesis by (auto simp: fully_sent_def)
  qed (use Cons.prems in auto)
qed (simp add: fully_sent_def)

lemma emit_container_grows: "set out \<subseteq> set (emit_container env k out)"
proof -
  have "set out \<subseteq> set (fold (emit_unit env k) us out)" for us
  proof (induction us arbitrary: out)
    case (Cons p us)
    have "set out \<subseteq> set (emit_unit env k p out)" by (auto simp: emit_unit_def)
    also note Cons.IH
    finally show ?case by simp
  qed simp
  then show ?thesis by (simp add: emit_container_def)
qed

definition crawled :: "extract_env \<Rightarrow> string \<Rightarrow> string \<Rightarrow> string \<Rightarrow> pg_tables \<Rightarrow> crawl \<Rightarrow> bool" where
  "crawled env source_id database fabric ts cw \<longleftrightarrow>
     cw_emitted cw = map (\<lambda>t. ex_dataset_urn env ''postgres'' (table_name_of database (fst t)) fabric)
       (filter (\<lambda>t. \<forall>a \<in> set (dataset_aspects source_id database fabric (fst t) (snd t)).
           ex_accepts env (ex_dataset_urn env ''postgres'' (table_name_of database (fst t)) fabric) a) ts) \<and>
     length (cw_errors cw) + length (cw_emitted cw) = length ts \<and>
     (\<forall>t \<in> set ts. (\<forall>a \<in> set (dataset_aspects source_id database fabric (fst t) (snd t)).
           ex_accepts env (ex_dataset_urn env ''postgres'' (table_name_of database (fst t)) fabric) a) \<longrightarrow>
         fully_sent (cw_out cw) (ex_dataset_urn env ''postgres'' (table_name_of database (fst t)) fabric)
           (dataset_aspects source_id database fabric (fst t) (snd t)))"

lemma fully_sent_mono: "fully_sent out u as \<Longrightarrow> set out \<subseteq> set out' \<Longrightarrow> fully_sent out' u as"
  by (auto simp: fully_sent_def)

lemma crawl_table_crawled:
  assumes "crawled env source_id database fabric ts cw"
  shows "crawled env source_id database fabric (ts @ [t]) (crawl_table env source_id database fabric t cw)"
proof -
  obtain k cs where t: "t = (k, cs)" by fastforce
  let ?u = "ex_dataset_urn env ''postgres'' (table_name_of database k) fabric"
  let ?as = "dataset_aspects source_id database fabric k cs"
  let ?new = "fst k \<notin> set (cw_schemas cw)"
  define out1 where "out1 = (if ?new then emit_container env (Schema_key database (fst k) fabric) (cw_out cw) else cw_out cw)"
  obtain ok out2 where e: "emit_all env ?u ?as out1 = (ok, out2)" by fastforce
  note sent = emit_all_sent [OF e]
  have "set (cw_out cw) \<subseteq> set out1" using emit_container_grows by (simp add: out1_def)
  also have "\<dots> \<subseteq> set out2" using sent by simp
  finally have grow: "set (cw_out cw) \<subseteq> set out2" .
  have res: "crawl_table env source_id database fabric t cw =
      \<lparr>cw_out = out2, cw_schemas = (if ?new then cw_schemas cw @ [fst k] else cw_schemas cw),
          cw_emitted = (if ok then cw_emitted cw @ [?u] else cw_emitted cw),
          cw_errors = (if ok then cw_errors cw else cw_errors cw @ [''Failed to emit aspects for '' @ table_name_of database k])\<rparr>"
    using e by (simp add: crawl_table_def t Let_def out1_def)
  show ?thesis
    using assms sent grow fully_sent_mono [OF _ grow] unfolding crawled_def res by (auto simp: t)
qed

lemma crawl_fold_crawled:
  "crawled env source_id database fabric pre cw \<Longrightarrow>
   crawled env source_id database fabric (pre @ ts) (fold (crawl_table env source_id database fabric) ts cw)"
proof (induction ts arbitrary: pre cw)
  case (Cons t ts)
  from Cons.IH [OF crawl_table_crawled [OF Cons.prems, of t]] show ?case by simp
qed simp

lemma crawl_tables_crawled: "crawled env source_id database fabric ts (crawl_tables env source_id database fabric ts)"
proof -
  let ?start = "\<lparr>cw_out = emit_container env (Database_key database fabric) [], cw_schemas = [], cw_emitted = [], cw_errors = []\<rparr>"
  have "crawled env source_id database fabric [] ?start" by (simp add: crawled_def)
  from crawl_fold_crawled [OF this, of ts] show ?thesis by (simp add: crawl_tables_def)
qed

lemma crawled_report:
  assumes "crawled env source_id database fabric ts cw" "u \<in> set (cw_emitted cw)"
  shows "u \<in> (\<lambda>t. ex_dataset_urn env ''postgres'' (table_name_of database (fst t)) fabric) ` set ts \<and>
    (\<exists>k cs. (k, cs) \<in> set ts \<and> fully_sent (cw_out cw) u (dataset_aspects source_id database fabric k cs))"
proof -
  from assms obtain t where t: "t \<in> set ts" "u = ex_dataset_urn env ''postgres'' (table_name_of database (fst t)) fabric"
    "\<forall>a \<in> set (dataset_aspects source_id database fabric (fst t) (snd t)). ex_accepts env u a"
    by (auto simp: crawled_def)
  from assms(1) t have "fully_sent (cw_out cw) u (dataset_aspects source_id database fabric (fst t) (snd t))"
    by (simp add: crawled_def)
  moreover have "(fst t, snd t) \<in> set ts" using t(1) by simp
  ultimately show ?thesis using t(1,2) by blast
qed

text \<open>The report of one extraction.\<close>

lemma extract_postgres_report:
  assumes "extract_postgres env source_id config dry_run default_env = (Inr r, out)"
  shows "set (xt_emitted r) \<subseteq> set (xt_discovered r) \<and> (dry_run \<longrightarrow> xt_emitted r = [] \<and> out = []) \<and>
    (\<not> dry_run \<longrightarrow> xt_discovered r \<noteq> [] \<longrightarrow> length (xt_errors r) + length (xt_emitted r) = length (xt_discovered r)) \<and>
    (\<forall>u \<in> set (xt_emitted r). \<exists>database fabric k cs. fully_sent out u (dataset_aspects source_id database fabric k cs))"
proof (cases "xt_discovered r = []")
  case True
  with assms show ?thesis
    by (auto simp: extract_postgres_def nothing_found_def Let_def split: sum.splits prod.splits pg_answer.splits if_splits)
next
  case False
  then obtain allowed cols where c: "cols \<noteq> []" "group_tables allowed cols \<noteq> []"
    "xt_discovered r = map (\<lambda>t. ex_dataset_urn env ''postgres'' (table_name_of (config_text env (dict_get_or config ''database'' (JStr []))) (fst t))
        (parse_env_from_config config default_env)) (group_tables allowed cols)"
    "dry_run \<longrightarrow> xt_emitted r = [] \<and> out = []"
    "\<not> dry_run \<longrightarrow> xt_emitted r = cw_emitted (crawl_tables env source_id (config_text env (dict_get_or config ''database'' (JStr [])))
         (parse_env_from_config config default_env) (group_tables allowed cols)) \<and>
       xt_errors r = cw_errors (crawl_tables env source_id (config_text env (dict_get_or config ''database'' (JStr [])))
         (parse_env_from_config config default_env) (group_tables allowed cols)) \<and>
       out = cw_out (crawl_tables env source_id (config_text env (dict_get_or config ''database'' (JStr [])))
         (parse_env_from_config config default_env) (group_tables allowed cols))"
    using assms
    by (auto simp: extract_postgres_def nothing_found_def Let_def split: sum.splits prod.splits pg_answer.splits if_splits)
  show ?thesis
  proof (cases dry_run)
    case True
    with c(4) show ?thesis by simp
  next
    case False
    let ?ts = "group_tables allowed cols" and ?db = "config_text env (dict_get_or config ''database'' (JStr []))"
      and ?f = "parse_env_from_config config default_env"
    have c6: "crawled env source_id ?db ?f ?ts (crawl_tables env source_id ?db ?f ?ts)" by (rule crawl_tables_crawled)
    then have "length (xt_errors r) + length (xt_emitted r) = length (xt_discovered r)" 
      using c6 False unfolding c(3) crawled_def by (simp add: c(5))
    moreover have "u \<in> set (xt_discovered r) \<and> (\<exists>database fabric k cs. fully_sent out u (dataset_aspects source_id database fabric k cs))"
      if "u \<in> set (xt_emitted r)" for u
    proof -
      have "u \<in> set (cw_emitted (crawl_tables env source_id ?db ?f ?ts))" using that False c(5) by simp
      note r = crawled_report [OF c6 this]
      have "u \<in> set (xt_discovered r)" using r unfolding c(3) by auto
      moreover have "\<exists>k cs. fully_sent out u (dataset_aspects source_id ?db ?f k cs)" using r False c(5) by blast
      ultimately show ?thesis by blast
    qed
    ultimately show ?thesis using False by blast
  qed
qed

end
