(* ===== verification/Run_Lock.thy ===== *)
theory Run_Lock
  imports Exceptions
begin

text \<open>
  \<open>src/shared/cache/client.py\<close>, the Redis operations the services use, and the run lock that ontogen, metagen, metrics and
  ingestion take with them: \<open>set_nx\<close> with a fresh token and a time-to-live of one hour before a run,
  \<open>delete_if_value\<close> with the same token after it. Redis executes commands one at a time; workers
  interleave between them. Time is in seconds.
\<close>

type_synonym redis = "string \<rightharpoonup> string \<times> nat"

text \<open>A key is gone once its expiry is reached.\<close>

definition redis_get :: "nat \<Rightarrow> redis \<Rightarrow> string \<Rightarrow> string option" where
  "redis_get now r k = (case r k of Some (v, e) \<Rightarrow> if now < e then Some v else None | None \<Rightarrow> None)"

definition redis_set :: "nat \<Rightarrow> string \<Rightarrow> string \<Rightarrow> nat \<Rightarrow> redis \<Rightarrow> redis" where
  "redis_set now k v ttl r = r(k \<mapsto> (v, now + ttl))"

definition set_nx :: "nat \<Rightarrow> string \<Rightarrow> string \<Rightarrow> nat \<Rightarrow> redis \<Rightarrow> bool \<times> redis" where
  "set_nx now k v ttl r = (case redis_get now r k of Some _ \<Rightarrow> (False, r) | None \<Rightarrow> (True, redis_set now k v ttl r))"

definition redis_delete :: "string \<Rightarrow> redis \<Rightarrow> redis" where
  "redis_delete k r = r(k := None)"

definition delete_if_value :: "nat \<Rightarrow> string \<Rightarrow> string \<Rightarrow> redis \<Rightarrow> bool \<times> redis" where
  "delete_if_value now k expected r =
     (if redis_get now r k = Some expected then (True, redis_delete k r) else (False, r))"

definition LOCK_TTL_SECONDS :: nat where
  "LOCK_TTL_SECONDS = 3600"

section \<open>Workers\<close>

text \<open>A worker inside its guarded section.\<close>

record worker =
  wk_token :: string
  wk_key :: string
  wk_since :: nat

record lock_state =
  lk_now :: nat
  lk_redis :: redis
  lk_running :: "worker list"
  lk_tokens :: "string set"

definition acquire :: "string \<Rightarrow> string \<Rightarrow> lock_state \<Rightarrow> bool \<times> lock_state" where
  "acquire key token s =
     (let (ok, r) = set_nx (lk_now s) key token LOCK_TTL_SECONDS (lk_redis s) in
      (ok, s\<lparr>lk_redis := r, lk_tokens := insert token (lk_tokens s),
         lk_running := (if ok then \<lparr>wk_token = token, wk_key = key, wk_since = lk_now s\<rparr> # lk_running s else lk_running s)\<rparr>))"

definition release :: "worker \<Rightarrow> lock_state \<Rightarrow> lock_state" where
  "release w s = s\<lparr>lk_redis := snd (delete_if_value (lk_now s) (wk_key w) (wk_token w) (lk_redis s)),
     lk_running := remove1 w (lk_running s)\<rparr>"

definition crash :: "worker \<Rightarrow> lock_state \<Rightarrow> lock_state" where
  "crash w s = s\<lparr>lk_running := remove1 w (lk_running s)\<rparr>"

text \<open>\<open>secrets.token_urlsafe(16)\<close> draws a token not drawn before.\<close>

inductive lock_step :: "lock_state \<Rightarrow> lock_state \<Rightarrow> bool" where
  tick: "lock_step s (s\<lparr>lk_now := lk_now s + d\<rparr>)"
| start: "token \<notin> lk_tokens s \<Longrightarrow> lock_step s (snd (acquire key token s))"
| finish: "w \<in> set (lk_running s) \<Longrightarrow> lock_step s (release w s)"
| die: "w \<in> set (lk_running s) \<Longrightarrow> lock_step s (crash w s)"

inductive_cases lock_stepE: "lock_step s s'"

definition lock_init :: "nat \<Rightarrow> lock_state" where
  "lock_init t = \<lparr>lk_now = t, lk_redis = Map.empty, lk_running = [], lk_tokens = {}\<rparr>"

section \<open>Mutual exclusion\<close>

definition lock_inv :: "lock_state \<Rightarrow> bool" where
  "lock_inv s \<longleftrightarrow>
     distinct (map wk_token (lk_running s)) \<and> wk_token ` set (lk_running s) \<subseteq> lk_tokens s \<and>
     (\<forall>k v e. lk_redis s k = Some (v, e) \<longrightarrow> v \<in> lk_tokens s \<and> e \<le> lk_now s + LOCK_TTL_SECONDS) \<and>
     (\<forall>w \<in> set (lk_running s). wk_since w \<le> lk_now s \<and>
        (lk_now s < wk_since w + LOCK_TTL_SECONDS \<longrightarrow>
          lk_redis s (wk_key w) = Some (wk_token w, wk_since w + LOCK_TTL_SECONDS)))"

lemma lock_inv_start:
  assumes "lock_inv s" "token \<notin> lk_tokens s"
  shows "lock_inv (snd (acquire key token s))"
proof -
  have "wk_key w \<noteq> key" if "w \<in> set (lk_running s)" "redis_get (lk_now s) (lk_redis s) key = None"
    "lk_now s < wk_since w + LOCK_TTL_SECONDS" for w
    using assms(1) that by (auto simp: lock_inv_def redis_get_def split: option.splits if_splits)
  with assms show ?thesis
    by (auto simp: acquire_def set_nx_def redis_set_def lock_inv_def split: option.split)
qed

lemma lock_inv_finish:
  assumes "lock_inv s" "w \<in> set (lk_running s)"
  shows "lock_inv (release w s)" "lock_inv (crash w s)"
proof -
  have keep: "wk_key w' \<noteq> wk_key w" if "w' \<in> set (remove1 w (lk_running s))"
    "redis_get (lk_now s) (lk_redis s) (wk_key w) = Some (wk_token w)" "lk_now s < wk_since w' + LOCK_TTL_SECONDS" for w'
  proof
    assume same: "wk_key w' = wk_key w"
    have w': "w' \<in> set (lk_running s)" using that(1) set_remove1_subset by (rule rev_subsetD)
    with assms(1) that(3) same have "lk_redis s (wk_key w) = Some (wk_token w', wk_since w' + LOCK_TTL_SECONDS)"
      by (auto simp: lock_inv_def)
    with that(2) have "wk_token w' = wk_token w" by (auto simp: redis_get_def split: if_splits)
    then have "w' = w" using assms w' by (auto simp: lock_inv_def distinct_map dest: inj_onD)
    moreover have "distinct (lk_running s)" using assms(1) by (auto simp: lock_inv_def distinct_map)
    ultimately show False using that(1) by simp
  qed
  have run: "set (remove1 w (lk_running s)) \<subseteq> set (lk_running s)" by (rule set_remove1_subset)
  have dist: "distinct (map wk_token (remove1 w (lk_running s)))"
    using assms(1) by (auto simp: lock_inv_def distinct_map intro: inj_on_subset)
  show "lock_inv (release w s)"
    using assms(1) keep run dist
    by (auto simp: lock_inv_def release_def delete_if_value_def redis_delete_def)
  show "lock_inv (crash w s)" using assms(1) run dist by (auto simp: lock_inv_def crash_def)
qed

lemma lock_inv_step: "lock_step s s' \<Longrightarrow> lock_inv s \<Longrightarrow> lock_inv s'"
  by (erule lock_stepE) (auto simp: lock_inv_start lock_inv_finish, force simp: lock_inv_def)

interpretation lock: step_invariant lock_step lock_inv
  by unfold_locales (rule lock_inv_step)

text \<open>
  C27. The run lock, over every interleaving of workers that start, finish or die: two workers inside the guarded
  section of the same key, both within the time-to-live, are the same worker; a worker
  that finishes, however late, leaves the lock of every other worker within its time-to-live in
  place; and no lock is stuck: one time-to-live later any key can be acquired, whoever died.
\<close>

theorem run_lock_exclusive:
  assumes "lock_step\<^sup>*\<^sup>* (lock_init t) s"
  shows "(\<forall>w \<in> set (lk_running s). \<forall>w' \<in> set (lk_running s). wk_key w = wk_key w' \<longrightarrow>
      lk_now s < wk_since w + LOCK_TTL_SECONDS \<longrightarrow> lk_now s < wk_since w' + LOCK_TTL_SECONDS \<longrightarrow> w = w') \<and>
    (\<forall>w \<in> set (lk_running s). \<forall>w' \<in> set (lk_running s). w \<noteq> w' \<longrightarrow> lk_now s < wk_since w' + LOCK_TTL_SECONDS \<longrightarrow>
      redis_get (lk_now s) (lk_redis (release w s)) (wk_key w') = Some (wk_token w')) \<and>
    (\<forall>k token. fst (acquire k token (s\<lparr>lk_now := lk_now s + LOCK_TTL_SECONDS\<rparr>)))"
proof -
  have inv: "lock_inv s"
    by (rule lock.run_keeps [OF assms]) (simp add: lock_inv_def lock_init_def)
  have same: "w = w'" if "w \<in> set (lk_running s)" "w' \<in> set (lk_running s)" "wk_token w = wk_token w'" for w w'
    using inv that by (auto simp: lock_inv_def distinct_map dest: inj_onD)
  have held: "lk_redis s (wk_key w) = Some (wk_token w, wk_since w + LOCK_TTL_SECONDS)"
    if "w \<in> set (lk_running s)" "lk_now s < wk_since w + LOCK_TTL_SECONDS" for w
    using inv that by (simp add: lock_inv_def)
  have one: "w = w'" if "w \<in> set (lk_running s)" "w' \<in> set (lk_running s)" "wk_key w = wk_key w'"
    "lk_now s < wk_since w + LOCK_TTL_SECONDS" "lk_now s < wk_since w' + LOCK_TTL_SECONDS" for w w'
    using held [OF that(1,4)] held [OF that(2,5)] that same [OF that(1,2)] by simp
  have kept: "redis_get (lk_now s) (lk_redis (release w s)) (wk_key w') = Some (wk_token w')"
    if "w \<in> set (lk_running s)" "w' \<in> set (lk_running s)" "w \<noteq> w'" "lk_now s < wk_since w' + LOCK_TTL_SECONDS" for w w'
    using held [OF that(2,4)] same [OF that(1,2)] that(3,4)
    by (auto simp: release_def delete_if_value_def redis_delete_def redis_get_def)
  have free: "fst (acquire k token (s\<lparr>lk_now := lk_now s + LOCK_TTL_SECONDS\<rparr>))" for k token
    using inv by (fastforce simp: acquire_def set_nx_def redis_get_def lock_inv_def split: option.splits)
  from one kept free show ?thesis by blast
qed

text \<open>Worker \<open>a\<close> outlives its lock, \<open>b\<close> takes it over, and then \<open>a\<close> finishes.\<close>

definition late_a :: worker where
  "late_a = \<lparr>wk_token = ''a'', wk_key = ''ontogen:running:singleton'', wk_since = 0\<rparr>"

definition overtaken :: lock_state where
  "overtaken = (let s = snd (acquire ''ontogen:running:singleton'' ''a'' (lock_init 0)) in
     snd (acquire ''ontogen:running:singleton'' ''b'' (s\<lparr>lk_now := lk_now s + 3600\<rparr>)))"

theorem run_lock_exclusive_witness:
  "lock_step\<^sup>*\<^sup>* (lock_init 0) overtaken \<and> map wk_token (lk_running overtaken) = [''b'', ''a''] \<and>
   redis_get 3600 (lk_redis (release late_a overtaken)) ''ontogen:running:singleton'' = Some ''b''"
proof -
  let ?k = "''ontogen:running:singleton''"
  let ?s1 = "snd (acquire ?k ''a'' (lock_init 0))"
  let ?s2 = "?s1\<lparr>lk_now := lk_now ?s1 + 3600\<rparr>"
  have "lock_step (lock_init 0) ?s1" by (rule lock_step.start) (simp add: lock_init_def)
  moreover have "lock_step ?s1 ?s2" by (rule lock_step.tick)
  moreover have "lock_step ?s2 overtaken"
    unfolding overtaken_def Let_def by (rule lock_step.start) (simp add: lock_init_def acquire_def split: prod.split)
  ultimately have reach: "lock_step\<^sup>*\<^sup>* (lock_init 0) overtaken" by (meson converse_rtranclp_into_rtranclp rtranclp.rtrancl_refl)
  have run: "lk_running overtaken = [\<lparr>wk_token = ''b'', wk_key = ?k, wk_since = 3600\<rparr>, late_a]" "lk_now overtaken = 3600"
    by (simp_all add: overtaken_def Let_def acquire_def set_nx_def redis_get_def redis_set_def lock_init_def
        LOCK_TTL_SECONDS_def late_a_def)
  with run_lock_exclusive [OF reach] show ?thesis
    by (simp add: reach late_a_def LOCK_TTL_SECONDS_def)
qed

end
