(* ===== verification/Ingestion_Run.thy ===== *)
theory Ingestion_Run
  imports Ingestion_Extractor Ingestion_Properties Run_Lock
begin

text \<open>
  \<open>src/backend/ingestion/service.py\<close>, the run pipeline of a source the service extracts itself: the lock, the mode check,
  the resolution of secrets, the \<open>DataProcessInstance\<close> aspects around the extraction, the dataset mappings and the event.

  What lies outside is the environment: how an id parses, the secret backend and its clock, the extractor's environment, the
  settings read from the database, whether DataHub accepts a run aspect, and the times. Between the lock and its release
  the model runs the pipeline without other operations in between. Two logs hold what DataHub accepted: the aspects of datasets and
  containers, and those of the run. Error texts built from an exception keep its class only.
\<close>

section \<open>State\<close>

datatype dpi_aspect =
    Dpi_properties string bool nat string
  | Dpi_relationships
  | Dpi_run_started nat
  | Dpi_output "string list"
  | Dpi_run_complete nat bool int

record ingest_env =
  ig_uuid :: "string \<Rightarrow> nat option"
  ig_backend :: secret_backend
  ig_clock :: clock
  ig_extract :: extract_env
  ig_default_env :: "(string, string) result"
  ig_actor :: "(string, string) result"
  ig_accepts :: "dpi_aspect \<Rightarrow> bool"
  ig_run_id :: string
  ig_start_ms :: nat
  ig_end_ms :: nat
  ig_now :: nat

record ingest_state =
  ig_db :: ingestion_db
  ig_resolver :: resolver
  ig_out :: emitted_log
  ig_dpi :: "(string \<times> dpi_aspect) list"
  ig_redis :: "redis option"

record run_result =
  rr_run_id :: string
  rr_status :: string
  rr_dry_run :: bool
  rr_discovered :: "string list"
  rr_emitted :: "string list"
  rr_errors :: "string list"
  rr_warnings :: "string list"

definition json_strs :: "string list \<Rightarrow> json" where
  "json_strs xs = JList (map JStr xs)"

definition run_report_detail :: "run_result \<Rightarrow> jdict" where
  "run_report_detail r =
     [(''discovered_urns'', json_strs (rr_discovered r)), (''discovered_urns_count'', JInt (int (length (rr_discovered r)))),
      (''emitted_urns'', json_strs (rr_emitted r)), (''emitted_urns_count'', JInt (int (length (rr_emitted r))))]"

definition ingest_event :: "ingest_env \<Rightarrow> string \<Rightarrow> string \<Rightarrow> string \<Rightarrow> jdict \<Rightarrow> ingest_state \<Rightarrow> ingest_state" where
  "ingest_event env sid etype estatus det s = s\<lparr>ig_db := record_source_event sid (ig_now env) etype estatus det (ig_db s)\<rparr>"

section \<open>The aspects of a run\<close>

definition dpi_urn :: "ingest_env \<Rightarrow> string \<Rightarrow> string" where
  "dpi_urn env sid = ''urn:li:dataProcessInstance:'' @ sid @ ''-'' @ ig_run_id env"

text \<open>Emission in order, up to the first aspect DataHub refuses.\<close>

fun emit_dpi :: "ingest_env \<Rightarrow> string \<Rightarrow> dpi_aspect list \<Rightarrow> (string \<times> dpi_aspect) list \<Rightarrow> (string \<times> dpi_aspect) list" where
  "emit_dpi env u [] out = out"
| "emit_dpi env u (a # as) out = (if ig_accepts env a then emit_dpi env u as (out @ [(u, a)]) else out)"

text \<open>A failure to emit, or to read the actor, is logged by the caller and the run goes on.\<close>

definition emit_dpi_started :: "ingest_env \<Rightarrow> string \<Rightarrow> ingestion_source \<Rightarrow> bool \<Rightarrow> ingest_state \<Rightarrow> ingest_state" where
  "emit_dpi_started env sid row manual s = (case ig_actor env of
      Inl e \<Rightarrow> s
    | Inr actor \<Rightarrow> s\<lparr>ig_dpi := emit_dpi env (dpi_urn env sid)
        [Dpi_properties (''dataspoke-'' @ platform row @ ''-'' @ ig_run_id env) manual (ig_start_ms env) actor,
         Dpi_relationships, Dpi_run_started (ig_start_ms env)] (ig_dpi s)\<rparr>)"

definition emit_dpi_output :: "ingest_env \<Rightarrow> string \<Rightarrow> string list \<Rightarrow> ingest_state \<Rightarrow> ingest_state" where
  "emit_dpi_output env sid urns s = s\<lparr>ig_dpi := emit_dpi env (dpi_urn env sid) [Dpi_output urns] (ig_dpi s)\<rparr>"

definition emit_dpi_terminal :: "ingest_env \<Rightarrow> string \<Rightarrow> bool \<Rightarrow> ingest_state \<Rightarrow> ingest_state" where
  "emit_dpi_terminal env sid success s = s\<lparr>ig_dpi := emit_dpi env (dpi_urn env sid)
     [Dpi_run_complete (ig_end_ms env) success (int (ig_end_ms env) - int (ig_start_ms env))] (ig_dpi s)\<rparr>"

section \<open>The pipeline\<close>

definition secret_error_class :: "secret_error \<Rightarrow> string" where
  "secret_error_class e = (case e of SecretRefMalformed \<Rightarrow> ''SecretRefMalformed'' | SecretRefNotFound \<Rightarrow> ''SecretRefNotFound''
     | SecretResolverUnavailable \<Rightarrow> ''SecretResolverUnavailable'' | AttributeError \<Rightarrow> ''AttributeError''
     | ClientError \<Rightarrow> ''ClientError'')"

definition secret_failure :: "ingest_env \<Rightarrow> string \<Rightarrow> bool \<Rightarrow> secret_error \<Rightarrow> ingest_state \<Rightarrow> run_result \<times> ingest_state" where
  "secret_failure env sid dry_run e s =
     (\<lparr>rr_run_id = ig_run_id env, rr_status = ''error'', rr_dry_run = dry_run, rr_discovered = [], rr_emitted = [],
        rr_errors = [secret_error_class e], rr_warnings = []\<rparr>,
      ingest_event env sid ''INGESTION.FAIL'' ''failure''
        [(''run_id'', JStr (ig_run_id env)), (''error'', JStr (secret_error_class e)), (''phase'', JStr ''secret_resolution'')] s)"

text \<open>The extraction of one run: the fabric is read first, and a recipe that is not a dict has no \<open>get\<close>.\<close>

definition extract_source ::
  "ingest_env \<Rightarrow> string \<Rightarrow> bool \<Rightarrow> json \<Rightarrow> (string, extraction_result) result \<times> emitted_log" where
  "extract_source env sid dry_run rcp = (case ig_default_env env of
      Inl e \<Rightarrow> (Inl e, [])
    | Inr dflt \<Rightarrow> (case rcp of
          JObj r \<Rightarrow> run_extractor (ig_extract env) sid r dry_run dflt
        | _ \<Rightarrow> (Inl ''AttributeError'', [])))"

text \<open>A run that is not dry, emitted nothing and met no error is a failure.\<close>

definition run_errors :: "bool \<Rightarrow> extraction_result \<Rightarrow> string list" where
  "run_errors dry_run x =
     (if \<not> dry_run \<and> xt_emitted x = [] \<and> xt_errors x = []
      then (if xt_warnings x = [] then [''No entities ingested from source''] else xt_warnings x)
      else xt_errors x)"

definition result_of :: "ingest_env \<Rightarrow> bool \<Rightarrow> extraction_result \<Rightarrow> run_result" where
  "result_of env dry_run x =
     \<lparr>rr_run_id = ig_run_id env, rr_status = (if run_errors dry_run x = [] then ''success'' else ''error''), rr_dry_run = dry_run,
      rr_discovered = xt_discovered x, rr_emitted = xt_emitted x, rr_errors = run_errors dry_run x, rr_warnings = xt_warnings x\<rparr>"

definition finish_run ::
  "ingest_env \<Rightarrow> string \<Rightarrow> bool \<Rightarrow> ingestion_source \<Rightarrow> extraction_result \<Rightarrow> ingest_state \<Rightarrow> run_result \<times> ingest_state" where
  "finish_run env sid dry_run row x s =
     (let r = result_of env dry_run x; success = (rr_status r = ''success'');
          s1 = (if \<not> dry_run \<and> success \<and> xt_emitted x \<noteq> [] then emit_dpi_output env sid (xt_emitted x) s else s);
          s2 = (if dry_run then s1 else emit_dpi_terminal env sid success s1);
          s3 = (if \<not> dry_run \<and> success \<and> xt_emitted x \<noteq> []
                then s2\<lparr>ig_db := upsert_dataset_mappings (ig_now env) (src_id row) (xt_emitted x) ''emitted'' (ig_db s2)\<rparr> else s2)
      in (r, ingest_event env sid (if success then ''INGESTION.COMPLETE'' else ''INGESTION.FAIL'')
               (if success then ''success'' else ''failure'')
               ([(''run_id'', JStr (ig_run_id env)), (''platform'', JStr (platform row)), (''dry_run'', JBool dry_run)] @
                run_report_detail r @ [(''errors'', json_strs (rr_errors r)), (''warnings'', json_strs (rr_warnings r))]) s3))"

definition run_pipeline ::
  "ingest_env \<Rightarrow> string \<Rightarrow> bool \<Rightarrow> bool \<Rightarrow> ingestion_source \<Rightarrow> json \<Rightarrow> ingest_state \<Rightarrow> (ds_error, run_result) result \<times> ingest_state" where
  "run_pipeline env sid dry_run manual row rcp s =
     (let s1 = (if dry_run then s else emit_dpi_started env sid row manual s);
          (answer, out) = extract_source env sid dry_run rcp; s2 = s1\<lparr>ig_out := ig_out s1 @ out\<rparr>
      in case answer of
           Inl e \<Rightarrow>
             (Inl (UncaughtError e),
              ingest_event env sid ''INGESTION.FAIL'' ''failure''
                [(''run_id'', JStr (ig_run_id env)), (''platform'', JStr (platform row)), (''exception'', JStr e)]
                (if dry_run then s2 else emit_dpi_terminal env sid False s2))
         | Inr x \<Rightarrow> (case finish_run env sid dry_run row x s2 of (r, s3) \<Rightarrow> (Inr r, s3)))"

definition ingest_inner :: "ingest_env \<Rightarrow> string \<Rightarrow> bool \<Rightarrow> bool \<Rightarrow> ingest_state \<Rightarrow> (ds_error, run_result) result \<times> ingest_state" where
  "ingest_inner env sid dry_run manual s =
     (case get_source (ig_uuid env sid) (ig_db s) of
        Inl e \<Rightarrow> (Inl e, s)
      | Inr row \<Rightarrow>
          if src_mode row \<noteq> ACTIVE_CUSTOM_MANAGED then (Inl (ConflictError ''INGESTION_RUN_NOT_APPLICABLE''), s)
          else (case resolve_recipe_secrets (ig_backend env) (ig_clock env) (recipe row) (ig_resolver s) of
                  (Inl AttributeError, st) \<Rightarrow> (Inl (UncaughtError ''AttributeError''), s\<lparr>ig_resolver := st\<rparr>)
                | (Inl ClientError, st) \<Rightarrow> (Inl (UncaughtError ''ClientError''), s\<lparr>ig_resolver := st\<rparr>)
                | (Inl e, st) \<Rightarrow> (case secret_failure env sid dry_run e (s\<lparr>ig_resolver := st\<rparr>) of (r, s1) \<Rightarrow> (Inr r, s1))
                | (Inr rcp, st) \<Rightarrow> run_pipeline env sid dry_run manual row rcp (s\<lparr>ig_resolver := st\<rparr>)))"

definition ingestion_lock_key :: "string \<Rightarrow> string" where
  "ingestion_lock_key sid = ''ingestion:running:'' @ sid"

text \<open>Without a cache there is no lock; \<open>end_time\<close> is when the pipeline returned or raised.\<close>

definition ingestion_run ::
  "ingest_env \<Rightarrow> string \<Rightarrow> nat \<Rightarrow> string \<Rightarrow> bool \<Rightarrow> bool \<Rightarrow> ingest_state \<Rightarrow> (ds_error, run_result) result \<times> ingest_state" where
  "ingestion_run env token end_time sid dry_run manual s = (case ig_redis s of
      None \<Rightarrow> ingest_inner env sid dry_run manual s
    | Some r \<Rightarrow>
        (case set_nx (ig_now env) (ingestion_lock_key sid) token LOCK_TTL_SECONDS r of
           (False, r1) \<Rightarrow> (Inl (ConflictError ''INGESTION_RUNNING''), s\<lparr>ig_redis := Some r1\<rparr>)
         | (True, r1) \<Rightarrow>
             (case ingest_inner env sid dry_run manual (s\<lparr>ig_redis := Some r1\<rparr>) of
                (res, s1) \<Rightarrow> (res, s1\<lparr>ig_redis :=
                    map_option (\<lambda>r2. snd (delete_if_value end_time (ingestion_lock_key sid) token r2)) (ig_redis s1)\<rparr>))))"

section \<open>What a run leaves behind\<close>

text \<open>Whether a run gets as far as the extraction: the source is one the service extracts, and its secrets resolve.\<close>

definition extraction_starts :: "ingest_env \<Rightarrow> string \<Rightarrow> ingest_state \<Rightarrow> bool" where
  "extraction_starts env sid s = (case get_source (ig_uuid env sid) (ig_db s) of
      Inl _ \<Rightarrow> False
    | Inr row \<Rightarrow> src_mode row = ACTIVE_CUSTOM_MANAGED \<and>
        (case fst (resolve_recipe_secrets (ig_backend env) (ig_clock env) (recipe row) (ig_resolver s)) of Inl _ \<Rightarrow> False | Inr _ \<Rightarrow> True))"

definition run_end :: "ingest_env \<Rightarrow> bool \<Rightarrow> dpi_aspect" where
  "run_end env success = Dpi_run_complete (ig_end_ms env) success (int (ig_end_ms env) - int (ig_start_ms env))"

definition ended_well :: "(ds_error, run_result) result \<Rightarrow> bool" where
  "ended_well res = (case res of Inl _ \<Rightarrow> False | Inr r \<Rightarrow> rr_errors r = [])"

text \<open>
  A run's only traces in the tables: one event when it returns a result or the extraction raises, none when it is refused
  before, and after a success the mappings of what it emitted.
\<close>

definition run_traces ::
  "ingest_env \<Rightarrow> string \<Rightarrow> bool \<Rightarrow> ingest_state \<Rightarrow> (ds_error, run_result) result \<Rightarrow> ingest_state \<Rightarrow> bool" where
  "run_traces env sid dry_run s res s' \<longleftrightarrow>
     sources (ig_db s') = sources (ig_db s) \<and> ig_redis s' = ig_redis s \<and>
     (dry_run \<or> \<not> extraction_starts env sid s \<longrightarrow>
        mappings (ig_db s') = mappings (ig_db s) \<and> ig_dpi s' = ig_dpi s \<and> ig_out s' = ig_out s) \<and>
     (\<not> dry_run \<and> extraction_starts env sid s \<and> ig_accepts env (run_end env (ended_well res)) \<longrightarrow>
        last (ig_dpi s') = (dpi_urn env sid, run_end env (ended_well res))) \<and>
     (case res of
        Inl e \<Rightarrow> mappings (ig_db s') = mappings (ig_db s) \<and>
          (if extraction_starts env sid s
           then \<exists>x d. e = UncaughtError x \<and> events (ig_db s') = events (ig_db s) @ [\<lparr>ev_entity_type = ''ingestion_source'',
             ev_entity_id = sid, ev_type = ''INGESTION.FAIL'', ev_status = ''failure'', ev_detail = d, ev_at = ig_now env\<rparr>]
           else events (ig_db s') = events (ig_db s))
      | Inr r \<Rightarrow> (\<exists>i row. ig_uuid env sid = Some i \<and> row_get src_id i (sources (ig_db s)) = Some row \<and>
          src_mode row = ACTIVE_CUSTOM_MANAGED \<and>
          rr_dry_run r = dry_run \<and> rr_status r = (if rr_errors r = [] then ''success'' else ''error'') \<and>
          (\<exists>d. events (ig_db s') = events (ig_db s) @ [\<lparr>ev_entity_type = ''ingestion_source'', ev_entity_id = sid,
             ev_type = (if rr_errors r = [] then ''INGESTION.COMPLETE'' else ''INGESTION.FAIL''),
             ev_status = (if rr_errors r = [] then ''success'' else ''failure''), ev_detail = d, ev_at = ig_now env\<rparr>]) \<and>
          (if \<not> dry_run \<and> rr_errors r = []
           then rr_emitted r \<noteq> [] \<and> set (rr_emitted r) \<subseteq> set (rr_discovered r) \<and>
             (\<forall>u \<in> set (rr_emitted r). \<exists>database fabric k cs. fully_sent (ig_out s') u (dataset_aspects sid database fabric k cs)) \<and>
             mappings (ig_db s') = mappings (upsert_dataset_mappings (ig_now env) (src_id row) (rr_emitted r) ''emitted'' (ig_db s))
           else mappings (ig_db s') = mappings (ig_db s))))"


lemma ingest_event_frame [simp]:
  "sources (ig_db (ingest_event env sid t st d s)) = sources (ig_db s)" "mappings (ig_db (ingest_event env sid t st d s)) = mappings (ig_db s)"
  "ig_redis (ingest_event env sid t st d s) = ig_redis s" "ig_dpi (ingest_event env sid t st d s) = ig_dpi s"
  "ig_out (ingest_event env sid t st d s) = ig_out s"
  "events (ig_db (ingest_event env sid t st d s)) = events (ig_db s) @ [\<lparr>ev_entity_type = ''ingestion_source'', ev_entity_id = sid,
     ev_type = t, ev_status = st, ev_detail = d, ev_at = ig_now env\<rparr>]"
  by (simp_all add: ingest_event_def record_source_event_def)

lemma emit_dpi_frame [simp]:
  "ig_db (emit_dpi_started env sid row manual s) = ig_db s" "ig_redis (emit_dpi_started env sid row manual s) = ig_redis s"
  "ig_out (emit_dpi_started env sid row manual s) = ig_out s"
  "ig_db (emit_dpi_output env sid urns s) = ig_db s" "ig_redis (emit_dpi_output env sid urns s) = ig_redis s"
  "ig_out (emit_dpi_output env sid urns s) = ig_out s"
  "ig_db (emit_dpi_terminal env sid ok s) = ig_db s" "ig_redis (emit_dpi_terminal env sid ok s) = ig_redis s"
  "ig_out (emit_dpi_terminal env sid ok s) = ig_out s"
  by (simp_all add: emit_dpi_started_def emit_dpi_output_def emit_dpi_terminal_def split: sum.split)

lemma emit_dpi_terminal_last:
  "ig_accepts env (run_end env ok) \<Longrightarrow> last (ig_dpi (emit_dpi_terminal env sid ok s)) = (dpi_urn env sid, run_end env ok)"
  by (simp add: emit_dpi_terminal_def run_end_def)

lemma ended_well_simps [simp]: "ended_well (Inl e) = False" "ended_well (Inr r) = (rr_errors r = [])"
  by (simp_all add: ended_well_def)

lemma extraction_starts_redis [simp]: "extraction_starts env sid (s\<lparr>ig_redis := x\<rparr>) = extraction_starts env sid s"
  by (simp add: extraction_starts_def split: sum.split)

lemma upsert_frame [simp]:
  "sources (upsert_dataset_mappings now i urns d db) = sources db"
  "events (upsert_dataset_mappings now i urns d db) = events db"
  by (simp_all add: upsert_dataset_mappings_def)

lemma run_errors_Nil: "run_errors dry_run x = [] \<Longrightarrow> \<not> dry_run \<Longrightarrow> xt_emitted x \<noteq> []"
  by (auto simp: run_errors_def split: if_splits)

definition report_ok :: "string \<Rightarrow> bool \<Rightarrow> (string, extraction_result) result \<times> emitted_log \<Rightarrow> bool" where
  "report_ok sid dry_run answer \<longleftrightarrow> (dry_run \<longrightarrow> snd answer = []) \<and>
     (\<forall>x. fst answer = Inr x \<longrightarrow> set (xt_emitted x) \<subseteq> set (xt_discovered x) \<and>
        (\<forall>u \<in> set (xt_emitted x). \<exists>database fabric k cs. fully_sent (snd answer) u (dataset_aspects sid database fabric k cs)))"

lemma report_ok_none [simp]: "report_ok sid dry_run (Inl e, [])" "report_ok sid dry_run (Inr (nothing_found es ws), [])"
  by (simp_all add: report_ok_def nothing_found_def)

lemma extract_postgres_ok: "report_ok sid dry_run (extract_postgres env sid config dry_run dflt)"
proof (cases "extract_postgres env sid config dry_run dflt")
  case (Pair answer out)
  show ?thesis
  proof (cases answer)
    case (Inl e)
    with Pair have "out = []"
      by (auto simp: extract_postgres_def Let_def split: sum.splits prod.splits pg_answer.splits if_splits)
    with Inl Pair show ?thesis by simp
  next
    case (Inr x)
    with Pair extract_postgres_report [of env sid config dry_run dflt x out] show ?thesis by (simp add: report_ok_def)
  qed
qed

lemma run_extractor_ok: "report_ok sid dry_run (run_extractor env sid r dry_run dflt)"
  by (auto simp: run_extractor_def extract_postgres_ok split: json.split)

lemma extract_source_ok: "report_ok sid dry_run (extract_source env sid dry_run rcp)"
  by (auto simp: extract_source_def run_extractor_ok split: sum.split json.split)

lemma run_pipeline_traces:
  assumes src: "get_source (ig_uuid env sid) (ig_db s) = Inr row" "src_mode row = ACTIVE_CUSTOM_MANAGED"
    and starts: "extraction_starts env sid s"
    and run: "run_pipeline env sid dry_run manual row rcp (s\<lparr>ig_resolver := st\<rparr>) = (res, s')"
  shows "run_traces env sid dry_run s res s'"
proof -
  obtain answer out where e: "extract_source env sid dry_run rcp = (answer, out)" by fastforce
  have rep: "dry_run \<longrightarrow> out = []" "answer = Inr x \<Longrightarrow> set (xt_emitted x) \<subseteq> set (xt_discovered x)"
    "answer = Inr x \<Longrightarrow> u \<in> set (xt_emitted x) \<Longrightarrow>
      \<exists>database fabric k cs. fully_sent out u (dataset_aspects sid database fabric k cs)" for x u
    using extract_source_ok [of sid dry_run env rcp] by (auto simp: report_ok_def e)
  from src obtain i where i: "ig_uuid env sid = Some i" "row_get src_id i (sources (ig_db s)) = Some row"
    by (auto simp: get_source_def source_row_def split: option.splits)
  show ?thesis
  proof (cases answer)
    case (Inl x)
    with run e rep starts show ?thesis by (auto simp: run_pipeline_def run_traces_def Let_def emit_dpi_terminal_last)
  next
    case (Inr x)
    let ?s2 = "(if dry_run then s\<lparr>ig_resolver := st\<rparr> else emit_dpi_started env sid row manual (s\<lparr>ig_resolver := st\<rparr>))\<lparr>ig_out := ig_out s @ out\<rparr>"
    have sent: "fully_sent (ig_out s @ out) u as" if "fully_sent out u as" for u as
      using that by (auto simp: fully_sent_def)
    have fin: "finish_run env sid dry_run row x ?s2 = (result_of env dry_run x, s')" "res = Inr (result_of env dry_run x)"
      using run e Inr by (auto simp: run_pipeline_def finish_run_def Let_def split: if_splits)
    show ?thesis
    proof (cases "dry_run \<or> run_errors dry_run x \<noteq> []")
      case True
      let ?ok = "run_errors dry_run x = []"
      have fr: "sources (ig_db s') = sources (ig_db s)" "ig_redis s' = ig_redis s" "mappings (ig_db s') = mappings (ig_db s)"
        "ig_out s' = ig_out s @ out" "dry_run \<Longrightarrow> ig_dpi s' = ig_dpi s"
        "\<not> dry_run \<Longrightarrow> ig_accepts env (run_end env ?ok) \<Longrightarrow> last (ig_dpi s') = (dpi_urn env sid, run_end env ?ok)"
        "\<exists>d. events (ig_db s') = events (ig_db s) @ [\<lparr>ev_entity_type = ''ingestion_source'', ev_entity_id = sid,
           ev_type = (if ?ok then ''INGESTION.COMPLETE'' else ''INGESTION.FAIL''),
           ev_status = (if ?ok then ''success'' else ''failure''), ev_detail = d, ev_at = ig_now env\<rparr>]"
        using True fin(1) by (auto simp: finish_run_def result_of_def Let_def emit_dpi_terminal_last)
      from True fr i src(2) rep(1) starts show ?thesis
        unfolding run_traces_def fin(2) by (cases dry_run) (simp_all add: result_of_def)
    next
      case False
      then have ok: "\<not> dry_run" "run_errors dry_run x = []" by blast+
      note em = run_errors_Nil [OF ok(2,1)]
      have fr: "sources (ig_db s') = sources (ig_db s)" "ig_redis s' = ig_redis s" "ig_out s' = ig_out s @ out"
        "ig_accepts env (run_end env True) \<Longrightarrow> last (ig_dpi s') = (dpi_urn env sid, run_end env True)"
        "mappings (ig_db s') = mappings (upsert_dataset_mappings (ig_now env) (src_id row) (xt_emitted x) ''emitted'' (ig_db s))"
        "\<exists>d. events (ig_db s') = events (ig_db s) @ [\<lparr>ev_entity_type = ''ingestion_source'', ev_entity_id = sid,
           ev_type = ''INGESTION.COMPLETE'', ev_status = ''success'', ev_detail = d, ev_at = ig_now env\<rparr>]"
        using fin(1) ok em by (auto simp: finish_run_def result_of_def Let_def upsert_dataset_mappings_def emit_dpi_terminal_last)
      have "\<exists>database fabric k cs. fully_sent (ig_out s') u (dataset_aspects sid database fabric k cs)" if "u \<in> set (xt_emitted x)" for u
        using rep(3) [OF Inr that] sent unfolding fr(3) by blast
      with fr i src(2) ok em rep(2) [OF Inr] starts show ?thesis
        unfolding run_traces_def fin(2) by (simp add: result_of_def)
    qed
  qed
qed

lemma ingest_inner_traces:
  assumes "ingest_inner env sid dry_run manual s = (res, s')"
  shows "run_traces env sid dry_run s res s'"
proof (cases "get_source (ig_uuid env sid) (ig_db s)")
  case (Inl e)
  with assms show ?thesis by (auto simp: ingest_inner_def run_traces_def extraction_starts_def)
next
  case (Inr row)
  then obtain i where i: "ig_uuid env sid = Some i" "row_get src_id i (sources (ig_db s)) = Some row"
    by (auto simp: get_source_def source_row_def split: option.splits)
  show ?thesis
  proof (cases "src_mode row = ACTIVE_CUSTOM_MANAGED")
    case False
    with assms Inr show ?thesis by (auto simp: ingest_inner_def run_traces_def extraction_starts_def)
  next
    case mode: True
    obtain secret st where sec: "resolve_recipe_secrets (ig_backend env) (ig_clock env) (recipe row) (ig_resolver s) = (secret, st)"
      by fastforce
    show ?thesis
    proof (cases secret)
      case (Inl e)
      with Inr sec have "\<not> extraction_starts env sid s" by (simp add: extraction_starts_def)
      with assms Inr mode sec i Inl show ?thesis
        by (cases e) (auto simp: ingest_inner_def run_traces_def secret_failure_def)
    next
      case rcp: (Inr rcp)
      with assms Inr mode sec have "run_pipeline env sid dry_run manual row rcp (s\<lparr>ig_resolver := st\<rparr>) = (res, s')"
        by (simp add: ingest_inner_def)
      moreover from Inr mode sec rcp have "extraction_starts env sid s" by (simp add: extraction_starts_def)
      ultimately show ?thesis using run_pipeline_traces [OF Inr mode] by blast
    qed
  qed
qed

lemma sound_sources_frame: "sources db' = sources db \<Longrightarrow> mappings db' = mappings db \<Longrightarrow> sound_sources db' = sound_sources db"
  by (simp add: sound_sources_def keys_sound_def)

lemma run_traces_sound:
  assumes "sound_sources (ig_db s)" "run_traces env sid dry_run s res s'"
  shows "sound_sources (ig_db s')"
proof (cases "mappings (ig_db s') = mappings (ig_db s)")
  case True
  with assms sound_sources_frame [of "ig_db s'" "ig_db s"] show ?thesis by (simp add: run_traces_def)
next
  case False
  with assms(2) obtain r row i where r: "res = Inr r" "row_get src_id i (sources (ig_db s)) = Some row"
    "mappings (ig_db s') = mappings (upsert_dataset_mappings (ig_now env) (src_id row) (rr_emitted r) ''emitted'' (ig_db s))"
    by (auto simp: run_traces_def split: sum.splits if_splits)
  then have "src_id row \<in> src_id ` set (sources (ig_db s))" using row_get_SomeD by fastforce
  from upsert_sound [OF assms(1) this] r(3) assms(2) show ?thesis
    using sound_sources_frame [of "ig_db s'" "upsert_dataset_mappings (ig_now env) (src_id row) (rr_emitted r) ''emitted'' (ig_db s)"]
    by (simp add: run_traces_def)
qed

definition restamp :: "nat \<Rightarrow> nat \<Rightarrow> string \<Rightarrow> source_dataset \<Rightarrow> source_dataset" where
  "restamp now i v m = (if source_id m = i \<and> dataset_urn m = v then m\<lparr>last_seen_at := now\<rparr> else m)"

lemma restamp_keys [simp]: "source_id (restamp now i v m) = source_id m" "dataset_urn (restamp now i v m) = dataset_urn m"
  by (simp_all add: restamp_def)

lemma restamp_seen: "source_id m = i \<Longrightarrow> dataset_urn m = v \<or> last_seen_at m = now \<Longrightarrow> last_seen_at (restamp now i v m) = now"
  by (auto simp: restamp_def)

lemma upsert_covers:
  assumes "u \<in> set urns"
  shows "\<exists>m \<in> set (mappings (upsert_dataset_mappings now i urns d db)). source_id m = i \<and> dataset_urn m = u \<and> last_seen_at m = now"
proof -
  let ?covered = "\<lambda>u ms. \<exists>m \<in> set ms. source_id m = i \<and> dataset_urn m = u \<and> last_seen_at m = now"
  have step: "?covered u (upsert_mapping now i d v ms)" if "u = v \<or> ?covered u ms" for u v ms
  proof (cases "\<exists>m \<in> set ms. source_id m = i \<and> dataset_urn m = v")
    case True
    then have eq: "upsert_mapping now i d v ms = map (restamp now i v) ms" by (simp add: upsert_mapping_def restamp_def)
    from that True obtain m where m: "m \<in> set ms" "source_id m = i" "dataset_urn m = u" "dataset_urn m = v \<or> last_seen_at m = now"
      by auto
    have "restamp now i v m \<in> set (map (restamp now i v) ms)" using m(1) by simp
    with m(2,3) restamp_seen [OF m(2,4)] show ?thesis unfolding eq by (metis restamp_keys)
  next
    case False
    with that show ?thesis by (auto simp: upsert_mapping_def)
  qed
  have "?covered u (fold (upsert_mapping now i d) urns ms)" if "u \<in> set urns \<or> ?covered u ms" for ms
    using that
  proof (induction urns arbitrary: ms)
    case (Cons v urns)
    have "u \<in> set urns \<or> ?covered u (upsert_mapping now i d v ms)"
    proof (cases "u = v \<or> ?covered u ms")
      case True
      from step [OF this] show ?thesis ..
    next
      case False
      with Cons.prems show ?thesis by auto
    qed
    from Cons.IH [OF this] show ?case by simp
  qed simp
  with assms show ?thesis by (simp add: upsert_dataset_mappings_def)
qed

lemma run_traces_covered:
  assumes "run_traces env sid dry_run s (Inr r) s'" "\<not> dry_run" "rr_errors r = []" "ig_uuid env sid = Some i" "u \<in> set (rr_emitted r)"
  shows "\<exists>m \<in> set (mappings (ig_db s')). source_id m = i \<and> dataset_urn m = u \<and> last_seen_at m = ig_now env"
proof -
  from assms obtain row where row: "row_get src_id i (sources (ig_db s)) = Some row"
    "mappings (ig_db s') = mappings (upsert_dataset_mappings (ig_now env) (src_id row) (rr_emitted r) ''emitted'' (ig_db s))"
    by (auto simp: run_traces_def)
  then have "src_id row = i" using row_get_SomeD by fastforce
  with upsert_covers [OF assms(5), of "ig_now env" i "''emitted''" "ig_db s"] row(2) show ?thesis by simp
qed

section \<open>The lock\<close>

lemma run_traces_redis:
  "run_traces env sid dry_run (s\<lparr>ig_redis := x\<rparr>) res s1 \<Longrightarrow>
   run_traces env sid dry_run s res (s1\<lparr>ig_redis := ig_redis s\<rparr>) \<and> ig_redis s1 = x"
  by (cases res) (simp_all add: run_traces_def cong: if_cong)

lemma set_nx_held: "redis_get now r k \<noteq> None \<Longrightarrow> set_nx now k v ttl r = (False, r)"
  by (auto simp: set_nx_def)

lemma set_nx_free: "redis_get now r k = None \<Longrightarrow> set_nx now k v ttl r = (True, redis_set now k v ttl r)"
  by (auto simp: set_nx_def)

lemma released_lock:
  "k' \<noteq> k \<Longrightarrow> snd (delete_if_value later k token (redis_set now k token ttl r)) k' = r k'"
  "later < now + ttl \<Longrightarrow> snd (delete_if_value later k token (redis_set now k token ttl r)) k = None"
  by (auto simp: delete_if_value_def redis_set_def redis_delete_def redis_get_def)

text \<open>A run is one of three: no cache, a held lock, or the pipeline between the lock and its release.\<close>

lemma ingestion_run_cases:
  assumes "ingestion_run env token end_time sid dry_run manual s = (res, s')"
  obtains (unlocked) "ig_redis s = None" "ingest_inner env sid dry_run manual s = (res, s')"
  | (held) r where "ig_redis s = Some r" "redis_get (ig_now env) r (ingestion_lock_key sid) \<noteq> None"
      "res = Inl (ConflictError ''INGESTION_RUNNING'')" "s' = s"
  | (locked) r s1 where "ig_redis s = Some r" "redis_get (ig_now env) r (ingestion_lock_key sid) = None"
      "run_traces env sid dry_run s res (s1\<lparr>ig_redis := ig_redis s\<rparr>)"
      "s' = s1\<lparr>ig_redis := Some (snd (delete_if_value end_time (ingestion_lock_key sid) token
          (redis_set (ig_now env) (ingestion_lock_key sid) token LOCK_TTL_SECONDS r)))\<rparr>"
proof (cases "ig_redis s")
  case None
  with assms unlocked show ?thesis by (simp add: ingestion_run_def)
next
  case (Some r)
  show ?thesis
  proof (cases "redis_get (ig_now env) r (ingestion_lock_key sid) = None")
    case False
    have "s\<lparr>ig_redis := Some r\<rparr> = s" using Some by simp
    with assms Some held [OF Some False] set_nx_held [OF False] show ?thesis by (auto simp: ingestion_run_def)
  next
    case True
    let ?r = "redis_set (ig_now env) (ingestion_lock_key sid) token LOCK_TTL_SECONDS r"
    obtain s1 where s1: "ingest_inner env sid dry_run manual (s\<lparr>ig_redis := Some ?r\<rparr>) = (res, s1)"
      using assms by (auto simp: ingestion_run_def Some set_nx_free [OF True] split: prod.splits)
    note tr = run_traces_redis [OF ingest_inner_traces [OF s1]]
    then have red: "ig_redis s1 = Some ?r" by simp
    from tr have "run_traces env sid dry_run s res (s1\<lparr>ig_redis := ig_redis s\<rparr>)" ..
    moreover have "s' = s1\<lparr>ig_redis := Some (snd (delete_if_value end_time (ingestion_lock_key sid) token ?r))\<rparr>"
      using assms by (auto simp: ingestion_run_def Some set_nx_free [OF True] s1 red)
    ultimately show ?thesis using locked [OF Some True] by blast
  qed
qed

section \<open>The run\<close>

text \<open>
  C40. A run of an ingestion source. While another run holds the lock of the id it is refused and changes nothing. Otherwise the
  lock is free again when it ends within its time-to-live, and no other key is touched. The source rows stay as they are and the tables
  sound. A result is only returned for a source the service extracts itself, and then exactly one event is recorded, COMPLETE
  when there was no error and FAIL otherwise. A run that raises without reaching the extraction (no such source, another mode, a
  secret backend that breaks) leaves no event; one whose extraction raises leaves exactly one, a FAIL with status failure. A
  dry run sends DataHub nothing and maps nothing. The last aspect of a real run that reached the extraction is its completion, with the
  outcome of the run, if DataHub accepts it. A run that fails or raises changes no mapping. A successful one emitted at least one dataset, each discovered
  and with all its aspects accepted by DataHub, and maps every one of them to the source.
\<close>

theorem ingestion_run_safe:
  assumes "sound_sources (ig_db s)" "ingestion_run env token end_time sid dry_run manual s = (res, s')"
  shows "sound_sources (ig_db s') \<and>
    (case ig_redis s of
       None \<Rightarrow> run_traces env sid dry_run s res s'
     | Some r \<Rightarrow>
         if redis_get (ig_now env) r (ingestion_lock_key sid) \<noteq> None
         then res = Inl (ConflictError ''INGESTION_RUNNING'') \<and> s' = s
         else run_traces env sid dry_run s res (s'\<lparr>ig_redis := ig_redis s\<rparr>) \<and>
           (\<exists>r'. ig_redis s' = Some r' \<and> (\<forall>k. k \<noteq> ingestion_lock_key sid \<longrightarrow> r' k = r k) \<and>
              (end_time < ig_now env + LOCK_TTL_SECONDS \<longrightarrow> r' (ingestion_lock_key sid) = None))) \<and>
    (\<forall>r i u. res = Inr r \<and> \<not> dry_run \<and> rr_errors r = [] \<and> ig_uuid env sid = Some i \<and> u \<in> set (rr_emitted r) \<longrightarrow>
       (\<exists>m \<in> set (mappings (ig_db s')). source_id m = i \<and> dataset_urn m = u \<and> last_seen_at m = ig_now env))"
  using assms(2)
proof (cases rule: ingestion_run_cases)
  case unlocked
  note tr = ingest_inner_traces [OF unlocked(2)]
  from unlocked(1) tr run_traces_sound [OF assms(1) tr] run_traces_covered show ?thesis by auto
next
  case (held r)
  with assms(1) show ?thesis by simp
next
  case (locked r s1)
  have tr: "run_traces env sid dry_run s res (s'\<lparr>ig_redis := ig_redis s\<rparr>)" using locked(3,4) by simp
  have "sound_sources (ig_db s')" using run_traces_sound [OF assms(1) tr] by simp
  moreover have "\<exists>m \<in> set (mappings (ig_db s')). source_id m = i \<and> dataset_urn m = u \<and> last_seen_at m = ig_now env"
    if "res = Inr x" "\<not> dry_run" "rr_errors x = []" "ig_uuid env sid = Some i" "u \<in> set (rr_emitted x)" for x i u
    using run_traces_covered [of env sid dry_run s x "s'\<lparr>ig_redis := ig_redis s\<rparr>" i u] tr that by simp
  ultimately show ?thesis using locked(1,2,4) tr released_lock by simp
qed

text \<open>A source saved through the registry, extracted from a database with one table of two columns.\<close>

definition sample_columns :: "pg_column list" where
  "sample_columns =
     [\<lparr>pg_schema = ''public'', pg_table = ''t'', pg_name = ''id'', pg_type = ''bigint'', pg_nullable = ''NO'', pg_comment = None,
        pg_table_comment = None\<rparr>,
      \<lparr>pg_schema = ''public'', pg_table = ''t'', pg_name = ''note'', pg_type = ''money'', pg_nullable = ''YES'', pg_comment = None,
        pg_table_comment = None\<rparr>]"

definition sample_extract_env :: extract_env where
  "sample_extract_env = \<lparr>ex_connect = (\<lambda>_ _ _ _ _. Columns sample_columns), ex_sdk = \<lparr>importing = ImportFails, compiles = (\<lambda>_. True),
     allow_deny_pattern = (\<lambda>_ _. None)\<rparr>, ex_units = (\<lambda>_. [''urn:li:container:c'']), ex_dataset_urn = (\<lambda>_ n _. n),
     ex_allowed_raises = (\<lambda>_ _ _. False), ex_key_raises = (\<lambda>_ _. False), ex_urn_raises = (\<lambda>_ _ _. False),
     ex_accepts = (\<lambda>_ _. True), ex_str = (\<lambda>_. [])\<rparr>"

definition sample_ingest_env :: ingest_env where
  "sample_ingest_env = \<lparr>ig_uuid = (\<lambda>s. if s = ''7'' then Some 7 else None), ig_backend = sample_backend, ig_clock = sample_clock,
     ig_extract = sample_extract_env, ig_default_env = Inr ''DEV'', ig_actor = Inr ''urn:li:corpuser:dataspoke'', ig_accepts = (\<lambda>_. True),
     ig_run_id = ''r'', ig_start_ms = 1000, ig_end_ms = 4000, ig_now = 200\<rparr>"

definition sample_ingest_state :: ingest_state where
  "sample_ingest_state = \<lparr>ig_db = fst (snd sample_create), ig_resolver = snd (snd sample_create), ig_out = [], ig_dpi = [],
     ig_redis = Some (\<lambda>_. None)\<rparr>"

lemma sample_run_sound: "sound_sources (ig_db sample_ingest_state)"
proof -
  have "registry_ok {} sample_state" using sample_state_sound by (simp add: registry_ok_def)
  from registry.run_keeps [OF sample_create_step this] show ?thesis by (simp add: registry_ok_def sample_ingest_state_def)
qed

lemma sample_run_outcome:
  "let (res, s') = ingestion_run sample_ingest_env ''tok'' 250 ''7'' False True sample_ingest_state in
   (case res of Inr r \<Rightarrow> rr_emitted r = [''.public.t''] \<and> rr_errors r = [] | Inl e \<Rightarrow> False) \<and>
   map (\<lambda>m. (source_id m, dataset_urn m, derivation m)) (mappings (ig_db s')) = [(7, ''.public.t'', ''emitted'')] \<and>
   map ev_type (events (ig_db s')) = [''INGESTION.SOURCE_CREATE'', ''INGESTION.COMPLETE''] \<and> length (ig_out s') = 7 \<and>
   length (ig_dpi s') = 5"
  by code_simp

theorem ingestion_run_safe_witness:
  "\<exists>r s'. ingestion_run sample_ingest_env ''tok'' 250 ''7'' False True sample_ingest_state = (Inr r, s') \<and> rr_emitted r = [''.public.t''] \<and>
     sound_sources (ig_db s') \<and> (\<exists>m \<in> set (mappings (ig_db s')). source_id m = 7 \<and> dataset_urn m = ''.public.t'') \<and>
     (\<exists>r'. ig_redis s' = Some r' \<and> r' (ingestion_lock_key ''7'') = None)"
proof -
  obtain res s' where run: "ingestion_run sample_ingest_env ''tok'' 250 ''7'' False True sample_ingest_state = (res, s')" by fastforce
  with sample_run_outcome obtain r where r: "res = Inr r" "rr_emitted r = [''.public.t'']" "rr_errors r = []"
    by (auto split: sum.splits)
  have e: "ig_now sample_ingest_env = 200" "ig_uuid sample_ingest_env ''7'' = Some 7" "ig_redis sample_ingest_state = Some (\<lambda>_. None)"
    by (simp_all add: sample_ingest_env_def sample_ingest_state_def)
  from ingestion_run_safe [OF sample_run_sound run] run r show ?thesis
    by (simp add: e redis_get_def LOCK_TTL_SECONDS_def) blast
qed

end
