(* ===== verification/Ingestion_Events.thy ===== *)
theory Ingestion_Events
  imports Ingestion_Properties
begin

text \<open>
  \<open>src/backend/ingestion/service.py\<close>, the reads over mappings and events: the datasets of a source, every source covering a
  dataset, the newest evidence per dataset and per source, the latest run and the event feed. An id is parsed by \<open>uuid\<close> and
  rendered by \<open>str_id\<close>; \<open>text\<close> is how PostgreSQL renders a JSON number, list or object, and \<open>like\<close> its case-insensitive substring
  match. The order of rows the database leaves open is the order of the table.
\<close>

section \<open>Mappings\<close>

definition DERIVATION_TO_AUTHORITY :: "(string \<times> string) list" where
  "DERIVATION_TO_AUTHORITY = [(''emitted'', ''high''), (''pipeline_name'', ''high''), (''matched'', ''medium'')]"

definition authority :: "source_dataset \<Rightarrow> string" where
  "authority m = (case map_of DERIVATION_TO_AUTHORITY (derivation m) of Some a \<Rightarrow> a | None \<Rightarrow> ''medium'')"

definition list_datasets_for_source ::
  "(string \<Rightarrow> string \<Rightarrow> bool) \<Rightarrow> nat option \<Rightarrow> string option \<Rightarrow> nat \<Rightarrow> nat \<Rightarrow> (source_dataset list \<Rightarrow> source_dataset list) option \<Rightarrow>
   ingestion_db \<Rightarrow> (ds_error, source_dataset list \<times> nat) result" where
  "list_datasets_for_source like uid needle offset limit order_by db =
     rmap (\<lambda>row. let base = filter (\<lambda>m. source_id m = src_id row \<and>
               (case needle of Some n \<Rightarrow> n = [] \<or> like n (dataset_urn m) | None \<Rightarrow> True)) (mappings db)
            in (page offset limit (ordered order_by last_seen_at base), length base))
       (get_source uid db)"

section \<open>Every source covering a dataset\<close>

definition add_covering :: "ingestion_db \<Rightarrow> source_dataset \<times> ingestion_source \<Rightarrow> ingestion_source list \<Rightarrow> ingestion_source list" where
  "add_covering db p found =
     (let r = resolve_wrapper db (snd p) in if src_id r \<in> src_id ` set found then found else found @ [r])"

definition reverse_lookup_all_batch ::
  "(nat \<Rightarrow> string) \<Rightarrow> string list \<Rightarrow> ingestion_db \<Rightarrow> string \<rightharpoonup> ingestion_source list" where
  "reverse_lookup_all_batch str_id urns db =
     (\<lambda>urn. if urn \<notin> set urns then None
        else Some (sort_key (\<lambda>r. (src_name r, str_id (src_id r)))
               (fold (add_covering db) (filter (\<lambda>p. dataset_urn (fst p) = urn) (mapping_join db)) [])))"

section \<open>Entity ids\<close>

definition wrapper_ids :: "nat \<Rightarrow> ingestion_db \<Rightarrow> nat list" where
  "wrapper_ids p db = map src_id (filter (\<lambda>r. parent_source_id r = Some p) (sources db))"

text \<open>A dict is the list of its items; an assignment keeps the position of a key it has.\<close>

definition parsed_ids :: "(string \<Rightarrow> nat option) \<Rightarrow> string list \<Rightarrow> (nat \<times> string) list" where
  "parsed_ids uuid sids = fold (\<lambda>sid d. case uuid sid of Some i \<Rightarrow> AList.update i sid d | None \<Rightarrow> d) sids []"

definition owner_by_entity_id ::
  "(string \<Rightarrow> nat option) \<Rightarrow> (nat \<Rightarrow> string) \<Rightarrow> string list \<Rightarrow> ingestion_db \<Rightarrow> (string \<times> string) list" where
  "owner_by_entity_id uuid str_id sids db =
     (let by_uid = parsed_ids uuid sids
      in fold (\<lambda>r d. case parent_source_id r of
             Some p \<Rightarrow> (case map_of by_uid p of Some sid \<Rightarrow> AList.update (str_id (src_id r)) sid d | None \<Rightarrow> d)
           | None \<Rightarrow> d) (sources db)
         (map (\<lambda>(i, sid). (str_id i, sid)) by_uid))"

definition source_entity_ids ::
  "(string \<Rightarrow> nat option) \<Rightarrow> (nat \<Rightarrow> string) \<Rightarrow> string \<Rightarrow> ingestion_db \<Rightarrow> string \<times> string list" where
  "source_entity_ids uuid str_id sid db = (case uuid sid of
      None \<Rightarrow> (sid, [sid])
    | Some i \<Rightarrow> (str_id i, str_id i # map str_id (wrapper_ids i db)))"

section \<open>JSON in SQL\<close>

text \<open>\<open>detail->>key\<close>.\<close>

definition astext :: "(json \<Rightarrow> string) \<Rightarrow> jdict \<Rightarrow> string \<Rightarrow> string option" where
  "astext txt d k = (case map_of d k of
      None \<Rightarrow> None
    | Some JNull \<Rightarrow> None
    | Some (JStr s) \<Rightarrow> Some s
    | Some (JBool b) \<Rightarrow> Some (if b then ''true'' else ''false'')
    | Some v \<Rightarrow> Some (txt v))"

text \<open>The cast of a text to a boolean, which raises for any other spelling.\<close>

definition pg_bool :: "string \<Rightarrow> bool option" where
  "pg_bool s = (let w = py_lower (py_strip s) in
     if w \<noteq> [] \<and> (prefix w ''true'' \<or> prefix w ''yes'') \<or> w = ''on'' \<or> w = ''1'' then Some True
     else if w \<noteq> [] \<and> (prefix w ''false'' \<or> prefix w ''no'') \<or> w = ''of'' \<or> w = ''off'' \<or> w = ''0'' then Some False
     else None)"

definition OBSERVATION_SOURCES :: "string list" where
  "OBSERVATION_SOURCES = [''passive_observation'', ''last_ingested_observation'']"

section \<open>The newest evidence\<close>

definition keep_newest :: "'k \<times> nat \<Rightarrow> ('k \<times> nat) list \<Rightarrow> ('k \<times> nat) list" where
  "keep_newest p d = (case map_of d (fst p) of
      None \<Rightarrow> d @ [p]
    | Some t \<Rightarrow> if t < snd p then AList.update (fst p) (snd p) d else d)"

text \<open>\<open>max(occurred_at) GROUP BY key\<close>, and the loops that fold the groups of wrappers into those of their source.\<close>

definition group_newest :: "('k \<times> nat) list \<Rightarrow> ('k \<times> nat) list" where
  "group_newest rows = fold keep_newest rows []"

definition observed_rows :: "(json \<Rightarrow> string) \<Rightarrow> (string \<times> string) list \<Rightarrow> event_row list \<Rightarrow> ((string \<times> string) \<times> nat) list" where
  "observed_rows txt owners evs =
     concat (map (\<lambda>e. case astext txt (ev_detail e) ''dataset_urn'' of
         Some u \<Rightarrow>
           if ev_entity_type e = ''ingestion_source'' \<and> ev_type e = ''INGESTION.COMPLETE'' \<and> ev_entity_id e \<in> fst ` set owners \<and>
              (case astext txt (ev_detail e) ''source'' of Some p \<Rightarrow> p \<in> set OBSERVATION_SOURCES | None \<Rightarrow> False)
           then [((ev_entity_id e, u), ev_at e)] else []
       | None \<Rightarrow> []) evs)"

definition latest_ingestion_observed_by_dataset ::
  "(json \<Rightarrow> string) \<Rightarrow> (string \<Rightarrow> nat option) \<Rightarrow> (nat \<Rightarrow> string) \<Rightarrow> string list \<Rightarrow> ingestion_db \<Rightarrow> ((string \<times> string) \<times> nat) list" where
  "latest_ingestion_observed_by_dataset txt uuid str_id sids db =
     (let owners = owner_by_entity_id uuid str_id sids db
      in group_newest (concat (map (\<lambda>((e, u), t). if u = [] then [] else [((the (map_of owners e), u), t)])
           (group_newest (observed_rows txt owners (events db))))))"

definition complete_events :: "(string \<times> string) list \<Rightarrow> event_row list \<Rightarrow> event_row list" where
  "complete_events owners evs = filter (\<lambda>e. ev_type e = ''INGESTION.COMPLETE'' \<and> ev_entity_type e = ''ingestion_source'' \<and>
     ev_entity_id e \<in> fst ` set owners) evs"

text \<open>\<open>~coalesce(cast(detail->>'dry_run' as boolean), false)\<close>; a failing cast fails the query.\<close>

definition is_dry_run :: "(json \<Rightarrow> string) \<Rightarrow> event_row \<Rightarrow> bool option" where
  "is_dry_run txt e = (case astext txt (ev_detail e) ''dry_run'' of None \<Rightarrow> Some False | Some s \<Rightarrow> pg_bool s)"

definition latest_ingestion_complete_by_source ::
  "(json \<Rightarrow> string) \<Rightarrow> (string \<Rightarrow> nat option) \<Rightarrow> (nat \<Rightarrow> string) \<Rightarrow> string list \<Rightarrow> ingestion_db \<Rightarrow> (string \<times> nat) list option" where
  "latest_ingestion_complete_by_source txt uuid str_id sids db =
     (let owners = owner_by_entity_id uuid str_id sids db; rows = complete_events owners (events db)
      in if \<exists>e \<in> set rows. is_dry_run txt e = None then None
         else Some (group_newest (map (\<lambda>(e, t). (the (map_of owners e), t))
                (group_newest (map (\<lambda>e. (ev_entity_id e, ev_at e)) (filter (\<lambda>e. is_dry_run txt e = Some False) rows))))))"

section \<open>The feed\<close>

definition is_run_event :: "(json \<Rightarrow> string) \<Rightarrow> string list \<Rightarrow> event_row \<Rightarrow> bool" where
  "is_run_event txt ids e \<longleftrightarrow> ev_entity_type e = ''ingestion_source'' \<and> ev_entity_id e \<in> set ids \<and>
     ev_type e \<in> {''INGESTION.COMPLETE'', ''INGESTION.FAIL''} \<and>
     (case astext txt (ev_detail e) ''source'' of None \<Rightarrow> True | Some p \<Rightarrow> p \<notin> set OBSERVATION_SOURCES)"

text \<open>A row of an answer is the event and its \<open>wrapper\<close> flag.\<close>

definition get_latest_run_event ::
  "(json \<Rightarrow> string) \<Rightarrow> (string \<Rightarrow> nat option) \<Rightarrow> (nat \<Rightarrow> string) \<Rightarrow> string \<Rightarrow> ingestion_db \<Rightarrow> (event_row \<times> bool) option" where
  "get_latest_run_event txt uuid str_id sid db =
     (let (canonical, ids) = source_entity_ids uuid str_id sid db in
      case desc_by ev_at (filter (is_run_event txt ids) (events db)) of
        [] \<Rightarrow> None
      | e # _ \<Rightarrow> Some (e, ev_entity_id e \<noteq> canonical))"

definition in_feed ::
  "(json \<Rightarrow> string) \<Rightarrow> string list \<Rightarrow> nat option \<Rightarrow> nat option \<Rightarrow> string option \<Rightarrow> event_row \<Rightarrow> bool" where
  "in_feed txt ids from_dt to_dt urn e \<longleftrightarrow>
     ev_entity_type e = ''ingestion_source'' \<and> ev_entity_id e \<in> set ids \<and> py_startswith (ev_type e) ''INGESTION.'' \<and>
     (case urn of None \<Rightarrow> True | Some u \<Rightarrow> astext txt (ev_detail e) ''dataset_urn'' \<in> {None, Some u}) \<and>
     (case from_dt of None \<Rightarrow> True | Some t \<Rightarrow> t \<le> ev_at e) \<and> (case to_dt of None \<Rightarrow> True | Some t \<Rightarrow> ev_at e \<le> t)"

definition get_events_for_source ::
  "(json \<Rightarrow> string) \<Rightarrow> (string \<Rightarrow> nat option) \<Rightarrow> (nat \<Rightarrow> string) \<Rightarrow> string \<Rightarrow> nat \<Rightarrow> nat \<Rightarrow> nat option \<Rightarrow> nat option \<Rightarrow>
   (event_row list \<Rightarrow> event_row list) option \<Rightarrow> string option \<Rightarrow> ingestion_db \<Rightarrow> (ds_error, (event_row \<times> bool) list \<times> nat) result" where
  "get_events_for_source txt uuid str_id sid offset limit from_dt to_dt order_by urn db =
     rmap (\<lambda>_. let (canonical, ids) = source_entity_ids uuid str_id sid db;
         base = filter (in_feed txt ids from_dt to_dt urn) (events db)
       in (map (\<lambda>e. (e, ev_entity_id e \<noteq> canonical)) (page offset limit (ordered order_by ev_at base)), length base))
     (get_source (uuid sid) db)"

section \<open>Newest per key\<close>

definition newest_of :: "('k \<times> nat) list \<Rightarrow> 'k \<Rightarrow> nat option" where
  "newest_of rows k = (if k \<in> fst ` set rows then Some (Max {t. (k, t) \<in> set rows}) else None)"

lemma finite_times: "finite {t. (k, t) \<in> set rows}"
proof -
  have "{t. (k, t) \<in> set rows} \<subseteq> snd ` set rows" by force
  then show ?thesis by (rule finite_subset) simp
qed

lemma newest_of_snoc:
  "newest_of (rows @ [(k, t)]) k' =
     (if k' = k then Some (case newest_of rows k of None \<Rightarrow> t | Some u \<Rightarrow> max u t) else newest_of rows k')"
proof (cases "k' = k")
  case True
  have eq: "{u. (k, u) \<in> set (rows @ [(k, t)])} = insert t {u. (k, u) \<in> set rows}" by auto
  show ?thesis
  proof (cases "k \<in> fst ` set rows")
    case False
    then have "{u. (k, u) \<in> set rows} = {}" by force
    with True False show ?thesis unfolding newest_of_def eq by simp
  next
    case old: True
    then have "{u. (k, u) \<in> set rows} \<noteq> {}" by force
    then have "Max (insert t {u. (k, u) \<in> set rows}) = max (Max {u. (k, u) \<in> set rows}) t"
      using Max_insert [OF finite_times] by (simp add: max.commute)
    then have "newest_of (rows @ [(k, t)]) k = Some (max (Max {u. (k, u) \<in> set rows}) t)" unfolding newest_of_def eq by simp
    with True old show ?thesis by (simp add: newest_of_def)
  qed
next
  case False
  then have "{u. (k', u) \<in> set (rows @ [(k, t)])} = {u. (k', u) \<in> set rows}" by auto
  with False show ?thesis by (simp add: newest_of_def)
qed

lemma map_of_keep_newest:
  "map_of (keep_newest (k, t) d) k' =
     (if k' = k then Some (case map_of d k of None \<Rightarrow> t | Some u \<Rightarrow> max u t) else map_of d k')"
  by (auto simp: keep_newest_def map_add_def update_conv' max_def split: option.split)

lemma group_newest_max: "map_of (group_newest rows) k = newest_of rows k"
proof -
  have "map_of (fold keep_newest rows []) k = newest_of rows k"
  proof (induction rows arbitrary: k rule: rev_induct)
    case (snoc p rows)
    show ?case by (cases p) (simp add: map_of_keep_newest newest_of_snoc snoc.IH)
  qed (simp add: newest_of_def)
  then show ?thesis by (simp add: group_newest_def)
qed

lemma group_newest_keys: "distinct (map fst (group_newest rows))"
proof -
  have "distinct (map fst (fold keep_newest rows []))"
  proof (induction rows rule: rev_induct)
    case (snoc p rows)
    then show ?case
      by (auto simp: keep_newest_def distinct_update map_of_eq_None_iff split: option.splits)
  qed simp
  then show ?thesis by (simp add: group_newest_def)
qed

lemma group_newest_mem: "(k, t) \<in> set (group_newest rows) \<longleftrightarrow> newest_of rows k = Some t"
  using group_newest_max [of rows k] group_newest_keys [of rows] by (metis map_of_eq_Some_iff)

lemma newest_of_Some: "newest_of rows k = Some t \<longleftrightarrow> (k, t) \<in> set rows \<and> (\<forall>u. (k, u) \<in> set rows \<longrightarrow> u \<le> t)"
proof
  assume n: "newest_of rows k = Some t"
  then have "k \<in> fst ` set rows" "t = Max {u. (k, u) \<in> set rows}" by (auto simp: newest_of_def split: if_splits)
  moreover from this(1) have "{u. (k, u) \<in> set rows} \<noteq> {}" by force
  ultimately show "(k, t) \<in> set rows \<and> (\<forall>u. (k, u) \<in> set rows \<longrightarrow> u \<le> t)"
    using Max_in [OF finite_times, of k rows] Max_ge [OF finite_times, of _ k rows] by blast
next
  assume m: "(k, t) \<in> set rows \<and> (\<forall>u. (k, u) \<in> set rows \<longrightarrow> u \<le> t)"
  then have "Max {u. (k, u) \<in> set rows} = t" by (intro Max_eqI) (auto simp: finite_times)
  with m show "newest_of rows k = Some t" by (force simp: newest_of_def)
qed

text \<open>Taking the newest per entity and then per owner is taking the newest per owner.\<close>

lemma group_newest_twice:
  "map_of (group_newest (map (\<lambda>(e, t). (g e, t)) (group_newest rows))) k = newest_of (map (\<lambda>(e, t). (g e, t)) rows) k"
proof -
  let ?f = "\<lambda>(e, t). (g e, t)"
  have "newest_of (map ?f (group_newest rows)) k = Some t \<longleftrightarrow> newest_of (map ?f rows) k = Some t" for t
  proof
    assume n: "newest_of (map ?f (group_newest rows)) k = Some t"
    then obtain e where e: "newest_of rows e = Some t" "g e = k" by (auto simp: newest_of_Some group_newest_mem)
    have "u \<le> t" if "(e', u) \<in> set rows" "g e' = k" for e' u
    proof -
      from that(1) obtain v where v: "newest_of rows e' = Some v" by (force simp: newest_of_def)
      then have "(k, v) \<in> set (map ?f (group_newest rows))" using that(2) by (force simp: group_newest_mem)
      with n have "v \<le> t" by (simp add: newest_of_Some)
      with v that(1) show ?thesis by (force simp: newest_of_Some)
    qed
    with e show "newest_of (map ?f rows) k = Some t" by (force simp: newest_of_Some)
  next
    assume n: "newest_of (map ?f rows) k = Some t"
    then obtain e where e: "(e, t) \<in> set rows" "g e = k" by (auto simp: newest_of_Some)
    with n have "newest_of rows e = Some t" by (force simp: newest_of_Some)
    with e n show "newest_of (map ?f (group_newest rows)) k = Some t" by (force simp: newest_of_Some group_newest_mem)
  qed
  then show ?thesis unfolding group_newest_max by (metis option.exhaust)
qed

section \<open>The answers\<close>

text \<open>The newest complete run of a source that is not dry, over its own events and those of its wrappers.\<close>

definition counts_for :: "(json \<Rightarrow> string) \<Rightarrow> (string \<times> string) list \<Rightarrow> string \<Rightarrow> event_row \<Rightarrow> bool" where
  "counts_for txt owners sid e \<longleftrightarrow> ev_type e = ''INGESTION.COMPLETE'' \<and> ev_entity_type e = ''ingestion_source'' \<and>
     ev_entity_id e \<in> fst ` set owners \<and> the (map_of owners (ev_entity_id e)) = sid \<and> is_dry_run txt e = Some False"

lemma latest_complete_exact:
  assumes "latest_ingestion_complete_by_source txt uuid str_id sids db = Some latest"
  shows "map_of latest sid = Some t \<longleftrightarrow>
    (\<exists>e \<in> set (events db). counts_for txt (owner_by_entity_id uuid str_id sids db) sid e \<and> ev_at e = t) \<and>
    (\<forall>e \<in> set (events db). counts_for txt (owner_by_entity_id uuid str_id sids db) sid e \<longrightarrow> ev_at e \<le> t)"
proof -
  let ?own = "owner_by_entity_id uuid str_id sids db"
  let ?rows = "map (\<lambda>e. (ev_entity_id e, ev_at e)) (filter (\<lambda>e. is_dry_run txt e = Some False) (complete_events ?own (events db)))"
  have "latest = group_newest (map (\<lambda>(e, t). (the (map_of ?own e), t)) (group_newest ?rows))"
    using assms by (simp add: latest_ingestion_complete_by_source_def Let_def split: if_splits)
  then have "map_of latest sid = newest_of (map (\<lambda>(e, t). (the (map_of ?own e), t)) ?rows) sid"
    by (simp only: group_newest_twice)
  then have "map_of latest sid = Some t \<longleftrightarrow>
      (sid, t) \<in> set (map (\<lambda>(e, t). (the (map_of ?own e), t)) ?rows) \<and>
      (\<forall>u. (sid, u) \<in> set (map (\<lambda>(e, t). (the (map_of ?own e), t)) ?rows) \<longrightarrow> u \<le> t)"
    by (simp only: newest_of_Some)
  moreover have "(sid, u) \<in> set (map (\<lambda>(e, t). (the (map_of ?own e), t)) ?rows) \<longleftrightarrow>
      (\<exists>e \<in> set (events db). counts_for txt ?own sid e \<and> ev_at e = u)" for u
    by (auto simp: counts_for_def complete_events_def image_iff)
  ultimately show ?thesis by auto
qed

text \<open>The latest run outcome is the newest event of a run, never an observation.\<close>

lemma latest_run_event:
  "case get_latest_run_event txt uuid str_id sid db of
     None \<Rightarrow> \<forall>e \<in> set (events db). \<not> is_run_event txt (snd (source_entity_ids uuid str_id sid db)) e
   | Some (e, wrapper) \<Rightarrow> e \<in> set (events db) \<and> is_run_event txt (snd (source_entity_ids uuid str_id sid db)) e \<and>
       (wrapper \<longleftrightarrow> ev_entity_id e \<noteq> fst (source_entity_ids uuid str_id sid db)) \<and>
       (\<forall>e' \<in> set (events db). is_run_event txt (snd (source_entity_ids uuid str_id sid db)) e' \<longrightarrow> ev_at e' \<le> ev_at e)"
proof -
  let ?ids = "snd (source_entity_ids uuid str_id sid db)"
  let ?sorted = "desc_by ev_at (filter (is_run_event txt ?ids) (events db))"
  have mem: "set ?sorted = {e \<in> set (events db). is_run_event txt ?ids e}" by (simp add: desc_by_def)
  show ?thesis
  proof (cases ?sorted)
    case Nil
    with mem have "{e \<in> set (events db). is_run_event txt ?ids e} = {}" by simp
    with Nil show ?thesis by (auto simp: get_latest_run_event_def split_beta)
  next
    case (Cons e es)
    have "sorted (map (\<lambda>r. - int (ev_at r)) ?sorted)" by (simp add: desc_by_def)
    then have "\<forall>e' \<in> set es. ev_at e' \<le> ev_at e" using Cons by auto
    then have top: "\<forall>e' \<in> set ?sorted. ev_at e' \<le> ev_at e" using Cons by auto
    have "e \<in> set ?sorted" using Cons by simp
    with top mem Cons show ?thesis by (auto simp: get_latest_run_event_def split_beta)
  qed
qed

text \<open>The feed is a page of the source's own events and its wrappers', flagged; with a dataset it keeps run events.\<close>

lemma desc_page_sorted: "sorted_wrt (\<lambda>x y. f y \<le> f x) (page offset limit (desc_by f xs))"
proof -
  have "sorted_wrt (\<lambda>x y. - int (f x) \<le> - int (f y)) (desc_by f xs)"
    using sorted_sort_key [of "\<lambda>r. - int (f r)" xs] by (simp only: desc_by_def sorted_map)
  then have "sorted_wrt (\<lambda>x y. f y \<le> f x) (desc_by f xs)" by simp
  then show ?thesis by (simp add: page_def sorted_wrt_take sorted_wrt_drop)
qed

lemma events_for_source:
  assumes "get_events_for_source txt uuid str_id sid offset limit from_dt to_dt None urn db = Inr (rows, n)"
  shows "length rows \<le> limit \<and> n = length (filter (in_feed txt (snd (source_entity_ids uuid str_id sid db)) from_dt to_dt urn) (events db)) \<and>
    (\<forall>(e, wrapper) \<in> set rows. e \<in> set (events db) \<and>
       in_feed txt (snd (source_entity_ids uuid str_id sid db)) from_dt to_dt urn e \<and>
       (wrapper \<longleftrightarrow> ev_entity_id e \<noteq> fst (source_entity_ids uuid str_id sid db))) \<and>
    sorted_wrt (\<lambda>p q. ev_at (fst q) \<le> ev_at (fst p)) rows"
proof -
  let ?base = "filter (in_feed txt (snd (source_entity_ids uuid str_id sid db)) from_dt to_dt urn) (events db)"
  let ?page = "page offset limit (desc_by ev_at ?base)"
  have b: "n = length ?base" "rows = map (\<lambda>e. (e, ev_entity_id e \<noteq> fst (source_entity_ids uuid str_id sid db))) ?page"
    using assms by (auto simp: get_events_for_source_def Let_def ordered_def split_beta rmap_eq_Inr)
  have "set ?page \<subseteq> set ?base"
    using set_page [of offset limit "desc_by ev_at ?base"] by (simp add: desc_by_def)
  moreover have "sorted_wrt (\<lambda>x y. ev_at y \<le> ev_at x) ?page" by (rule desc_page_sorted)
  moreover have "length ?page \<le> limit" by (rule length_page)
  ultimately show ?thesis unfolding b by (auto simp: sorted_wrt_map)
qed

section \<open>Every covering source\<close>

lemma fold_add_covering:
  "distinct (map src_id found) \<Longrightarrow>
   distinct (map src_id (fold (add_covering db) ps found)) \<and>
   set found \<subseteq> set (fold (add_covering db) ps found) \<and>
   set (fold (add_covering db) ps found) \<subseteq> set found \<union> resolve_wrapper db ` snd ` set ps \<and>
   src_id ` set (fold (add_covering db) ps found) = src_id ` set found \<union> (src_id \<circ> resolve_wrapper db) ` snd ` set ps"
proof (induction ps arbitrary: found)
  case (Cons p ps)
  have d: "distinct (map src_id (add_covering db p found))" using Cons.prems by (auto simp: add_covering_def Let_def)
  have s: "set found \<subseteq> set (add_covering db p found)" "set (add_covering db p found) \<subseteq> insert (resolve_wrapper db (snd p)) (set found)"
    "src_id ` set (add_covering db p found) = insert (src_id (resolve_wrapper db (snd p))) (src_id ` set found)"
    by (auto simp: add_covering_def Let_def)
  note ih = Cons.IH [OF d]
  from ih s show ?case by auto
qed simp

lemma resolved_regular:
  assumes "sound_sources db" "r \<in> set (sources db)"
  shows "resolve_wrapper db r \<in> set (sources db) \<and> parent_source_id (resolve_wrapper db r) = None"
proof (cases "parent_source_id r")
  case None
  with assms show ?thesis by (simp add: resolve_wrapper_def)
next
  case (Some p)
  with assms obtain q where q: "q \<in> set (sources db)" "src_id q = p" "parent_source_id q = None"
    by (auto simp: sound_sources_def rows_sound_def regular_parent_def)
  have "row_get src_id p (sources db) = Some q"
    using row_get_unique [of src_id "sources db" q] q assms by (simp add: sound_sources_def keys_sound_def)
  with Some q show ?thesis by (simp add: resolve_wrapper_def)
qed

text \<open>A dataset's covering sources are distinct regular sources, and its owner is one of them.\<close>

lemma covering_sources:
  assumes "sound_sources db" "urn \<in> set urns"
  obtains rows where "reverse_lookup_all_batch str_id urns db urn = Some rows" "distinct (map src_id rows)"
    "set rows \<subseteq> set (sources db)" "\<forall>r \<in> set rows. parent_source_id r = None"
    "\<forall>owner. reverse_lookup urn db = Some owner \<longrightarrow> owner \<in> set rows"
proof -
  let ?ps = "filter (\<lambda>p. dataset_urn (fst p) = urn) (mapping_join db)"
  let ?found = "fold (add_covering db) ?ps []"
  have f: "distinct (map src_id ?found)" "set ?found \<subseteq> resolve_wrapper db ` snd ` set ?ps"
    "src_id ` set ?found = (src_id \<circ> resolve_wrapper db) ` snd ` set ?ps"
    using fold_add_covering [of "[]" db ?ps] by simp_all
  have "snd p \<in> set (sources db)" if "p \<in> set ?ps" for p
    using that mapping_join_source [of "fst p" "snd p" db] by simp
  then have src: "snd p \<in> set (sources db)" if "p \<in> set ?ps" for p using that by simp
  have "r \<in> set (sources db) \<and> parent_source_id r = None" if "r \<in> set ?found" for r
  proof -
    from f(2) that obtain p where "p \<in> set ?ps" "r = resolve_wrapper db (snd p)" by (auto simp del: set_filter)
    with resolved_regular [OF assms(1) src] show ?thesis by simp
  qed
  then have reg: "set ?found \<subseteq> set (sources db)" "\<forall>r \<in> set ?found. parent_source_id r = None" by auto
  have own: "owner \<in> set ?found" if "reverse_lookup urn db = Some owner" for owner
  proof -
    obtain p where "stable_min ?ps = Some p" "owner = resolve_wrapper db (snd p)"
      using \<open>reverse_lookup urn db = Some owner\<close> by (auto simp: reverse_lookup_def)
    with stable_min_in have p: "p \<in> set ?ps" "owner = resolve_wrapper db (snd p)" by blast+
    then have "src_id owner \<in> src_id ` set ?found" unfolding f(3) by (simp only: comp_def) blast
    then obtain r where r: "r \<in> set ?found" "src_id r = src_id owner" by auto
    have "owner \<in> set (sources db)" using p resolved_regular [OF assms(1)] mapping_join_source [of "fst p" "snd p" db] by simp
    moreover have "r \<in> set (sources db)" using r reg by blast
    ultimately have "r = owner"
      using assms(1) r(2) by (auto simp: sound_sources_def keys_sound_def distinct_map dest: inj_onD)
    with r show ?thesis by simp
  qed
  have "distinct (map src_id (sort_key (\<lambda>r. (src_name r, str_id (src_id r))) ?found))"
    using f(1) by (simp add: distinct_map)
  then show ?thesis using that [of "sort_key (\<lambda>r. (src_name r, str_id (src_id r))) ?found"] assms(2) reg own
    by (simp add: reverse_lookup_all_batch_def)
qed

end
