(* ===== verification/Ontogen_Slug.thy ===== *)
theory Ontogen_Slug
  imports Prelude
begin

text \<open>
  \<open>src/backend/ontogen/slug.py\<close>: the ASCII snake-case identifier of a name and the search for an
  unused one. The search is a loop that ends only because the identifiers in use are finitely
  many; it is a \<open>partial_function\<close>, whose value would be \<open>None\<close> if it did not end.
\<close>

definition slug_char :: "char \<Rightarrow> bool" where
  "slug_char c \<longleftrightarrow> is_lower c \<or> is_digit c \<or> c = CHR ''_''"

text \<open>\<open>SLUG_ID_RE.match\<close>: the final \<open>$\<close> also matches before a trailing line feed.\<close>

definition slug_core :: "string \<Rightarrow> bool" where
  "slug_core s \<longleftrightarrow> s \<noteq> [] \<and> length s \<le> 64 \<and> list_all slug_char s"

definition slug_id_matches :: "string \<Rightarrow> bool" where
  "slug_id_matches s \<longleftrightarrow> slug_core s \<or> (s \<noteq> [] \<and> last s = CHR 0x0A \<and> slug_core (butlast s))"

section \<open>Normalisation\<close>

text \<open>NFKD normalisation of a character below 256 with everything outside ASCII dropped; the
  combining marks a decomposition leaves are among what is dropped.\<close>

definition NFKD_ASCII :: "(nat \<times> string) list" where
  "NFKD_ASCII =
    [(160, '' ''), (168, '' ''), (170, ''a''), (175, '' ''), (178, ''2''), (179, ''3''), (180, '' ''), (184, '' ''),
     (185, ''1''), (186, ''o''), (188, ''14''), (189, ''12''), (190, ''34''),
     (192, ''A''), (193, ''A''), (194, ''A''), (195, ''A''), (196, ''A''), (197, ''A''), (199, ''C''),
     (200, ''E''), (201, ''E''), (202, ''E''), (203, ''E''), (204, ''I''), (205, ''I''), (206, ''I''), (207, ''I''),
     (209, ''N''), (210, ''O''), (211, ''O''), (212, ''O''), (213, ''O''), (214, ''O''),
     (217, ''U''), (218, ''U''), (219, ''U''), (220, ''U''), (221, ''Y''),
     (224, ''a''), (225, ''a''), (226, ''a''), (227, ''a''), (228, ''a''), (229, ''a''), (231, ''c''),
     (232, ''e''), (233, ''e''), (234, ''e''), (235, ''e''), (236, ''i''), (237, ''i''), (238, ''i''), (239, ''i''),
     (241, ''n''), (242, ''o''), (243, ''o''), (244, ''o''), (245, ''o''), (246, ''o''),
     (249, ''u''), (250, ''u''), (251, ''u''), (252, ''u''), (253, ''y''), (255, ''y'')]"

definition ascii_fold :: "string \<Rightarrow> string" where
  "ascii_fold s = concat (map (\<lambda>c. if code c < 128 then [c]
     else case map_of NFKD_ASCII (code c) of Some t \<Rightarrow> t | None \<Rightarrow> []) s)"

definition slug_alnum :: "char \<Rightarrow> bool" where
  "slug_alnum c \<longleftrightarrow> is_lower c \<or> is_digit c"

text \<open>\<open>re.sub(r"[^a-z0-9]+", "_", s)\<close>.\<close>

function collapse :: "string \<Rightarrow> string" where
  "collapse [] = []"
| "collapse (c # cs) =
     (if slug_alnum c then c # collapse cs
      else CHR ''_'' # collapse (dropWhile (\<lambda>d. \<not> slug_alnum d) cs))"
  by pat_completeness auto
termination
  by (relation "measure length") (auto simp: le_imp_less_Suc length_dropWhile_le)

definition strip_us :: "string \<Rightarrow> string" where
  "strip_us s = rev (dropWhile (\<lambda>c. c = CHR ''_'') (rev (dropWhile (\<lambda>c. c = CHR ''_'') s)))"

definition to_snake :: "string \<Rightarrow> string" where
  "to_snake s = (let slug = strip_us (collapse (py_lower (ascii_fold s))) in if slug = [] then ''x'' else slug)"

section \<open>The search for an unused identifier\<close>

text \<open>\<open>base.replace("__", "_")\<close>.\<close>

fun replace_us2 :: "string \<Rightarrow> string" where
  "replace_us2 (a # b # s) =
     (if a = CHR ''_'' \<and> b = CHR ''_'' then CHR ''_'' # replace_us2 s else a # replace_us2 (b # s))"
| "replace_us2 s = s"

partial_function (option) snake_loop ::
    "string \<Rightarrow> string set \<Rightarrow> nat \<Rightarrow> string \<Rightarrow> string option" where
  "snake_loop base existing_ids counter candidate =
     (if candidate \<in> existing_ids \<or> py_contains ''__'' candidate
      then snake_loop base existing_ids (Suc counter) (base @ ''_'' @ show_nat counter)
      else Some candidate)"

declare snake_loop.simps [code]

definition make_snake_id :: "string \<Rightarrow> string set \<Rightarrow> string option" where
  "make_snake_id name existing_ids =
     (let base = replace_us2 (to_snake name) in snake_loop base existing_ids 1 base)"

text \<open>\<open>assert_node_id\<close> and \<open>assert_edge_id\<close> raise exactly when this is false.\<close>

definition assert_node_id :: "string \<Rightarrow> bool" where
  "assert_node_id node_id \<longleftrightarrow> slug_id_matches node_id"

definition assert_edge_id :: "string \<Rightarrow> bool" where
  "assert_edge_id edge_id \<longleftrightarrow> slug_id_matches edge_id"

section \<open>Shape of a slug\<close>

text \<open>No two underscores in a row.\<close>

abbreviation us_ok :: "char \<Rightarrow> char \<Rightarrow> bool" where
  "us_ok a b \<equiv> \<not> (a = CHR ''_'' \<and> b = CHR ''_'')"

lemma no_double_us: "\<not> py_contains ''__'' s \<longleftrightarrow> successively us_ok s"
proof (induction s)
  case Nil
  show ?case by (simp add: py_contains_def)
next
  case (Cons c cs)
  then show ?case
    by (cases cs) (auto simp: py_contains_Cons py_startswith_def)
qed

definition slug_shape :: "string \<Rightarrow> bool" where
  "slug_shape s \<longleftrightarrow> s \<noteq> [] \<and> list_all slug_char s \<and> successively us_ok s \<and>
     hd s \<noteq> CHR ''_'' \<and> last s \<noteq> CHR ''_''"

lemma slug_shape_single: "slug_shape s \<Longrightarrow> \<not> py_contains ''__'' s"
  unfolding no_double_us by (simp add: slug_shape_def)

lemma alnum_not_us: "slug_alnum c \<Longrightarrow> c \<noteq> CHR ''_''"
  by (auto simp: slug_alnum_def is_lower_def is_digit_def)

lemma collapse_chars: "list_all slug_char (collapse s)"
  by (induction s rule: collapse.induct) (auto simp: slug_char_def slug_alnum_def)

lemma collapse_hd: "collapse s \<noteq> [] \<Longrightarrow> slug_alnum (hd s) \<Longrightarrow> hd (collapse s) \<noteq> CHR ''_''"
  by (cases s) (auto dest: alnum_not_us)

lemma collapse_succ: "successively us_ok (collapse s)"
proof (induction s rule: collapse.induct)
  case (2 c cs)
  show ?case
  proof (cases "slug_alnum c")
    case True
    with 2 show ?thesis by (cases "collapse cs") (auto dest: alnum_not_us)
  next
    case False
    let ?rest = "dropWhile (\<lambda>d. \<not> slug_alnum d) cs"
    have "collapse ?rest = [] \<or> hd (collapse ?rest) \<noteq> CHR ''_''"
    proof (cases "?rest = []")
      case True
      then show ?thesis by (simp only: collapse.simps) simp
    next
      case False
      then show ?thesis using collapse_hd [of ?rest] hd_dropWhile [OF False] by blast
    qed
    with False 2 show ?thesis by (cases "collapse ?rest") auto
  qed
qed simp

lemma rstrip_split: "t = rev (dropWhile P (rev t)) @ rev (takeWhile P (rev t))"
  by (metis rev_append rev_rev_ident takeWhile_dropWhile_id)

lemma strip_us_split:
  "dropWhile (\<lambda>c. c = CHR ''_'') s =
     strip_us s @ rev (takeWhile (\<lambda>c. c = CHR ''_'') (rev (dropWhile (\<lambda>c. c = CHR ''_'') s)))"
  unfolding strip_us_def by (rule rstrip_split)

lemma strip_us_parts: "\<exists>p q. s = p @ strip_us s @ q"
proof -
  define q where "q = rev (takeWhile (\<lambda>c. c = CHR ''_'') (rev (dropWhile (\<lambda>c. c = CHR ''_'') s)))"
  have "s = takeWhile (\<lambda>c. c = CHR ''_'') s @ strip_us s @ q"
    unfolding q_def by (subst strip_us_split [symmetric]) simp
  then show ?thesis by blast
qed

lemma strip_us_ends:
  assumes "strip_us s \<noteq> []"
  shows "hd (strip_us s) \<noteq> CHR ''_''" "last (strip_us s) \<noteq> CHR ''_''"
proof -
  let ?m = "dropWhile (\<lambda>c. c = CHR ''_'') s"
  have ne: "dropWhile (\<lambda>c. c = CHR ''_'') (rev ?m) \<noteq> []" using assms by (simp add: strip_us_def)
  then show "last (strip_us s) \<noteq> CHR ''_''"
    using hd_dropWhile [OF ne] by (simp add: strip_us_def last_rev)
  have "?m \<noteq> []"
  proof
    assume none: "?m = []"
    show False using ne unfolding none by simp
  qed
  then have "hd ?m \<noteq> CHR ''_''" by (rule hd_dropWhile)
  moreover have "hd ?m = hd (strip_us s)"
  proof -
    define q where "q = rev (takeWhile (\<lambda>c. c = CHR ''_'') (rev ?m))"
    have "?m = strip_us s @ q" unfolding q_def by (rule strip_us_split)
    then have "hd ?m = hd (strip_us s @ q)" by (rule arg_cong)
    also have "\<dots> = hd (strip_us s)" by (rule hd_append2 [OF assms])
    finally show ?thesis .
  qed
  ultimately show "hd (strip_us s) \<noteq> CHR ''_''" by simp
qed

lemma to_snake_shape: "slug_shape (to_snake s)"
proof -
  let ?c = "collapse (py_lower (ascii_fold s))"
  obtain p q where pq: "?c = p @ strip_us ?c @ q" using strip_us_parts by blast
  have "list_all slug_char (strip_us ?c)" "successively us_ok (strip_us ?c)"
    using collapse_chars [of "py_lower (ascii_fold s)"] collapse_succ [of "py_lower (ascii_fold s)"]
    by (metis list_all_append pq, metis pq successively_append_iff)
  with strip_us_ends [of ?c] show ?thesis
    by (auto simp: to_snake_def slug_shape_def Let_def slug_char_def char_simps)
qed

lemma replace_us2_id: "successively us_ok s \<Longrightarrow> replace_us2 s = s"
  by (induction s rule: replace_us2.induct) auto

lemma show_nat_slug: "list_all slug_char (show_nat n)" "successively us_ok (show_nat n)"
  "hd (show_nat n) \<noteq> CHR ''_''" "last (show_nat n) \<noteq> CHR ''_''"
proof -
  have d: "\<forall>c \<in> set (show_nat n). is_digit c" by (rule show_nat_digits)
  then show "list_all slug_char (show_nat n)" by (auto simp: list_all_iff slug_char_def)
  have nu: "CHR ''_'' \<notin> set (show_nat n)" using d by (auto simp: is_digit_def)
  then show "hd (show_nat n) \<noteq> CHR ''_''" "last (show_nat n) \<noteq> CHR ''_''"
    by (metis hd_in_set show_nat_neq_Nil, metis last_in_set show_nat_neq_Nil)
  have "successively us_ok t" if "CHR ''_'' \<notin> set t" for t
    using that by (induction t rule: induct_list012) auto
  with nu show "successively us_ok (show_nat n)" by blast
qed

lemma numbered_shape: "slug_shape base \<Longrightarrow> slug_shape (base @ ''_'' @ show_nat n)"
  using show_nat_slug [of n]
  by (auto simp: slug_shape_def successively_append_iff slug_char_def successively_Cons)

section \<open>The search ends\<close>

text \<open>If some later number is unused, the loop stops, at the latest there.\<close>

lemma snake_loop_stops:
  assumes "slug_shape base" "counter \<le> m" "base @ ''_'' @ show_nat m \<notin> E" "slug_shape cand"
  shows "\<exists>out. snake_loop base E counter cand = Some out \<and> out \<notin> E \<and> slug_shape out \<and>
    (out = cand \<or> (\<exists>k. counter \<le> k \<and> out = base @ ''_'' @ show_nat k))"
  using assms(2-4)
proof (induction "Suc m - counter" arbitrary: counter cand)
  case 0
  then show ?case by simp
next
  case (Suc d)
  have ok: "\<not> py_contains ''__'' cand" using Suc.prems(3) by (rule slug_shape_single)
  show ?case
  proof (cases "cand \<in> E")
    case False
    then show ?thesis using ok Suc.prems by (simp add: snake_loop.simps)
  next
    case True
    let ?next = "base @ ''_'' @ show_nat counter"
    have step: "snake_loop base E counter cand = snake_loop base E (Suc counter) ?next"
      using True by (subst snake_loop.simps) simp
    have shape: "slug_shape ?next" using assms(1) by (rule numbered_shape)
    show ?thesis
    proof (cases "counter = m")
      case True
      then have "snake_loop base E (Suc counter) ?next = Some ?next"
        using Suc.prems(2) slug_shape_single [OF shape] by (subst snake_loop.simps) simp
      then show ?thesis using step True Suc.prems(2) shape by auto
    next
      case False
      then have "d = Suc m - Suc counter" "Suc counter \<le> m" using Suc.hyps(2) Suc.prems(1) by auto
      from Suc.hyps(1) [OF this Suc.prems(2) shape] step show ?thesis by (metis Suc_leD order_refl)
    qed
  qed
qed

lemma unused_number:
  assumes "finite (E :: string set)"
  shows "\<exists>m. 1 \<le> m \<and> base @ ''_'' @ show_nat m \<notin> E"
proof (rule ccontr)
  assume "\<not> ?thesis"
  then have "(\<lambda>m. base @ ''_'' @ show_nat m) ` {1..} \<subseteq> E" by auto
  moreover have "inj_on (\<lambda>m. base @ ''_'' @ show_nat m) {1..}" by (auto simp: inj_on_def)
  moreover have "infinite {1::nat..}" by (rule infinite_Ici)
  ultimately show False using assms by (meson finite_imageD finite_subset)
qed

lemma make_snake_id_found:
  assumes "finite existing_ids"
  shows "\<exists>out. make_snake_id name existing_ids = Some out \<and> out \<notin> existing_ids \<and> slug_shape out \<and>
    (if to_snake name \<notin> existing_ids then out = to_snake name
     else \<exists>k. 1 \<le> k \<and> out = to_snake name @ ''_'' @ show_nat k)"
proof -
  let ?base = "to_snake name"
  have sh: "slug_shape ?base" by (rule to_snake_shape)
  have base: "replace_us2 ?base = ?base" using sh by (simp add: slug_shape_def replace_us2_id)
  show ?thesis
  proof (cases "?base \<in> existing_ids")
    case False
    then have "make_snake_id name existing_ids = Some ?base"
      using slug_shape_single [OF sh] by (simp add: make_snake_id_def base snake_loop.simps Let_def)
    then show ?thesis using False sh by simp
  next
    case True
    obtain m where m: "1 \<le> m" "?base @ ''_'' @ show_nat m \<notin> existing_ids"
      using unused_number [OF assms] by blast
    from snake_loop_stops [OF sh m sh] obtain out where
      out: "snake_loop ?base existing_ids 1 ?base = Some out" "out \<notin> existing_ids" "slug_shape out"
        "out = ?base \<or> (\<exists>k. 1 \<le> k \<and> out = ?base @ ''_'' @ show_nat k)" by blast
    with True show ?thesis by (auto simp: make_snake_id_def base Let_def)
  qed
qed

text \<open>C22. Whatever the name and the finitely many identifiers in use, the search for an
  identifier ends and returns one that is not in use, made of lower-case letters, digits and
  single inner underscores; it is the slug of the name itself when that is free, and otherwise
  the slug with a number.\<close>

theorem make_snake_id_total:
  assumes "finite existing_ids"
  shows "\<exists>out. make_snake_id name existing_ids = Some out \<and> out \<notin> existing_ids \<and>
    out \<noteq> [] \<and> list_all slug_char out \<and> \<not> py_contains ''__'' out \<and>
    (if to_snake name \<notin> existing_ids then out = to_snake name
     else \<exists>k. 1 \<le> k \<and> out = to_snake name @ ''_'' @ show_nat k)"
  using make_snake_id_found [OF assms, of name] slug_shape_single by (fastforce simp: slug_shape_def)

theorem make_snake_id_total_witness:
  "finite {''sales_order'', ''sales_order_1''} \<and>
   make_snake_id ''Sales Order'' {''sales_order'', ''sales_order_1''} = Some ''sales_order_2'' \<and>
   (\<exists>out. make_snake_id ''Sales Order'' {''sales_order'', ''sales_order_1''} = Some out \<and>
     out \<notin> {''sales_order'', ''sales_order_1''})"
proof -
  have "make_snake_id ''Sales Order'' {''sales_order'', ''sales_order_1''} = Some ''sales_order_2''"
    by code_simp
  then show ?thesis
    using make_snake_id_total [of "{''sales_order'', ''sales_order_1''}" "''Sales Order''"] by auto
qed

text \<open>Nothing bounds the length: the slug of a long name does not match the identifier
  pattern.\<close>

lemma make_snake_id_too_long:
  "\<exists>out. make_snake_id (replicate 65 CHR ''a'') {} = Some out \<and> \<not> slug_id_matches out"
proof -
  have "make_snake_id (replicate 65 CHR ''a'') {} = Some (replicate 65 CHR ''a'')" by code_simp
  moreover have "\<not> slug_id_matches (replicate 65 CHR ''a'')" by code_simp
  ultimately show ?thesis by blast
qed

end
