(* ===== verification/LLM_Loop.thy ===== *)
theory LLM_Loop
  imports Json Exceptions
begin

text \<open>
  \<open>src/shared/llm/client.py\<close> (\<open>complete_with_tools\<close>) and \<open>loop_trace.py\<close>: the bounded loop in which a chat model
  must submit its candidate through one designated tool. The chat model, the schema and the tools
  are parameters. A model call is a function of the iteration and of the messages so far; it replies, fails with one
  of the recoverable exceptions or with another one. A schema check runs a validator that may change
  the payload in place, so its result carries the payload as it is afterwards.
\<close>

record validation_error =
  ve_path :: string
  ve_code :: string

definition verr :: "string \<Rightarrow> string \<Rightarrow> validation_error" where
  "verr path c = \<lparr>ve_path = path, ve_code = c\<rparr>"

record tool_call =
  tc_name :: "string option"
  tc_args :: jdict
  tc_id :: string

datatype chat_message =
    SystemMessage string
  | HumanMessage string
  | AIMessage string "tool_call list"
  | ToolMessage string "validation_error list"

datatype model_reply =
    Reply string "tool_call list"
  | Reply_recoverable string
  | Reply_raises ds_error

datatype tool_reply =
    Tool_result bool "validation_error list"
  | Tool_recoverable string
  | Tool_raises ds_error

datatype schema_reply =
    Schema_ok json
  | Schema_errors "validation_error list" json
  | Schema_raises ds_error

type_synonym tool_fn = "jdict \<Rightarrow> tool_reply"
type_synonym schema_check = "json \<Rightarrow> schema_reply"
type_synonym chat_model = "nat \<Rightarrow> chat_message list \<Rightarrow> model_reply"

record loop_trace =
  lt_iterations :: nat
  lt_errors_per_iter :: "validation_error list list"
  lt_final_errors :: "validation_error list"

record loop_result =
  lr_payload :: json
  lr_trace :: loop_trace

section \<open>One tool call\<close>

text \<open>\<open>args.get("payload", args)\<close>, and the arguments after the payload was changed in place.\<close>

definition candidate_of :: "jdict \<Rightarrow> json" where
  "candidate_of args = dict_get_or args ''payload'' (JObj args)"

definition args_with :: "jdict \<Rightarrow> json \<Rightarrow> jdict" where
  "args_with args payload =
     (if ''payload'' \<in> fst ` set args then update_key ''payload'' payload args
      else case payload of JObj d \<Rightarrow> d | _ \<Rightarrow> args)"

definition ITERATION_ERROR :: validation_error where
  "ITERATION_ERROR = verr [] ''ITERATION_ERROR''"

definition WRONG_TOOL :: validation_error where
  "WRONG_TOOL = verr [] ''WRONG_TOOL''"

definition NO_TOOL_CALL :: validation_error where
  "NO_TOOL_CALL = verr [] ''NO_TOOL_CALL''"

text \<open>The state of the loop over the tool calls of one reply: the errors of the iteration, the
  messages and the last payload seen. A call either succeeds with its payload or leaves a state.\<close>

record call_state =
  cs_errors :: "validation_error list"
  cs_messages :: "chat_message list"
  cs_payload :: json

definition report :: "tool_call \<Rightarrow> validation_error list \<Rightarrow> call_state \<Rightarrow> call_state" where
  "report tc errs st = st\<lparr>cs_errors := cs_errors st @ errs, cs_messages := cs_messages st @ [ToolMessage (tc_id tc) errs]\<rparr>"

definition tool_name :: "tool_call \<Rightarrow> string" where
  "tool_name tc = take 64 (case tc_name tc of None \<Rightarrow> [] | Some n \<Rightarrow> n)"

definition tool_step ::
  "schema_check \<Rightarrow> string \<Rightarrow> tool_fn \<Rightarrow> tool_call \<Rightarrow> call_state \<Rightarrow> (ds_error, json + call_state) result" where
  "tool_step schema success tool tc st =
     (if tool_name tc \<noteq> success then Inr (Inr (report tc [WRONG_TOOL] st))
      else case schema (candidate_of (tc_args tc)) of
        Schema_raises e \<Rightarrow> Inl e
      | Schema_errors errs p \<Rightarrow> Inr (Inr (report tc errs (st\<lparr>cs_payload := p\<rparr>)))
      | Schema_ok p \<Rightarrow>
          (case tool (args_with (tc_args tc) p) of
             Tool_raises e \<Rightarrow> Inl e
           | Tool_recoverable x \<Rightarrow> Inr (Inr (report tc [ITERATION_ERROR] (st\<lparr>cs_payload := p\<rparr>)))
           | Tool_result True errs \<Rightarrow> Inr (Inl p)
           | Tool_result False errs \<Rightarrow> Inr (Inr (report tc errs (st\<lparr>cs_payload := p\<rparr>)))))"

text \<open>\<open>for tool_call in tool_calls\<close>; on success the errors met before it in the reply are kept.\<close>

fun tool_loop ::
  "schema_check \<Rightarrow> string \<Rightarrow> tool_fn \<Rightarrow> tool_call list \<Rightarrow> call_state
     \<Rightarrow> (ds_error, json \<times> validation_error list + call_state) result" where
  "tool_loop schema success tool [] st = Inr (Inr st)"
| "tool_loop schema success tool (tc # tcs) st =
     (case tool_step schema success tool tc st of
        Inl e \<Rightarrow> Inl e
      | Inr (Inl p) \<Rightarrow> Inr (Inl (p, cs_errors st))
      | Inr (Inr st') \<Rightarrow> tool_loop schema success tool tcs st')"

section \<open>The loop\<close>

record react_state =
  rs_messages :: "chat_message list"
  rs_errors_per_iter :: "validation_error list list"
  rs_payload :: json
  rs_last_errors :: "validation_error list"

definition end_iteration :: "chat_message list \<Rightarrow> json \<Rightarrow> validation_error list \<Rightarrow> react_state \<Rightarrow> react_state" where
  "end_iteration msgs payload errs st =
     \<lparr>rs_messages = msgs, rs_errors_per_iter = rs_errors_per_iter st @ [errs], rs_payload = payload, rs_last_errors = errs\<rparr>"

definition react_step ::
  "chat_model \<Rightarrow> schema_check \<Rightarrow> string \<Rightarrow> tool_fn \<Rightarrow> nat \<Rightarrow> react_state
     \<Rightarrow> (ds_error, loop_result + react_state) result" where
  "react_step model schema success tool i st =
     (case model i (rs_messages st) of
        Reply_raises e \<Rightarrow> Inl e
      | Reply_recoverable x \<Rightarrow> Inr (Inr (end_iteration (rs_messages st) (rs_payload st) [ITERATION_ERROR] st))
      | Reply txt tool_calls \<Rightarrow>
          (let msgs = rs_messages st @ [AIMessage txt tool_calls] in
           if tool_calls = [] then
             Inr (Inr (end_iteration (msgs @ [HumanMessage (''You must call the `'' @ success @ ''` tool with your proposed payload. Do not return plain text.'')])
               (rs_payload st) [NO_TOOL_CALL] st))
           else case tool_loop schema success tool tool_calls
                  \<lparr>cs_errors = [], cs_messages = msgs, cs_payload = rs_payload st\<rparr> of
               Inl e \<Rightarrow> Inl e
             | Inr (Inl (p, errs)) \<Rightarrow>
                 Inr (Inl \<lparr>lr_payload = p, lr_trace = \<lparr>lt_iterations = i,
                   lt_errors_per_iter = rs_errors_per_iter st @ [errs], lt_final_errors = []\<rparr>\<rparr>)
             | Inr (Inr cs) \<Rightarrow> Inr (Inr (end_iteration (cs_messages cs) (cs_payload cs) (cs_errors cs) st))))"

text \<open>\<open>for iteration in range(1, max_iterations + 1)\<close> with \<open>todo\<close> iterations left.\<close>

fun react_loop ::
  "chat_model \<Rightarrow> schema_check \<Rightarrow> string \<Rightarrow> tool_fn \<Rightarrow> nat \<Rightarrow> nat \<Rightarrow> react_state \<Rightarrow> (ds_error, loop_result) result" where
  "react_loop model schema success tool max_iterations 0 st =
     Inr \<lparr>lr_payload = rs_payload st, lr_trace = \<lparr>lt_iterations = max_iterations,
       lt_errors_per_iter = rs_errors_per_iter st, lt_final_errors = rs_last_errors st\<rparr>\<rparr>"
| "react_loop model schema success tool max_iterations (Suc todo) st =
     (case react_step model schema success tool (max_iterations - todo) st of
        Inl e \<Rightarrow> Inl e
      | Inr (Inl r) \<Rightarrow> Inr r
      | Inr (Inr st') \<Rightarrow> react_loop model schema success tool max_iterations todo st')"

definition complete_with_tools ::
  "chat_model \<Rightarrow> (string \<times> tool_fn) list \<Rightarrow> string \<Rightarrow> schema_check \<Rightarrow> string \<Rightarrow> nat \<Rightarrow> string
     \<Rightarrow> (ds_error, loop_result) result" where
  "complete_with_tools model tools success schema system max_iterations prompt =
     (case map_of tools success of
        None \<Rightarrow> Inl (UncaughtError ''ValueError'')
      | Some tool \<Rightarrow>
          react_loop model schema success tool max_iterations max_iterations
            \<lparr>rs_messages = (if system \<noteq> [] then [SystemMessage system] else []) @ [HumanMessage prompt],
             rs_errors_per_iter = [], rs_payload = JObj [], rs_last_errors = []\<rparr>)"

section \<open>What a run of the loop guarantees\<close>

text \<open>The contract between the loop and the tool it is given: the tool accepts exactly the valid
  payloads, and a refusal names at least one error.\<close>

locale validating_tool =
  fixes schema :: schema_check
    and tool :: tool_fn
    and valid :: "json \<Rightarrow> bool"
  assumes accepts: "schema (candidate_of args) = Schema_ok p \<Longrightarrow> tool (args_with args p) = Tool_result True errs \<Longrightarrow> valid p"
    and refuses: "schema (candidate_of args) = Schema_ok p \<Longrightarrow> tool (args_with args p) = Tool_result False errs \<Longrightarrow> errs \<noteq> []"
    and schema_refuses: "schema j = Schema_errors errs p \<Longrightarrow> errs \<noteq> []"
begin

lemma tool_step_success:
  "tool_step schema success tool tc st = Inr (Inl p) \<Longrightarrow> valid p"
  by (auto simp: tool_step_def split: if_splits schema_reply.splits tool_reply.splits bool.splits dest: accepts)

lemma tool_step_reports:
  "tool_step schema success tool tc st = Inr (Inr st') \<Longrightarrow> \<exists>errs. errs \<noteq> [] \<and> cs_errors st' = cs_errors st @ errs"
  by (auto simp: tool_step_def report_def split: if_splits schema_reply.splits tool_reply.splits bool.splits
      dest: refuses schema_refuses)

lemma tool_loop_success:
  "tool_loop schema success tool tcs st = Inr (Inl (p, errs)) \<Longrightarrow> valid p"
  by (induction tcs arbitrary: st)
    (auto split: sum.splits dest: tool_step_success)

lemma tool_loop_reports:
  "tool_loop schema success tool tcs st = Inr (Inr st') \<Longrightarrow> tcs \<noteq> [] \<or> cs_errors st \<noteq> [] \<Longrightarrow> cs_errors st' \<noteq> []"
proof (induction tcs arbitrary: st)
  case (Cons tc tcs)
  then obtain st1 where s: "tool_step schema success tool tc st = Inr (Inr st1)"
    "tool_loop schema success tool tcs st1 = Inr (Inr st')" by (auto split: sum.splits)
  with tool_step_reports [OF s(1)] Cons.IH [OF s(2)] show ?case by auto
qed auto

lemma react_step_success:
  assumes "react_step model schema success tool i st = Inr (Inl r)"
  shows "valid (lr_payload r) \<and> lt_iterations (lr_trace r) = i \<and> lt_final_errors (lr_trace r) = [] \<and>
    length (lt_errors_per_iter (lr_trace r)) = Suc (length (rs_errors_per_iter st))"
  using assms
  by (auto simp: react_step_def Let_def split: model_reply.splits if_splits sum.splits dest: tool_loop_success)

lemma react_step_failure:
  assumes "react_step model schema success tool i st = Inr (Inr st')"
  shows "rs_last_errors st' \<noteq> [] \<and> length (rs_errors_per_iter st') = Suc (length (rs_errors_per_iter st))"
  using assms
  by (auto simp: react_step_def Let_def end_iteration_def ITERATION_ERROR_def NO_TOOL_CALL_def
      split: model_reply.splits if_splits sum.splits dest: tool_loop_reports)

lemma react_loop_trace:
  assumes "react_loop model schema success tool n todo st = Inr r" "todo \<le> n"
    "length (rs_errors_per_iter st) = n - todo" "todo < n \<Longrightarrow> rs_last_errors st \<noteq> []"
  shows "lt_iterations (lr_trace r) \<le> n \<and> length (lt_errors_per_iter (lr_trace r)) = lt_iterations (lr_trace r) \<and>
    (n = 0 \<or> lt_final_errors (lr_trace r) \<noteq> [] \<or> valid (lr_payload r)) \<and>
    (lt_iterations (lr_trace r) < n \<longrightarrow> valid (lr_payload r))"
  using assms
proof (induction todo arbitrary: st)
  case (Suc todo)
  show ?case
  proof (cases "react_step model schema success tool (n - todo) st")
    case (Inr a)
    show ?thesis
    proof (cases a)
      case (Inl r')
      with Inr Suc.prems react_step_success [of model success "n - todo" st r'] show ?thesis by auto
    next
      case st': (Inr st')
      with Inr have "react_step model schema success tool (n - todo) st = Inr (Inr st')" by simp
      from react_step_failure [OF this] show ?thesis using Suc Inr st' by auto
    qed
  qed (use Suc.prems in simp)
next
  case 0
  then show ?case by (cases "n = 0") auto
qed

lemma complete_with_tools_trace:
  assumes "map_of tools success = Some tool"
    and "complete_with_tools model tools success schema system n prompt = Inr r"
  shows "lt_iterations (lr_trace r) \<le> n \<and> length (lt_errors_per_iter (lr_trace r)) = lt_iterations (lr_trace r) \<and>
    (n = 0 \<or> lt_final_errors (lr_trace r) \<noteq> [] \<or> valid (lr_payload r)) \<and>
    (lt_iterations (lr_trace r) < n \<longrightarrow> valid (lr_payload r))"
proof (rule react_loop_trace)
  show "react_loop model schema success tool n n
      \<lparr>rs_messages = (if system \<noteq> [] then [SystemMessage system] else []) @ [HumanMessage prompt],
       rs_errors_per_iter = [], rs_payload = JObj [], rs_last_errors = []\<rparr> = Inr r"
    using assms by (simp only: complete_with_tools_def option.case)
qed auto

end

end
