(* ===== verification/Ontogen_Validator.thy ===== *)
theory Ontogen_Validator
  imports Ontogen_Slug LLM_Loop
begin

text \<open>
  \<open>src/backend/ontogen/models.py\<close> and \<open>validator.py\<close>: the output a model proposes, the
  normalisation of its identifiers before it is parsed, the eight semantic rules and the removal of
  the rows that break them. The schema check itself is Pydantic's and a parameter, a function from
  a JSON value to the parsed output or the paths it objects to. Error messages are left out; the path of an error
  is kept as the text the code renders, because \<open>partition_clean_rows\<close> parses it again.
\<close>

record llm_node =
  ln_id :: "string option"
  ln_name :: string
  ln_description :: string
  ln_confidence :: rat
  ln_dataset_urns :: "string list"
  ln_rebuttal :: "string option"

record llm_edge =
  le_id :: "string option"
  le_label :: string
  le_semantics :: string
  le_confidence :: rat
  le_rebuttal :: "string option"

record llm_triple =
  lt_subject :: string
  lt_edge :: string
  lt_object :: string
  lt_confidence :: rat
  lt_rebuttal :: "string option"

record llm_output =
  lo_nodes :: "llm_node list"
  lo_edges :: "llm_edge list"
  lo_triples :: "llm_triple list"

section \<open>Normalisation of proposed identifiers\<close>

type_synonym remap = "(string \<times> string) list"

text \<open>One proposed node or edge: its non-empty string \<open>id\<close> is replaced by its slug and the
  replacement is remembered; a later entry for the same text wins.\<close>

fun normalize_item :: "json \<Rightarrow> remap \<Rightarrow> json \<times> remap" where
  "normalize_item (JObj d) remap =
     (case dict_get d ''id'' of
        JStr orig \<Rightarrow>
          if orig = [] then (JObj d, remap)
          else (JObj (update_key ''id'' (JStr (to_snake orig)) d), (orig, to_snake orig) # remap)
      | _ \<Rightarrow> (JObj d, remap))"
| "normalize_item j remap = (j, remap)"

fun normalize_items :: "json list \<Rightarrow> remap \<Rightarrow> json list \<times> remap" where
  "normalize_items [] remap = ([], remap)"
| "normalize_items (j # js) remap =
     (let (j', remap') = normalize_item j remap; (js', remap'') = normalize_items js remap'
      in (j' # js', remap''))"

text \<open>\<open>for item in values.get(key, []) or []\<close>: a truthy value that cannot be iterated is a
  \<open>TypeError\<close>; only the dicts of a list are changed.\<close>

definition normalize_rows :: "string \<Rightarrow> jdict \<Rightarrow> (ds_error, jdict \<times> remap) result" where
  "normalize_rows key values =
     (let v = dict_get values key in
      if \<not> py_truthy v then Inr (values, [])
      else case v of
        JList js \<Rightarrow> (let (js', remap) = normalize_items js [] in Inr (update_key key (JList js') values, remap))
      | _ \<Rightarrow> (case py_iter v of None \<Rightarrow> Inl (UncaughtError ''TypeError'') | Some _ \<Rightarrow> Inr (values, [])))"

text \<open>\<open>if d.get(key) in remap: d[key] = remap[d.get(key)]\<close>; a list or a dict is not hashable.\<close>

definition remap_field :: "remap \<Rightarrow> string \<Rightarrow> jdict \<Rightarrow> (ds_error, jdict) result" where
  "remap_field remap key d =
     (case dict_get d key of
        JStr s \<Rightarrow> Inr (case map_of remap s of Some t \<Rightarrow> update_key key (JStr t) d | None \<Rightarrow> d)
      | JList _ \<Rightarrow> Inl (UncaughtError ''TypeError'')
      | JObj _ \<Rightarrow> Inl (UncaughtError ''TypeError'')
      | _ \<Rightarrow> Inr d)"

fun remap_triple :: "remap \<Rightarrow> remap \<Rightarrow> json \<Rightarrow> (ds_error, json) result" where
  "remap_triple nodes edges (JObj d) =
     rmap JObj (rbind (remap_field nodes ''subject_node_id'' d) (\<lambda>d1.
       rbind (remap_field edges ''edge_id'' d1) (remap_field nodes ''object_node_id'')))"
| "remap_triple nodes edges j = Inr j"

definition remap_triples :: "remap \<Rightarrow> remap \<Rightarrow> jdict \<Rightarrow> (ds_error, jdict) result" where
  "remap_triples nodes edges values =
     (let v = dict_get values ''triples'' in
      if \<not> py_truthy v then Inr values
      else case v of
        JList js \<Rightarrow> rmap (\<lambda>js'. update_key ''triples'' (JList js') values) (rmapM (remap_triple nodes edges) js)
      | _ \<Rightarrow> (case py_iter v of None \<Rightarrow> Inl (UncaughtError ''TypeError'') | Some _ \<Rightarrow> Inr values))"

fun normalize_ids :: "json \<Rightarrow> (ds_error, json) result" where
  "normalize_ids (JObj values) =
     rbind (normalize_rows ''nodes'' values) (\<lambda>(v1, node_remap).
     rbind (normalize_rows ''edges'' v1) (\<lambda>(v2, edge_remap).
       rmap JObj (remap_triples node_remap edge_remap v2)))"
| "normalize_ids j = Inr j"

section \<open>The rules\<close>

definition row_path :: "string \<Rightarrow> nat \<Rightarrow> string \<Rightarrow> string" where
  "row_path coll i rest = coll @ ''['' @ show_nat i @ '']'' @ rest"

definition check_slug :: "string \<Rightarrow> string \<Rightarrow> validation_error list" where
  "check_slug path v =
     (if py_contains ''__'' v then [verr path ''DOUBLE_UNDERSCORE'']
      else if \<not> slug_id_matches v then [verr path ''SLUG_FORMAT''] else [])"

definition slug_row :: "string \<Rightarrow> nat \<times> string option \<Rightarrow> validation_error list" where
  "slug_row coll = (\<lambda>(i, k). case k of None \<Rightarrow> [] | Some v \<Rightarrow> check_slug (row_path coll i ''.id'') v)"

definition slug_errors :: "string \<Rightarrow> string option list \<Rightarrow> validation_error list" where
  "slug_errors coll ids = concat (map (slug_row coll) (enumerate 0 ids))"

text \<open>The loops over \<open>seen\<close>: a key met before is an error, a new one is remembered.\<close>

fun dup_errors :: "string \<Rightarrow> string \<Rightarrow> string \<Rightarrow> 'k list \<Rightarrow> nat \<Rightarrow> 'k option list \<Rightarrow> validation_error list" where
  "dup_errors coll field err seen i [] = []"
| "dup_errors coll field err seen i (None # ks) = dup_errors coll field err seen (Suc i) ks"
| "dup_errors coll field err seen i (Some k # ks) =
     (if k \<in> set seen then verr (row_path coll i field) err # dup_errors coll field err seen (Suc i) ks
      else dup_errors coll field err (k # seen) (Suc i) ks)"

definition ref_errors :: "string option list \<Rightarrow> string option list \<Rightarrow> nat \<times> llm_triple \<Rightarrow> validation_error list" where
  "ref_errors node_ids edge_ids = (\<lambda>(i, t).
     (if Some (lt_subject t) \<notin> set node_ids then [verr (row_path ''triples'' i ''.subject_node_id'') ''UNKNOWN_NODE_REF''] else []) @
     (if Some (lt_object t) \<notin> set node_ids then [verr (row_path ''triples'' i ''.object_node_id'') ''UNKNOWN_NODE_REF''] else []) @
     (if Some (lt_edge t) \<notin> set edge_ids then [verr (row_path ''triples'' i ''.edge_id'') ''UNKNOWN_EDGE_REF''] else []))"

definition conf_row :: "string \<Rightarrow> nat \<times> rat \<Rightarrow> validation_error list" where
  "conf_row coll = (\<lambda>(i, c). if 0 \<le> c \<and> c \<le> 1 then []
     else [verr (row_path coll i ''.confidence_score'') ''CONF_OUT_OF_RANGE''])"

definition conf_errors :: "string \<Rightarrow> rat list \<Rightarrow> validation_error list" where
  "conf_errors coll scores = concat (map (conf_row coll) (enumerate 0 scores))"

definition urn_errors :: "string set \<Rightarrow> nat \<times> string list \<Rightarrow> validation_error list" where
  "urn_errors in_scope = (\<lambda>(i, urns).
     if urns = [] then [verr (row_path ''nodes'' i ''.dataset_urns'') ''MISSING_DATASET_URNS'']
     else concat (map (\<lambda>(j, u). if u \<notin> in_scope
            then [verr (row_path ''nodes'' i (row_path ''.dataset_urns'' j '''')) ''OUT_OF_SCOPE_URN''] else [])
          (enumerate 0 urns)))"

definition triple_key :: "llm_triple \<Rightarrow> string \<times> string \<times> string" where
  "triple_key t = (lt_subject t, lt_edge t, lt_object t)"

definition semantic_errors :: "llm_output \<Rightarrow> string set \<Rightarrow> validation_error list" where
  "semantic_errors out in_scope =
     (let node_ids = map ln_id (lo_nodes out); edge_ids = map le_id (lo_edges out) in
      slug_errors ''nodes'' node_ids @ slug_errors ''edges'' edge_ids @
      dup_errors ''nodes'' ''.id'' ''DUP_ID'' [] 0 node_ids @
      dup_errors ''edges'' ''.id'' ''DUP_ID'' [] 0 edge_ids @
      concat (map (ref_errors node_ids edge_ids) (enumerate 0 (lo_triples out))) @
      conf_errors ''nodes'' (map ln_confidence (lo_nodes out)) @
      conf_errors ''edges'' (map le_confidence (lo_edges out)) @
      conf_errors ''triples'' (map lt_confidence (lo_triples out)) @
      concat (map (urn_errors in_scope) (enumerate 0 (map ln_dataset_urns (lo_nodes out)))) @
      dup_errors ''triples'' '''' ''DUP_TRIPLE'' [] 0 (map (Some \<circ> triple_key) (lo_triples out)))"

text \<open>A schema error lists the paths it found, at least one.\<close>

type_synonym schema_error = "string \<times> string list"
type_synonym schema_fn = "json \<Rightarrow> (schema_error, llm_output) result"

text \<open>\<open>OntogenLLMOutput.model_validate\<close>: the normaliser runs first and a \<open>TypeError\<close> of it is not
  turned into a validation error.\<close>

definition model_validate :: "schema_fn \<Rightarrow> json \<Rightarrow> (ds_error, (schema_error, llm_output) result) result" where
  "model_validate schema payload = rmap schema (normalize_ids payload)"

definition validate_ontogen_output ::
  "schema_fn \<Rightarrow> json \<Rightarrow> string set \<Rightarrow> (ds_error, validation_error list) result" where
  "validate_ontogen_output schema payload in_scope =
     rmap (\<lambda>r. case r of Inl msg \<Rightarrow> [verr '''' ''SCHEMA''] | Inr out \<Rightarrow> semantic_errors out in_scope)
       (model_validate schema payload)"

section \<open>Dropping the rows that break a rule\<close>

text \<open>\<open>_PATH_INDEX_RE.match\<close>.\<close>

definition index_after :: "string \<Rightarrow> string \<Rightarrow> nat option" where
  "index_after coll path =
     (if py_startswith path (coll @ ''['') then
        (let rest = drop (length coll + 1) path; ds = takeWhile is_digit rest in
         if ds \<noteq> [] \<and> py_startswith (drop (length ds) rest) '']'' then Some (read_nat ds) else None)
      else None)"

definition bad_indices :: "string \<Rightarrow> validation_error list \<Rightarrow> nat set" where
  "bad_indices coll errors = set (List.map_filter (\<lambda>e. index_after coll (ve_path e)) errors)"

definition bad_ids :: "string option list \<Rightarrow> nat set \<Rightarrow> string option set" where
  "bad_ids ids bad = (!) ids ` Set.filter (\<lambda>i. i < length ids) bad"

definition cascaded :: "string option set \<Rightarrow> string option set \<Rightarrow> llm_triple list \<Rightarrow> nat set" where
  "cascaded bad_nodes bad_edges triples =
     set (map fst (filter (\<lambda>(i, t). Some (lt_subject t) \<in> bad_nodes \<or> Some (lt_object t) \<in> bad_nodes
        \<or> Some (lt_edge t) \<in> bad_edges) (enumerate 0 triples)))"

definition keep_rows :: "nat set \<Rightarrow> 'a list \<Rightarrow> 'a list" where
  "keep_rows bad rows = map snd (filter (\<lambda>(i, r). i \<notin> bad) (enumerate 0 rows))"

definition partition_clean_rows :: "llm_output \<Rightarrow> validation_error list \<Rightarrow> llm_output \<times> nat" where
  "partition_clean_rows payload errors =
     (if \<exists>e \<in> set errors. ve_code e = ''SCHEMA''
      then (\<lparr>lo_nodes = [], lo_edges = [], lo_triples = []\<rparr>,
            length (lo_nodes payload) + length (lo_edges payload) + length (lo_triples payload))
      else
        let bad_n = bad_indices ''nodes'' errors; bad_e = bad_indices ''edges'' errors;
            bad_t = bad_indices ''triples'' errors
              \<union> cascaded (bad_ids (map ln_id (lo_nodes payload)) bad_n)
                  (bad_ids (map le_id (lo_edges payload)) bad_e) (lo_triples payload)
        in (\<lparr>lo_nodes = keep_rows bad_n (lo_nodes payload), lo_edges = keep_rows bad_e (lo_edges payload),
             lo_triples = keep_rows bad_t (lo_triples payload)\<rparr>,
            card bad_n + card bad_e + card bad_t))"

section \<open>Rows and their indices\<close>

lemma keep_rows_Nil [simp]: "keep_rows B [] = []"
  by (simp add: keep_rows_def)

lemma keep_rows_snoc [simp]:
  "keep_rows B (xs @ [x]) = keep_rows B xs @ (if length xs \<in> B then [] else [x])"
  by (simp add: keep_rows_def enumerate_append_eq)

lemma set_keep_rows: "set (keep_rows B xs) = {xs ! i |i. i < length xs \<and> i \<notin> B}"
proof (induction xs rule: rev_induct)
  case (snoc x xs)
  then show ?case by (auto simp: nth_append less_Suc_eq)
qed simp

lemma keep_rowsD: "x \<in> set (keep_rows B xs) \<Longrightarrow> \<exists>i < length xs. i \<notin> B \<and> x = xs ! i"
  by (auto simp: set_keep_rows)

lemma set_keep_rows_subset: "set (keep_rows B xs) \<subseteq> set xs"
  by (auto simp: set_keep_rows)

lemma length_keep_rows:
  assumes "B \<subseteq> {..<length xs}"
  shows "length (keep_rows B xs) + card B = length xs"
proof -
  have "length (keep_rows B xs) = card {i. i < length xs \<and> i \<notin> B}" for xs :: "'a list"
  proof (induction xs rule: rev_induct)
    case (snoc x xs)
    have "{i. i < length (xs @ [x]) \<and> i \<notin> B} =
      (if length xs \<in> B then id else insert (length xs)) {i. i < length xs \<and> i \<notin> B}"
      by (auto simp: less_Suc_eq)
    with snoc show ?case by (simp add: card_insert_if)
  qed simp
  moreover have "{i. i < length xs \<and> i \<notin> B} = {..<length xs} - B" by auto
  moreover have "card B \<le> length xs" using card_mono [OF _ assms] by simp
  ultimately show ?thesis using assms by (simp add: card_Diff_subset finite_subset)
qed

lemma distinct_keep_rows:
  assumes "\<And>i j k. i < length xs \<Longrightarrow> i \<notin> B \<Longrightarrow> f (xs ! i) = Some k \<Longrightarrow> j < i \<Longrightarrow> f (xs ! j) \<noteq> Some k"
  shows "distinct (List.map_filter f (keep_rows B xs))"
  using assms
proof (induction xs rule: rev_induct)
  case Nil
  show ?case by (simp add: List.map_filter_def)
next
  case (snoc x xs)
  have d: "distinct (List.map_filter f (keep_rows B xs))"
  proof (rule snoc.IH)
    fix i j k
    assume "i < length xs" "i \<notin> B" "f (xs ! i) = Some k" "j < i"
    then show "f (xs ! j) \<noteq> Some k" using snoc.prems [of i k j] by (simp add: nth_append)
  qed
  show ?case
  proof (cases "length xs \<in> B")
    case True
    with d show ?thesis by simp
  next
    case False
    have "f (xs ! j) \<noteq> Some k" if "f x = Some k" "j < length xs" for j k
      using snoc.prems [of "length xs" k j] False that by (simp add: nth_append)
    then have "f y \<noteq> Some k" if "f x = Some k" "y \<in> set (keep_rows B xs)" for y k
      using that by (auto dest: keep_rowsD)
    with d False show ?thesis
      by (cases "f x") (auto simp: List.map_filter_def)
  qed
qed

lemma index_after_row [simp]: "index_after c (row_path c i r) = Some i"
proof -
  have "takeWhile is_digit (show_nat i @ '']'' @ r) = show_nat i"
    using show_nat_digits [of i] by (subst takeWhile_append2) (auto simp: is_digit_def)
  then show ?thesis
    by (simp add: index_after_def row_path_def Let_def py_startswith_def)
qed

abbreviation collections :: "string list" where
  "collections \<equiv> [''nodes'', ''edges'', ''triples'']"

lemma index_after_other:
  "c \<in> set collections \<Longrightarrow> c' \<in> set collections \<Longrightarrow> c \<noteq> c' \<Longrightarrow> index_after c (row_path c' i r) = None"
  by (auto simp: index_after_def row_path_def py_startswith_def)

lemma bad_indices_simps [simp]:
  "bad_indices c [] = {}"
  "bad_indices c (xs @ ys) = bad_indices c xs \<union> bad_indices c ys"
  by (auto simp: bad_indices_def List.map_filter_def)

lemma bad_indices_Cons [simp]:
  "bad_indices c (verr p e # xs) = set_option (index_after c p) \<union> bad_indices c xs"
  by (cases "index_after c p") (auto simp: bad_indices_def List.map_filter_def verr_def)

lemma in_bad_indices: "i \<in> bad_indices c es \<longleftrightarrow> (\<exists>e \<in> set es. index_after c (ve_path e) = Some i)"
  by (force simp: bad_indices_def List.map_filter_def image_iff)

text \<open>A rule applied to each row reports exactly the rows it is broken at, under its collection.\<close>

definition row_rule :: "string \<Rightarrow> (nat \<times> 'a \<Rightarrow> validation_error list) \<Rightarrow> bool" where
  "row_rule c f \<longleftrightarrow> (\<forall>i x. \<forall>e \<in> set (f (i, x)). (\<exists>r. ve_path e = row_path c i r) \<and> ve_code e \<noteq> ''SCHEMA'')"

lemma row_rule_bad:
  assumes "row_rule c f" "c \<in> set collections" "c' \<in> set collections"
  shows "bad_indices c' (concat (map f (enumerate 0 xs))) =
    (if c' = c then {i. i < length xs \<and> f (i, xs ! i) \<noteq> []} else {})"
proof -
  have mem: "e \<in> set (concat (map f (enumerate 0 xs))) \<longleftrightarrow> (\<exists>i < length xs. e \<in> set (f (i, xs ! i)))" for e
    by (auto simp: in_set_enumerate_eq)
  have path: "e \<in> set (f (i, x)) \<Longrightarrow> index_after c' (ve_path e) = (if c' = c then Some i else None)" for e i x
    using assms unfolding row_rule_def by (metis index_after_other index_after_row)
  show ?thesis
  proof (intro set_eqI iffI)
    fix i
    assume "i \<in> bad_indices c' (concat (map f (enumerate 0 xs)))"
    then obtain e j where "j < length xs" "e \<in> set (f (j, xs ! j))" "index_after c' (ve_path e) = Some i"
      unfolding in_bad_indices using mem by blast
    with path [of e j "xs ! j"] show "i \<in> (if c' = c then {i. i < length xs \<and> f (i, xs ! i) \<noteq> []} else {})"
      by (cases "c' = c") auto
  next
    fix i
    assume a: "i \<in> (if c' = c then {i. i < length xs \<and> f (i, xs ! i) \<noteq> []} else {})"
    then have "c' = c" "i < length xs" "f (i, xs ! i) \<noteq> []" by (auto split: if_splits)
    then obtain e where e: "e \<in> set (f (i, xs ! i))" by (meson last_in_set)
    with path [OF e] \<open>c' = c\<close> have "index_after c' (ve_path e) = Some i" by simp
    moreover have "e \<in> set (concat (map f (enumerate 0 xs)))" using mem e \<open>i < length xs\<close> by blast
    ultimately show "i \<in> bad_indices c' (concat (map f (enumerate 0 xs)))" unfolding in_bad_indices by blast
  qed
qed

lemma all_enumerate: "(\<forall>p \<in> set (enumerate 0 xs). P p) \<longleftrightarrow> (\<forall>i < length xs. P (i, xs ! i))"
  unfolding all_set_conv_all_nth by (simp add: nth_enumerate_eq)

lemma row_rule_empty:
  "concat (map f (enumerate 0 xs)) = [] \<longleftrightarrow> (\<forall>i < length xs. f (i, xs ! i) = [])"
  by (simp only: concat_eq_Nil_conv set_map ball_simps all_enumerate)

lemma row_rule_code:
  "row_rule c f \<Longrightarrow> e \<in> set (concat (map f (enumerate 0 xs))) \<Longrightarrow> ve_code e \<noteq> ''SCHEMA''"
  by (force simp: row_rule_def)

lemma dup_errors_code: "e \<in> set (dup_errors c fld cd seen n ks) \<Longrightarrow> ve_code e = cd"
  by (induction c fld cd seen n ks rule: dup_errors.induct) (auto simp: verr_def split: if_splits)

lemma dup_errors_other:
  assumes "c \<in> set collections" "c' \<in> set collections" "c' \<noteq> c"
  shows "bad_indices c' (dup_errors c fld cd seen n ks) = {}"
  using assms
  by (induction c fld cd seen n ks rule: dup_errors.induct) (simp_all add: index_after_other)

lemma dup_errors_bad:
  "n + i \<in> bad_indices c (dup_errors c fld cd seen n ks) \<longleftrightarrow>
     i < length ks \<and> (\<exists>k. ks ! i = Some k \<and> (k \<in> set seen \<or> (\<exists>j < i. ks ! j = Some k)))"
  "bad_indices c (dup_errors c fld cd seen n ks) \<subseteq> {n..}"
proof (induction ks arbitrary: seen n i)
  case (Cons x ks)
  {
    case 1
    have z: "n \<notin> bad_indices c (dup_errors c fld cd seen' (Suc n) ks)" for seen'
      using Cons.IH(2) [where n = "Suc n" and seen = seen'] by auto
    show ?case
    proof (cases i)
      case 0
      with z show ?thesis by (cases x) auto
    next
      case (Suc m)
      show ?thesis
        using Cons.IH(1) [where seen = seen and n = "Suc n" and i = m]
          Cons.IH(1) [where seen = "the x # seen" and n = "Suc n" and i = m] Suc
        by (cases x; cases "the x \<in> set seen") (simp_all add: Ex_less_Suc2, blast+)
    qed
  next
    case 2
    have "bad_indices c (dup_errors c fld cd seen' (Suc n) ks) \<subseteq> {n..}" for seen'
      using Cons.IH(2) [where n = "Suc n" and seen = seen'] by (rule order_trans) auto
    from this [of seen] this [of "the x # seen"] show ?case
      by (cases x; cases "the x \<in> set seen") simp_all
  }
qed simp_all

lemma dup_errors_bad0:
  "bad_indices c (dup_errors c fld cd [] 0 ks) =
     {i. i < length ks \<and> (\<exists>k. ks ! i = Some k \<and> (\<exists>j < i. ks ! j = Some k))}"
  using dup_errors_bad(1) [of 0 _ c fld cd "[]" ks] by auto

lemma dup_errors_empty:
  "dup_errors c fld cd seen n ks = [] \<longleftrightarrow>
     distinct (List.map_filter (\<lambda>k. k) ks) \<and> set (List.map_filter (\<lambda>k. k) ks) \<inter> set seen = {}"
  by (induction c fld cd seen n ks rule: dup_errors.induct) (auto simp: List.map_filter_def)

section \<open>What the rules mean\<close>

definition slug_ok :: "string \<Rightarrow> bool" where
  "slug_ok v \<longleftrightarrow> \<not> py_contains ''__'' v \<and> slug_id_matches v"

definition node_ok :: "string set \<Rightarrow> llm_node \<Rightarrow> bool" where
  "node_ok S n \<longleftrightarrow> (\<forall>v \<in> set_option (ln_id n). slug_ok v) \<and> 0 \<le> ln_confidence n \<and> ln_confidence n \<le> 1 \<and>
     ln_dataset_urns n \<noteq> [] \<and> set (ln_dataset_urns n) \<subseteq> S"

definition edge_ok :: "llm_edge \<Rightarrow> bool" where
  "edge_ok e \<longleftrightarrow> (\<forall>v \<in> set_option (le_id e). slug_ok v) \<and> 0 \<le> le_confidence e \<and> le_confidence e \<le> 1"

definition triple_ok :: "llm_node set \<Rightarrow> llm_edge set \<Rightarrow> llm_triple \<Rightarrow> bool" where
  "triple_ok N E t \<longleftrightarrow> Some (lt_subject t) \<in> ln_id ` N \<and> Some (lt_object t) \<in> ln_id ` N \<and>
     Some (lt_edge t) \<in> le_id ` E \<and> 0 \<le> lt_confidence t \<and> lt_confidence t \<le> 1"

definition coherent_output :: "string set \<Rightarrow> llm_output \<Rightarrow> bool" where
  "coherent_output S out \<longleftrightarrow>
     (\<forall>n \<in> set (lo_nodes out). node_ok S n) \<and> (\<forall>e \<in> set (lo_edges out). edge_ok e) \<and>
     (\<forall>t \<in> set (lo_triples out). triple_ok (set (lo_nodes out)) (set (lo_edges out)) t) \<and>
     distinct (List.map_filter ln_id (lo_nodes out)) \<and> distinct (List.map_filter le_id (lo_edges out)) \<and>
     distinct (map triple_key (lo_triples out))"

lemma map_filter_map [simp]: "List.map_filter (\<lambda>k. k) (map f xs) = List.map_filter f xs"
  by (simp add: List.map_filter_def comp_def filter_map)

lemma map_filter_Some [simp]: "List.map_filter (\<lambda>x. Some (f x)) xs = map f xs"
  by (simp add: List.map_filter_def)

lemma check_slug_empty: "check_slug p v = [] \<longleftrightarrow> slug_ok v"
  by (simp add: check_slug_def slug_ok_def)

lemma slug_rule:
  "row_rule c (slug_row c)"
  by (auto simp: row_rule_def slug_row_def check_slug_def verr_def split: option.splits)

lemma conf_rule: "row_rule c (conf_row c)"
  by (auto simp: row_rule_def verr_def conf_row_def)

lemma ref_rule: "row_rule ''triples'' (ref_errors ns es)"
  by (auto simp: row_rule_def verr_def ref_errors_def)

lemma urn_rule: "row_rule ''nodes'' (urn_errors S)"
  by (auto simp: row_rule_def verr_def urn_errors_def split: if_splits)

lemma urn_errors_empty: "urn_errors S (i, urns) = [] \<longleftrightarrow> urns \<noteq> [] \<and> set urns \<subseteq> S"
proof -
  have "set urns \<subseteq> S \<longleftrightarrow> (\<forall>j < length urns. urns ! j \<in> S)"
    unfolding subset_eq by (rule all_set_conv_all_nth)
  then show ?thesis unfolding urn_errors_def by (auto simp: row_rule_empty simp del: concat_eq_Nil_conv)
qed

lemma slug_row_empty: "slug_row c (i, k) = [] \<longleftrightarrow> (\<forall>v \<in> set_option k. slug_ok v)"
  by (simp add: slug_row_def check_slug_empty split: option.split)

lemma conf_row_empty: "conf_row c (i, x) = [] \<longleftrightarrow> 0 \<le> x \<and> x \<le> 1"
  by (simp add: conf_row_def)

lemma ref_row_empty:
  "ref_errors ns es (i, t) = [] \<longleftrightarrow>
     Some (lt_subject t) \<in> set ns \<and> Some (lt_object t) \<in> set ns \<and> Some (lt_edge t) \<in> set es"
  by (simp add: ref_errors_def)

lemma slug_errors_empty: "slug_errors c ids = [] \<longleftrightarrow> (\<forall>k \<in> set ids. \<forall>v \<in> set_option k. slug_ok v)"
  unfolding slug_errors_def row_rule_empty slug_row_empty all_set_conv_all_nth ..

lemma conf_errors_empty: "conf_errors c xs = [] \<longleftrightarrow> (\<forall>x \<in> set xs. 0 \<le> x \<and> x \<le> 1)"
  unfolding conf_errors_def row_rule_empty conf_row_empty all_set_conv_all_nth ..

lemma ref_errors_empty:
  "concat (map (ref_errors ns es) (enumerate 0 ts)) = [] \<longleftrightarrow>
     (\<forall>t \<in> set ts. Some (lt_subject t) \<in> set ns \<and> Some (lt_object t) \<in> set ns \<and> Some (lt_edge t) \<in> set es)"
  unfolding row_rule_empty ref_row_empty all_set_conv_all_nth ..

lemma urn_rule_empty:
  "concat (map (urn_errors S) (enumerate 0 us)) = [] \<longleftrightarrow> (\<forall>u \<in> set us. u \<noteq> [] \<and> set u \<subseteq> S)"
  unfolding row_rule_empty urn_errors_empty all_set_conv_all_nth ..

lemma semantic_errors_empty: "semantic_errors out S = [] \<longleftrightarrow> coherent_output S out"
  unfolding semantic_errors_def Let_def append_is_Nil_conv slug_errors_empty conf_errors_empty ref_errors_empty
    urn_rule_empty dup_errors_empty coherent_output_def node_ok_def edge_ok_def triple_ok_def set_map
  by (auto simp: comp_def)

lemma semantic_errors_code: "e \<in> set (semantic_errors out S) \<Longrightarrow> ve_code e \<noteq> ''SCHEMA''"
  unfolding semantic_errors_def Let_def set_append slug_errors_def conf_errors_def
  by (auto simp del: set_concat dest!: dup_errors_code row_rule_code [OF slug_rule] row_rule_code [OF conf_rule]
      row_rule_code [OF ref_rule] row_rule_code [OF urn_rule])

lemma bad_nodes:
  "bad_indices ''nodes'' (semantic_errors out S) =
     {i. i < length (lo_nodes out) \<and> (\<not> node_ok S (lo_nodes out ! i) \<or>
        (\<exists>k. ln_id (lo_nodes out ! i) = Some k \<and> (\<exists>j < i. ln_id (lo_nodes out ! j) = Some k)))}"
  unfolding semantic_errors_def Let_def bad_indices_simps slug_errors_def conf_errors_def
  by (simp add: row_rule_bad [OF slug_rule] row_rule_bad [OF conf_rule] row_rule_bad [OF ref_rule]
      row_rule_bad [OF urn_rule] dup_errors_other dup_errors_bad0 slug_row_empty conf_row_empty urn_errors_empty)
    (auto simp: node_ok_def)

lemma bad_edges:
  "bad_indices ''edges'' (semantic_errors out S) =
     {i. i < length (lo_edges out) \<and> (\<not> edge_ok (lo_edges out ! i) \<or>
        (\<exists>k. le_id (lo_edges out ! i) = Some k \<and> (\<exists>j < i. le_id (lo_edges out ! j) = Some k)))}"
  unfolding semantic_errors_def Let_def bad_indices_simps slug_errors_def conf_errors_def
  by (simp add: row_rule_bad [OF slug_rule] row_rule_bad [OF conf_rule] row_rule_bad [OF ref_rule]
      row_rule_bad [OF urn_rule] dup_errors_other dup_errors_bad0 slug_row_empty conf_row_empty)
    (auto simp: edge_ok_def)

lemma bad_triples:
  "bad_indices ''triples'' (semantic_errors out S) =
     {i. i < length (lo_triples out) \<and>
        (\<not> triple_ok (set (lo_nodes out)) (set (lo_edges out)) (lo_triples out ! i) \<or>
         (\<exists>j < i. triple_key (lo_triples out ! j) = triple_key (lo_triples out ! i)))}"
  unfolding semantic_errors_def Let_def bad_indices_simps slug_errors_def conf_errors_def
  by (simp add: row_rule_bad [OF slug_rule] row_rule_bad [OF conf_rule] row_rule_bad [OF ref_rule]
      row_rule_bad [OF urn_rule] dup_errors_other dup_errors_bad0 conf_row_empty ref_row_empty)
    (auto simp: triple_ok_def triple_key_def)

lemma partition_semantic:
  "partition_clean_rows out (semantic_errors out S) =
    (let bad_n = bad_indices ''nodes'' (semantic_errors out S); bad_e = bad_indices ''edges'' (semantic_errors out S);
         bad_t = bad_indices ''triples'' (semantic_errors out S)
           \<union> cascaded (bad_ids (map ln_id (lo_nodes out)) bad_n) (bad_ids (map le_id (lo_edges out)) bad_e) (lo_triples out)
     in (\<lparr>lo_nodes = keep_rows bad_n (lo_nodes out), lo_edges = keep_rows bad_e (lo_edges out),
          lo_triples = keep_rows bad_t (lo_triples out)\<rparr>, card bad_n + card bad_e + card bad_t))"
  using semantic_errors_code [of _ out S] by (auto simp: partition_clean_rows_def)

lemma cascaded_iff:
  "i \<in> cascaded N E ts \<longleftrightarrow> i < length ts \<and>
     (Some (lt_subject (ts ! i)) \<in> N \<or> Some (lt_object (ts ! i)) \<in> N \<or> Some (lt_edge (ts ! i)) \<in> E)"
  by (force simp: cascaded_def image_iff in_set_enumerate_eq)

lemma bad_ids_iff: "k \<in> bad_ids ids B \<longleftrightarrow> (\<exists>i < length ids. i \<in> B \<and> ids ! i = k)"
  by (auto simp: bad_ids_def)

text \<open>An identifier in use and not bad is the identifier of a kept row.\<close>

lemma kept_id:
  assumes "k \<in> f ` set rows" "k \<notin> bad_ids (map f rows) B"
  shows "k \<in> f ` set (keep_rows B rows)"
proof -
  obtain i where i: "i < length rows" "f (rows ! i) = k" using assms(1) by (auto simp: in_set_conv_nth)
  with assms(2) have "i \<notin> B" by (auto simp: bad_ids_iff)
  with i show ?thesis unfolding set_keep_rows by blast
qed

lemma coherent_parts:
  fixes S out
  defines "errs \<equiv> semantic_errors out S"
  assumes "partition_clean_rows out errs = (clean, dropped)"
  shows "coherent_output S clean"
    and "dropped + (length (lo_nodes clean) + length (lo_edges clean) + length (lo_triples clean)) =
      length (lo_nodes out) + length (lo_edges out) + length (lo_triples out)"
proof -
  define bn where "bn = bad_indices ''nodes'' errs"
  define be where "be = bad_indices ''edges'' errs"
  define cs where "cs = cascaded (bad_ids (map ln_id (lo_nodes out)) bn) (bad_ids (map le_id (lo_edges out)) be) (lo_triples out)"
  define bt where "bt = bad_indices ''triples'' errs \<union> cs"
  have clean: "clean = \<lparr>lo_nodes = keep_rows bn (lo_nodes out), lo_edges = keep_rows be (lo_edges out),
      lo_triples = keep_rows bt (lo_triples out)\<rparr>" and dr: "dropped = card bn + card be + card bt"
    using assms(2) unfolding errs_def partition_semantic Let_def bt_def cs_def be_def bn_def by auto
  note bad = bad_nodes [of out S, folded errs_def, folded bn_def] bad_edges [of out S, folded errs_def, folded be_def]
    bad_triples [of out S, folded errs_def]
  have n1: "bn \<subseteq> {..<length (lo_nodes out)}" by (subst bad(1)) auto
  have n2: "be \<subseteq> {..<length (lo_edges out)}" by (subst bad(2)) auto
  have n3: "bt \<subseteq> {..<length (lo_triples out)}"
    unfolding bt_def bad(3) by (auto simp: cs_def cascaded_iff)
  from length_keep_rows [OF n1] length_keep_rows [OF n2] length_keep_rows [OF n3] dr
  show "dropped + (length (lo_nodes clean) + length (lo_edges clean) + length (lo_triples clean)) =
      length (lo_nodes out) + length (lo_edges out) + length (lo_triples out)" by (simp add: clean)
  have nodes: "\<forall>x \<in> set (keep_rows bn (lo_nodes out)). node_ok S x" using bad(1) by (auto dest!: keep_rowsD)
  have edges: "\<forall>x \<in> set (keep_rows be (lo_edges out)). edge_ok x" using bad(2) by (auto dest!: keep_rowsD)
  have triples: "triple_ok (set (keep_rows bn (lo_nodes out))) (set (keep_rows be (lo_edges out))) t"
    if mem: "t \<in> set (keep_rows bt (lo_triples out))" for t
  proof -
    obtain i where i: "i < length (lo_triples out)" "i \<notin> bt" "t = lo_triples out ! i"
      using mem by (blast dest: keep_rowsD)
    then have ok: "triple_ok (set (lo_nodes out)) (set (lo_edges out)) t" using bad(3) by (auto simp: bt_def)
    have "Some (lt_subject t) \<notin> bad_ids (map ln_id (lo_nodes out)) bn" "Some (lt_object t) \<notin> bad_ids (map ln_id (lo_nodes out)) bn"
      "Some (lt_edge t) \<notin> bad_ids (map le_id (lo_edges out)) be"
      using i by (auto simp: bt_def cs_def cascaded_iff)
    with ok show ?thesis unfolding triple_ok_def by (blast intro: kept_id)
  qed
  have "distinct (List.map_filter ln_id (keep_rows bn (lo_nodes out)))"
  proof (rule distinct_keep_rows)
    fix i j k
    assume "i < length (lo_nodes out)" "i \<notin> bn" "ln_id (lo_nodes out ! i) = Some k" "j < i"
    then show "ln_id (lo_nodes out ! j) \<noteq> Some k" unfolding bad(1) by blast
  qed
  moreover have "distinct (List.map_filter le_id (keep_rows be (lo_edges out)))"
  proof (rule distinct_keep_rows)
    fix i j k
    assume "i < length (lo_edges out)" "i \<notin> be" "le_id (lo_edges out ! i) = Some k" "j < i"
    then show "le_id (lo_edges out ! j) \<noteq> Some k" unfolding bad(2) by blast
  qed
  moreover have "distinct (List.map_filter (\<lambda>t. Some (triple_key t)) (keep_rows bt (lo_triples out)))"
  proof (rule distinct_keep_rows)
    fix i j k
    assume "i < length (lo_triples out)" "i \<notin> bt" "Some (triple_key (lo_triples out ! i)) = Some k" "j < i"
    then show "Some (triple_key (lo_triples out ! j)) \<noteq> Some k" unfolding bt_def bad(3) by auto
  qed
  ultimately show "coherent_output S clean"
    using nodes edges triples by (simp add: coherent_output_def clean)
qed

lemma keep_rows_none: "keep_rows {} xs = xs"
  by (simp add: keep_rows_def)

text \<open>The rows that break no rule, by position: no earlier row has the same key, and a triple refers to no row that goes.\<close>

definition first_with_key :: "('a \<Rightarrow> 'k option) \<Rightarrow> 'a list \<Rightarrow> nat \<Rightarrow> bool" where
  "first_with_key f rows i \<longleftrightarrow> f (rows ! i) = None \<or> (\<forall>j < i. f (rows ! j) \<noteq> f (rows ! i))"

definition good_nodes :: "string set \<Rightarrow> llm_output \<Rightarrow> nat set" where
  "good_nodes S out = {i. i < length (lo_nodes out) \<and> node_ok S (lo_nodes out ! i) \<and> first_with_key ln_id (lo_nodes out) i}"

definition good_edges :: "llm_output \<Rightarrow> nat set" where
  "good_edges out = {i. i < length (lo_edges out) \<and> edge_ok (lo_edges out ! i) \<and> first_with_key le_id (lo_edges out) i}"

definition good_triples :: "string set \<Rightarrow> llm_output \<Rightarrow> nat set" where
  "good_triples S out = {i. i < length (lo_triples out) \<and>
     triple_ok (set (lo_nodes out)) (set (lo_edges out)) (lo_triples out ! i) \<and>
     first_with_key (\<lambda>t. Some (triple_key t)) (lo_triples out) i \<and>
     (\<forall>j < length (lo_nodes out). j \<notin> good_nodes S out \<longrightarrow>
        ln_id (lo_nodes out ! j) \<notin> {Some (lt_subject (lo_triples out ! i)), Some (lt_object (lo_triples out ! i))}) \<and>
     (\<forall>j < length (lo_edges out). j \<notin> good_edges out \<longrightarrow> le_id (lo_edges out ! j) \<noteq> Some (lt_edge (lo_triples out ! i)))}"

lemma keep_rows_nths: "keep_rows B xs = nths xs (- B)"
  by (induction xs rule: rev_induct) (simp_all add: nths_append)

lemma nths_within: "(\<And>i. i < length xs \<Longrightarrow> i \<in> A \<longleftrightarrow> i \<in> B) \<Longrightarrow> nths xs A = nths xs B"
proof (induction xs rule: rev_induct)
  case (snoc x xs)
  then have "nths xs A = nths xs B" "length xs \<in> A \<longleftrightarrow> length xs \<in> B" by simp_all
  then show ?case by (simp add: nths_append)
qed simp

lemma partition_exact:
  "fst (partition_clean_rows out (semantic_errors out S)) =
     \<lparr>lo_nodes = nths (lo_nodes out) (good_nodes S out), lo_edges = nths (lo_edges out) (good_edges out),
      lo_triples = nths (lo_triples out) (good_triples S out)\<rparr>"
proof -
  define bn where "bn = bad_indices ''nodes'' (semantic_errors out S)"
  define be where "be = bad_indices ''edges'' (semantic_errors out S)"
  define bt where "bt = bad_indices ''triples'' (semantic_errors out S) \<union>
    cascaded (bad_ids (map ln_id (lo_nodes out)) bn) (bad_ids (map le_id (lo_edges out)) be) (lo_triples out)"
  have bad_n: "j \<in> bn \<longleftrightarrow> j \<notin> good_nodes S out" if "j < length (lo_nodes out)" for j
    using that unfolding bn_def bad_nodes by (auto simp: good_nodes_def first_with_key_def)
  have bad_e: "j \<in> be \<longleftrightarrow> j \<notin> good_edges out" if "j < length (lo_edges out)" for j
    using that unfolding be_def bad_edges by (auto simp: good_edges_def first_with_key_def)
  have ids_n: "k \<in> bad_ids (map ln_id (lo_nodes out)) bn \<longleftrightarrow> (\<exists>j < length (lo_nodes out). j \<notin> good_nodes S out \<and> ln_id (lo_nodes out ! j) = k)" for k
    by (auto simp: bad_ids_iff bad_n)
  have ids_e: "k \<in> bad_ids (map le_id (lo_edges out)) be \<longleftrightarrow> (\<exists>j < length (lo_edges out). j \<notin> good_edges out \<and> le_id (lo_edges out ! j) = k)" for k
    by (auto simp: bad_ids_iff bad_e)
  have bad_t: "j \<in> bt \<longleftrightarrow> j \<notin> good_triples S out" if "j < length (lo_triples out)" for j
    using that unfolding bt_def bad_triples good_triples_def Un_iff cascaded_iff ids_n ids_e mem_Collect_eq first_with_key_def
    by blast
  have "nths (lo_nodes out) (- bn) = nths (lo_nodes out) (good_nodes S out)" using bad_n by (intro nths_within) auto
  moreover have "nths (lo_edges out) (- be) = nths (lo_edges out) (good_edges out)" using bad_e by (intro nths_within) auto
  moreover have "nths (lo_triples out) (- bt) = nths (lo_triples out) (good_triples S out)"
    using bad_t by (intro nths_within) auto
  ultimately show ?thesis
    by (simp add: partition_semantic Let_def keep_rows_nths flip: bn_def be_def) (simp add: bt_def)
qed

text \<open>
  C23. \<open>validate_ontogen_output\<close> and \<open>partition_clean_rows\<close>: on an output that passes the schema, the
  validator reports no error exactly when every identifier is a slug without double underscore and
  unused before, every score lies in [0, 1], every node has at least one dataset and only datasets in scope,
  and every triple is new and refers to proposed nodes and edges. Dropping the rows
  the errors point at, whose positions are read back from the error paths, leaves an output on which the
  validator reports nothing, and counts exactly the rows that are gone. What is kept is exactly the rows that break no
  rule, each where it was in the order of the output: the nodes, the edges, and the triples that also refer to no dropped node or edge.
  Nothing changes when there was no error.
\<close>

theorem partition_clean_rows_sound:
  assumes "model_validate schema payload = Inr (Inr out)"
    and "validate_ontogen_output schema payload S = Inr errors"
    and "partition_clean_rows out errors = (clean, dropped)"
  shows "(errors = [] \<longleftrightarrow> coherent_output S out) \<and> semantic_errors clean S = [] \<and>
    dropped + (length (lo_nodes clean) + length (lo_edges clean) + length (lo_triples clean)) =
      length (lo_nodes out) + length (lo_edges out) + length (lo_triples out) \<and>
    lo_nodes clean = nths (lo_nodes out) (good_nodes S out) \<and>
    lo_edges clean = nths (lo_edges out) (good_edges out) \<and>
    lo_triples clean = nths (lo_triples out) (good_triples S out) \<and>
    (errors = [] \<longrightarrow> clean = out)"
proof -
  have e: "errors = semantic_errors out S" using assms(1,2) by (simp add: validate_ontogen_output_def)
  note parts = coherent_parts [OF assms(3) [unfolded e]]
  have same: "clean = out" if "errors = []"
    using assms(3) that
    by (auto simp: partition_clean_rows_def keep_rows_none cascaded_def bad_ids_def)
  from partition_exact [of out S] assms(3) have "clean = \<lparr>lo_nodes = nths (lo_nodes out) (good_nodes S out),
      lo_edges = nths (lo_edges out) (good_edges out), lo_triples = nths (lo_triples out) (good_triples S out)\<rparr>"
    unfolding e by simp
  with parts same semantic_errors_empty show ?thesis unfolding e by auto
qed

definition example_output :: llm_output where
  "example_output =
     \<lparr>lo_nodes = [\<lparr>ln_id = Some ''customer'', ln_name = ''Customer'', ln_description = [], ln_confidence = 9/10,
                  ln_dataset_urns = [''urn:a''], ln_rebuttal = None\<rparr>,
                 \<lparr>ln_id = Some ''customer'', ln_name = ''Buyer'', ln_description = [], ln_confidence = 1/2,
                  ln_dataset_urns = [''urn:a''], ln_rebuttal = None\<rparr>,
                 \<lparr>ln_id = Some ''order'', ln_name = ''Order'', ln_description = [], ln_confidence = 1/2,
                  ln_dataset_urns = [''urn:a''], ln_rebuttal = None\<rparr>],
      lo_edges = [\<lparr>le_id = Some ''has'', le_label = ''has'', le_semantics = [], le_confidence = 1, le_rebuttal = None\<rparr>],
      lo_triples = [\<lparr>lt_subject = ''order'', lt_edge = ''has'', lt_object = ''customer'', lt_confidence = 1, lt_rebuttal = None\<rparr>,
                    \<lparr>lt_subject = ''order'', lt_edge = ''has'', lt_object = ''order'', lt_confidence = 1, lt_rebuttal = None\<rparr>]\<rparr>"

theorem partition_clean_rows_sound_witness:
  "\<exists>clean. partition_clean_rows example_output (semantic_errors example_output {''urn:a''}) = (clean, 2) \<and>
     map ln_name (lo_nodes clean) = [''Customer'', ''Order''] \<and> semantic_errors clean {''urn:a''} = []"
proof -
  let ?schema = "\<lambda>j :: json. (Inr example_output :: (schema_error, llm_output) result)"
  let ?errs = "semantic_errors example_output {''urn:a''}"
  let ?p = "partition_clean_rows example_output ?errs"
  have "model_validate ?schema (JObj []) = Inr (Inr example_output)" by code_simp
  moreover from this have "validate_ontogen_output ?schema (JObj []) {''urn:a''} = Inr ?errs"
    by (simp add: validate_ontogen_output_def)
  ultimately have "semantic_errors (fst ?p) {''urn:a''} = []"
    using partition_clean_rows_sound [of ?schema "JObj []" example_output "{''urn:a''}" ?errs "fst ?p" "snd ?p"] by simp
  moreover have "map ln_name (lo_nodes (fst ?p)) = [''Customer'', ''Order'']" by code_simp
  moreover have "snd ?p = 2" by code_simp
  ultimately show ?thesis by (metis prod.collapse)
qed

text \<open>A proposed \<open>nodes\<close> that is a number escapes as a \<open>TypeError\<close> instead of a schema error.\<close>

lemma normalize_type_error:
  "validate_ontogen_output schema (JObj [(''nodes'', JInt 5)]) S = Inl (UncaughtError ''TypeError'')"
  by (simp add: validate_ontogen_output_def model_validate_def normalize_rows_def dict_get_def)

end
