(* ===== verification/Ontogen_Store.thy ===== *)
theory Ontogen_Store
  imports Ontogen_Validator Dataset_Scope Events
begin

text \<open>
  \<open>src/backend/ontogen/service.py\<close>, tables, configuration, seeds, reads and reviews. A statement that
  breaks a constraint of \<open>src/shared/db/models.py\<close> (primary key, unique name or label, foreign key, the checks on
  identifiers) is an \<open>IntegrityError\<close>. Statements reach the database in the order they are issued, because every query
  flushes what is pending. A seed identifier is the outcome of \<open>uuid.UUID(seed_id)\<close>, \<open>None\<close> when that raises.
\<close>

datatype svc_error = FilterErr filter_error | SvcErr ds_error

section \<open>Tables\<close>

record ontogen_config =
  oc_enabled :: bool
  oc_tier :: "string option"
  oc_filter :: string
  oc_prompt :: "string option"
  oc_updated :: nat

record ontogen_seed =
  sd_id :: nat
  sd_body :: string
  sd_enabled :: bool
  sd_updated :: nat

record ontogen_node =
  on_id :: string
  on_name :: string
  on_description :: string
  on_confidence :: rat
  on_status :: string
  on_run_id :: "nat option"
  on_created :: nat
  on_updated :: nat

record ontogen_edge =
  oe_id :: string
  oe_label :: string
  oe_semantics :: "string option"
  oe_confidence :: rat
  oe_status :: string
  oe_run_id :: "nat option"
  oe_created :: nat
  oe_updated :: nat

record ontogen_triple =
  ot_id :: string
  ot_subject :: string
  ot_edge :: string
  ot_object :: string
  ot_confidence :: rat
  ot_status :: string
  ot_run_id :: "nat option"
  ot_created :: nat
  ot_updated :: nat

record dataset_node_map =
  dm_urn :: string
  dm_node :: string
  dm_confidence :: rat
  dm_status :: string
  dm_primary :: bool

text \<open>Of an embedding only its key and the status stored beside the vector matter here.\<close>

type_synonym embeddings = "(string \<times> string) list"

record ontogen_db =
  ob_conf :: "ontogen_config option"
  ob_seeds :: "ontogen_seed list"
  ob_nodes :: "ontogen_node list"
  ob_edges :: "ontogen_edge list"
  ob_triples :: "ontogen_triple list"
  ob_maps :: "dataset_node_map list"
  ob_node_emb :: embeddings
  ob_edge_emb :: embeddings
  ob_triple_emb :: embeddings
  ob_events :: "event_row list"

definition record_event :: "string \<Rightarrow> string \<Rightarrow> string \<Rightarrow> string \<Rightarrow> jdict \<Rightarrow> nat \<Rightarrow> ontogen_db \<Rightarrow> ontogen_db" where
  "record_event etype eid evtype st det now db =
     db\<lparr>ob_events := ob_events db @
       [\<lparr>ev_entity_type = etype, ev_entity_id = eid, ev_type = evtype, ev_status = st, ev_detail = det, ev_at = now\<rparr>]\<rparr>"

definition record_ontogen_event :: "string \<Rightarrow> string \<Rightarrow> string \<Rightarrow> jdict \<Rightarrow> nat \<Rightarrow> ontogen_db \<Rightarrow> ontogen_db" where
  "record_ontogen_event eid evtype st det now db = record_event ''ontogen'' eid evtype st det now db"

definition record_review_event ::
  "string \<Rightarrow> string \<Rightarrow> string \<Rightarrow> string \<Rightarrow> string option \<Rightarrow> nat \<Rightarrow> ontogen_db \<Rightarrow> ontogen_db" where
  "record_review_event etype eid evtype verdict reason now db =
     record_event etype eid evtype ''success''
       ((''verdict'', JStr verdict) # (case reason of Some r \<Rightarrow> if r \<noteq> [] then [(''reason'', JStr r)] else [] | None \<Rightarrow> []))
       now db"

section \<open>Configuration\<close>

definition default_conf :: "nat \<Rightarrow> ontogen_config" where
  "default_conf now = \<lparr>oc_enabled = False, oc_tier = None, oc_filter = [], oc_prompt = None, oc_updated = now\<rparr>"

definition get_conf :: "nat \<Rightarrow> ontogen_db \<Rightarrow> ontogen_config \<times> ontogen_db" where
  "get_conf now db =
     (case ob_conf db of
        Some c \<Rightarrow> (c, db)
      | None \<Rightarrow> (default_conf now, db\<lparr>ob_conf := Some (default_conf now)\<rparr>))"

text \<open>The body of a PUT; an absent \<open>is_enabled\<close> is false and a null or empty filter is empty.\<close>

record conf_body =
  cb_enabled :: "bool option"
  cb_tier :: "string option"
  cb_filter :: "string option"
  cb_prompt :: "string option"

definition put_conf :: "nat \<Rightarrow> conf_body \<Rightarrow> ontogen_db \<Rightarrow> (svc_error, ontogen_config \<times> ontogen_db) result" where
  "put_conf now body db =
     (let flt = (case cb_filter body of Some f \<Rightarrow> f | None \<Rightarrow> []) in
      case validate_dataset_filter_service (Some flt) of
        Inl e \<Rightarrow> Inl (FilterErr e)
      | Inr _ \<Rightarrow>
          (let row = \<lparr>oc_enabled = (cb_enabled body = Some True), oc_tier = cb_tier body, oc_filter = flt,
                      oc_prompt = cb_prompt body, oc_updated = now\<rparr>;
               evtype = (if ob_conf db = None then ''ONTOGEN.CONFIG_CREATE'' else ''ONTOGEN.CONFIG_UPDATE'')
           in Inr (row, record_ontogen_event ''singleton'' evtype ''success'' [(''operation'', JStr ''PUT'')] now
                (db\<lparr>ob_conf := Some row\<rparr>))))"

text \<open>The body of a PATCH: the keys present, each with its value or null.\<close>

record conf_patch =
  cp_enabled :: "bool option option"
  cp_tier :: "string option option"
  cp_filter :: "string option option"
  cp_prompt :: "string option option"

definition patched_keys :: "conf_patch \<Rightarrow> json list" where
  "patched_keys p =
     (if cp_enabled p = None then [] else [JStr ''is_enabled'']) @ (if cp_tier p = None then [] else [JStr ''schedule_tier'']) @
     (if cp_filter p = None then [] else [JStr ''dataset_filter'']) @ (if cp_prompt p = None then [] else [JStr ''default_run_prompt''])"

definition apply_conf_patch :: "conf_patch \<Rightarrow> ontogen_config \<Rightarrow> ontogen_config" where
  "apply_conf_patch p c =
     c\<lparr>oc_enabled := (case cp_enabled p of Some (Some b) \<Rightarrow> b | _ \<Rightarrow> oc_enabled c),
       oc_tier := (case cp_tier p of Some t \<Rightarrow> t | None \<Rightarrow> oc_tier c),
       oc_filter := (case cp_filter p of Some (Some f) \<Rightarrow> f | _ \<Rightarrow> oc_filter c),
       oc_prompt := (case cp_prompt p of Some t \<Rightarrow> t | None \<Rightarrow> oc_prompt c)\<rparr>"

definition patch_conf :: "nat \<Rightarrow> conf_patch \<Rightarrow> ontogen_db \<Rightarrow> (svc_error, ontogen_config \<times> ontogen_db) result" where
  "patch_conf now p db =
     (case (case cp_filter p of Some (Some f) \<Rightarrow> validate_dataset_filter_service (Some f) | _ \<Rightarrow> Inr ()) of
        Inl e \<Rightarrow> Inl (FilterErr e)
      | Inr _ \<Rightarrow>
          (let (c, db1) = get_conf now db; row = (apply_conf_patch p c)\<lparr>oc_updated := now\<rparr> in
           Inr (row, record_ontogen_event ''singleton'' ''ONTOGEN.CONFIG_UPDATE'' ''success''
             [(''operation'', JStr ''PATCH''), (''fields_changed'', JList (patched_keys p))] now (db1\<lparr>ob_conf := Some row\<rparr>))))"

definition delete_conf :: "nat \<Rightarrow> ontogen_db \<Rightarrow> ontogen_db" where
  "delete_conf now db =
     record_ontogen_event ''singleton'' ''ONTOGEN.CONFIG_DELETE'' ''success'' [(''operation'', JStr ''DELETE'')] now
       (db\<lparr>ob_conf := None\<rparr>)"

section \<open>Seeds\<close>

text \<open>\<open>str.splitlines\<close>: the line boundaries below 256, with a carriage return and line feed as one.\<close>

definition is_line_break :: "char \<Rightarrow> bool" where
  "is_line_break c \<longleftrightarrow> code c \<in> {10, 11, 12, 13, 28, 29, 30, 133}"

fun splitlines_from :: "string \<Rightarrow> string \<Rightarrow> string list" where
  "splitlines_from acc [] = (if acc = [] then [] else [acc])"
| "splitlines_from acc (c # cs) =
     (if is_line_break c
      then acc # splitlines_from [] (if code c = 13 \<and> cs \<noteq> [] \<and> code (hd cs) = 10 then tl cs else cs)
      else splitlines_from (acc @ [c]) cs)"

definition preview :: "string \<Rightarrow> string" where
  "preview body = take 200 (py_join '' '' (splitlines_from [] body))"

definition list_seeds ::
  "nat \<Rightarrow> nat \<Rightarrow> (ontogen_seed list \<Rightarrow> ontogen_seed list) option \<Rightarrow> ontogen_db \<Rightarrow> (nat \<times> bool \<times> nat \<times> string) list \<times> nat" where
  "list_seeds offset limit order_by db =
     (map (\<lambda>s. (sd_id s, sd_enabled s, sd_updated s, preview (sd_body s)))
        (page offset limit (ordered order_by sd_updated (ob_seeds db))), length (ob_seeds db))"

definition seed_event :: "nat \<Rightarrow> string \<Rightarrow> jdict \<Rightarrow> nat \<Rightarrow> ontogen_db \<Rightarrow> ontogen_db" where
  "seed_event i evtype extra now db =
     record_ontogen_event (''seed:'' @ show_nat i) evtype ''success'' ((''seed_id'', JStr (show_nat i)) # extra) now db"

definition create_seed :: "nat \<Rightarrow> nat \<Rightarrow> string \<Rightarrow> ontogen_db \<Rightarrow> ontogen_seed \<times> ontogen_db" where
  "create_seed new_id now body db =
     (let row = \<lparr>sd_id = new_id, sd_body = body, sd_enabled = False, sd_updated = now\<rparr> in
      (row, seed_event new_id ''ONTOGEN.SEED_CREATE'' [] now (db\<lparr>ob_seeds := ob_seeds db @ [row]\<rparr>)))"

definition get_seed :: "nat option \<Rightarrow> ontogen_db \<Rightarrow> (ds_error, ontogen_seed) result" where
  "get_seed uid db =
     (case uid of
        None \<Rightarrow> Inl (EntityNotFoundError ''seed'')
      | Some i \<Rightarrow> (case row_get sd_id i (ob_seeds db) of None \<Rightarrow> Inl (EntityNotFoundError ''seed'') | Some s \<Rightarrow> Inr s))"

definition put_seed :: "ontogen_seed \<Rightarrow> ontogen_db \<Rightarrow> ontogen_db" where
  "put_seed row db = db\<lparr>ob_seeds := row_update sd_id (sd_id row) (\<lambda>_. row) (ob_seeds db)\<rparr>"

definition patch_seed :: "nat \<Rightarrow> nat option \<Rightarrow> string \<Rightarrow> ontogen_db \<Rightarrow> (ds_error, ontogen_seed \<times> ontogen_db) result" where
  "patch_seed now uid body db = rmap (\<lambda>s.
     let row = s\<lparr>sd_body := body, sd_updated := now\<rparr> in
     (row, seed_event (sd_id s) ''ONTOGEN.SEED_UPDATE'' [] now (put_seed row db))) (get_seed uid db)"

definition set_seed_enabled :: "nat \<Rightarrow> nat option \<Rightarrow> bool \<Rightarrow> ontogen_db \<Rightarrow> (ds_error, ontogen_seed \<times> ontogen_db) result" where
  "set_seed_enabled now uid on db = rmap (\<lambda>s.
     let row = s\<lparr>sd_enabled := on, sd_updated := now\<rparr> in
     (row, seed_event (sd_id s) ''ONTOGEN.SEED_UPDATE'' [(''is_enabled'', JBool on)] now (put_seed row db))) (get_seed uid db)"

definition delete_seed :: "nat \<Rightarrow> nat option \<Rightarrow> ontogen_db \<Rightarrow> (ds_error, ontogen_db) result" where
  "delete_seed now uid db = rmap (\<lambda>s.
     seed_event (sd_id s) ''ONTOGEN.SEED_DELETE'' [] now (db\<lparr>ob_seeds := row_delete sd_id (sd_id s) (ob_seeds db)\<rparr>)) (get_seed uid db)"

section \<open>Reads\<close>

definition status_page ::
  "('r \<Rightarrow> string) \<Rightarrow> ('r \<Rightarrow> nat) \<Rightarrow> string option \<Rightarrow> nat \<Rightarrow> nat \<Rightarrow> ('r list \<Rightarrow> 'r list) option \<Rightarrow> 'r list \<Rightarrow> 'r list \<times> nat" where
  "status_page st created status_filter offset limit order_by rows =
     (let base = (case status_filter of Some f \<Rightarrow> if f \<noteq> [] then filter (\<lambda>r. st r = f) rows else rows | None \<Rightarrow> rows)
      in (page offset limit (ordered order_by created base), length base))"

definition list_nodes where
  "list_nodes status_filter offset limit order_by db =
     status_page on_status on_created status_filter offset limit order_by (ob_nodes db)"

definition list_edges where
  "list_edges status_filter offset limit order_by db =
     status_page oe_status oe_created status_filter offset limit order_by (ob_edges db)"

definition list_triples where
  "list_triples status_filter offset limit order_by db =
     status_page ot_status ot_created status_filter offset limit order_by (ob_triples db)"

definition get_node :: "string \<Rightarrow> ontogen_db \<Rightarrow> (ds_error, ontogen_node) result" where
  "get_node i db = (case row_get on_id i (ob_nodes db) of None \<Rightarrow> Inl (EntityNotFoundError ''node'') | Some r \<Rightarrow> Inr r)"

definition get_edge :: "string \<Rightarrow> ontogen_db \<Rightarrow> (ds_error, ontogen_edge) result" where
  "get_edge i db = (case row_get oe_id i (ob_edges db) of None \<Rightarrow> Inl (EntityNotFoundError ''edge'') | Some r \<Rightarrow> Inr r)"

definition get_triple :: "string \<Rightarrow> ontogen_db \<Rightarrow> (ds_error, ontogen_triple) result" where
  "get_triple i db = (case row_get ot_id i (ob_triples db) of None \<Rightarrow> Inl (EntityNotFoundError ''triple'') | Some r \<Rightarrow> Inr r)"

section \<open>Reviews\<close>

definition verdict_status :: "string \<Rightarrow> (ds_error, string) result" where
  "verdict_status verdict =
     (if verdict = ''approve'' then Inr ''approved'' else if verdict = ''reject'' then Inr ''rejected''
      else Inl (PreconditionFailedError ''INVALID_PARAMETER''))"

definition review_action :: "string \<Rightarrow> string \<Rightarrow> string" where
  "review_action entity verdict = py_upper entity @ (if verdict = ''approve'' then ''.APPROVE'' else ''.REJECT'')"

definition review_node :: "nat \<Rightarrow> string \<Rightarrow> string \<Rightarrow> string option \<Rightarrow> ontogen_db \<Rightarrow> (ds_error, ontogen_node \<times> ontogen_db) result" where
  "review_node now i verdict reason db =
     rbind (get_node i db) (\<lambda>row. rmap (\<lambda>st.
       let row' = row\<lparr>on_status := st, on_updated := now\<rparr>;
           db' = db\<lparr>ob_nodes := row_update on_id i (\<lambda>_. row') (ob_nodes db),
                    ob_maps := map (\<lambda>m. if dm_node m = i then m\<lparr>dm_status := st\<rparr> else m) (ob_maps db)\<rparr>
       in (row', record_review_event ''node'' i (review_action ''node'' verdict) verdict reason now db')) (verdict_status verdict))"

definition review_edge :: "nat \<Rightarrow> string \<Rightarrow> string \<Rightarrow> string option \<Rightarrow> ontogen_db \<Rightarrow> (ds_error, ontogen_edge \<times> ontogen_db) result" where
  "review_edge now i verdict reason db =
     rbind (get_edge i db) (\<lambda>row. rmap (\<lambda>st.
       let row' = row\<lparr>oe_status := st, oe_updated := now\<rparr>;
           db' = db\<lparr>ob_edges := row_update oe_id i (\<lambda>_. row') (ob_edges db)\<rparr>
       in (row', record_review_event ''edge'' i (review_action ''edge'' verdict) verdict reason now db')) (verdict_status verdict))"

text \<open>The dependency gate: both endpoint nodes and the edge are approved.\<close>

definition node_approved :: "ontogen_db \<Rightarrow> string \<Rightarrow> bool" where
  "node_approved db i = (case row_get on_id i (ob_nodes db) of Some n \<Rightarrow> on_status n = ''approved'' | None \<Rightarrow> False)"

definition edge_approved :: "ontogen_db \<Rightarrow> string \<Rightarrow> bool" where
  "edge_approved db i = (case row_get oe_id i (ob_edges db) of Some e \<Rightarrow> oe_status e = ''approved'' | None \<Rightarrow> False)"

definition triple_gate :: "ontogen_db \<Rightarrow> ontogen_triple \<Rightarrow> bool" where
  "triple_gate db t \<longleftrightarrow> node_approved db (ot_subject t) \<and> edge_approved db (ot_edge t) \<and> node_approved db (ot_object t)"

definition review_triple :: "nat \<Rightarrow> string \<Rightarrow> string \<Rightarrow> string option \<Rightarrow> ontogen_db \<Rightarrow> (ds_error, ontogen_triple \<times> ontogen_db) result" where
  "review_triple now i verdict reason db =
     rbind (get_triple i db) (\<lambda>row. rbind (verdict_status verdict) (\<lambda>st.
       if verdict = ''approve'' \<and> \<not> triple_gate db row
       then Inl (PreconditionFailedError ''ONTOGEN_TRIPLE_DEPENDENCY_PENDING'')
       else
         let row' = row\<lparr>ot_status := st, ot_updated := now\<rparr>;
             db' = db\<lparr>ob_triples := row_update ot_id i (\<lambda>_. row') (ob_triples db)\<rparr>
         in Inr (row', record_review_event ''triple'' i (review_action ''triple'' verdict) verdict reason now db')))"

end
