(* ===== verification/Debate.thy ===== *)
theory Debate
  imports LLM_Loop
begin

text \<open>
  The producer/reviewer debate of \<open>src/backend/ontogen/debate.py\<close> and \<open>src/backend/metagen/debate.py\<close>, with the
  models of the two \<open>debate_models.py\<close>. The two \<open>run_debate\<close> functions are the same
  loop; what they call is gathered in one environment: the two chat clients (by turn and prompt), the canonical
  hash, the parser of a review, the collection of rebuttals (\<open>None\<close> throughout in metagen), the anchor
  sampling and the prompt builders.
\<close>

datatype verdict = Verdict_accept | Verdict_revise | Verdict_reject

datatype debate_outcome = Accepted | Turns_exhausted | Cycle_detected

datatype actor = Producer | Reviewer

record review_item =
  ri_dump :: json
  ri_issues :: "string list"

record review_output =
  ro_verdict :: verdict
  ro_items :: "review_item list"
  ro_summary :: string

record history_entry =
  he_turn :: nat
  he_actor :: actor
  he_hash :: "string option"
  he_verdict :: "verdict option"
  he_rebuttals :: "string list option"
  he_issues :: "string list option"
  he_comment :: "string option"
  he_item_count :: "nat option"

record 'an transcript =
  ts_turns_completed :: nat
  ts_outcome :: debate_outcome
  ts_final_verdict :: json
  ts_history :: "history_entry list"
  ts_anchors :: "'an list"
  ts_iterations :: nat
  ts_errors_dropped :: nat
  ts_item_verdicts :: "json list"

record 'an debate_result =
  dr_payload :: json
  dr_transcript :: "'an transcript"
  dr_outcome :: debate_outcome

record ('an, 'by) debate_env =
  dv_producer :: "nat \<Rightarrow> string \<Rightarrow> (ds_error, loop_result) result"
  dv_reviewer :: "nat \<Rightarrow> string \<Rightarrow> (ds_error, loop_result) result"
  dv_hash :: "json \<Rightarrow> string"
  dv_parse_review :: "json \<Rightarrow> review_output option"
  dv_rebuttals :: "json \<Rightarrow> (ds_error, string list option) result"
  dv_sample :: "json \<Rightarrow> (ds_error, 'by) result"
  dv_flatten :: "'by \<Rightarrow> 'an list"
  dv_reviewer_prompt :: "json \<Rightarrow> 'by \<Rightarrow> string \<Rightarrow> string"
  dv_revision_prompt :: "json \<Rightarrow> json \<Rightarrow> string \<Rightarrow> string \<Rightarrow> string"

text \<open>The local variables of the loop.\<close>

record 'an debate_state =
  ds_hashes :: "string list"
  ds_history :: "history_entry list"
  ds_prompt :: string
  ds_producer :: json
  ds_reviewer :: json
  ds_iterations :: nat
  ds_errors :: nat
  ds_anchors :: "'an list"
  ds_turns :: nat

definition producer_entry :: "nat \<Rightarrow> string \<Rightarrow> string list option \<Rightarrow> history_entry" where
  "producer_entry turn h rebuttals =
     \<lparr>he_turn = turn, he_actor = Producer, he_hash = Some (take 16 h), he_verdict = None, he_rebuttals = rebuttals,
      he_issues = None, he_comment = None, he_item_count = None\<rparr>"

definition reviewer_entry :: "nat \<Rightarrow> review_output \<Rightarrow> history_entry" where
  "reviewer_entry turn ro =
     (let issues = remdups (concat (map ri_issues (ro_items ro))) in
      \<lparr>he_turn = turn, he_actor = Reviewer, he_hash = None, he_verdict = Some (ro_verdict ro), he_rebuttals = None,
       he_issues = (if issues = [] then None else Some issues),
       he_comment = (if ro_summary ro = [] then None else Some (take 120 (ro_summary ro))),
       he_item_count = Some (length (ro_items ro))\<rparr>)"

definition UNPARSED_REVIEW :: review_output where
  "UNPARSED_REVIEW = \<lparr>ro_verdict = Verdict_revise, ro_items = [], ro_summary = ''reviewer output could not be parsed''\<rparr>"

text \<open>\<open>last_reviewer_payload.get("overall_verdict", "")\<close>.\<close>

fun last_verdict :: "json \<Rightarrow> (ds_error, json) result" where
  "last_verdict (JObj d) = Inr (dict_get_or d ''overall_verdict'' (JStr []))"
| "last_verdict _ = Inl (UncaughtError ''AttributeError'')"

fun verdict_json :: "verdict \<Rightarrow> json" where
  "verdict_json Verdict_accept = JStr ''accept''"
| "verdict_json Verdict_revise = JStr ''revise''"
| "verdict_json Verdict_reject = JStr ''reject''"

definition build_transcript :: "'an debate_state \<Rightarrow> debate_outcome \<Rightarrow> json \<Rightarrow> json list \<Rightarrow> 'an transcript" where
  "build_transcript st outcome final items =
     \<lparr>ts_turns_completed = ds_turns st, ts_outcome = outcome, ts_final_verdict = final, ts_history = ds_history st,
      ts_anchors = ds_anchors st, ts_iterations = ds_iterations st, ts_errors_dropped = ds_errors st,
      ts_item_verdicts = items\<rparr>"

definition conclude :: "'an debate_state \<Rightarrow> debate_outcome \<Rightarrow> json \<Rightarrow> json list \<Rightarrow> 'an debate_result" where
  "conclude st outcome final items =
     \<lparr>dr_payload = ds_producer st, dr_transcript = build_transcript st outcome final items, dr_outcome = outcome\<rparr>"

section \<open>Turns\<close>

text \<open>The producer's turn: the candidate, its hash and the entry in the history. The flag says
  that the hash occurred before.\<close>

definition producer_turn ::
  "('an, 'by) debate_env \<Rightarrow> nat \<Rightarrow> 'an debate_state \<Rightarrow> (ds_error, bool \<times> string \<times> 'an debate_state) result" where
  "producer_turn env turn st =
     rbind (dv_producer env turn (ds_prompt st)) (\<lambda>lr.
     rbind (dv_rebuttals env (lr_payload lr)) (\<lambda>rebuttals.
       let h = dv_hash env (lr_payload lr); seen = (h \<in> set (ds_hashes st)) in
       Inr (seen, h, st\<lparr>ds_producer := lr_payload lr,
         ds_iterations := lt_iterations (lr_trace lr),
         ds_errors := sum_list (map length (lt_errors_per_iter (lr_trace lr))),
         ds_hashes := (if seen then ds_hashes st else ds_hashes st @ [h]),
         ds_history := ds_history st @ [producer_entry turn h rebuttals],
         ds_turns := turn + 1\<rparr>)))"

definition reviewer_turn ::
  "('an, 'by) debate_env \<Rightarrow> nat \<Rightarrow> string \<Rightarrow> 'an debate_state \<Rightarrow> (ds_error, review_output \<times> 'an debate_state) result" where
  "reviewer_turn env turn h st =
     rbind (dv_sample env (ds_producer st)) (\<lambda>by_kind.
     rbind (dv_reviewer env turn (dv_reviewer_prompt env (ds_producer st) by_kind (take 8 h))) (\<lambda>lr.
       let ro = (case dv_parse_review env (lr_payload lr) of Some ro \<Rightarrow> ro | None \<Rightarrow> UNPARSED_REVIEW) in
       Inr (ro, st\<lparr>ds_anchors := dv_flatten env by_kind, ds_reviewer := lr_payload lr,
         ds_history := ds_history st @ [reviewer_entry turn ro], ds_turns := turn + 1\<rparr>)))"

definition debate_round ::
  "('an, 'by) debate_env \<Rightarrow> string \<Rightarrow> nat \<Rightarrow> nat \<Rightarrow> 'an debate_state
     \<Rightarrow> (ds_error, 'an debate_result + 'an debate_state) result" where
  "debate_round env producer_prompt max_turns pair st =
     rbind (producer_turn env (pair * 2) st) (\<lambda>(seen, h, st1).
       if seen then rmap (\<lambda>v. Inl (conclude st1 Cycle_detected v [])) (last_verdict (ds_reviewer st1))
       else if ds_turns st1 \<ge> max_turns
         then rmap (\<lambda>v. Inl (conclude st1 Turns_exhausted v [])) (last_verdict (ds_reviewer st1))
       else rbind (reviewer_turn env (pair * 2 + 1) h st1) (\<lambda>(ro, st2).
         if ro_verdict ro = Verdict_accept
           then Inr (Inl (conclude st2 Accepted (JStr ''accept'') (map ri_dump (ro_items ro))))
         else if ds_turns st2 \<ge> max_turns
           then Inr (Inl (conclude st2 Turns_exhausted (verdict_json (ro_verdict ro)) (map ri_dump (ro_items ro))))
         else Inr (Inr (st2\<lparr>ds_prompt :=
             dv_revision_prompt env (ds_producer st2) (ds_reviewer st2) producer_prompt (take 8 h)\<rparr>))))"

text \<open>\<open>for turn_pair in range(max_turns // 2 + max_turns % 2)\<close>, and the return after it.\<close>

fun debate_loop ::
  "('an, 'by) debate_env \<Rightarrow> string \<Rightarrow> nat \<Rightarrow> nat list \<Rightarrow> 'an debate_state \<Rightarrow> (ds_error, 'an debate_result) result" where
  "debate_loop env producer_prompt max_turns [] st =
     rmap (\<lambda>v. conclude st Turns_exhausted v []) (last_verdict (ds_reviewer st))"
| "debate_loop env producer_prompt max_turns (pair # pairs) st =
     (case debate_round env producer_prompt max_turns pair st of
        Inl e \<Rightarrow> Inl e
      | Inr (Inl r) \<Rightarrow> Inr r
      | Inr (Inr st') \<Rightarrow> debate_loop env producer_prompt max_turns pairs st')"

definition run_debate ::
  "('an, 'by) debate_env \<Rightarrow> string \<Rightarrow> nat \<Rightarrow> (ds_error, 'an debate_result) result" where
  "run_debate env producer_prompt max_turns =
     debate_loop env producer_prompt max_turns [0..<max_turns div 2 + max_turns mod 2]
       \<lparr>ds_hashes = [], ds_history = [], ds_prompt = producer_prompt, ds_producer = JObj [], ds_reviewer = JObj [],
        ds_iterations = 1, ds_errors = 0, ds_anchors = [], ds_turns = 0\<rparr>"

section \<open>The course of a debate\<close>

text \<open>Turns are numbered from 0 and alternate, the producer first.\<close>

definition regular_history :: "history_entry list \<Rightarrow> bool" where
  "regular_history h \<longleftrightarrow>
     (\<forall>i < length h. he_turn (h ! i) = i \<and> he_actor (h ! i) = (if even i then Producer else Reviewer))"

definition debate_inv :: "nat \<Rightarrow> nat \<Rightarrow> 'an debate_state \<Rightarrow> bool" where
  "debate_inv max_turns pair st \<longleftrightarrow>
     length (ds_history st) = 2 * pair \<and> ds_turns st = 2 * pair \<and> regular_history (ds_history st) \<and>
     length (ds_hashes st) = pair \<and>
     (\<forall>i < pair. he_hash (ds_history st ! (2 * i)) = Some (take 16 (ds_hashes st ! i))) \<and>
     (\<forall>e \<in> set (ds_history st). he_verdict e \<noteq> Some Verdict_accept)"

text \<open>What a result says about its debate.\<close>

definition debate_ok :: "nat \<Rightarrow> 'an debate_result \<Rightarrow> bool" where
  "debate_ok max_turns r \<longleftrightarrow>
     (let ts = dr_transcript r; h = ts_history ts; n = ts_turns_completed ts in
      n \<le> max_turns \<and> length h = n \<and> regular_history h \<and> ts_outcome ts = dr_outcome r \<and>
      (\<forall>e \<in> set (butlast h). he_verdict e \<noteq> Some Verdict_accept) \<and>
      (dr_outcome r = Accepted \<longleftrightarrow> h \<noteq> [] \<and> he_verdict (last h) = Some Verdict_accept) \<and>
      (dr_outcome r = Turns_exhausted \<longrightarrow> n = max_turns) \<and>
      (dr_outcome r = Cycle_detected \<longrightarrow> odd n \<and>
         (\<exists>i < n - 1. even i \<and> he_hash (h ! i) = he_hash (last h))))"

lemma regular_history_snoc:
  "regular_history (h @ [e]) \<longleftrightarrow>
     regular_history h \<and> he_turn e = length h \<and> he_actor e = (if even (length h) then Producer else Reviewer)"
  unfolding regular_history_def by (simp add: All_less_Suc nth_append conj_commute)

lemmas debate_simps = debate_ok_def conclude_def build_transcript_def Let_def regular_history_snoc

lemma producer_turnD:
  assumes "producer_turn env t st = Inr (seen, h, st1)"
  shows "\<exists>rb. ds_history st1 = ds_history st @ [producer_entry t h rb]"
    "ds_turns st1 = t + 1" "seen \<longleftrightarrow> h \<in> set (ds_hashes st)"
    "ds_hashes st1 = (if seen then ds_hashes st else ds_hashes st @ [h])" "ds_reviewer st1 = ds_reviewer st"
  using assms by (auto simp: producer_turn_def result_simps Let_def)

lemma reviewer_turnD:
  assumes "reviewer_turn env t h st = Inr (ro, st2)"
  shows "ds_history st2 = ds_history st @ [reviewer_entry t ro]" "ds_turns st2 = t + 1" "ds_hashes st2 = ds_hashes st"
  using assms by (auto simp: reviewer_turn_def result_simps Let_def)

lemma entry_simps [simp]:
  "he_turn (producer_entry t h rb) = t" "he_actor (producer_entry t h rb) = Producer"
  "he_verdict (producer_entry t h rb) = None" "he_hash (producer_entry t h rb) = Some (take 16 h)"
  "he_turn (reviewer_entry t ro) = t" "he_actor (reviewer_entry t ro) = Reviewer"
  "he_verdict (reviewer_entry t ro) = Some (ro_verdict ro)"
  by (simp_all add: producer_entry_def reviewer_entry_def Let_def)

lemma debate_round_cases:
  assumes inv: "debate_inv m pair st" and lt: "2 * pair < m" and run: "debate_round env pp m pair st = Inr out"
  shows "case out of Inl r \<Rightarrow> debate_ok m r | Inr st' \<Rightarrow> debate_inv m (Suc pair) st' \<and> 2 * Suc pair < m"
proof -
  note I = inv [unfolded debate_inv_def]
  obtain seen h st1 where p: "producer_turn env (pair * 2) st = Inr (seen, h, st1)"
    using run by (auto simp: debate_round_def result_simps)
  note P = producer_turnD [OF p]
  obtain rb where hist: "ds_history st1 = ds_history st @ [producer_entry (pair * 2) h rb]" using P(1) by blast
  have reg1: "regular_history (ds_history st1)" using I hist by (simp add: regular_history_snoc)
  show ?thesis
  proof (cases "seen \<or> ds_turns st1 \<ge> m")
    case True
    obtain v where out: "out = Inl (conclude st1 (if seen then Cycle_detected else Turns_exhausted) v [])"
      using run p True by (auto simp: debate_round_def result_simps split: if_splits)
    have "\<exists>i < pair * 2. even i \<and> he_hash ((ds_history st @ [producer_entry (pair * 2) h rb]) ! i) = Some (take 16 h)" if seen
    proof -
      obtain i where i: "i < pair" "ds_hashes st ! i = h"
        using \<open>seen\<close> P(3) I by (metis in_set_conv_nth)
      then show ?thesis using I by (intro exI [of _ "2 * i"]) (simp add: nth_append)
    qed
    with True I hist P(2) lt reg1 out show ?thesis
      by (auto simp: debate_simps)
  next
    case False
    then obtain ro st2 where rv: "reviewer_turn env (pair * 2 + 1) h st1 = Inr (ro, st2)"
      using run p by (auto simp: debate_round_def result_simps)
    note R = reviewer_turnD [OF rv]
    have reg2: "regular_history (ds_history st2)"
      unfolding R(1) regular_history_snoc using reg1 hist I by simp
    have hash: "he_hash (ds_history st2 ! (2 * i)) = Some (take 16 (ds_hashes st2 ! i))" if "i < Suc pair" for i
      using that I R(1,3) hist P(4) False by (auto simp: nth_append less_Suc_eq)
    have ev: "\<forall>e \<in> set (ds_history st1). he_verdict e \<noteq> Some Verdict_accept" using I hist by auto
    show ?thesis
    proof (cases "ro_verdict ro = Verdict_accept \<or> ds_turns st2 \<ge> m")
      case True
      then obtain v its where "out = Inl (conclude st2 (if ro_verdict ro = Verdict_accept then Accepted else Turns_exhausted) v its)"
        using run p rv False by (auto simp: debate_round_def result_simps split: if_splits)
      moreover have "butlast (ds_history st2) = ds_history st1" "ds_history st2 \<noteq> []"
        "last (ds_history st2) = reviewer_entry (pair * 2 + 1) ro" unfolding R(1) by simp_all
      moreover have "length (ds_history st2) = 2 * pair + 2" using R(1) hist I by simp
      ultimately show ?thesis using True False R(2) P(2) lt reg2 ev
        by (simp add: debate_ok_def conclude_def build_transcript_def Let_def) linarith
    next
      case neg: False
      then obtain pr where out: "out = Inr (st2\<lparr>ds_prompt := pr\<rparr>)"
        using run p rv False by (auto simp: debate_round_def result_simps split: if_splits)
      have "debate_inv m (Suc pair) (st2\<lparr>ds_prompt := pr\<rparr>)"
        using I hist R P(4) False reg2 ev neg hash by (auto simp: debate_inv_def)
      with out neg R(2) show ?thesis by simp
    qed
  qed
qed

lemma debate_loop_ok:
  assumes "debate_inv m pair st" "pair = 0 \<or> 2 * pair < m" "debate_loop env pp m pairs st = Inr r"
    and "pairs = [pair..<m div 2 + m mod 2]"
  shows "debate_ok m r"
  using assms
proof (induction pairs arbitrary: pair st)
  case Nil
  have "[pair..<m div 2 + m mod 2] = []" using Nil.prems(4) by (rule sym)
  then have "m div 2 + m mod 2 \<le> pair" unfolding upt_eq_Nil_conv by linarith
  with Nil.prems(2) have "pair = 0 \<and> m = 0" by presburger
  with Nil show ?case by (auto simp: result_simps debate_simps debate_inv_def)
next
  case (Cons p ps)
  have "[pair..<m div 2 + m mod 2] = p # ps" using Cons.prems(4) by (rule sym)
  then have p: "p = pair" "ps = [Suc pair..<m div 2 + m mod 2]" "pair < m div 2 + m mod 2"
    unfolding upt_eq_Cons_conv by auto
  then have lt: "2 * pair < m" by presburger
  show ?case
  proof (cases "debate_round env pp m pair st")
    case (Inr out)
    note rc = debate_round_cases [OF Cons.prems(1) lt Inr]
    show ?thesis
    proof (cases out)
      case (Inl r')
      with rc Inr Cons.prems(3) p show ?thesis by simp
    next
      case st': (Inr st')
      with rc Inr Cons.prems(3) p show ?thesis by (intro Cons.IH [of "Suc pair" st']) auto
    qed
  qed (use Cons.prems p in simp)
qed


section \<open>A debate ends\<close>

text \<open>Every call answers, and a reviewer submits a dict.\<close>

definition calls_answer :: "('an, 'by) debate_env \<Rightarrow> bool" where
  "calls_answer env \<longleftrightarrow>
     (\<forall>t p. \<exists>r. dv_producer env t p = Inr r) \<and> (\<forall>t p. \<exists>r d. dv_reviewer env t p = Inr r \<and> lr_payload r = JObj d) \<and>
     (\<forall>j. \<exists>r. dv_rebuttals env j = Inr r) \<and> (\<forall>j. \<exists>r. dv_sample env j = Inr r)"

lemma debate_round_returns:
  assumes "calls_answer env" "ds_reviewer st = JObj d"
  shows "\<exists>out. debate_round env pp m pair st = Inr out \<and> (\<forall>st'. out = Inr st' \<longrightarrow> (\<exists>d'. ds_reviewer st' = JObj d'))"
proof -
  obtain seen h st1 where p: "producer_turn env (pair * 2) st = Inr (seen, h, st1)"
  proof -
    obtain lr where lr: "dv_producer env (pair * 2) (ds_prompt st) = Inr lr" using assms(1) unfolding calls_answer_def by blast
    obtain rb where "dv_rebuttals env (lr_payload lr) = Inr rb" using assms(1) unfolding calls_answer_def by blast
    with lr that show ?thesis by (simp add: producer_turn_def Let_def)
  qed
  have r1: "ds_reviewer st1 = JObj d" using producer_turnD(5) [OF p] assms(2) by simp
  obtain bk lr d' where "dv_sample env (ds_producer st1) = Inr bk"
    "dv_reviewer env (pair * 2 + 1) (dv_reviewer_prompt env (ds_producer st1) bk (take 8 h)) = Inr lr" "lr_payload lr = JObj d'"
    using assms(1) unfolding calls_answer_def by metis
  then have "\<exists>ro st2. reviewer_turn env (pair * 2 + 1) h st1 = Inr (ro, st2) \<and> ds_reviewer st2 = JObj d'"
    by (simp add: reviewer_turn_def Let_def)
  then obtain ro st2 where "reviewer_turn env (pair * 2 + 1) h st1 = Inr (ro, st2)" "ds_reviewer st2 = JObj d'" by blast
  with p r1 show ?thesis by (auto simp: debate_round_def)
qed

lemma debate_loop_returns:
  assumes "calls_answer env" "ds_reviewer st = JObj d"
  shows "\<exists>r. debate_loop env pp m pairs st = Inr r"
  using assms(2)
proof (induction pairs arbitrary: st d)
  case (Cons p ps)
  then show ?case using debate_round_returns [OF assms(1) Cons.prems, of pp m p]
    by (auto split: sum.splits)
qed simp

text \<open>
  C25. The producer/reviewer debate: when every call answers, the debate returns. However it goes, it takes at most \<open>max_turns\<close> turns,
  one history entry each, numbered from 0 and alternating with the producer first; it is accepted
  exactly when the last turn is a review that accepts, and stops at the first such review; it
  is declared exhausted only when all turns were used; a detected cycle ends with a
  candidate whose hash an earlier candidate has.
\<close>

theorem run_debate_bounded:
  "(calls_answer env \<longrightarrow> (\<exists>r. run_debate env prompt max_turns = Inr r)) \<and>
   (\<forall>r. run_debate env prompt max_turns = Inr r \<longrightarrow> debate_ok max_turns r)"
proof (intro conjI impI allI)
  assume "calls_answer env"
  then show "\<exists>r. run_debate env prompt max_turns = Inr r"
    unfolding run_debate_def by (rule debate_loop_returns) simp
next
  fix r
  assume "run_debate env prompt max_turns = Inr r"
  then show "debate_ok max_turns r" unfolding run_debate_def
    by (rule debate_loop_ok [rotated 2, where pair = 0]) (simp_all add: debate_inv_def regular_history_def)
qed

definition example_reply :: "json \<Rightarrow> loop_result" where
  "example_reply j = \<lparr>lr_payload = j, lr_trace = \<lparr>lt_iterations = 1, lt_errors_per_iter = [[]], lt_final_errors = []\<rparr>\<rparr>"

text \<open>A reviewer that never accepts and a producer that repeats its first candidate.\<close>

definition stubborn_env :: "(unit, unit) debate_env" where
  "stubborn_env =
     \<lparr>dv_producer = \<lambda>t p. Inr (example_reply (JObj [])),
      dv_reviewer = \<lambda>t p. Inr (example_reply (JObj [(''overall_verdict'', JStr ''revise'')])),
      dv_hash = \<lambda>j. ''abc'', dv_parse_review = \<lambda>j. None, dv_rebuttals = \<lambda>j. Inr None,
      dv_sample = \<lambda>j. Inr (), dv_flatten = \<lambda>b. [], dv_reviewer_prompt = \<lambda>j b n. ''review'',
      dv_revision_prompt = \<lambda>c rv p n. ''revise''\<rparr>"

theorem run_debate_bounded_witness:
  "\<exists>r. run_debate stubborn_env ''p'' 6 = Inr r \<and> debate_ok 6 r \<and> dr_outcome r = Cycle_detected"
proof -
  have "calls_answer stubborn_env" by (simp add: calls_answer_def stubborn_env_def example_reply_def)
  with run_debate_bounded [of stubborn_env "''p''" 6] obtain r where
    r: "run_debate stubborn_env ''p'' 6 = Inr r" "debate_ok 6 r" by blast
  moreover have "(case run_debate stubborn_env ''p'' 6 of Inr r \<Rightarrow> dr_outcome r = Cycle_detected | Inl e \<Rightarrow> False)"
    by code_simp
  ultimately show ?thesis by simp
qed

end
