(* ===== verification/Ontogen_Producer.thy ===== *)
theory Ontogen_Producer
  imports Ontogen_Validator
begin

text \<open>
  The validation tool of \<open>src/backend/ontogen/validator.py\<close> inside the tool loop of
  \<open>src/shared/llm/client.py\<close>: what the loop returns as a successful candidate is a coherent ontology.
\<close>

text \<open>\<open>schema.model_validate(candidate_payload)\<close>: the normaliser changes the payload in place before
  the fields are checked.\<close>

definition ontogen_schema :: "schema_fn \<Rightarrow> schema_check" where
  "ontogen_schema schema payload =
     (case normalize_ids payload of
        Inl e \<Rightarrow> Schema_raises e
      | Inr p \<Rightarrow> (case schema p of
          Inl (loc, locs) \<Rightarrow> Schema_errors (map (\<lambda>l. verr l ''SCHEMA'') (loc # locs)) p
        | Inr out \<Rightarrow> Schema_ok p))"

text \<open>\<open>build_ontogen_validate_tool\<close>: the tool has one argument, a dict \<open>payload\<close>. Arguments of another
  shape are a validation error of the tool call and a \<open>TypeError\<close> is recoverable as well.\<close>

definition ontogen_validate_tool :: "schema_fn \<Rightarrow> string set \<Rightarrow> tool_fn" where
  "ontogen_validate_tool schema in_scope args =
     (case map_of args ''payload'' of
        Some (JObj d) \<Rightarrow>
          (case validate_ontogen_output schema (JObj d) in_scope of
             Inl e \<Rightarrow> Tool_recoverable ''TypeError''
           | Inr errs \<Rightarrow> Tool_result (errs = []) errs)
      | _ \<Rightarrow> Tool_recoverable ''ValidationError'')"

definition ontogen_producer ::
  "schema_fn \<Rightarrow> string set \<Rightarrow> chat_model \<Rightarrow> nat \<Rightarrow> string \<Rightarrow> (ds_error, loop_result) result" where
  "ontogen_producer schema in_scope model max_iterations prompt =
     complete_with_tools model [(''ontogen_validate'', ontogen_validate_tool schema in_scope)] ''ontogen_validate''
       (ontogen_schema schema) [] max_iterations prompt"

section \<open>Normalising twice changes nothing\<close>

lemma slug_alnum_ascii: "slug_char c \<Longrightarrow> code c < 128 \<and> lower_char c = c"
  by (auto simp: slug_char_def is_lower_def is_digit_def lower_char_def is_upper_def)

lemma ascii_fold_slug: "list_all slug_char s \<Longrightarrow> ascii_fold s = s"
  by (induction s) (auto simp: ascii_fold_def dest: slug_alnum_ascii)

lemma py_lower_slug: "list_all slug_char s \<Longrightarrow> py_lower s = s"
  by (induction s) (auto simp: py_lower_def dest: slug_alnum_ascii)

lemma collapse_slug: "list_all slug_char s \<Longrightarrow> successively us_ok s \<Longrightarrow> collapse s = s"
proof (induction s)
  case (Cons c s)
  then have IH: "collapse s = s" by (cases s) auto
  show ?case
  proof (cases "slug_alnum c")
    case True
    with IH show ?thesis by simp
  next
    case False
    with Cons.prems have c: "c = CHR ''_''" by (auto simp: slug_char_def slug_alnum_def)
    have "dropWhile (\<lambda>d. \<not> slug_alnum d) s = s"
    proof (cases s)
      case (Cons d s')
      with Cons.prems c have "slug_alnum d" by (auto simp: slug_char_def slug_alnum_def)
      with Cons show ?thesis by simp
    qed simp
    with False IH c show ?thesis by simp
  qed
qed simp

lemma strip_us_slug: "s \<noteq> [] \<Longrightarrow> hd s \<noteq> CHR ''_'' \<Longrightarrow> last s \<noteq> CHR ''_'' \<Longrightarrow> strip_us s = s"
proof -
  assume a: "s \<noteq> []" "hd s \<noteq> CHR ''_''" "last s \<noteq> CHR ''_''"
  have 1: "dropWhile (\<lambda>c. c = CHR ''_'') s = s" using a by (cases s) auto
  have 2: "dropWhile (\<lambda>c. c = CHR ''_'') (rev s) = rev s" using a by (cases s rule: rev_cases) auto
  show "strip_us s = s" by (simp add: strip_us_def 1 2)
qed

lemma to_snake_slug: "slug_shape s \<Longrightarrow> to_snake s = s"
  by (simp add: to_snake_def slug_shape_def ascii_fold_slug py_lower_slug collapse_slug strip_us_slug)

lemma to_snake_idem [simp]: "to_snake (to_snake s) = to_snake s"
  using to_snake_shape by (rule to_snake_slug)

lemma to_snake_neq_Nil [simp]: "to_snake s \<noteq> []"
  using to_snake_shape [of s] by (simp add: slug_shape_def)

text \<open>A normalised list of items is kept, and remembers only identities.\<close>

abbreviation id_remap :: "remap \<Rightarrow> bool" where
  "id_remap r \<equiv> \<forall>kv \<in> set r. fst kv = snd kv"

lemma normalize_item_again:
  assumes "normalize_item j r = (j', r')" "id_remap r0"
  shows "\<exists>r1. normalize_item j' r0 = (j', r1) \<and> id_remap r1"
proof (cases j)
  case (JObj d)
  show ?thesis
  proof (cases "\<exists>s. dict_get d ''id'' = JStr s \<and> s \<noteq> []")
    case True
    then obtain s where s: "dict_get d ''id'' = JStr s" "s \<noteq> []" by blast
    then have key: "''id'' \<in> fst ` set d" by (simp add: dict_get_key)
    have "j' = JObj (update_key ''id'' (JStr (to_snake s)) d)" using s JObj assms(1) by simp
    then show ?thesis using key s assms(2) by simp
  next
    case False
    with JObj assms(1) have "j' = JObj d" by (auto split: json.splits if_splits)
    with False assms(2) show ?thesis by (auto split: json.splits)
  qed
qed (use assms in auto)

lemma normalize_items_again:
  assumes "normalize_items js r = (js', r')" "id_remap r0"
  shows "\<exists>r1. normalize_items js' r0 = (js', r1) \<and> id_remap r1"
  using assms
proof (induction js arbitrary: js' r r' r0)
  case (Cons j js)
  obtain j1 ra where a: "normalize_item j r = (j1, ra)" by fastforce
  obtain js1 rb where b: "normalize_items js ra = (js1, rb)" by fastforce
  from normalize_item_again [OF a Cons.prems(2)] obtain rc where c: "normalize_item j1 r0 = (j1, rc)" "id_remap rc" by blast
  from Cons.IH [OF b c(2)] c Cons.prems(1) a b show ?case by auto
qed simp


lemma normalize_rows_keeps:
  assumes "normalize_rows k v = Inr (v', r)"
  shows "map fst v' = map fst v" "k' \<noteq> k \<Longrightarrow> dict_get v' k' = dict_get v k'"
  using assms by (auto simp: normalize_rows_def Let_def split: if_splits json.splits prod.splits option.splits)

lemma normalize_rows_again:
  assumes "normalize_rows k v = Inr (v', r)" "dict_get w k = dict_get v' k" "distinct (map fst w)"
  shows "\<exists>r'. normalize_rows k w = Inr (w, r') \<and> id_remap r'"
proof (cases "\<exists>js. dict_get v k = JList js \<and> js \<noteq> []")
  case True
  then obtain js where js: "dict_get v k = JList js" "js \<noteq> []" by blast
  obtain js' r1 where n: "normalize_items js [] = (js', r1)" by fastforce
  have k: "k \<in> fst ` set v" using js by (simp add: dict_get_key)
  have v': "v' = update_key k (JList js') v" using assms(1) js n by (simp add: normalize_rows_def Let_def)
  with assms(2) k have w: "dict_get w k = JList js'" by simp
  obtain r2 where "normalize_items js' [] = (js', r2)" "id_remap r2"
    using normalize_items_again [OF n, of "[]"] by auto
  then show ?thesis using w update_key_same [OF assms(3) w]
    by (cases "js' = []") (simp_all add: normalize_rows_def)
next
  case False
  then have "v' = v" "r = []" using assms(1)
    by (auto simp: normalize_rows_def Let_def split: if_splits json.splits option.splits)
  with assms False show ?thesis
    by (auto simp: normalize_rows_def Let_def split: if_splits json.splits option.splits)
qed

lemma remap_field_keeps:
  assumes "remap_field r k d = Inr d'"
  shows "map fst d' = map fst d" "k' \<noteq> k \<Longrightarrow> dict_get d' k' = dict_get d k'"
    "\<exists>f. dict_get d' k = f \<and> (\<forall>js. f \<noteq> JList js) \<and> (\<forall>kvs. f \<noteq> JObj kvs)"
  using assms
  by (auto simp: remap_field_def dict_get_key split: json.splits option.splits)

lemma id_remap_lookup: "id_remap r \<Longrightarrow> map_of r s = Some t \<Longrightarrow> t = s"
  using map_of_SomeD [of r s t] by fastforce

lemma remap_field_again:
  assumes "id_remap r" "distinct (map fst d)" "\<forall>js. dict_get d k \<noteq> JList js" "\<forall>kvs. dict_get d k \<noteq> JObj kvs"
  shows "remap_field r k d = Inr d"
proof (cases "dict_get d k")
  case (JStr s)
  have "update_key k (JStr t) d = d" if "map_of r s = Some t" for t
    using id_remap_lookup [OF assms(1) that] update_key_same [OF assms(2) JStr] by simp
  with JStr show ?thesis by (simp add: remap_field_def split: option.split)
qed (use assms in \<open>simp_all add: remap_field_def\<close>)

lemma remap_triple_again:
  assumes "remap_triple nr er j = Inr j'" "id_remap r1" "id_remap r2" "wf_json j'"
  shows "remap_triple r1 r2 j' = Inr j'"
proof (cases j)
  case (JObj d)
  with assms(1) obtain d1 d2 d3 where d: "remap_field nr ''subject_node_id'' d = Inr d1"
    "remap_field er ''edge_id'' d1 = Inr d2" "remap_field nr ''object_node_id'' d2 = Inr d3" "j' = JObj d3"
    by (auto simp: result_simps)
  note keep = remap_field_keeps [OF d(1)] remap_field_keeps [OF d(2)] remap_field_keeps [OF d(3)]
  have dist: "distinct (map fst d3)" using assms(4) d(4) by simp
  have "remap_field r1 ''subject_node_id'' d3 = Inr d3" "remap_field r2 ''edge_id'' d3 = Inr d3"
    "remap_field r1 ''object_node_id'' d3 = Inr d3"
    using keep assms(2,3) by (auto intro!: remap_field_again [OF _ dist])
  with d(4) show ?thesis by simp
qed (use assms in auto)

lemma remap_triples_keeps:
  assumes "remap_triples nr er v = Inr v'"
  shows "map fst v' = map fst v" "k \<noteq> ''triples'' \<Longrightarrow> dict_get v' k = dict_get v k"
  using assms
  by (auto simp: remap_triples_def Let_def result_simps split: if_splits json.splits option.splits)

lemma remap_triples_again:
  assumes "remap_triples nr er v = Inr v'" "id_remap r1" "id_remap r2" "wf_json (JObj v')"
  shows "remap_triples r1 r2 v' = Inr v'"
proof (cases "\<exists>js. dict_get v ''triples'' = JList js \<and> js \<noteq> []")
  case True
  then obtain js where js: "dict_get v ''triples'' = JList js" "js \<noteq> []" by blast
  then obtain js' where js': "rmapM (remap_triple nr er) js = Inr js'" "v' = update_key ''triples'' (JList js') v"
    using assms(1) by (auto simp: remap_triples_def Let_def result_simps)
  have k: "''triples'' \<in> fst ` set v" using js by (simp add: dict_get_key)
  with js' have g: "dict_get v' ''triples'' = JList js'" by simp
  then have "(''triples'', JList js') \<in> set v'" by (auto simp: dict_get_def split: option.splits dest: map_of_SomeD)
  then have wf: "\<forall>j \<in> set js'. wf_json j" using assms(4) by fastforce
  have "list_all2 (\<lambda>j j'. remap_triple nr er j = Inr j') js js'" using js'(1) by (rule rmapM_InrD)
  then have "\<forall>j' \<in> set js'. remap_triple r1 r2 j' = Inr j'"
    using wf assms(2,3) by (fastforce simp: list_all2_conv_all_nth in_set_conv_nth intro: remap_triple_again)
  then have "rmapM (remap_triple r1 r2) js' = Inr js'" by (induction js') auto
  moreover have "update_key ''triples'' (JList js') v' = v'" using assms(4) g by (simp add: update_key_same)
  ultimately show ?thesis using g by (simp add: remap_triples_def Let_def)
next
  case False
  then have "v' = v" using assms(1)
    by (auto simp: remap_triples_def Let_def result_simps split: if_splits json.splits option.splits)
  with assms False show ?thesis
    by (auto simp: remap_triples_def Let_def split: if_splits json.splits option.splits)
qed

lemma normalize_ids_obj:
  assumes "normalize_ids (JObj v) = Inr p"
  shows "\<exists>v'. p = JObj v' \<and> map fst v' = map fst v"
  using assms
  by (auto simp: result_simps dest!: normalize_rows_keeps(1) remap_triples_keeps(1))

lemma normalize_ids_idem:
  assumes "normalize_ids j = Inr p" "wf_json p"
  shows "normalize_ids p = Inr p"
proof (cases j)
  case (JObj v)
  with assms(1) obtain v1 nr v2 er v3 where
    s: "normalize_rows ''nodes'' v = Inr (v1, nr)" "normalize_rows ''edges'' v1 = Inr (v2, er)"
       "remap_triples nr er v2 = Inr v3" "p = JObj v3"
    by (auto simp: result_simps)
  have dist: "distinct (map fst v3)" using assms(2) s(4) by simp
  have "dict_get v3 ''nodes'' = dict_get v1 ''nodes''" "dict_get v3 ''edges'' = dict_get v2 ''edges''"
    using remap_triples_keeps(2) [OF s(3)] normalize_rows_keeps(2) [OF s(2)] by auto
  then obtain r1 r2 where "normalize_rows ''nodes'' v3 = Inr (v3, r1)" "id_remap r1"
    "normalize_rows ''edges'' v3 = Inr (v3, r2)" "id_remap r2"
    using normalize_rows_again [OF s(1) _ dist] normalize_rows_again [OF s(2) _ dist] by metis
  moreover from this have "remap_triples r1 r2 v3 = Inr v3" using s(4) assms(2)
    by (intro remap_triples_again [OF s(3)]) simp_all
  ultimately show ?thesis by (simp add: s(4))
qed (use assms in auto)

section \<open>A successful candidate is coherent\<close>

lemma ontogen_schema_okD:
  "ontogen_schema schema j = Schema_ok p \<Longrightarrow> normalize_ids j = Inr p"
  by (auto simp: ontogen_schema_def split: sum.splits prod.splits)

definition ontogen_accepted :: "schema_fn \<Rightarrow> string set \<Rightarrow> json \<Rightarrow> bool" where
  "ontogen_accepted schema in_scope p \<longleftrightarrow>
     validate_ontogen_output schema p in_scope = Inr [] \<and> (wf_json p \<longrightarrow> normalize_ids p = Inr p)"

lemma tool_payload:
  assumes "normalize_ids (candidate_of args) = Inr p"
    and "ontogen_validate_tool schema S (args_with args p) = Tool_result ok errs"
  shows "validate_ontogen_output schema p S = Inr errs \<and> (ok \<longleftrightarrow> errs = [])"
proof (cases "''payload'' \<in> fst ` set args")
  case True
  then obtain v where v: "map_of (update_key ''payload'' p args) ''payload'' = Some p"
    by (simp add: map_of_update_key)
  with True assms(2) show ?thesis
    by (auto simp: ontogen_validate_tool_def args_with_def split: json.splits sum.splits)
next
  case False
  then have "map_of args ''payload'' = None" by (simp add: map_of_eq_None_iff)
  with assms(1) have "normalize_ids (JObj args) = Inr p" by (simp add: candidate_of_def dict_get_or_def)
  then obtain v' where v': "p = JObj v'" "map fst v' = map fst args" using normalize_ids_obj by blast
  then have "''payload'' \<notin> fst ` set v'" using False by (metis list.set_map)
  then have "map_of v' ''payload'' = None" by (simp add: map_of_eq_None_iff)
  with assms(2) False v' show ?thesis by (simp add: ontogen_validate_tool_def args_with_def)
qed

interpretation ontogen_tool: validating_tool "ontogen_schema schema" "ontogen_validate_tool schema S" "ontogen_accepted schema S"
  for schema S
proof (unfold_locales, goal_cases)
  case (1 args p errs)
  then show ?case
    using tool_payload [OF ontogen_schema_okD [OF 1(1)] 1(2)] normalize_ids_idem [OF ontogen_schema_okD [OF 1(1)]]
    by (simp add: ontogen_accepted_def)
next
  case (2 args p errs)
  then show ?case using tool_payload [OF ontogen_schema_okD [OF 2(1)] 2(2)] by simp
next
  case (3 j errs p)
  then show ?case by (auto simp: ontogen_schema_def split: sum.splits prod.splits)
qed

lemma validate_noneD:
  assumes "validate_ontogen_output schema p S = Inr []"
  shows "\<exists>out. model_validate schema p = Inr (Inr out) \<and> coherent_output S out"
proof (cases "model_validate schema p")
  case (Inr x)
  with assms semantic_errors_empty [of _ S] show ?thesis
    by (cases x) (auto simp: validate_ontogen_output_def)
qed (use assms in \<open>simp add: validate_ontogen_output_def\<close>)

text \<open>
  C24. The producer loop: it calls the model at most \<open>max_iterations\<close> times and records one error list for
  each call. When it stops early, or ends without a remaining error, the payload it returns parses to an output that
  keeps every rule of the validator, and parsing it again gives the same output: the
  identifiers in it are already normalised. A loop that ran out leaves its errors in the trace.
\<close>

theorem ontogen_producer_sound:
  assumes "ontogen_producer schema S model n prompt = Inr r" "0 < n"
  shows "lt_iterations (lr_trace r) \<le> n \<and> length (lt_errors_per_iter (lr_trace r)) = lt_iterations (lr_trace r) \<and>
    (lt_iterations (lr_trace r) < n \<or> lt_final_errors (lr_trace r) = [] \<longrightarrow>
      (\<exists>out. model_validate schema (lr_payload r) = Inr (Inr out) \<and> coherent_output S out) \<and>
      (wf_json (lr_payload r) \<longrightarrow> normalize_ids (lr_payload r) = Inr (lr_payload r)))"
  using ontogen_tool.complete_with_tools_trace [of "[(''ontogen_validate'', ontogen_validate_tool schema S)]" "''ontogen_validate''"
      schema S model "[]" n prompt r] assms validate_noneD [of schema "lr_payload r" S]
  by (auto simp: ontogen_producer_def ontogen_accepted_def)

text \<open>A model that first answers in prose and then submits the example payload.\<close>

definition example_chat :: chat_model where
  "example_chat i msgs =
     (if i = 1 then Reply ''thinking'' []
      else Reply [] [\<lparr>tc_name = Some ''ontogen_validate'',
        tc_args = [(''payload'', JObj [(''nodes'', JList [JObj [(''id'', JStr ''The Node''), (''name'', JStr ''x'')]])])],
        tc_id = ''c1''\<rparr>])"

definition example_schema :: schema_fn where
  "example_schema j = Inr \<lparr>lo_nodes = [\<lparr>ln_id = Some ''the_node'', ln_name = ''x'', ln_description = [], ln_confidence = 1,
      ln_dataset_urns = [''urn:a''], ln_rebuttal = None\<rparr>], lo_edges = [], lo_triples = []\<rparr>"

theorem ontogen_producer_sound_witness:
  "\<exists>r out. ontogen_producer example_schema {''urn:a''} example_chat 3 ''p'' = Inr r \<and> lt_iterations (lr_trace r) = 2 \<and>
     model_validate example_schema (lr_payload r) = Inr (Inr out) \<and> coherent_output {''urn:a''} out"
proof -
  let ?p = "ontogen_producer example_schema {''urn:a''} example_chat 3 ''p''"
  have "\<exists>r. ?p = Inr r \<and> lt_iterations (lr_trace r) = 2"
  proof -
    have "(case ?p of Inr r \<Rightarrow> lt_iterations (lr_trace r) = 2 | Inl e \<Rightarrow> False)" by code_simp
    then show ?thesis by (cases ?p) auto
  qed
  then obtain r where r: "?p = Inr r" "lt_iterations (lr_trace r) = 2" by blast
  with ontogen_producer_sound [OF r(1)] show ?thesis by auto
qed

end
