(* ===== verification/Ontogen_Debate.thy ===== *)
theory Ontogen_Debate
  imports Debate Ontogen_Producer
begin

text \<open>
  What \<open>src/backend/ontogen/debate.py\<close> supplies to the debate loop: the rebuttals a candidate
  carries and the anchors sampled from the approved ontology for the reviewer. Embedding and
  vector search are one parameter per kind, a function from the query text to the hits,
  or to \<open>None\<close> when either raises, which the code logs and skips.
\<close>

section \<open>Reading an untyped candidate\<close>

text \<open>\<open>for item in payload.get(key, []) or []\<close>.\<close>

definition rows_of :: "json \<Rightarrow> string \<Rightarrow> (ds_error, json list) result" where
  "rows_of payload key =
     (case payload of
        JObj d \<Rightarrow>
          (let v = dict_get d key in
           if \<not> py_truthy v then Inr []
           else case py_iter v of Some js \<Rightarrow> Inr js | None \<Rightarrow> Inl (UncaughtError ''TypeError''))
      | _ \<Rightarrow> Inl (UncaughtError ''AttributeError''))"

text \<open>\<open>(item.get(key) or "").strip()\<close>.\<close>

definition text_of :: "json \<Rightarrow> string \<Rightarrow> (ds_error, string) result" where
  "text_of item key =
     (case item of
        JObj d \<Rightarrow>
          (let v = dict_get d key in
           if \<not> py_truthy v then Inr []
           else case v of JStr s \<Rightarrow> Inr (py_strip s) | _ \<Rightarrow> Inl (UncaughtError ''AttributeError''))
      | _ \<Rightarrow> Inl (UncaughtError ''AttributeError''))"

definition rebuttal_of :: "json \<Rightarrow> string list" where
  "rebuttal_of item =
     (case item of
        JObj d \<Rightarrow> (case dict_get d ''producer_rebuttal'' of
                     JStr s \<Rightarrow> if py_strip s \<noteq> [] then [py_strip s] else []
                   | _ \<Rightarrow> [])
      | _ \<Rightarrow> [])"

definition extract_rebuttals :: "json \<Rightarrow> (ds_error, string list option) result" where
  "extract_rebuttals payload =
     rmap (\<lambda>rows. let rebuttals = concat (map rebuttal_of (concat rows))
        in if rebuttals = [] then None else Some rebuttals)
       (rmapM (rows_of payload) [''nodes'', ''edges'', ''triples''])"

section \<open>Anchor sampling\<close>

record vector_hit =
  vh_id :: string
  vh_score :: rat
  vh_name :: "string option"

datatype anchor_kind = Node_anchor | Edge_anchor | Triple_anchor

record rag_anchor =
  ra_kind :: anchor_kind
  ra_approved_id :: string
  ra_similarity :: rat
  ra_name :: "string option"
  ra_label :: "string option"
  ra_description :: "string option"
  ra_semantics :: "string option"

type_synonym search_fn = "string \<Rightarrow> vector_hit list option"

definition plain_anchor :: "anchor_kind \<Rightarrow> vector_hit \<Rightarrow> rag_anchor" where
  "plain_anchor kind hit =
     \<lparr>ra_kind = kind, ra_approved_id = vh_id hit, ra_similarity = vh_score hit, ra_name = None, ra_label = None,
      ra_description = None, ra_semantics = None\<rparr>"

definition or_none :: "string \<Rightarrow> string option" where
  "or_none s = (if s = [] then None else Some s)"

text \<open>A proposed row as a query: the text to embed and the anchor a hit becomes; \<open>None\<close> for a
  row that is skipped.\<close>

type_synonym query = "(string \<times> (vector_hit \<Rightarrow> rag_anchor)) option"

definition node_query :: "json \<Rightarrow> (ds_error, query) result" where
  "node_query node =
     rbind (text_of node ''name'') (\<lambda>name. rmap (\<lambda>description.
       if name = [] then None
       else Some (name @ '' '' @ description,
         \<lambda>hit. (plain_anchor Node_anchor hit)\<lparr>ra_name := Option.bind (vh_name hit) or_none\<rparr>))
       (text_of node ''description''))"

definition edge_query :: "json \<Rightarrow> (ds_error, query) result" where
  "edge_query edge =
     rbind (text_of edge ''label'') (\<lambda>label. rmap (\<lambda>sem.
       if label = [] then None
       else Some (label @ '' '' @ sem,
         \<lambda>hit. (plain_anchor Edge_anchor hit)\<lparr>ra_label := Some label, ra_semantics := or_none sem\<rparr>))
       (text_of edge ''semantics''))"

text \<open>\<open>{n["id"]: n for n in rows if n.get("id")}\<close> and a lookup in it with \<open>{}\<close> as default; the
  last row with an id wins, and a list or dict is not hashable.\<close>

definition hashable :: "json \<Rightarrow> bool" where
  "hashable j \<longleftrightarrow> (case j of JList _ \<Rightarrow> False | JObj _ \<Rightarrow> False | _ \<Rightarrow> True)"

fun item_id :: "json \<Rightarrow> json" where
  "item_id (JObj d) = dict_get d ''id''"
| "item_id _ = JNull"

definition index_rows :: "json list \<Rightarrow> (ds_error, (json \<times> json) list) result" where
  "index_rows rows =
     rmap (\<lambda>kvs. rev (concat kvs)) (rmapM (\<lambda>row. case row of
         JObj d \<Rightarrow> (if \<not> py_truthy (item_id row) then Inr []
                    else if hashable (item_id row) then Inr [(item_id row, row)] else Inl (UncaughtError ''TypeError''))
       | _ \<Rightarrow> Inl (UncaughtError ''AttributeError'')) rows)"

definition lookup_row :: "(json \<times> json) list \<Rightarrow> json \<Rightarrow> string \<Rightarrow> (ds_error, json) result" where
  "lookup_row index triple key =
     (case triple of
        JObj d \<Rightarrow>
          (let k = dict_get_or d key (JStr []) in
           if hashable k then Inr (case map_of index k of Some row \<Rightarrow> row | None \<Rightarrow> JObj [])
           else Inl (UncaughtError ''TypeError''))
      | _ \<Rightarrow> Inl (UncaughtError ''AttributeError''))"

definition triple_query :: "(json \<times> json) list \<Rightarrow> (json \<times> json) list \<Rightarrow> json \<Rightarrow> (ds_error, query) result" where
  "triple_query node_by_id edge_by_id triple =
     rbind (lookup_row node_by_id triple ''subject_node_id'') (\<lambda>subj.
     rbind (lookup_row edge_by_id triple ''edge_id'') (\<lambda>edge.
     rbind (lookup_row node_by_id triple ''object_node_id'') (\<lambda>obj.
       rmap (\<lambda>parts. let composite = py_strip (py_join '' '' parts) in
         if composite = [] then None
         else Some (composite, \<lambda>hit. (plain_anchor Triple_anchor hit)\<lparr>ra_description := Some (take 200 composite)\<rparr>))
       (rmapM (\<lambda>(item, key). text_of item key)
         [(subj, ''name''), (subj, ''description''), (edge, ''label''), (edge, ''semantics''), (obj, ''name''), (obj, ''description'')]))))"

text \<open>The anchor map of a kind: the first hit with an id is kept.\<close>

definition add_anchor :: "rag_anchor list \<Rightarrow> rag_anchor \<Rightarrow> rag_anchor list" where
  "add_anchor found a = (if ra_approved_id a \<in> ra_approved_id ` set found then found else found @ [a])"

definition add_query :: "search_fn \<Rightarrow> rag_anchor list \<Rightarrow> query \<Rightarrow> rag_anchor list" where
  "add_query search found q =
     (case q of
        None \<Rightarrow> found
      | Some (txt, mk) \<Rightarrow> (case search txt of None \<Rightarrow> found | Some hits \<Rightarrow> foldl add_anchor found (map mk hits)))"

definition kind_anchors :: "search_fn \<Rightarrow> nat \<Rightarrow> query list \<Rightarrow> rag_anchor list" where
  "kind_anchors search rag_k qs = take (rag_k * 2) (foldl (add_query search) [] qs)"

record anchors_by_kind =
  ak_node :: "rag_anchor list"
  ak_edge :: "rag_anchor list"
  ak_triple :: "rag_anchor list"

definition sample_rag_anchors ::
  "search_fn \<Rightarrow> search_fn \<Rightarrow> search_fn \<Rightarrow> nat \<Rightarrow> json \<Rightarrow> (ds_error, anchors_by_kind) result" where
  "sample_rag_anchors search_node search_edge search_triple rag_k payload =
     rbind (rows_of payload ''nodes'') (\<lambda>nodes.
     rbind (rmapM node_query nodes) (\<lambda>node_qs.
     rbind (rows_of payload ''edges'') (\<lambda>edges.
     rbind (rmapM edge_query edges) (\<lambda>edge_qs.
     rbind (index_rows nodes) (\<lambda>node_by_id.
     rbind (index_rows edges) (\<lambda>edge_by_id.
     rbind (rows_of payload ''triples'') (\<lambda>triples.
     rmap (\<lambda>triple_qs.
         \<lparr>ak_node = kind_anchors search_node rag_k node_qs, ak_edge = kind_anchors search_edge rag_k edge_qs,
          ak_triple = kind_anchors search_triple rag_k triple_qs\<rparr>)
       (rmapM (triple_query node_by_id edge_by_id) triples))))))))"

definition flatten_anchors :: "anchors_by_kind \<Rightarrow> (anchor_kind \<times> string \<times> rat) list" where
  "flatten_anchors by_kind =
     map (\<lambda>a. (Node_anchor, ra_approved_id a, ra_similarity a)) (ak_node by_kind) @
     map (\<lambda>a. (Edge_anchor, ra_approved_id a, ra_similarity a)) (ak_edge by_kind) @
     map (\<lambda>a. (Triple_anchor, ra_approved_id a, ra_similarity a)) (ak_triple by_kind)"

section \<open>Bounds of the sampled context\<close>

definition from_hit :: "search_fn \<Rightarrow> rag_anchor \<Rightarrow> bool" where
  "from_hit search a \<longleftrightarrow> (\<exists>txt hits h. search txt = Some hits \<and> h \<in> set hits \<and>
     ra_approved_id a = vh_id h \<and> ra_similarity a = vh_score h)"

definition good_anchors :: "anchor_kind \<Rightarrow> search_fn \<Rightarrow> nat \<Rightarrow> rag_anchor list \<Rightarrow> bool" where
  "good_anchors kind search rag_k as \<longleftrightarrow>
     length as \<le> 2 * rag_k \<and> distinct (map ra_approved_id as) \<and>
     (\<forall>a \<in> set as. ra_kind a = kind \<and> from_hit search a)"

definition makes :: "anchor_kind \<Rightarrow> query \<Rightarrow> bool" where
  "makes kind q \<longleftrightarrow> (\<forall>txt mk h. q = Some (txt, mk) \<longrightarrow>
     ra_kind (mk h) = kind \<and> ra_approved_id (mk h) = vh_id h \<and> ra_similarity (mk h) = vh_score h)"

lemma distinct_add_anchors:
  "distinct (map ra_approved_id found) \<Longrightarrow> distinct (map ra_approved_id (foldl add_anchor found as))"
  by (induction as arbitrary: found) (auto simp: add_anchor_def)

lemma set_add_anchors: "set (foldl add_anchor found as) \<subseteq> set found \<union> set as"
proof (induction as arbitrary: found)
  case (Cons a as)
  from Cons.IH [of "add_anchor found a"] show ?case by (auto simp: add_anchor_def split: if_splits)
qed simp

lemma add_queries_good:
  assumes "\<forall>q \<in> set qs. makes kind q"
    and "distinct (map ra_approved_id found)"
    and "\<forall>a \<in> set found. ra_kind a = kind \<and> from_hit search a"
  shows "distinct (map ra_approved_id (foldl (add_query search) found qs)) \<and>
    (\<forall>a \<in> set (foldl (add_query search) found qs). ra_kind a = kind \<and> from_hit search a)"
  using assms
proof (induction qs arbitrary: found)
  case (Cons q qs)
  let ?found = "add_query search found q"
  have "distinct (map ra_approved_id ?found)"
    using Cons.prems(2) by (auto simp: add_query_def distinct_add_anchors split: option.split)
  moreover have "\<forall>a \<in> set ?found. ra_kind a = kind \<and> from_hit search a"
  proof
    fix a assume a: "a \<in> set ?found"
    show "ra_kind a = kind \<and> from_hit search a"
    proof (cases "a \<in> set found")
      case False
      then obtain tx mk hits h where h: "q = Some (tx, mk)" "search tx = Some hits" "h \<in> set hits" "a = mk h"
        using a set_add_anchors by (fastforce simp: add_query_def split: option.splits)
      with Cons.prems(1) have "ra_kind a = kind" "ra_approved_id a = vh_id h" "ra_similarity a = vh_score h"
        by (auto simp: makes_def)
      with h show ?thesis unfolding from_hit_def by blast
    qed (use Cons.prems(3) in blast)
  qed
  moreover have "\<forall>q \<in> set qs. makes kind q" using Cons.prems(1) by simp
  ultimately show ?case using Cons.IH [of ?found] by simp
qed simp

lemma kind_anchors_good:
  assumes "\<forall>q \<in> set qs. makes kind q"
  shows "good_anchors kind search rag_k (kind_anchors search rag_k qs)"
  using add_queries_good [OF assms, of "[]" search]
  by (auto simp: good_anchors_def kind_anchors_def take_map [symmetric] dest!: in_set_takeD)

lemma rmapM_all:
  assumes "rmapM f xs = Inr ys" and f: "\<And>x y. f x = Inr y \<Longrightarrow> P y"
  shows "\<forall>y \<in> set ys. P y"
proof -
  have "list_all2 (\<lambda>x y. f x = Inr y) xs ys" using assms(1) by (rule rmapM_InrD)
  then show ?thesis by (induction rule: list_all2_induct) (auto intro: f)
qed

lemma node_query_makes: "node_query j = Inr q \<Longrightarrow> makes Node_anchor q"
  by (auto simp: node_query_def result_simps makes_def plain_anchor_def split: if_splits)

lemma edge_query_makes: "edge_query j = Inr q \<Longrightarrow> makes Edge_anchor q"
  by (auto simp: edge_query_def result_simps makes_def plain_anchor_def split: if_splits)

lemma triple_query_makes: "triple_query ns es j = Inr q \<Longrightarrow> makes Triple_anchor q"
  by (auto simp: triple_query_def result_simps makes_def plain_anchor_def Let_def split: if_splits)

text \<open>
  C26. The context a reviewer is given: for each kind at most \<open>2 * rag_k\<close> anchors with distinct identifiers, each
  with the identifier and the similarity of a hit of that kind's search, and the flattened
  list in the transcript has at most \<open>6 * rag_k\<close> entries.
\<close>

theorem sample_rag_anchors_bounded:
  assumes "sample_rag_anchors sn se st rag_k payload = Inr by_kind"
  shows "good_anchors Node_anchor sn rag_k (ak_node by_kind) \<and> good_anchors Edge_anchor se rag_k (ak_edge by_kind) \<and>
    good_anchors Triple_anchor st rag_k (ak_triple by_kind) \<and> length (flatten_anchors by_kind) \<le> 6 * rag_k"
proof -
  obtain nodes nq edges eq ni ei triples tq where
    q: "rmapM node_query nodes = Inr nq" "rmapM edge_query edges = Inr eq" "rmapM (triple_query ni ei) triples = Inr tq"
    and b: "by_kind = \<lparr>ak_node = kind_anchors sn rag_k nq, ak_edge = kind_anchors se rag_k eq, ak_triple = kind_anchors st rag_k tq\<rparr>"
    using assms by (auto simp: sample_rag_anchors_def result_simps)
  have "good_anchors Node_anchor sn rag_k (ak_node by_kind)" "good_anchors Edge_anchor se rag_k (ak_edge by_kind)"
    "good_anchors Triple_anchor st rag_k (ak_triple by_kind)"
    unfolding b
    using kind_anchors_good [OF rmapM_all [OF q(1) node_query_makes]] kind_anchors_good [OF rmapM_all [OF q(2) edge_query_makes]]
      kind_anchors_good [OF rmapM_all [OF q(3) triple_query_makes]] by simp_all
  then show ?thesis by (auto simp: flatten_anchors_def good_anchors_def)
qed

definition example_search :: search_fn where
  "example_search tx = Some [\<lparr>vh_id = ''customer'', vh_score = 9/10, vh_name = None\<rparr>, \<lparr>vh_id = ''order'', vh_score = 1/2, vh_name = None\<rparr>,
     \<lparr>vh_id = ''customer'', vh_score = 1/3, vh_name = None\<rparr>]"

theorem sample_rag_anchors_bounded_witness:
  "\<exists>by_kind. sample_rag_anchors example_search example_search example_search 1
      (JObj [(''nodes'', JList [JObj [(''name'', JStr ''Buyer'')]])]) = Inr by_kind \<and>
     map ra_approved_id (ak_node by_kind) = [''customer'', ''order''] \<and> length (flatten_anchors by_kind) \<le> 6"
proof -
  let ?s = "sample_rag_anchors example_search example_search example_search 1 (JObj [(''nodes'', JList [JObj [(''name'', JStr ''Buyer'')]])])"
  have ok: "(case ?s of Inr b \<Rightarrow> map ra_approved_id (ak_node b) = [''customer'', ''order''] | Inl e \<Rightarrow> False)" by code_simp
  then obtain b where b: "?s = Inr b" by (cases ?s) auto
  with ok sample_rag_anchors_bounded [OF b] show ?thesis by simp
qed

end
