(* ===== verification/Ontogen_Run.thy ===== *)
theory Ontogen_Run
  imports Ontogen_Store Ontogen_Debate Run_Lock
begin

text \<open>
  \<open>src/backend/ontogen/service.py\<close>, the inference run: the lock, scope and evidence, the debate, the
  resolution of proposed rows against the rows in the database, and persistence in three transactions
  (nodes with their dataset maps, edges, triples) followed by the best-effort refresh of the embeddings.
  Evidence gathering, the prompt text, the debate, the choice of the nearest embedding and whether an embedding call
  succeeds are parameters.
\<close>

definition ONTOLOGY_CONFIDENCE_THRESHOLD :: rat where
  "ONTOLOGY_CONFIDENCE_THRESHOLD = 7/10"

definition status_for_outcome :: "rat \<Rightarrow> debate_outcome \<Rightarrow> string" where
  "status_for_outcome score outcome =
     (if outcome = Accepted \<and> score \<ge> ONTOLOGY_CONFIDENCE_THRESHOLD then ''llm_approved'' else ''llm_pending'')"

section \<open>Rows a run may reuse\<close>

definition ELIGIBLE :: "string list" where
  "ELIGIBLE = [''approved'', ''llm_approved'', ''llm_pending'']"

definition eligible_nodes :: "ontogen_db \<Rightarrow> ontogen_node list" where
  "eligible_nodes db = filter (\<lambda>n. on_status n \<in> set ELIGIBLE) (ob_nodes db)"

definition eligible_edges :: "ontogen_db \<Rightarrow> ontogen_edge list" where
  "eligible_edges db = filter (\<lambda>e. oe_status e \<in> set ELIGIBLE) (ob_edges db)"

definition eligible_triples :: "ontogen_db \<Rightarrow> ontogen_triple list" where
  "eligible_triples db = filter (\<lambda>t. ot_status t \<in> set ELIGIBLE) (ob_triples db)"

text \<open>The dict of the pending rows updated with the approved ones; within each the last row wins.\<close>

definition name_index :: "('r \<Rightarrow> string) \<Rightarrow> ('r \<Rightarrow> string) \<Rightarrow> ('r \<Rightarrow> string) \<Rightarrow> 'r list \<Rightarrow> string \<rightharpoonup> string" where
  "name_index nm idf st rows =
     map_of (rev (map (\<lambda>r. (nm r, idf r)) (filter (\<lambda>r. st r = ''llm_pending'') rows)))
       ++ map_of (rev (map (\<lambda>r. (nm r, idf r)) (filter (\<lambda>r. st r \<in> {''approved'', ''llm_approved''}) rows)))"

text \<open>The nearest approved node by embedding: \<open>pick\<close> chooses among the keys whose stored status is approved.\<close>

type_synonym pick_fn = "string \<Rightarrow> string list \<Rightarrow> string option"

definition search_nodes :: "pick_fn \<Rightarrow> ontogen_db \<Rightarrow> string \<Rightarrow> string option" where
  "search_nodes pick db query =
     pick query (map fst (filter (\<lambda>(i, st). st \<in> {''approved'', ''llm_approved''}) (ob_node_emb db)))"

section \<open>Resolving proposals\<close>

record prepared_node =
  pn_id :: string
  pn_name :: string
  pn_description :: string
  pn_confidence :: rat
  pn_status :: string
  pn_reuse :: bool
  pn_urns :: "string list"

record prepared_edge =
  pe_id :: string
  pe_label :: string
  pe_semantics :: "string option"
  pe_confidence :: rat
  pe_status :: string

record prepared_triple =
  pt_id :: string
  pt_subject :: string
  pt_edge :: string
  pt_object :: string
  pt_confidence :: rat
  pt_status :: string

text \<open>\<open>make_snake_id\<close> on finitely many identifiers in use always returns.\<close>

definition fresh_id :: "string \<Rightarrow> string list \<Rightarrow> string" where
  "fresh_id name known = (case make_snake_id name (set known) of Some i \<Rightarrow> i | None \<Rightarrow> [])"

text \<open>The state of the loops: identifiers known, the remapping of hints and what is to be written.\<close>

type_synonym 'p prep = "string list \<times> remap \<times> 'p list"

definition prepare_node ::
  "(string \<rightharpoonup> string) \<Rightarrow> (string \<Rightarrow> string option) \<Rightarrow> debate_outcome \<Rightarrow> prepared_node prep \<Rightarrow> llm_node \<Rightarrow> prepared_node prep" where
  "prepare_node by_name search outcome = (\<lambda>(known, remap, out) p.
     let name = py_strip (ln_name p) in
     if name = [] then (known, remap, out)
     else
       let reused = (case by_name name of Some i \<Rightarrow> Some i | None \<Rightarrow> search (name @ '' '' @ ln_description p));
           fresh = fresh_id name known;
           taken = (reused \<noteq> None \<and> reused \<noteq> Some []);
           final = (if taken then the reused else fresh);
           hint = (case ln_id p of Some i \<Rightarrow> if i \<noteq> [] then i else name | None \<Rightarrow> name)
       in (if taken then known else final # known, (final, final) # (hint, final) # remap,
           out @ [\<lparr>pn_id = final, pn_name = name, pn_description = ln_description p, pn_confidence = ln_confidence p,
             pn_status = status_for_outcome (ln_confidence p) outcome, pn_reuse = (reused \<noteq> None), pn_urns = ln_dataset_urns p\<rparr>]))"

definition prepare_edge ::
  "(string \<rightharpoonup> string) \<Rightarrow> debate_outcome \<Rightarrow> prepared_edge prep \<Rightarrow> llm_edge \<Rightarrow> prepared_edge prep" where
  "prepare_edge by_label outcome = (\<lambda>(known, remap, out) p.
     let label = py_strip (le_label p) in
     if label = [] then (known, remap, out)
     else
       let fresh = fresh_id label known;
           final = (case by_label label of Some i \<Rightarrow> i | None \<Rightarrow> fresh);
           hint = (case le_id p of Some i \<Rightarrow> if i \<noteq> [] then i else label | None \<Rightarrow> label)
       in (if by_label label = None then final # known else known, (final, final) # (hint, final) # remap,
           out @ [\<lparr>pe_id = final, pe_label = label, pe_semantics = or_none (le_semantics p), pe_confidence = le_confidence p,
             pe_status = status_for_outcome (le_confidence p) outcome\<rparr>]))"

definition remapped :: "remap \<Rightarrow> string \<Rightarrow> string" where
  "remapped r k = (case map_of r k of Some v \<Rightarrow> v | None \<Rightarrow> k)"

definition composite_id :: "string \<Rightarrow> string \<Rightarrow> string \<Rightarrow> string" where
  "composite_id subj edge obj = subj @ ''__'' @ edge @ ''__'' @ obj"

definition prepare_triple ::
  "remap \<Rightarrow> remap \<Rightarrow> string list \<Rightarrow> debate_outcome \<Rightarrow> llm_triple \<Rightarrow> prepared_triple option" where
  "prepare_triple nodes edges existing outcome p =
     (let subj = remapped nodes (lt_subject p); edge = remapped edges (lt_edge p); obj = remapped nodes (lt_object p);
          tid = composite_id subj edge obj in
      if \<not> (assert_node_id subj \<and> assert_edge_id edge \<and> assert_node_id obj) then None
      else if tid \<in> set existing then None
      else Some \<lparr>pt_id = tid, pt_subject = subj, pt_edge = edge, pt_object = obj, pt_confidence = lt_confidence p,
             pt_status = status_for_outcome (lt_confidence p) outcome\<rparr>)"

record prepared =
  pr_nodes :: "prepared_node list"
  pr_edges :: "prepared_edge list"
  pr_triples :: "prepared_triple list"

definition prepare :: "pick_fn \<Rightarrow> ontogen_db \<Rightarrow> debate_outcome \<Rightarrow> llm_output \<Rightarrow> prepared" where
  "prepare pick db outcome output =
     (let nodes = eligible_nodes db; edges = eligible_edges db;
          (_, node_remap, pns) = foldl (prepare_node (name_index on_name on_id on_status nodes) (search_nodes pick db) outcome)
            (map on_id nodes, [], []) (lo_nodes output);
          (_, edge_remap, pes) = foldl (prepare_edge (name_index oe_label oe_id oe_status edges) outcome)
            (map oe_id edges, [], []) (lo_edges output)
      in \<lparr>pr_nodes = pns, pr_edges = pes,
          pr_triples = List.map_filter (prepare_triple node_remap edge_remap (map ot_id (eligible_triples db)) outcome) (lo_triples output)\<rparr>)"

section \<open>Statements and their constraints\<close>

definition insert_node :: "ontogen_node \<Rightarrow> ontogen_db \<Rightarrow> (ds_error, ontogen_db) result" where
  "insert_node row db =
     (if on_id row \<in> on_id ` set (ob_nodes db) then Inl (IntegrityError ''ontogen_nodes_pkey'')
      else if on_name row \<in> on_name ` set (ob_nodes db) then Inl (IntegrityError ''ontogen_nodes_name_key'')
      else if py_contains ''__'' (on_id row) then Inl (IntegrityError ''ck_ontogen_nodes_id_no_double_underscore'')
      else Inr (db\<lparr>ob_nodes := ob_nodes db @ [row]\<rparr>))"

definition rename_node :: "string \<Rightarrow> string \<Rightarrow> string \<Rightarrow> rat \<Rightarrow> nat \<Rightarrow> ontogen_db \<Rightarrow> (ds_error, ontogen_db) result" where
  "rename_node i name description conf now db =
     (if \<exists>r \<in> set (ob_nodes db). on_id r \<noteq> i \<and> on_name r = name then Inl (IntegrityError ''ontogen_nodes_name_key'')
      else Inr (db\<lparr>ob_nodes := row_update on_id i (\<lambda>r. r\<lparr>on_name := name, on_description := description,
             on_confidence := conf, on_updated := now\<rparr>) (ob_nodes db)\<rparr>))"

definition insert_edge :: "ontogen_edge \<Rightarrow> ontogen_db \<Rightarrow> (ds_error, ontogen_db) result" where
  "insert_edge row db =
     (if oe_id row \<in> oe_id ` set (ob_edges db) then Inl (IntegrityError ''ontogen_edges_pkey'')
      else if oe_label row \<in> oe_label ` set (ob_edges db) then Inl (IntegrityError ''ontogen_edges_label_key'')
      else if py_contains ''__'' (oe_id row) then Inl (IntegrityError ''ck_ontogen_edges_id_no_double_underscore'')
      else Inr (db\<lparr>ob_edges := ob_edges db @ [row]\<rparr>))"

definition insert_triple :: "ontogen_triple \<Rightarrow> ontogen_db \<Rightarrow> (ds_error, ontogen_db) result" where
  "insert_triple row db =
     (if ot_id row \<in> ot_id ` set (ob_triples db) then Inl (IntegrityError ''ontogen_triples_pkey'')
      else if ot_id row \<noteq> composite_id (ot_subject row) (ot_edge row) (ot_object row)
        then Inl (IntegrityError ''ck_ontogen_triples_id_composite'')
      else if \<not> (ot_subject row \<in> on_id ` set (ob_nodes db) \<and> ot_object row \<in> on_id ` set (ob_nodes db)
                \<and> ot_edge row \<in> oe_id ` set (ob_edges db)) then Inl (IntegrityError ''ontogen_triples_fkey'')
      else Inr (db\<lparr>ob_triples := ob_triples db @ [row]\<rparr>))"

definition upsert_map :: "string \<Rightarrow> rat \<Rightarrow> nat \<times> string \<Rightarrow> ontogen_db \<Rightarrow> (ds_error, ontogen_db) result" where
  "upsert_map node_id conf = (\<lambda>(idx, urn) db.
     let st = (if conf \<ge> ONTOLOGY_CONFIDENCE_THRESHOLD then ''llm_approved'' else ''llm_pending'') in
     if \<exists>m \<in> set (ob_maps db). dm_urn m = urn \<and> dm_node m = node_id
     then Inr (db\<lparr>ob_maps := map (\<lambda>m. if dm_urn m = urn \<and> dm_node m = node_id
            then m\<lparr>dm_confidence := conf, dm_status := st\<rparr> else m) (ob_maps db)\<rparr>)
     else if node_id \<notin> on_id ` set (ob_nodes db) then Inl (IntegrityError ''dataset_node_map_node_id_fkey'')
     else Inr (db\<lparr>ob_maps := ob_maps db @ [\<lparr>dm_urn = urn, dm_node = node_id, dm_confidence = conf, dm_status = st,
            dm_primary = (idx = 0)\<rparr>]\<rparr>))"

definition upsert_dataset_node_maps :: "string \<Rightarrow> string list \<Rightarrow> rat \<Rightarrow> ontogen_db \<Rightarrow> (ds_error, ontogen_db) result" where
  "upsert_dataset_node_maps node_id urns conf db = rfold (upsert_map node_id conf) (enumerate 0 urns) db"

section \<open>Persistence\<close>

definition persist_node :: "nat \<Rightarrow> nat \<Rightarrow> prepared_node \<Rightarrow> ontogen_db \<times> nat \<Rightarrow> (ds_error, ontogen_db \<times> nat) result" where
  "persist_node run_id now n = (\<lambda>(db, added).
     if \<not> assert_node_id (pn_id n) then Inr (db, added)
     else if pn_reuse n then rmap (\<lambda>db'. (db', added)) (upsert_dataset_node_maps (pn_id n) (pn_urns n) (pn_confidence n) db)
     else case row_get on_id (pn_id n) (ob_nodes db) of
       None \<Rightarrow> rmap (\<lambda>db'. (db', added + 1))
         (insert_node \<lparr>on_id = pn_id n, on_name = pn_name n, on_description = pn_description n, on_confidence = pn_confidence n,
            on_status = pn_status n, on_run_id = Some run_id, on_created = now, on_updated = now\<rparr> db)
     | Some ex \<Rightarrow>
         if on_description ex \<noteq> pn_description n \<or> on_name ex \<noteq> pn_name n
         then rmap (\<lambda>db'. (db', added)) (rename_node (pn_id n) (pn_name n) (pn_description n) (pn_confidence n) now db)
         else Inr (db, added))"

definition persist_maps :: "prepared_node \<Rightarrow> ontogen_db \<Rightarrow> (ds_error, ontogen_db) result" where
  "persist_maps n db = (if pn_reuse n then Inr db else upsert_dataset_node_maps (pn_id n) (pn_urns n) (pn_confidence n) db)"

definition persist_edge :: "nat \<Rightarrow> nat \<Rightarrow> prepared_edge \<Rightarrow> ontogen_db \<times> nat \<Rightarrow> (ds_error, ontogen_db \<times> nat) result" where
  "persist_edge run_id now e = (\<lambda>(db, added).
     if \<not> assert_edge_id (pe_id e) then Inr (db, added)
     else case row_get oe_id (pe_id e) (ob_edges db) of
       None \<Rightarrow> rmap (\<lambda>db'. (db', added + 1))
         (insert_edge \<lparr>oe_id = pe_id e, oe_label = pe_label e, oe_semantics = pe_semantics e, oe_confidence = pe_confidence e,
            oe_status = pe_status e, oe_run_id = Some run_id, oe_created = now, oe_updated = now\<rparr> db)
     | Some _ \<Rightarrow> Inr (db, added))"

definition persist_triple :: "nat \<Rightarrow> nat \<Rightarrow> prepared_triple \<Rightarrow> ontogen_db \<times> nat \<Rightarrow> (ds_error, ontogen_db \<times> nat) result" where
  "persist_triple run_id now t = (\<lambda>(db, added).
     if row_get on_id (pt_subject t) (ob_nodes db) = None \<or> row_get on_id (pt_object t) (ob_nodes db) = None
        \<or> row_get oe_id (pt_edge t) (ob_edges db) = None then Inr (db, added)
     else case row_get ot_id (pt_id t) (ob_triples db) of
       None \<Rightarrow> rmap (\<lambda>db'. (db', added + 1))
         (insert_triple \<lparr>ot_id = pt_id t, ot_subject = pt_subject t, ot_edge = pt_edge t, ot_object = pt_object t,
            ot_confidence = pt_confidence t, ot_status = pt_status t, ot_run_id = Some run_id, ot_created = now, ot_updated = now\<rparr> db)
     | Some _ \<Rightarrow> Inr (db, added))"

text \<open>\<open>INSERT ... ON CONFLICT DO UPDATE\<close> of an embedding; a missing row or a failed embedding call is logged and skipped.\<close>

definition upsert_embedding :: "bool \<Rightarrow> string \<Rightarrow> string \<Rightarrow> embeddings \<Rightarrow> embeddings" where
  "upsert_embedding ok key st emb =
     (if \<not> ok then emb
      else if key \<in> fst ` set emb then map (\<lambda>(k, s). (k, if k = key then st else s)) emb
      else emb @ [(key, st)])"

definition refresh_embeddings :: "(string \<Rightarrow> bool) \<Rightarrow> prepared \<Rightarrow> ontogen_db \<Rightarrow> ontogen_db" where
  "refresh_embeddings embed_ok pr db =
     db\<lparr>ob_node_emb := foldl (\<lambda>emb n. if pn_reuse n then emb
            else upsert_embedding (embed_ok (pn_id n) \<and> pn_id n \<in> on_id ` set (ob_nodes db)) (pn_id n) (pn_status n) emb)
          (ob_node_emb db) (pr_nodes pr),
        ob_edge_emb := foldl (\<lambda>emb e. upsert_embedding (embed_ok (pe_id e) \<and> pe_id e \<in> oe_id ` set (ob_edges db)) (pe_id e) (pe_status e) emb)
          (ob_edge_emb db) (pr_edges pr),
        ob_triple_emb := foldl (\<lambda>emb t. upsert_embedding (embed_ok (pt_id t) \<and> pt_id t \<in> ot_id ` set (ob_triples db)) (pt_id t) (pt_status t) emb)
          (ob_triple_emb db) (pr_triples pr)\<rparr>"

text \<open>Steps 10 and 11. Each of the three commits makes what precedes it permanent; a failure rolls back to the
  last one. The result is the outcome with the database as committed.\<close>

definition persist :: "(string \<Rightarrow> bool) \<Rightarrow> nat \<Rightarrow> nat \<Rightarrow> prepared \<Rightarrow> ontogen_db \<Rightarrow> (ds_error, nat \<times> nat \<times> nat) result \<times> ontogen_db" where
  "persist embed_ok run_id now pr db =
     (case rbind (rfold (persist_node run_id now) (pr_nodes pr) (db, 0)) (\<lambda>(db1, n). rmap (\<lambda>db2. (db2, n)) (rfold persist_maps (pr_nodes pr) db1)) of
        Inl e \<Rightarrow> (Inl e, db)
      | Inr (dbN, n) \<Rightarrow>
          (case rfold (persist_edge run_id now) (pr_edges pr) (dbN, 0) of
             Inl e \<Rightarrow> (Inl e, dbN)
           | Inr (dbE, m) \<Rightarrow>
               (case rfold (persist_triple run_id now) (pr_triples pr) (dbE, 0) of
                  Inl e \<Rightarrow> (Inl e, dbE)
                | Inr (dbT, k) \<Rightarrow> (Inr (n, m, k), refresh_embeddings embed_ok pr dbT))))"

section \<open>The run\<close>

record run_env =
  rn_sql :: sql_engine_fn
  rn_registry :: "registry_row list"
  rn_evidence :: "string \<Rightarrow> string option"
  rn_prompt :: "string \<Rightarrow> (string \<times> string) list \<Rightarrow> string option \<Rightarrow> string"
  rn_debate :: "string \<Rightarrow> string set \<Rightarrow> (ds_error, json \<times> debate_outcome) result"
  rn_schema :: schema_fn
  rn_pick :: pick_fn
  rn_embed_ok :: "string \<Rightarrow> bool"
  rn_id :: nat
  rn_now :: nat

record run_summary =
  rs_dry_run :: bool
  rs_unresolved :: "string list"
  rs_counts :: "nat \<times> nat \<times> nat"

definition SEED_SEPARATOR :: string where
  "SEED_SEPARATOR = [CHR 0x0A, CHR 0x0A, CHR ''-'', CHR ''-'', CHR ''-'', CHR 0x0A, CHR 0x0A]"

definition gathered :: "run_env \<Rightarrow> string list \<Rightarrow> (string \<times> string) list" where
  "gathered env urns = List.map_filter (\<lambda>u. map_option (\<lambda>ev. (u, ev)) (rn_evidence env u)) urns"

definition seeds_md :: "ontogen_db \<Rightarrow> string" where
  "seeds_md db = py_join SEED_SEPARATOR (map sd_body (filter sd_enabled (ob_seeds db)))"

text \<open>The candidate: a payload the schema refuses counts as an empty output. The partition is called
  with an empty error list.\<close>

definition candidate_output :: "schema_fn \<Rightarrow> json \<Rightarrow> (ds_error, llm_output) result" where
  "candidate_output schema payload =
     rmap (\<lambda>r. fst (partition_clean_rows
         (case r of Inr out \<Rightarrow> out | Inl _ \<Rightarrow> \<lparr>lo_nodes = [], lo_edges = [], lo_triples = []\<rparr>) []))
       (model_validate schema payload)"

definition run_event :: "run_env \<Rightarrow> run_summary \<Rightarrow> debate_outcome \<Rightarrow> ontogen_db \<Rightarrow> ontogen_db" where
  "run_event env sm outcome db =
     record_ontogen_event ''singleton'' ''ONTOGEN.RUN_COMPLETE'' ''success''
       [(''run_id'', JStr (show_nat (rn_id env))), (''unresolved_urns'', JList (map JStr (rs_unresolved sm))),
        (''counts'', (case rs_counts sm of (a, b, c) \<Rightarrow> JList [JInt (int a), JInt (int b), JInt (int c)])),
        (''dry_run'', JBool (rs_dry_run sm)),
        (''debate_outcome'', JStr (case outcome of Accepted \<Rightarrow> ''accept'' | Turns_exhausted \<Rightarrow> ''turns_exhausted''
           | Cycle_detected \<Rightarrow> ''cycle_detected''))]
       (rn_now env) db"

definition run_inner :: "run_env \<Rightarrow> string option \<Rightarrow> bool \<Rightarrow> ontogen_db \<Rightarrow> (svc_error, run_summary) result \<times> ontogen_db" where
  "run_inner env prompt_md dry_run db0 =
     (let (conf, db) = get_conf (rn_now env) db0 in
      if \<not> oc_enabled conf \<and> \<not> dry_run then (Inl (SvcErr (ConflictError ''ONTOGEN_DISABLED'')), db)
      else
        let effective = (case prompt_md of Some p \<Rightarrow> if p \<noteq> [] then Some p else oc_prompt conf | None \<Rightarrow> oc_prompt conf) in
        case resolve_dataset_scope (rn_sql env) (rn_registry env) (Some (oc_filter conf)) None of
          Inl e \<Rightarrow> (Inl (FilterErr e), db)
        | Inr scope \<Rightarrow>
            (let evidence = gathered env (resolved_urns scope) in
             case rn_debate env (rn_prompt env (seeds_md db) evidence effective) (set (map fst evidence)) of
               Inl e \<Rightarrow> (Inl (SvcErr e), db)
             | Inr (payload, outcome) \<Rightarrow>
                 (case candidate_output (rn_schema env) payload of
                    Inl e \<Rightarrow> (Inl (SvcErr e), db)
                  | Inr out \<Rightarrow>
                      (let pr = prepare (rn_pick env) db outcome out in
                       if dry_run then
                         (let sm = \<lparr>rs_dry_run = True, rs_unresolved = unresolved_urns scope,
                                    rs_counts = (length (pr_nodes pr), length (pr_edges pr), length (pr_triples pr))\<rparr>
                          in (Inr sm, run_event env sm outcome db))
                       else
                         (case persist (rn_embed_ok env) (rn_id env) (rn_now env) pr db of
                            (Inl e, db') \<Rightarrow> (Inl (SvcErr e), db')
                          | (Inr counts, db') \<Rightarrow>
                              (let sm = \<lparr>rs_dry_run = False, rs_unresolved = unresolved_urns scope, rs_counts = counts\<rparr>
                               in (Inr sm, run_event env sm outcome db')))))))"

definition LOCK_KEY :: string where
  "LOCK_KEY = ''ontogen:running:singleton''"

text \<open>\<open>run\<close>: the lock is released with the token it was taken with, whatever happens in between. A
  conflict passes through; any other failure is recorded as an event unless that write fails too.\<close>

definition run :: "run_env \<Rightarrow> string \<Rightarrow> nat \<Rightarrow> bool \<Rightarrow> string option \<Rightarrow> bool \<Rightarrow> ontogen_db \<times> redis
    \<Rightarrow> (svc_error, run_summary) result \<times> ontogen_db \<times> redis" where
  "run env token end_time event_ok prompt_md dry_run = (\<lambda>(db, r).
     case set_nx (rn_now env) LOCK_KEY token LOCK_TTL_SECONDS r of
       (False, r1) \<Rightarrow> (Inl (SvcErr (ConflictError ''ONTOGEN_RUNNING'')), db, r1)
     | (True, r1) \<Rightarrow>
         (let (res, db1) = run_inner env prompt_md dry_run db;
              db2 = (case res of
                  Inr _ \<Rightarrow> db1
                | Inl (SvcErr (ConflictError _)) \<Rightarrow> db1
                | Inl _ \<Rightarrow> if event_ok then record_ontogen_event ''singleton'' ''ONTOGEN.RUN_FAILED'' ''failure''
                      [(''run_id'', JStr (show_nat (rn_id env)))] end_time db1 else db1)
          in (res, db2, snd (delete_if_value end_time LOCK_KEY token r1))))"

section \<open>The debate a run holds\<close>

text \<open>The reviewer's tool accepts whatever parses as a review.\<close>

definition review_schema :: "(json \<Rightarrow> review_output option) \<Rightarrow> schema_check" where
  "review_schema rparse p = (case rparse p of Some _ \<Rightarrow> Schema_ok p | None \<Rightarrow> Schema_errors [verr [] ''SCHEMA''] p)"

definition review_tool :: "(json \<Rightarrow> review_output option) \<Rightarrow> tool_fn" where
  "review_tool rparse args = (case rparse (JObj args) of Some _ \<Rightarrow> Tool_result True [] | None \<Rightarrow> Tool_recoverable ''ValidationError'')"

record llm_env =
  ll_chat :: "nat \<Rightarrow> chat_model"
  ll_reviewer_chat :: "nat \<Rightarrow> chat_model"
  ll_hash :: "json \<Rightarrow> string"
  ll_parse_review :: "json \<Rightarrow> review_output option"
  ll_search_node :: search_fn
  ll_search_edge :: search_fn
  ll_search_triple :: search_fn
  ll_reviewer_prompt :: "json \<Rightarrow> anchors_by_kind \<Rightarrow> string \<Rightarrow> string"
  ll_revision_prompt :: "json \<Rightarrow> json \<Rightarrow> string \<Rightarrow> string \<Rightarrow> string"
  ll_max_turns :: nat
  ll_rag_k :: nat
  ll_max_iterations :: nat

definition ontogen_debate_env ::
  "llm_env \<Rightarrow> schema_fn \<Rightarrow> string set \<Rightarrow> (anchor_kind \<times> string \<times> rat, anchors_by_kind) debate_env" where
  "ontogen_debate_env env schema urns =
     \<lparr>dv_producer = \<lambda>turn p. ontogen_producer schema urns (ll_chat env turn) (ll_max_iterations env) p,
      dv_reviewer = \<lambda>turn p. complete_with_tools (ll_reviewer_chat env turn) [(''ontogen_review'', review_tool (ll_parse_review env))]
        ''ontogen_review'' (review_schema (ll_parse_review env)) [] 1 p,
      dv_hash = ll_hash env, dv_parse_review = ll_parse_review env, dv_rebuttals = extract_rebuttals,
      dv_sample = sample_rag_anchors (ll_search_node env) (ll_search_edge env) (ll_search_triple env) (ll_rag_k env),
      dv_flatten = flatten_anchors, dv_reviewer_prompt = ll_reviewer_prompt env, dv_revision_prompt = ll_revision_prompt env\<rparr>"

definition ontogen_debate :: "llm_env \<Rightarrow> schema_fn \<Rightarrow> string \<Rightarrow> string set \<Rightarrow> (ds_error, json \<times> debate_outcome) result" where
  "ontogen_debate env schema prompt urns =
     rmap (\<lambda>r. (dr_payload r, dr_outcome r)) (run_debate (ontogen_debate_env env schema urns) prompt (ll_max_turns env))"

end
