(* ===== verification/Ontogen_Invariant.thy ===== *)
theory Ontogen_Invariant
  imports Ontogen_Run
begin

text \<open>
  What the ontology tables keep under every operation of the service, what a run may change, and what a review decides.
\<close>

section \<open>The tables are well formed\<close>

definition STATUSES :: "string list" where
  "STATUSES = [''approved'', ''rejected'', ''llm_approved'', ''llm_pending'']"

definition good_id :: "string \<Rightarrow> bool" where
  "good_id i \<longleftrightarrow> slug_shape i \<and> length i \<le> 64"

definition onto_inv :: "ontogen_db \<Rightarrow> bool" where
  "onto_inv db \<longleftrightarrow>
     distinct (map on_id (ob_nodes db)) \<and> distinct (map on_name (ob_nodes db)) \<and>
     (\<forall>n \<in> set (ob_nodes db). good_id (on_id n) \<and> on_status n \<in> set STATUSES) \<and>
     distinct (map oe_id (ob_edges db)) \<and> distinct (map oe_label (ob_edges db)) \<and>
     (\<forall>e \<in> set (ob_edges db). good_id (oe_id e) \<and> oe_status e \<in> set STATUSES) \<and>
     distinct (map ot_id (ob_triples db)) \<and>
     (\<forall>t \<in> set (ob_triples db). ot_id t = composite_id (ot_subject t) (ot_edge t) (ot_object t) \<and>
        ot_subject t \<in> on_id ` set (ob_nodes db) \<and> ot_object t \<in> on_id ` set (ob_nodes db) \<and>
        ot_edge t \<in> oe_id ` set (ob_edges db) \<and> ot_status t \<in> set STATUSES) \<and>
     distinct (map (\<lambda>m. (dm_urn m, dm_node m)) (ob_maps db)) \<and>
     (\<forall>m \<in> set (ob_maps db). dm_node m \<in> on_id ` set (ob_nodes db))"

lemma status_for_outcome_in: "status_for_outcome c d \<in> {''llm_approved'', ''llm_pending''}"
  by (simp add: status_for_outcome_def)

lemma status_in_STATUSES: "s \<in> {''llm_approved'', ''llm_pending''} \<Longrightarrow> s \<in> set STATUSES"
  by (auto simp: STATUSES_def)

lemma slug_char_not_lf: "slug_char c \<Longrightarrow> c \<noteq> CHR 0x0A"
  by (auto simp: slug_char_def is_lower_def is_digit_def)

lemma good_idI: "slug_shape i \<Longrightarrow> slug_id_matches i \<Longrightarrow> good_id i"
  by (auto simp: good_id_def slug_id_matches_def slug_core_def slug_shape_def list_all_iff dest!: last_in_set slug_char_not_lf)

section \<open>Statements keep them\<close>

lemma insert_node_inv:
  assumes "onto_inv db" "insert_node row db = Inr db'" "good_id (on_id row)" "on_status row \<in> set STATUSES"
  shows "onto_inv db'"
  using assms by (auto simp: insert_node_def onto_inv_def split: if_splits)

lemma row_update_names:
  assumes "distinct (map on_id rows)" "distinct (map on_name rows)" "\<forall>r \<in> set rows. on_id r \<noteq> i \<longrightarrow> on_name r \<noteq> nm"
  shows "distinct (map on_name (row_update on_id i (\<lambda>r. r\<lparr>on_name := nm, on_description := d, on_confidence := c, on_updated := t\<rparr>) rows))"
  using assms
proof (induction rows)
  case (Cons r rows)
  then show ?case
    by (auto simp: row_update_def image_iff split: if_splits)
qed (simp add: row_update_def)

lemma rename_node_inv:
  assumes "onto_inv db" "rename_node i nm d c t db = Inr db'"
  shows "onto_inv db'"
proof -
  let ?f = "\<lambda>r. r\<lparr>on_name := nm, on_description := d, on_confidence := c, on_updated := t\<rparr>"
  have db': "db' = db\<lparr>ob_nodes := row_update on_id i ?f (ob_nodes db)\<rparr>"
    and free: "\<forall>r \<in> set (ob_nodes db). on_id r \<noteq> i \<longrightarrow> on_name r \<noteq> nm"
    using assms(2) by (auto simp: rename_node_def split: if_splits)
  have "distinct (map on_name (ob_nodes db'))"
    using assms(1) free unfolding db' by (simp add: onto_inv_def row_update_names)
  moreover have "map on_id (ob_nodes db') = map on_id (ob_nodes db)" unfolding db' by simp
  moreover from this have "on_id ` set (ob_nodes db') = on_id ` set (ob_nodes db)" by (metis list.set_map)
  moreover have "\<forall>n \<in> set (ob_nodes db'). good_id (on_id n) \<and> on_status n \<in> set STATUSES"
    using assms(1) unfolding db' by (auto simp: onto_inv_def set_row_update)
  ultimately show ?thesis using assms(1) unfolding onto_inv_def by (simp add: db')
qed

lemma insert_edge_inv:
  assumes "onto_inv db" "insert_edge row db = Inr db'" "good_id (oe_id row)" "oe_status row \<in> set STATUSES"
  shows "onto_inv db'"
  using assms by (auto simp: insert_edge_def onto_inv_def split: if_splits)

lemma insert_triple_inv:
  assumes "onto_inv db" "insert_triple row db = Inr db'" "ot_status row \<in> set STATUSES"
  shows "onto_inv db'"
  using assms by (auto simp: insert_triple_def onto_inv_def split: if_splits)

lemma upsert_map_inv:
  assumes "onto_inv db" "upsert_map i c x db = Inr db'"
  shows "onto_inv db'"
proof -
  obtain idx urn where x: "x = (idx, urn)" by fastforce
  let ?hit = "\<lambda>m. dm_urn m = urn \<and> dm_node m = i"
  let ?g = "\<lambda>st m. if ?hit m then m\<lparr>dm_confidence := c, dm_status := st\<rparr> else m"
  show ?thesis
  proof (cases "\<exists>m \<in> set (ob_maps db). ?hit m")
    case True
    then obtain st where db': "db' = db\<lparr>ob_maps := map (?g st) (ob_maps db)\<rparr>"
      using assms(2) x by (auto simp: upsert_map_def Let_def)
    have "map (\<lambda>m. (dm_urn m, dm_node m)) (ob_maps db') = map (\<lambda>m. (dm_urn m, dm_node m)) (ob_maps db)"
      unfolding db' by simp
    then have "distinct (map (\<lambda>m. (dm_urn m, dm_node m)) (ob_maps db'))"
      using assms(1) unfolding onto_inv_def by argo
    moreover have "\<forall>m \<in> set (ob_maps db'). dm_node m \<in> on_id ` set (ob_nodes db)"
      using assms(1) unfolding db' by (auto simp: onto_inv_def)
    ultimately show ?thesis using assms(1) unfolding onto_inv_def by (simp add: db')
  next
    case False
    with assms x show ?thesis by (auto simp: upsert_map_def Let_def onto_inv_def split: if_splits) blast+
  qed
qed

lemma upsert_maps_inv:
  assumes "upsert_dataset_node_maps i urns c db = Inr db'" "onto_inv db"
  shows "onto_inv db'"
  using assms(1) unfolding upsert_dataset_node_maps_def
  by (rule rfold_inv [where P = onto_inv]) (use assms(2) upsert_map_inv in blast)+

section \<open>What is prepared\<close>

lemma fresh_id_shape: "slug_shape (fresh_id name known)" "fresh_id name known \<notin> set known"
  using make_snake_id_found [of "set known" name] by (auto simp: fresh_id_def)

definition node_prepared :: "debate_outcome \<Rightarrow> prepared_node \<Rightarrow> bool" where
  "node_prepared oc n \<longleftrightarrow> pn_status n = status_for_outcome (pn_confidence n) oc \<and> (\<not> pn_reuse n \<longrightarrow> slug_shape (pn_id n))"

definition edge_prepared :: "debate_outcome \<Rightarrow> string set \<Rightarrow> prepared_edge \<Rightarrow> bool" where
  "edge_prepared oc ids e \<longleftrightarrow> pe_status e = status_for_outcome (pe_confidence e) oc \<and> (slug_shape (pe_id e) \<or> pe_id e \<in> ids)"

definition triple_prepared :: "debate_outcome \<Rightarrow> prepared_triple \<Rightarrow> bool" where
  "triple_prepared oc t \<longleftrightarrow> pt_status t = status_for_outcome (pt_confidence t) oc"

lemma foldl_prep:
  assumes "foldl f s xs = (k, r, out)" "\<forall>x \<in> set (snd (snd s)). P x"
    and "\<And>k r out x. \<exists>k' r' ys. f (k, r, out) x = (k', r', out @ ys) \<and> (\<forall>y \<in> set ys. P y)"
  shows "\<forall>x \<in> set out. P x"
  using assms(1,2)
proof (induction xs arbitrary: s)
  case (Cons x xs)
  obtain k0 r0 o0 where s: "s = (k0, r0, o0)" by (cases s) auto
  obtain k' r' ys where f: "f s x = (k', r', o0 @ ys)" "\<forall>y \<in> set ys. P y" using assms(3) s by meson
  show ?case by (rule Cons.IH [of "f s x"]) (use Cons.prems s f in auto)
qed simp

lemma prepare_node_out:
  "\<exists>k' r' ys. prepare_node by_name search outcome (k, r, out) p = (k', r', out @ ys) \<and> (\<forall>y \<in> set ys. node_prepared outcome y)"
proof (cases "py_strip (ln_name p) = []")
  case False
  then show ?thesis
    using fresh_id_shape(1) [of "py_strip (ln_name p)" k]
    by (auto simp: prepare_node_def Let_def node_prepared_def)
qed (simp add: prepare_node_def)

lemma prepare_edge_out:
  assumes "ran by_label \<subseteq> ids"
  shows "\<exists>k' r' ys. prepare_edge by_label outcome (k, r, out) p = (k', r', out @ ys) \<and> (\<forall>y \<in> set ys. edge_prepared outcome ids y)"
proof (cases "py_strip (le_label p) = []")
  case False
  show ?thesis
  proof (cases "by_label (py_strip (le_label p))")
    case None
    with False show ?thesis
      using fresh_id_shape(1) [of "py_strip (le_label p)" k]
      by (simp add: prepare_edge_def Let_def edge_prepared_def)
  next
    case (Some i)
    with assms have "i \<in> ids" by (auto intro: ranI)
    with Some False show ?thesis by (simp add: prepare_edge_def Let_def edge_prepared_def)
  qed
qed (simp add: prepare_edge_def)

lemma ran_name_index: "ran (name_index nm idf st rows) \<subseteq> idf ` set rows"
  unfolding name_index_def ran_def by (auto simp: map_add_Some_iff dest!: map_of_SomeD)

lemma prepare_prepared:
  "(\<forall>n \<in> set (pr_nodes (prepare pick db outcome out)). node_prepared outcome n) \<and>
   (\<forall>e \<in> set (pr_edges (prepare pick db outcome out)). edge_prepared outcome (oe_id ` set (ob_edges db)) e) \<and>
   (\<forall>t \<in> set (pr_triples (prepare pick db outcome out)). triple_prepared outcome t)"
proof -
  let ?fn = "prepare_node (name_index on_name on_id on_status (eligible_nodes db)) (search_nodes pick db) outcome"
  let ?fe = "prepare_edge (name_index oe_label oe_id oe_status (eligible_edges db)) outcome"
  obtain k r pns where n: "foldl ?fn (map on_id (eligible_nodes db), [], []) (lo_nodes out) = (k, r, pns)" by (metis prod_cases3)
  obtain k' r' pes where e: "foldl ?fe (map oe_id (eligible_edges db), [], []) (lo_edges out) = (k', r', pes)" by (metis prod_cases3)
  have 1: "\<forall>x \<in> set pns. node_prepared outcome x" using n by (rule foldl_prep) (auto intro: prepare_node_out)
  have "ran (name_index oe_label oe_id oe_status (eligible_edges db)) \<subseteq> oe_id ` set (ob_edges db)"
    using ran_name_index [of oe_label oe_id oe_status "eligible_edges db"] by (auto simp: eligible_edges_def)
  then have 2: "\<forall>x \<in> set pes. edge_prepared outcome (oe_id ` set (ob_edges db)) x"
    by (intro foldl_prep [OF e]) (auto intro: prepare_edge_out)
  have 3: "triple_prepared outcome t" if "prepare_triple r r' ex outcome p = Some t" for ex p t
    using that
    by (auto simp: prepare_triple_def Let_def triple_prepared_def split: if_splits)
  have "prepare pick db outcome out = \<lparr>pr_nodes = pns, pr_edges = pes,
      pr_triples = List.map_filter (prepare_triple r r' (map ot_id (eligible_triples db)) outcome) (lo_triples out)\<rparr>"
    using n e by (simp add: prepare_def Let_def)
  with 1 2 3 show ?thesis by (auto simp: List.map_filter_def)
qed

section \<open>What a run may change\<close>

text \<open>Rows of before keep their key, status, run and creation time; edges and triples are not touched at all. Rows that
  are new belong to this run and are approved only when the debate was accepted.\<close>

definition keeps_nodes :: "nat \<Rightarrow> debate_outcome \<Rightarrow> ontogen_node list \<Rightarrow> ontogen_node list \<Rightarrow> bool" where
  "keeps_nodes run_id outcome rows rows' \<longleftrightarrow>
     (\<forall>n \<in> set rows. \<exists>n' \<in> set rows'. on_id n' = on_id n \<and> on_status n' = on_status n \<and>
        on_run_id n' = on_run_id n \<and> on_created n' = on_created n) \<and>
     (\<forall>n' \<in> set rows'. on_id n' \<in> on_id ` set rows \<or> on_run_id n' = Some run_id \<and>
        (on_status n' = ''llm_pending'' \<or> on_status n' = ''llm_approved'' \<and> outcome = Accepted))"

definition grows :: "('r \<Rightarrow> bool) \<Rightarrow> 'r list \<Rightarrow> 'r list \<Rightarrow> bool" where
  "grows new rows rows' \<longleftrightarrow> set rows \<subseteq> set rows' \<and> (\<forall>r \<in> set rows' - set rows. new r)"

definition keeps_rows :: "nat \<Rightarrow> debate_outcome \<Rightarrow> ontogen_db \<Rightarrow> ontogen_db \<Rightarrow> bool" where
  "keeps_rows run_id outcome db db' \<longleftrightarrow>
     keeps_nodes run_id outcome (ob_nodes db) (ob_nodes db') \<and>
     grows (\<lambda>e. oe_run_id e = Some run_id \<and> oe_status e = status_for_outcome (oe_confidence e) outcome) (ob_edges db) (ob_edges db') \<and>
     grows (\<lambda>t. ot_run_id t = Some run_id \<and> ot_status t = status_for_outcome (ot_confidence t) outcome) (ob_triples db) (ob_triples db') \<and>
     ob_seeds db' = ob_seeds db"

lemma grows_refl [simp]: "grows new rows rows"
  by (simp add: grows_def)

lemma grows_snoc: "new r \<Longrightarrow> grows new rows (rows @ [r])"
  by (auto simp: grows_def)

lemma grows_trans: "grows new a b \<Longrightarrow> grows new b c \<Longrightarrow> grows new a c"
  unfolding grows_def by blast

lemma keeps_nodes_refl [simp]: "keeps_nodes rid oc rows rows"
  by (auto simp: keeps_nodes_def)

lemma keeps_nodes_trans:
  assumes "keeps_nodes rid oc a b" "keeps_nodes rid oc b c" "distinct (map on_id c)"
  shows "keeps_nodes rid oc a c"
  unfolding keeps_nodes_def
proof (intro conjI ballI)
  fix n assume "n \<in> set a"
  then show "\<exists>n2 \<in> set c. on_id n2 = on_id n \<and> on_status n2 = on_status n \<and> on_run_id n2 = on_run_id n \<and> on_created n2 = on_created n"
    using assms(1,2) unfolding keeps_nodes_def by metis
next
  fix n assume n: "n \<in> set c"
  show "on_id n \<in> on_id ` set a \<or> on_run_id n = Some rid \<and>
        (on_status n = ''llm_pending'' \<or> on_status n = ''llm_approved'' \<and> oc = Accepted)"
  proof (cases "on_id n \<in> on_id ` set b")
    case True
    then obtain m where m: "m \<in> set b" "on_id m = on_id n" by auto
    then obtain m' where m': "m' \<in> set c" "on_id m' = on_id m" "on_status m' = on_status m" "on_run_id m' = on_run_id m"
      using assms(2) unfolding keeps_nodes_def by metis
    have "m' = n" using assms(3) n m m' by (auto simp: distinct_map dest: inj_onD)
    with m m' assms(1) show ?thesis unfolding keeps_nodes_def by metis
  qed (use assms(2) n in \<open>auto simp: keeps_nodes_def\<close>)
qed

lemma keeps_rows_same:
  "ob_nodes db' = ob_nodes db \<Longrightarrow> ob_edges db' = ob_edges db \<Longrightarrow> ob_triples db' = ob_triples db \<Longrightarrow> ob_seeds db' = ob_seeds db
     \<Longrightarrow> keeps_rows rid oc db db'"
  by (simp add: keeps_rows_def)

lemma keeps_rows_trans:
  "keeps_rows rid oc a b \<Longrightarrow> keeps_rows rid oc b c \<Longrightarrow> onto_inv c \<Longrightarrow> keeps_rows rid oc a c"
  unfolding keeps_rows_def by (auto intro: keeps_nodes_trans grows_trans simp: onto_inv_def)

lemma insert_node_keeps:
  "insert_node row db = Inr db' \<Longrightarrow> on_run_id row = Some rid \<Longrightarrow> on_status row = status_for_outcome c oc \<Longrightarrow> keeps_rows rid oc db db'"
  by (auto simp: insert_node_def keeps_rows_def keeps_nodes_def status_for_outcome_def split: if_splits)

lemma keeps_nodes_update:
  assumes f: "\<And>r. on_id (f r) = on_id r \<and> on_status (f r) = on_status r \<and> on_run_id (f r) = on_run_id r \<and> on_created (f r) = on_created r"
  shows "keeps_nodes rid oc rows (row_update on_id i f rows)"
  unfolding keeps_nodes_def
proof (intro conjI ballI)
  fix n assume "n \<in> set rows"
  then have "(if on_id n = i then f n else n) \<in> set (row_update on_id i f rows)" by (simp add: set_row_update)
  then show "\<exists>n' \<in> set (row_update on_id i f rows). on_id n' = on_id n \<and> on_status n' = on_status n \<and>
      on_run_id n' = on_run_id n \<and> on_created n' = on_created n"
    by (rule rev_bexI) (use f in auto)
next
  fix n assume "n \<in> set (row_update on_id i f rows)"
  then have "on_id n \<in> on_id ` set rows" using f by (auto simp: set_row_update)
  then show "on_id n \<in> on_id ` set rows \<or> on_run_id n = Some rid \<and> (on_status n = ''llm_pending'' \<or> on_status n = ''llm_approved'' \<and> oc = Accepted)" ..
qed

lemma rename_node_keeps: "rename_node i nm d c t db = Inr db' \<Longrightarrow> keeps_rows rid oc db db'"
  by (auto simp: rename_node_def keeps_rows_def split: if_splits intro!: keeps_nodes_update)

lemma upsert_map_keeps: "upsert_map i c x db = Inr db' \<Longrightarrow> keeps_rows rid oc db db'"
  by (intro keeps_rows_same) (auto simp: upsert_map_def Let_def split: prod.splits if_splits)

lemma insert_edge_keeps:
  "insert_edge row db = Inr db' \<Longrightarrow> oe_run_id row = Some rid \<Longrightarrow> oe_status row = status_for_outcome (oe_confidence row) oc \<Longrightarrow> keeps_rows rid oc db db'"
  by (auto simp: insert_edge_def keeps_rows_def grows_snoc split: if_splits)

lemma insert_triple_keeps:
  "insert_triple row db = Inr db' \<Longrightarrow> ot_run_id row = Some rid \<Longrightarrow> ot_status row = status_for_outcome (ot_confidence row) oc \<Longrightarrow> keeps_rows rid oc db db'"
  by (auto simp: insert_triple_def keeps_rows_def grows_snoc split: if_splits)

section \<open>Persistence keeps the tables and the decisions\<close>

definition sound :: "nat \<Rightarrow> debate_outcome \<Rightarrow> ontogen_db \<Rightarrow> ontogen_db \<Rightarrow> bool" where
  "sound rid oc db0 db \<longleftrightarrow> onto_inv db \<and> keeps_rows rid oc db0 db"

lemma soundI: "sound rid oc db0 db \<Longrightarrow> onto_inv db' \<Longrightarrow> keeps_rows rid oc db db' \<Longrightarrow> sound rid oc db0 db'"
  unfolding sound_def using keeps_rows_trans by blast

lemma upsert_maps_sound:
  assumes "upsert_dataset_node_maps i urns c db = Inr db'" "sound rid oc db0 db"
  shows "sound rid oc db0 db'"
  using assms(1) unfolding upsert_dataset_node_maps_def
proof (rule rfold_inv [where P = "sound rid oc db0"])
  fix x s s'
  assume "sound rid oc db0 s" "upsert_map i c x s = Inr s'"
  then show "sound rid oc db0 s'"
    using upsert_map_inv upsert_map_keeps by (metis sound_def soundI)
qed (rule assms(2))

lemma persist_node_sound:
  assumes "persist_node rid now n (db, k) = Inr (db', k')" "sound rid oc db0 db" "node_prepared oc n"
  shows "sound rid oc db0 db'"
proof -
  consider "db' = db" | "upsert_dataset_node_maps (pn_id n) (pn_urns n) (pn_confidence n) db = Inr db'"
    | row where "insert_node row db = Inr db'" "good_id (on_id row)" "on_status row = status_for_outcome (pn_confidence n) oc" "on_run_id row = Some rid"
    | "rename_node (pn_id n) (pn_name n) (pn_description n) (pn_confidence n) now db = Inr db'"
    using assms(1,3) by (fastforce simp: persist_node_def result_simps node_prepared_def assert_node_id_def intro: good_idI
        split: if_splits option.splits)
  then show ?thesis
  proof cases
    case 3
    have "on_status row \<in> set STATUSES" using 3(3) status_for_outcome_in status_in_STATUSES by metis
    with 3 assms(2) insert_node_inv insert_node_keeps show ?thesis by (metis sound_def soundI)
  next
    case 2
    then show ?thesis using assms(2) by (rule upsert_maps_sound)
  next
    case 4
    have "onto_inv db" using assms(2) by (simp add: sound_def)
    from soundI [OF assms(2) rename_node_inv [OF this 4] rename_node_keeps [OF 4]] show ?thesis .
  qed (use assms(2) in simp)
qed

lemma persist_maps_sound:
  "persist_maps n db = Inr db' \<Longrightarrow> sound rid oc db0 db \<Longrightarrow> sound rid oc db0 db'"
  by (auto simp: persist_maps_def split: if_splits intro: upsert_maps_sound)

lemma row_get_None_key: "row_get key k rows = None \<longleftrightarrow> k \<notin> key ` set rows"
  by simp

lemma persist_edge_sound:
  assumes "persist_edge rid now e (db, k) = Inr (db', k')" "sound rid oc db0 db" "edge_prepared oc (oe_id ` set (ob_edges db0)) e"
  shows "sound rid oc db0 db'"
proof -
  have old: "oe_id ` set (ob_edges db0) \<subseteq> oe_id ` set (ob_edges db)"
    using assms(2) by (auto simp: sound_def keeps_rows_def grows_def)
  let ?row = "\<lparr>oe_id = pe_id e, oe_label = pe_label e, oe_semantics = pe_semantics e, oe_confidence = pe_confidence e,
            oe_status = pe_status e, oe_run_id = Some rid, oe_created = now, oe_updated = now\<rparr>"
  show ?thesis
  proof (cases "assert_edge_id (pe_id e) \<and> pe_id e \<notin> oe_id ` set (ob_edges db)")
    case True
    then have "row_get oe_id (pe_id e) (ob_edges db) = None" unfolding row_get_None_key by blast
    with True assms(1) have ins: "insert_edge ?row db = Inr db'" by (auto simp: persist_edge_def result_simps)
    have good: "good_id (oe_id ?row)" using True old assms(3)
      by (auto simp: edge_prepared_def assert_edge_id_def intro: good_idI)
    have st: "oe_status ?row = status_for_outcome (oe_confidence ?row) oc" using assms(3) by (simp add: edge_prepared_def)
    then have "oe_status ?row \<in> set STATUSES" using status_for_outcome_in status_in_STATUSES by metis
    from assms(2) insert_edge_inv [OF _ ins good this] insert_edge_keeps [OF ins _ st]
    show ?thesis by (simp add: sound_def soundI) (metis keeps_rows_trans)
  next
    case False
    with assms(1) have "db' = db"
      by (auto simp: persist_edge_def dest: row_get_SomeD split: if_splits option.splits)
    with assms(2) show ?thesis by simp
  qed
qed

lemma persist_triple_sound:
  assumes "persist_triple rid now t (db, k) = Inr (db', k')" "sound rid oc db0 db" "triple_prepared oc t"
  shows "sound rid oc db0 db'"
proof -
  consider "db' = db" | row where "insert_triple row db = Inr db'"
      "ot_status row = status_for_outcome (ot_confidence row) oc" "ot_run_id row = Some rid"
    using assms(1,3) by (fastforce simp: persist_triple_def result_simps triple_prepared_def split: if_splits option.splits)
  then show ?thesis
  proof cases
    case 2
    have "ot_status row \<in> set STATUSES" using 2(2) status_for_outcome_in status_in_STATUSES by metis
    with 2 assms(2) insert_triple_inv insert_triple_keeps show ?thesis by (metis sound_def soundI)
  qed (use assms(2) in simp)
qed

lemma sound_same:
  assumes "sound rid oc db0 db" "ob_nodes db' = ob_nodes db" "ob_edges db' = ob_edges db" "ob_triples db' = ob_triples db"
    "ob_maps db' = ob_maps db" "ob_seeds db' = ob_seeds db"
  shows "sound rid oc db0 db'"
  using assms unfolding sound_def onto_inv_def keeps_rows_def by simp

lemma rfold_pair:
  assumes "rfold f xs (s, n) = Inr (s', n')" "P s" "\<And>x s n s' n'. x \<in> set xs \<Longrightarrow> f x (s, n) = Inr (s', n') \<Longrightarrow> P s \<Longrightarrow> P s'"
  shows "P s'"
proof -
  have "(\<lambda>(s, n). P s) (s', n')"
    by (rule rfold_inv [OF assms(1)]) (use assms(2,3) in auto)
  then show ?thesis by simp
qed

lemma persist_sound:
  assumes "onto_inv db"
  shows "sound rid oc db (snd (persist ok rid now (prepare pick db oc out) db))"
proof -
  let ?pr = "prepare pick db oc out"
  have pn: "node_prepared oc n" if "n \<in> set (pr_nodes ?pr)" for n using prepare_prepared [of pick db oc out] that by blast
  have pe: "edge_prepared oc (oe_id ` set (ob_edges db)) e" if "e \<in> set (pr_edges ?pr)" for e
    using prepare_prepared [of pick db oc out] that by blast
  have pt: "triple_prepared oc t" if "t \<in> set (pr_triples ?pr)" for t using prepare_prepared [of pick db oc out] that by blast
  have start: "sound rid oc db db" using assms by (simp add: sound_def keeps_rows_same)
  have nodes: "sound rid oc db d" if "rfold (persist_node rid now) (pr_nodes ?pr) (db, 0) = Inr (d, k)" for d k
    using that start by (rule rfold_pair) (use pn in \<open>auto intro: persist_node_sound\<close>)
  have maps: "sound rid oc db d'" if "sound rid oc db d" "rfold persist_maps (pr_nodes ?pr) d = Inr d'" for d d'
    using that(2,1) by (rule rfold_inv) (rule persist_maps_sound)
  have edges: "sound rid oc db d'" if "sound rid oc db d" "rfold (persist_edge rid now) (pr_edges ?pr) (d, 0) = Inr (d', k)" for d d' k
    using that(2,1) by (rule rfold_pair) (use pe in \<open>auto intro: persist_edge_sound\<close>)
  have triples: "sound rid oc db d'" if "sound rid oc db d" "rfold (persist_triple rid now) (pr_triples ?pr) (d, 0) = Inr (d', k)" for d d' k
    using that(2,1) by (rule rfold_pair) (use pt in \<open>auto intro: persist_triple_sound\<close>)
  show ?thesis
  proof (cases "rbind (rfold (persist_node rid now) (pr_nodes ?pr) (db, 0)) (\<lambda>(db1, n). rmap (\<lambda>db2. (db2, n)) (rfold persist_maps (pr_nodes ?pr) db1))")
    case (Inl e)
    then show ?thesis using start by (simp add: persist_def)
  next
    case (Inr a)
    obtain dN n where a: "a = (dN, n)" by fastforce
    have sN: "sound rid oc db dN" using Inr nodes maps by (auto simp: a result_simps)
    show ?thesis
    proof (cases "rfold (persist_edge rid now) (pr_edges ?pr) (dN, 0)")
      case e: (Inl e)
      then show ?thesis using sN Inr by (simp add: persist_def a)
    next
      case b: (Inr b)
      obtain dE m where bb: "b = (dE, m)" by fastforce
      have sE: "sound rid oc db dE" using edges [OF sN] b bb by simp
      show ?thesis
      proof (cases "rfold (persist_triple rid now) (pr_triples ?pr) (dE, 0)")
        case (Inl e)
        then show ?thesis using sE Inr a b bb by (simp add: persist_def)
      next
        case c: (Inr c)
        obtain dT k where cc: "c = (dT, k)" by fastforce
        have "sound rid oc db dT" using triples [OF sE] c cc by simp
        then have "sound rid oc db (refresh_embeddings ok ?pr dT)"
          by (rule sound_same) (simp_all add: refresh_embeddings_def)
        then show ?thesis using Inr a b bb c cc by (simp add: persist_def)
      qed
    qed
  qed
qed

lemma get_conf_same: "get_conf now db = (c, db') \<Longrightarrow> ob_nodes db' = ob_nodes db \<and> ob_edges db' = ob_edges db \<and>
    ob_triples db' = ob_triples db \<and> ob_maps db' = ob_maps db \<and> ob_seeds db' = ob_seeds db"
  by (auto simp: get_conf_def split: option.splits)

lemma run_event_same: "ob_nodes (run_event env sm oc db) = ob_nodes db \<and> ob_edges (run_event env sm oc db) = ob_edges db \<and>
    ob_triples (run_event env sm oc db) = ob_triples db \<and> ob_maps (run_event env sm oc db) = ob_maps db \<and>
    ob_seeds (run_event env sm oc db) = ob_seeds db"
  by (simp add: run_event_def record_ontogen_event_def record_event_def)

text \<open>Some outcome the debate may have; not accepted when the run does not get that far.\<close>

definition run_outcome :: "run_env \<Rightarrow> debate_outcome \<Rightarrow> bool" where
  "run_outcome env oc \<longleftrightarrow> oc \<noteq> Accepted \<or> (\<exists>p S payload. rn_debate env p S = Inr (payload, oc))"

lemma run_inner_sound:
  assumes "onto_inv db0"
  shows "\<exists>oc. run_outcome env oc \<and> sound (rn_id env) oc db0 (snd (run_inner env prompt dry db0))"
proof -
  obtain conf db where c: "get_conf (rn_now env) db0 = (conf, db)" by fastforce
  note same = get_conf_same [OF c]
  have sdb: "sound (rn_id env) oc db0 db" for oc
  proof -
    have "sound (rn_id env) oc db0 db0" using assms(1) by (simp add: sound_def keeps_rows_same)
    then show ?thesis by (rule sound_same) (use same in simp_all)
  qed
  then have inv: "onto_inv db" by (simp add: sound_def)
  have early: ?thesis if "snd (run_inner env prompt dry db0) = db"
    using that sdb by (intro exI [of _ Turns_exhausted]) (simp add: run_outcome_def)
  show ?thesis
  proof (cases "\<not> oc_enabled conf \<and> \<not> dry")
    case True
    then show ?thesis using c by (intro early) (simp add: run_inner_def)
  next
    case en: False
    show ?thesis
    proof (cases "resolve_dataset_scope (rn_sql env) (rn_registry env) (Some (oc_filter conf)) None")
      case (Inl e)
      then show ?thesis using c en by (intro early) (simp add: run_inner_def)
    next
      case sc: (Inr scope)
      let ?ev = "gathered env (resolved_urns scope)"
      let ?eff = "case prompt of Some p \<Rightarrow> if p \<noteq> [] then Some p else oc_prompt conf | None \<Rightarrow> oc_prompt conf"
      show ?thesis
      proof (cases "rn_debate env (rn_prompt env (seeds_md db) ?ev ?eff) (set (map fst ?ev))")
        case (Inl e)
        then show ?thesis using c en sc by (intro early) (simp add: run_inner_def Let_def)
      next
        case d: (Inr d)
        obtain payload oc where dd: "d = (payload, oc)" by fastforce
        have oc: "run_outcome env oc" using d dd by (auto simp: run_outcome_def)
        show ?thesis
        proof (cases "candidate_output (rn_schema env) payload")
          case (Inl e)
          then show ?thesis using c en sc d dd by (intro early) (simp add: run_inner_def Let_def)
        next
          case o: (Inr out)
          let ?pr = "prepare (rn_pick env) db oc out"
          have "sound (rn_id env) oc db0 (snd (run_inner env prompt dry db0))"
          proof (cases dry)
            case True
            have "sound (rn_id env) oc db0 (run_event env sm oc db)" for sm
              by (rule sound_same [OF sdb]) (simp_all add: run_event_same)
            then show ?thesis using c en sc d dd o True by (simp add: run_inner_def Let_def)
          next
            case False
            obtain res db' where p: "persist (rn_embed_ok env) (rn_id env) (rn_now env) ?pr db = (res, db')" by fastforce
            have "sound (rn_id env) oc db db'"
              using persist_sound [OF inv, where rid = "rn_id env" and oc = oc] p by (metis snd_conv)
            with sdb have s2: "sound (rn_id env) oc db0 db'" using soundI by (metis sound_def)
            then have "sound (rn_id env) oc db0 (run_event env sm oc db')" for sm
              by (rule sound_same) (simp_all add: run_event_same)
            with s2 show ?thesis using c en sc d dd o False p
              by (cases res) (simp_all add: run_inner_def Let_def)
          qed
          with oc show ?thesis by blast
        qed
      qed
    qed
  qed
qed

lemma run_sound:
  assumes "onto_inv db0" "run env token t ok prompt dry (db0, r) = (res, db', r')"
  shows "\<exists>oc. run_outcome env oc \<and> sound (rn_id env) oc db0 db'"
proof -
  obtain res1 db1 where i: "run_inner env prompt dry db0 = (res1, db1)" by fastforce
  from run_inner_sound [OF assms(1), of env prompt dry] i obtain oc where
    oc: "run_outcome env oc" and s1: "sound (rn_id env) oc db0 db1" by auto
  have s0: "sound (rn_id env) oc db0 db0" using assms(1) by (simp add: sound_def keeps_rows_same)
  have ev: "sound (rn_id env) oc db0 (record_ontogen_event a b c d e db1)" for a b c d e
    by (rule sound_same [OF s1]) (simp_all add: record_ontogen_event_def record_event_def)
  have "sound (rn_id env) oc db0 db'" using assms(2) i s1 s0 ev
    by (auto simp: run_def Let_def split: prod.splits bool.splits sum.splits svc_error.splits ds_error.splits if_splits)
  with oc show ?thesis by blast
qed

end
