(* ===== verification/Ontogen_Properties.thy ===== *)
theory Ontogen_Properties
  imports Ontogen_Invariant
begin

section \<open>The service as a transition system\<close>

inductive onto_step :: "ontogen_db \<Rightarrow> ontogen_db \<Rightarrow> bool" where
  conf_get: "get_conf now db = (c, db') \<Longrightarrow> onto_step db db'"
| conf_put: "put_conf now body db = Inr (c, db') \<Longrightarrow> onto_step db db'"
| conf_patch: "patch_conf now p db = Inr (c, db') \<Longrightarrow> onto_step db db'"
| conf_delete: "onto_step db (delete_conf now db)"
| seed_create: "create_seed i now body db = (s, db') \<Longrightarrow> onto_step db db'"
| seed_patch: "patch_seed now i body db = Inr (s, db') \<Longrightarrow> onto_step db db'"
| seed_enable: "set_seed_enabled now i on db = Inr (s, db') \<Longrightarrow> onto_step db db'"
| seed_delete: "delete_seed now i db = Inr db' \<Longrightarrow> onto_step db db'"
| node_review: "review_node now i verdict reason db = Inr (n, db') \<Longrightarrow> onto_step db db'"
| edge_review: "review_edge now i verdict reason db = Inr (e, db') \<Longrightarrow> onto_step db db'"
| triple_review: "review_triple now i verdict reason db = Inr (t, db') \<Longrightarrow> onto_step db db'"
| inference: "run env token end_time event_ok prompt dry (db, r) = (res, db', r') \<Longrightarrow> onto_step db db'"

definition empty_ontology :: ontogen_db where
  "empty_ontology = \<lparr>ob_conf = None, ob_seeds = [], ob_nodes = [], ob_edges = [], ob_triples = [], ob_maps = [],
     ob_node_emb = [], ob_edge_emb = [], ob_triple_emb = [], ob_events = []\<rparr>"

definition same_ontology :: "ontogen_db \<Rightarrow> ontogen_db \<Rightarrow> bool" where
  "same_ontology db db' \<longleftrightarrow> ob_nodes db' = ob_nodes db \<and> ob_edges db' = ob_edges db \<and> ob_triples db' = ob_triples db \<and>
     ob_maps db' = ob_maps db"

lemma same_ontology_inv: "same_ontology db db' \<Longrightarrow> onto_inv db \<Longrightarrow> onto_inv db'"
  by (simp add: same_ontology_def onto_inv_def)

lemmas event_defs = record_ontogen_event_def record_review_event_def record_event_def seed_event_def

lemma conf_seed_steps:
  "get_conf now db = (c, db') \<Longrightarrow> same_ontology db db'"
  "put_conf now body db = Inr (c, db') \<Longrightarrow> same_ontology db db'"
  "patch_conf now p db = Inr (c, db') \<Longrightarrow> same_ontology db db'"
  "same_ontology db (delete_conf now db)"
  "create_seed i now b db = (s, db') \<Longrightarrow> same_ontology db db'"
  "patch_seed now uid b db = Inr (s, db') \<Longrightarrow> same_ontology db db'"
  "set_seed_enabled now uid on db = Inr (s, db') \<Longrightarrow> same_ontology db db'"
  "delete_seed now uid db = Inr db' \<Longrightarrow> same_ontology db db'"
  by (auto simp: same_ontology_def get_conf_def put_conf_def patch_conf_def delete_conf_def create_seed_def patch_seed_def
      set_seed_enabled_def delete_seed_def put_seed_def event_defs Let_def result_simps
      split: option.splits sum.splits prod.splits)

lemma verdict_status_in: "verdict_status v = Inr st \<Longrightarrow> st \<in> set STATUSES"
  by (auto simp: verdict_status_def STATUSES_def split: if_splits)

lemma review_nodeD:
  assumes "review_node now i v reason db = Inr (n, db')"
  shows "\<exists>row st. row_get on_id i (ob_nodes db) = Some row \<and> verdict_status v = Inr st \<and>
    ob_nodes db' = row_update on_id i (\<lambda>_. row\<lparr>on_status := st, on_updated := now\<rparr>) (ob_nodes db) \<and>
    ob_maps db' = map (\<lambda>m. if dm_node m = i then m\<lparr>dm_status := st\<rparr> else m) (ob_maps db) \<and>
    ob_edges db' = ob_edges db \<and> ob_triples db' = ob_triples db \<and> ob_node_emb db' = ob_node_emb db"
  using assms by (auto simp: review_node_def get_node_def result_simps event_defs Let_def split: option.splits)

lemma review_edgeD:
  assumes "review_edge now i v reason db = Inr (e, db')"
  shows "\<exists>row st. row_get oe_id i (ob_edges db) = Some row \<and> verdict_status v = Inr st \<and>
    ob_edges db' = row_update oe_id i (\<lambda>_. row\<lparr>oe_status := st, oe_updated := now\<rparr>) (ob_edges db) \<and>
    ob_nodes db' = ob_nodes db \<and> ob_maps db' = ob_maps db \<and> ob_triples db' = ob_triples db"
  using assms by (auto simp: review_edge_def get_edge_def result_simps event_defs Let_def split: option.splits)

lemma review_tripleD:
  assumes "review_triple now i v reason db = Inr (t, db')"
  shows "\<exists>row st. row_get ot_id i (ob_triples db) = Some row \<and> verdict_status v = Inr st \<and>
    (v = ''approve'' \<longrightarrow> triple_gate db row) \<and>
    ob_triples db' = row_update ot_id i (\<lambda>_. row\<lparr>ot_status := st, ot_updated := now\<rparr>) (ob_triples db) \<and>
    ob_nodes db' = ob_nodes db \<and> ob_maps db' = ob_maps db \<and> ob_edges db' = ob_edges db"
  using assms by (auto simp: review_triple_def get_triple_def result_simps event_defs Let_def split: option.splits if_splits)

lemma map_row_update_field:
  assumes "distinct (map key rows)" "row_get key i rows = Some row" "g row' = g row"
  shows "map g (row_update key i (\<lambda>_. row') rows) = map g rows"
proof -
  have "r = row" if "r \<in> set rows" "key r = i" for r
    using row_get_unique [OF assms(1) that(1)] that(2) assms(2) by simp
  with assms(3) show ?thesis by (auto simp: row_update_def)
qed

lemma review_node_inv:
  assumes "onto_inv db" "review_node now i v reason db = Inr (n, db')"
  shows "onto_inv db'"
proof -
  obtain row st where r: "row_get on_id i (ob_nodes db) = Some row" "verdict_status v = Inr st"
    "ob_nodes db' = row_update on_id i (\<lambda>_. row\<lparr>on_status := st, on_updated := now\<rparr>) (ob_nodes db)"
    "ob_maps db' = map (\<lambda>m. if dm_node m = i then m\<lparr>dm_status := st\<rparr> else m) (ob_maps db)"
    "ob_edges db' = ob_edges db" "ob_triples db' = ob_triples db"
    using review_nodeD [OF assms(2)] by blast
  have d: "distinct (map on_id (ob_nodes db))" using assms(1) by (simp add: onto_inv_def)
  have ids: "map on_id (ob_nodes db') = map on_id (ob_nodes db)" "map on_name (ob_nodes db') = map on_name (ob_nodes db)"
    unfolding r(3) by (rule map_row_update_field [OF d r(1)], simp)+
  then have img: "on_id ` set (ob_nodes db') = on_id ` set (ob_nodes db)" by (metis list.set_map)
  have row: "row \<in> set (ob_nodes db)" using row_get_SomeD [OF r(1)] by simp
  have rows: "\<forall>x \<in> set (ob_nodes db'). good_id (on_id x) \<and> on_status x \<in> set STATUSES"
    unfolding r(3) using assms(1) row verdict_status_in [OF r(2)] by (auto simp: set_row_update onto_inv_def)
  have keys: "map (\<lambda>m. (dm_urn m, dm_node m)) (ob_maps db') = map (\<lambda>m. (dm_urn m, dm_node m)) (ob_maps db)"
    unfolding r(4) by simp
  have maps: "\<forall>m \<in> set (ob_maps db'). dm_node m \<in> on_id ` set (ob_nodes db)"
    unfolding r(4) using assms(1) by (auto simp: onto_inv_def)
  show ?thesis using assms(1) rows maps unfolding onto_inv_def ids keys img r(5,6) by blast
qed

lemma review_edge_inv:
  assumes "onto_inv db" "review_edge now i v reason db = Inr (e, db')"
  shows "onto_inv db'"
proof -
  obtain row st where r: "row_get oe_id i (ob_edges db) = Some row" "verdict_status v = Inr st"
    "ob_edges db' = row_update oe_id i (\<lambda>_. row\<lparr>oe_status := st, oe_updated := now\<rparr>) (ob_edges db)"
    "ob_nodes db' = ob_nodes db" "ob_maps db' = ob_maps db" "ob_triples db' = ob_triples db"
    using review_edgeD [OF assms(2)] by blast
  have d: "distinct (map oe_id (ob_edges db))" using assms(1) by (simp add: onto_inv_def)
  have ids: "map oe_id (ob_edges db') = map oe_id (ob_edges db)" "map oe_label (ob_edges db') = map oe_label (ob_edges db)"
    unfolding r(3) by (rule map_row_update_field [OF d r(1)], simp)+
  then have img: "oe_id ` set (ob_edges db') = oe_id ` set (ob_edges db)" by (metis list.set_map)
  have row: "row \<in> set (ob_edges db)" using row_get_SomeD [OF r(1)] by simp
  have rows: "\<forall>x \<in> set (ob_edges db'). good_id (oe_id x) \<and> oe_status x \<in> set STATUSES"
    unfolding r(3) using assms(1) row verdict_status_in [OF r(2)] by (auto simp: set_row_update onto_inv_def)
  show ?thesis using assms(1) rows unfolding onto_inv_def ids img r(4-6) by blast
qed

lemma review_triple_inv:
  assumes "onto_inv db" "review_triple now i v reason db = Inr (t, db')"
  shows "onto_inv db'"
proof -
  obtain row st where r: "row_get ot_id i (ob_triples db) = Some row" "verdict_status v = Inr st"
    "ob_triples db' = row_update ot_id i (\<lambda>_. row\<lparr>ot_status := st, ot_updated := now\<rparr>) (ob_triples db)"
    "ob_nodes db' = ob_nodes db" "ob_maps db' = ob_maps db" "ob_edges db' = ob_edges db"
    using review_tripleD [OF assms(2)] by blast
  have d: "distinct (map ot_id (ob_triples db))" using assms(1) by (simp add: onto_inv_def)
  have ids: "map ot_id (ob_triples db') = map ot_id (ob_triples db)"
    unfolding r(3) by (rule map_row_update_field [OF d r(1)]) simp
  have row: "row \<in> set (ob_triples db)" using row_get_SomeD [OF r(1)] by simp
  have "\<forall>t \<in> set (ob_triples db'). ot_id t = composite_id (ot_subject t) (ot_edge t) (ot_object t) \<and>
        ot_subject t \<in> on_id ` set (ob_nodes db) \<and> ot_object t \<in> on_id ` set (ob_nodes db) \<and>
        ot_edge t \<in> oe_id ` set (ob_edges db) \<and> ot_status t \<in> set STATUSES"
    unfolding r(3) using assms(1) row verdict_status_in [OF r(2)] by (auto simp: set_row_update onto_inv_def)
  with assms(1) show ?thesis unfolding onto_inv_def ids r(4-6) by blast
qed

lemma onto_step_inv: "onto_step db db' \<Longrightarrow> onto_inv db \<Longrightarrow> onto_inv db'"
proof (induction rule: onto_step.induct)
  case (inference env token end_time event_ok prompt dry db r res db' r')
  from run_sound [OF inference.prems inference.hyps] show ?case by (auto simp: sound_def)
qed (blast intro: same_ontology_inv conf_seed_steps review_node_inv review_edge_inv review_triple_inv)+

interpretation onto: step_invariant onto_step onto_inv
  by unfold_locales (rule onto_step_inv)

lemma empty_inv: "onto_inv empty_ontology"
  by (simp add: onto_inv_def empty_ontology_def)

section \<open>Properties\<close>

text \<open>
  C28. The ontology tables after any sequence of operations of the service (configuration, seeds, reviews and inference
  runs, failed runs included) that starts from empty tables: node and edge identifiers are slugs of at most 64 characters, unique, with
  unique names and labels; every triple refers to existing rows and is named by their
  identifiers; every dataset map refers to an existing node and there is one for each dataset and node; every status is
  one of the four.
\<close>

theorem ontology_well_formed:
  assumes "onto_step\<^sup>*\<^sup>* empty_ontology db"
  shows "onto_inv db"
  using assms empty_inv by (rule onto.run_keeps)

text \<open>A name is proposed, accepted by the debate and reviewed.\<close>

definition example_proposal :: llm_output where
  "example_proposal =
     \<lparr>lo_nodes = [\<lparr>ln_id = Some ''c'', ln_name = ''Customer'', ln_description = ''buys'', ln_confidence = 9/10,
        ln_dataset_urns = [''urn:a''], ln_rebuttal = None\<rparr>],
      lo_edges = [\<lparr>le_id = Some ''k'', le_label = ''knows'', le_semantics = [], le_confidence = 1/2, le_rebuttal = None\<rparr>],
      lo_triples = [\<lparr>lt_subject = ''c'', lt_edge = ''k'', lt_object = ''c'', lt_confidence = 1, lt_rebuttal = None\<rparr>]\<rparr>"

definition example_run_env :: run_env where
  "example_run_env =
     \<lparr>rn_sql = \<lambda>r c. Some True, rn_registry = [], rn_evidence = \<lambda>u. None, rn_prompt = \<lambda>s ev p. [],
      rn_debate = \<lambda>p S. Inr (JObj [], Accepted),
      rn_schema = \<lambda>j. Inr example_proposal,
      rn_pick = \<lambda>q ids. None, rn_embed_ok = \<lambda>i. True, rn_id = 7, rn_now = 5\<rparr>"

definition enabled_ontology :: ontogen_db where
  "enabled_ontology = (case put_conf 1 \<lparr>cb_enabled = Some True, cb_tier = None, cb_filter = None, cb_prompt = None\<rparr> empty_ontology of
     Inr (c, db) \<Rightarrow> db | Inl e \<Rightarrow> empty_ontology)"

definition example_ontology :: ontogen_db where
  "example_ontology = fst (snd (run example_run_env ''tok'' 6 True None False (enabled_ontology, Map.empty)))"

lemma example_ontology_reached: "onto_step\<^sup>*\<^sup>* empty_ontology example_ontology"
proof -
  have "\<exists>c. put_conf 1 \<lparr>cb_enabled = Some True, cb_tier = None, cb_filter = None, cb_prompt = None\<rparr> empty_ontology = Inr (c, enabled_ontology)"
  proof -
    let ?p = "put_conf 1 \<lparr>cb_enabled = Some True, cb_tier = None, cb_filter = None, cb_prompt = None\<rparr> empty_ontology"
    have "(case ?p of Inr (c, db) \<Rightarrow> True | Inl e \<Rightarrow> False)" by code_simp
    then show ?thesis by (cases ?p) (auto simp: enabled_ontology_def)
  qed
  then have "onto_step empty_ontology enabled_ontology" using onto_step.conf_put by blast
  moreover have "onto_step enabled_ontology example_ontology"
  proof -
    obtain res db' r' where r: "run example_run_env ''tok'' 6 True None False (enabled_ontology, Map.empty) = (res, db', r')"
      by (metis prod_cases3)
    then have "example_ontology = db'" by (simp add: example_ontology_def)
    with onto_step.inference [OF r] show ?thesis by simp
  qed
  ultimately show ?thesis by (meson converse_rtranclp_into_rtranclp rtranclp.rtrancl_refl)
qed

definition example_prepared :: prepared where
  "example_prepared =
     \<lparr>pr_nodes = [\<lparr>pn_id = ''customer'', pn_name = ''Customer'', pn_description = ''buys'', pn_confidence = 9/10,
        pn_status = ''llm_approved'', pn_reuse = False, pn_urns = [''urn:a'']\<rparr>],
      pr_edges = [\<lparr>pe_id = ''knows'', pe_label = ''knows'', pe_semantics = None, pe_confidence = 1/2, pe_status = ''llm_pending''\<rparr>],
      pr_triples = [\<lparr>pt_id = ''customer__knows__customer'', pt_subject = ''customer'', pt_edge = ''knows'', pt_object = ''customer'',
        pt_confidence = 1, pt_status = ''llm_approved''\<rparr>]\<rparr>"

lemma example_stages:
  "oc_enabled (fst (get_conf 5 enabled_ontology)) \<and> snd (get_conf 5 enabled_ontology) = enabled_ontology \<and>
   oc_filter (fst (get_conf 5 enabled_ontology)) = []"
  "candidate_output (\<lambda>j. Inr example_proposal) (JObj []) = Inr example_proposal"
  "resolve_dataset_scope (\<lambda>r c. Some True) [] (Some []) None = Inr \<lparr>resolved_urns = [], unresolved_urns = []\<rparr>"
  "prepare (\<lambda>q ids. None) enabled_ontology Accepted example_proposal = example_prepared"
  "fst (persist (\<lambda>i. True) 7 5 example_prepared enabled_ontology) = Inr (1, 1, 1)"
  "ob_node_emb (snd (persist (\<lambda>i. True) 7 5 example_prepared enabled_ontology)) = [(''customer'', ''llm_approved'')]"
  "map (\<lambda>n. (on_id n, on_status n)) (ob_nodes (snd (persist (\<lambda>i. True) 7 5 example_prepared enabled_ontology))) = [(''customer'', ''llm_approved'')]"
  "map (\<lambda>e. (oe_id e, oe_status e)) (ob_edges (snd (persist (\<lambda>i. True) 7 5 example_prepared enabled_ontology))) = [(''knows'', ''llm_pending'')]"
  "map (\<lambda>t. (ot_id t, ot_status t)) (ob_triples (snd (persist (\<lambda>i. True) 7 5 example_prepared enabled_ontology))) = [(''customer__knows__customer'', ''llm_approved'')]"
  by code_simp+

lemma example_inner:
  "\<exists>sm. run_inner example_run_env None False enabled_ontology =
     (Inr sm, run_event example_run_env sm Accepted (snd (persist (\<lambda>i. True) 7 5 example_prepared enabled_ontology)))"
proof -
  obtain conf where c: "get_conf 5 enabled_ontology = (conf, enabled_ontology)" "oc_enabled conf" "oc_filter conf = []"
    using example_stages(1) by (metis prod.collapse)
  obtain db where p: "persist (\<lambda>i. True) 7 5 example_prepared enabled_ontology = (Inr (1, 1, 1), db)"
    using example_stages(5) by (metis prod.collapse)
  show ?thesis
    by (simp add: run_inner_def example_run_env_def Let_def c example_stages(2-4) p gathered_def)
qed

lemma example_rows:
  "map (\<lambda>n. (on_id n, on_status n)) (ob_nodes example_ontology) = [(''customer'', ''llm_approved'')]"
  "map (\<lambda>e. (oe_id e, oe_status e)) (ob_edges example_ontology) = [(''knows'', ''llm_pending'')]"
  "map (\<lambda>t. (ot_id t, ot_status t)) (ob_triples example_ontology) = [(''customer__knows__customer'', ''llm_approved'')]"
  "ob_node_emb example_ontology = [(''customer'', ''llm_approved'')]"
proof -
  obtain sm where i: "run_inner example_run_env None False enabled_ontology =
     (Inr sm, run_event example_run_env sm Accepted (snd (persist (\<lambda>i. True) 7 5 example_prepared enabled_ontology)))"
    using example_inner by blast
  have eq: "example_ontology = run_event example_run_env sm Accepted (snd (persist (\<lambda>i. True) 7 5 example_prepared enabled_ontology))"
    by (simp add: example_ontology_def run_def i set_nx_def redis_get_def)
  show "map (\<lambda>n. (on_id n, on_status n)) (ob_nodes example_ontology) = [(''customer'', ''llm_approved'')]"
    "map (\<lambda>e. (oe_id e, oe_status e)) (ob_edges example_ontology) = [(''knows'', ''llm_pending'')]"
    "map (\<lambda>t. (ot_id t, ot_status t)) (ob_triples example_ontology) = [(''customer__knows__customer'', ''llm_approved'')]"
    "ob_node_emb example_ontology = [(''customer'', ''llm_approved'')]"
    unfolding eq by (simp_all add: run_event_def event_defs example_stages(6-9))
qed

theorem ontology_well_formed_witness:
  "onto_inv example_ontology \<and> map ot_id (ob_triples example_ontology) = [''customer__knows__customer'']"
proof -
  have "map fst (map (\<lambda>t. (ot_id t, ot_status t)) (ob_triples example_ontology)) = [''customer__knows__customer'']"
    by (simp only: example_rows) simp
  with ontology_well_formed [OF example_ontology_reached] show ?thesis by (simp add: comp_def)
qed

text \<open>Identifiers without a double underscore and without an underscore at either end can be read back
  from the triple's name.\<close>

lemma us2_inside: "py_contains ''__'' (u @ CHR ''_'' # CHR ''_'' # v)"
  by (auto simp: py_contains_iff_sublist sublist_def intro: exI [of _ u])

lemma split_us2:
  assumes "slug_shape a" "slug_shape a'" "a @ ''__'' @ x = a' @ ''__'' @ x'"
  shows "a = a' \<and> x = x'"
proof -
  have wlog: "\<exists>u. a' = a @ u \<Longrightarrow> a = a'" if "slug_shape a" "slug_shape a'" "a @ ''__'' @ x = a' @ ''__'' @ x'" for a a' x x'
  proof -
    assume "\<exists>u. a' = a @ u"
    then obtain u where u: "a' = a @ u" by blast
    with that(3) have eq: "''__'' @ x = u @ ''__'' @ x'" by simp
    show "a = a'"
    proof (cases u)
      case (Cons c u')
      with eq have c: "c = CHR ''_''" by simp
      show ?thesis
      proof (cases u')
        case Nil
        with u Cons c have "last a' = CHR ''_''" by simp
        with that(2) show ?thesis by (simp add: slug_shape_def)
      next
        case (Cons d u'')
        with \<open>u = c # u'\<close> eq c have "d = CHR ''_''" by simp
        with u c Cons \<open>u = c # u'\<close> have "a' = a @ CHR ''_'' # CHR ''_'' # u''" by simp
        with us2_inside [of a u''] slug_shape_single [OF that(2)] show ?thesis by simp
      qed
    qed (use u in simp)
  qed
  have "(\<exists>u. a' = a @ u) \<or> (\<exists>u. a = a' @ u)" using assms(3) by (auto simp: append_eq_append_conv2)
  then have "a = a'" using wlog [OF assms] wlog [OF assms(2,1) assms(3) [symmetric]] by blast
  with assms(3) show ?thesis by simp
qed

lemma composite_id_inject:
  assumes "slug_shape a" "slug_shape b" "slug_shape a'" "slug_shape b'"
  shows "composite_id a b c = composite_id a' b' c' \<longleftrightarrow> a = a' \<and> b = b' \<and> c = c'"
proof
  assume e: "composite_id a b c = composite_id a' b' c'"
  have "a = a' \<and> b @ ''__'' @ c = b' @ ''__'' @ c'"
    using split_us2 [OF assms(1,3)] e unfolding composite_id_def by blast
  with split_us2 [OF assms(2,4)] show "a = a' \<and> b = b' \<and> c = c'" by blast
qed simp

text \<open>
  C29. The name of a triple determines it: in any reachable ontology two combinations of nodes and an edge
  have the same composite identifier only if they are the same combination, so that the double underscore the
  database reserves is never ambiguous and no two different relations collide on the primary key.
\<close>

theorem triple_ids_unambiguous:
  assumes "onto_step\<^sup>*\<^sup>* empty_ontology db"
    and "{a, c, a', c'} \<subseteq> on_id ` set (ob_nodes db)" "{b, b'} \<subseteq> oe_id ` set (ob_edges db)"
  shows "composite_id a b c = composite_id a' b' c' \<longleftrightarrow> a = a' \<and> b = b' \<and> c = c'"
proof -
  have inv: "onto_inv db" using assms(1) empty_inv by (rule onto.run_keeps)
  have "\<forall>i \<in> on_id ` set (ob_nodes db) \<union> oe_id ` set (ob_edges db). slug_shape i"
    using inv by (auto simp: onto_inv_def good_id_def)
  with assms(2,3) show ?thesis by (intro composite_id_inject) auto
qed

theorem triple_ids_unambiguous_witness:
  "(composite_id ''customer'' ''knows'' ''customer'' = composite_id ''customer'' ''knows'' ''customer'') =
     (''customer'' = ''customer'' \<and> ''knows'' = ''knows'' \<and> ''customer'' = ''customer'') \<and>
   composite_id ''a_'' ''b'' ''c'' = composite_id ''a'' ''_b'' ''c''"
proof -
  have "on_id ` set (ob_nodes example_ontology) = {''customer''}" "oe_id ` set (ob_edges example_ontology) = {''knows''}"
    using arg_cong [OF example_rows(1), of "\<lambda>xs. fst ` set xs"] arg_cong [OF example_rows(2), of "\<lambda>xs. fst ` set xs"]
    by (simp_all add: image_image)
  then have "{''customer'', ''customer'', ''customer'', ''customer''} \<subseteq> on_id ` set (ob_nodes example_ontology)"
    "{''knows'', ''knows''} \<subseteq> oe_id ` set (ob_edges example_ontology)" by simp_all
  from triple_ids_unambiguous [OF example_ontology_reached this] show ?thesis by (simp add: composite_id_def)
qed

text \<open>
  C30. What an inference run may decide, whether it succeeds or fails and whatever the model proposes: every node that existed keeps its
  identifier, status, run and creation time, existing edges and triples are untouched and nothing is deleted; a row that is new belongs to
  this run, is never \<open>approved\<close> or \<open>rejected\<close>, and is \<open>llm_approved\<close> only
  if the debate was accepted and, for edges and triples, exactly when the confidence then reaches the
  threshold.
\<close>

theorem run_keeps_decisions:
  assumes "onto_step\<^sup>*\<^sup>* empty_ontology db" "run env token t ok prompt dry (db, r) = (res, db', r')"
  shows "\<exists>oc. run_outcome env oc \<and> keeps_rows (rn_id env) oc db db'"
proof -
  have "onto_inv db" using assms(1) empty_inv by (rule onto.run_keeps)
  from run_sound [OF this assms(2)] show ?thesis unfolding sound_def by blast
qed

theorem run_keeps_decisions_witness:
  "\<exists>res db' r' oc. run example_run_env ''t2'' 9 True None False (example_ontology, Map.empty) = (res, db', r') \<and>
     run_outcome example_run_env oc \<and> keeps_rows 7 oc example_ontology db'"
proof -
  obtain res db' r' where r: "run example_run_env ''t2'' 9 True None False (example_ontology, Map.empty) = (res, db', r')"
    by (metis prod_cases3)
  from run_keeps_decisions [OF example_ontology_reached r] r show ?thesis
    by (auto simp: example_run_env_def)
qed

lemma onto_step_triples:
  assumes "onto_step db db'" "onto_inv db" "t \<in> set (ob_triples db')" "ot_status t = ''approved''"
  shows "(\<exists>t0 \<in> set (ob_triples db). ot_id t0 = ot_id t \<and> ot_status t0 = ''approved'') \<or> triple_gate db t"
  using assms
proof (cases rule: onto_step.cases)
  case (triple_review now i verdict reason t')
  from review_tripleD [OF triple_review] obtain row st where r: "row_get ot_id i (ob_triples db) = Some row"
    "verdict_status verdict = Inr st" "verdict = ''approve'' \<longrightarrow> triple_gate db row"
    "ob_triples db' = row_update ot_id i (\<lambda>_. row\<lparr>ot_status := st, ot_updated := now\<rparr>) (ob_triples db)" by blast
  have "verdict = ''approve''" if "st = ''approved''" using r(2) that by (auto simp: verdict_status_def split: if_splits)
  with assms(3,4) r show ?thesis by (auto simp: set_row_update triple_gate_def)
next
  case (inference env token end_time event_ok prompt dry r res r')
  from run_sound [OF assms(2) inference] obtain oc where
    "grows (\<lambda>t. ot_run_id t = Some (rn_id env) \<and> ot_status t = status_for_outcome (ot_confidence t) oc) (ob_triples db) (ob_triples db')"
    by (auto simp: sound_def keeps_rows_def)
  then have new: "t \<notin> set (ob_triples db) \<Longrightarrow> ot_status t = status_for_outcome (ot_confidence t) oc"
    using assms(3) by (auto simp: grows_def)
  have "t \<in> set (ob_triples db)"
    using new assms(4) status_for_outcome_in [of "ot_confidence t" oc] by fastforce
  with assms(4) show ?thesis by blast
next
  case (node_review now i verdict reason n)
  then show ?thesis using review_nodeD assms(3,4) by metis
next
  case (edge_review now i verdict reason e)
  then show ?thesis using review_edgeD assms(3,4) by metis
qed (use assms(3,4) conf_seed_steps in \<open>(metis same_ontology_def)+\<close>)

text \<open>
  C31. Approval of a triple: over every operation of the service, a triple that is approved afterwards and was not approved before
  was approved by a review at a moment when both its nodes and its edge were approved.
\<close>

theorem triple_approval_gated:
  assumes "onto_step\<^sup>*\<^sup>* empty_ontology db" "onto_step db db'" "t \<in> set (ob_triples db')" "ot_status t = ''approved''"
  shows "(\<exists>t0 \<in> set (ob_triples db). ot_id t0 = ot_id t \<and> ot_status t0 = ''approved'') \<or>
    (node_approved db (ot_subject t) \<and> edge_approved db (ot_edge t) \<and> node_approved db (ot_object t))"
proof -
  have "onto_inv db" using assms(1) empty_inv by (rule onto.run_keeps)
  from onto_step_triples [OF assms(2) this assms(3,4)] show ?thesis by (auto simp: triple_gate_def)
qed

lemma example_single:
  "\<exists>n. ob_nodes example_ontology = [n] \<and> on_id n = ''customer''"
  "\<exists>e. ob_edges example_ontology = [e] \<and> oe_id e = ''knows''"
  "\<exists>t. ob_triples example_ontology = [t] \<and> ot_id t = ''customer__knows__customer''"
  using example_rows(1-3) by auto

lemma example_approved:
  "\<exists>db. onto_step\<^sup>*\<^sup>* empty_ontology db \<and> node_approved db ''customer'' \<and> edge_approved db ''knows'' \<and>
     ob_triples db = ob_triples example_ontology"
proof -
  obtain n e where n: "ob_nodes example_ontology = [n]" "on_id n = ''customer''"
    and e: "ob_edges example_ontology = [e]" "oe_id e = ''knows''"
    using example_single by blast
  have "\<exists>x db1. review_node 10 ''customer'' ''approve'' None example_ontology = Inr (x, db1)"
    by (simp add: review_node_def get_node_def row_get_def n verdict_status_def Let_def)
  then obtain x db1 where r1: "review_node 10 ''customer'' ''approve'' None example_ontology = Inr (x, db1)" by blast
  from review_nodeD [OF r1] have d1: "ob_nodes db1 = [n\<lparr>on_status := ''approved'', on_updated := 10\<rparr>]"
    "ob_edges db1 = [e]" "ob_triples db1 = ob_triples example_ontology"
    by (auto simp: row_get_def n e verdict_status_def row_update_def)
  have "\<exists>y db2. review_edge 11 ''knows'' ''approve'' None db1 = Inr (y, db2)"
    by (simp add: review_edge_def get_edge_def row_get_def d1 e verdict_status_def Let_def)
  then obtain y db2 where r2: "review_edge 11 ''knows'' ''approve'' None db1 = Inr (y, db2)" by blast
  from review_edgeD [OF r2] have d2: "ob_edges db2 = [e\<lparr>oe_status := ''approved'', oe_updated := 11\<rparr>]"
    "ob_nodes db2 = ob_nodes db1" "ob_triples db2 = ob_triples db1"
    by (auto simp: row_get_def d1 e verdict_status_def row_update_def)
  have "onto_step\<^sup>*\<^sup>* empty_ontology db2"
    using example_ontology_reached onto_step.node_review [OF r1] onto_step.edge_review [OF r2] by (meson rtranclp.rtrancl_into_rtrancl)
  moreover have "node_approved db2 ''customer''" "edge_approved db2 ''knows''"
    using d1 d2 n e by (simp_all add: node_approved_def edge_approved_def row_get_def)
  ultimately show ?thesis using d1 d2 by metis
qed

theorem triple_approval_gated_witness:
  "\<exists>db db' t. onto_step\<^sup>*\<^sup>* empty_ontology db \<and> onto_step db db' \<and> t \<in> set (ob_triples db') \<and> ot_status t = ''approved'' \<and>
     ((\<exists>t0 \<in> set (ob_triples db). ot_id t0 = ot_id t \<and> ot_status t0 = ''approved'') \<or>
      (node_approved db (ot_subject t) \<and> edge_approved db (ot_edge t) \<and> node_approved db (ot_object t)))"
proof -
  obtain db where db: "onto_step\<^sup>*\<^sup>* empty_ontology db" "node_approved db ''customer''" "edge_approved db ''knows''"
    "ob_triples db = ob_triples example_ontology" using example_approved by blast
  obtain t where t: "ob_triples db = [t]" "ot_id t = ''customer__knows__customer''" using example_single(3) db(4) by auto
  have inv: "onto_inv db" using db(1) empty_inv by (rule onto.run_keeps)
  have c: "composite_id (ot_subject t) (ot_edge t) (ot_object t) = composite_id ''customer'' ''knows'' ''customer''"
    using inv t by (auto simp: onto_inv_def composite_id_def)
  have ids: "slug_shape (ot_subject t)" "slug_shape (ot_edge t)"
    using inv t by (auto simp: onto_inv_def good_id_def)
  have "slug_shape ''customer''" "slug_shape ''knows''" by code_simp+
  with composite_id_inject [OF ids] c have parts: "ot_subject t = ''customer''" "ot_edge t = ''knows''" "ot_object t = ''customer''"
    by blast+
  have "\<exists>x db'. review_triple 12 (ot_id t) ''approve'' None db = Inr (x, db')"
    using db(2,3) by (simp add: review_triple_def get_triple_def row_get_def t verdict_status_def Let_def triple_gate_def parts)
  then obtain x db' where r: "review_triple 12 (ot_id t) ''approve'' None db = Inr (x, db')" by blast
  from review_tripleD [OF r] have d: "ob_triples db' = [t\<lparr>ot_status := ''approved'', ot_updated := 12\<rparr>]"
    by (auto simp: row_get_def t verdict_status_def row_update_def)
  let ?t = "t\<lparr>ot_status := ''approved'', ot_updated := 12\<rparr>"
  have m: "?t \<in> set (ob_triples db')" "ot_status ?t = ''approved''" using d by simp_all
  from triple_approval_gated [OF db(1) onto_step.triple_review [OF r] m] db(1) onto_step.triple_review [OF r] m
  show ?thesis by blast
qed

section \<open>What modelling showed\<close>

text \<open>A rejected node keeps its embedding and the approval stored with it, so a later proposal is still
  resolved to it.\<close>

lemma rejected_node_still_found:
  "\<exists>db n. onto_step\<^sup>*\<^sup>* empty_ontology db \<and> n \<in> set (ob_nodes db) \<and> on_id n = ''customer'' \<and> on_status n = ''rejected'' \<and>
     search_nodes (\<lambda>q ids. if ids = [] then None else Some (hd ids)) db ''Client'' = Some ''customer''"
proof -
  obtain n where n: "ob_nodes example_ontology = [n]" "on_id n = ''customer''" using example_single by blast
  have "\<exists>x db1. review_node 10 ''customer'' ''reject'' None example_ontology = Inr (x, db1)"
    by (simp add: review_node_def get_node_def row_get_def n verdict_status_def Let_def)
  then obtain x db1 where r1: "review_node 10 ''customer'' ''reject'' None example_ontology = Inr (x, db1)" by blast
  from review_nodeD [OF r1] have d1: "ob_nodes db1 = [n\<lparr>on_status := ''rejected'', on_updated := 10\<rparr>]"
    "ob_node_emb db1 = [(''customer'', ''llm_approved'')]"
    by (auto simp: row_get_def n verdict_status_def row_update_def example_rows(4))
  have "onto_step\<^sup>*\<^sup>* empty_ontology db1"
    using example_ontology_reached onto_step.node_review [OF r1] by (meson rtranclp.rtrancl_into_rtrancl)
  moreover have "search_nodes (\<lambda>q ids. if ids = [] then None else Some (hd ids)) db1 ''Client'' = Some ''customer''"
    by (simp add: search_nodes_def d1(2))
  moreover have "n\<lparr>on_status := ''rejected'', on_updated := 10\<rparr> \<in> set (ob_nodes db1)" by (simp add: d1(1))
  ultimately show ?thesis using n(2)
    by (intro exI [of _ db1] exI [of _ "n\<lparr>on_status := ''rejected'', on_updated := 10\<rparr>"] conjI) simp_all
qed

text \<open>A run that meets a dataset map again overwrites the status a review gave it.\<close>

lemma run_demotes_map:
  "m \<in> set (ob_maps db) \<Longrightarrow> c < ONTOLOGY_CONFIDENCE_THRESHOLD \<Longrightarrow>
   \<exists>db' m'. upsert_map (dm_node m) c (0, dm_urn m) db = Inr db' \<and> m' \<in> set (ob_maps db') \<and> dm_node m' = dm_node m \<and>
     dm_urn m' = dm_urn m \<and> dm_status m' = ''llm_pending''"
  by (auto simp: upsert_map_def Let_def image_iff intro!: bexI [of _ m])

text \<open>Two proposals with one new name receive different identifiers and then collide on the name.\<close>

lemma same_name_twice_fails:
  "fst (persist (\<lambda>i. True) 7 5 (prepare (\<lambda>q ids. None) empty_ontology Accepted
      \<lparr>lo_nodes = [\<lparr>ln_id = None, ln_name = ''A'', ln_description = [], ln_confidence = 1, ln_dataset_urns = [], ln_rebuttal = None\<rparr>,
                   \<lparr>ln_id = None, ln_name = ''A'', ln_description = [], ln_confidence = 1, ln_dataset_urns = [], ln_rebuttal = None\<rparr>],
       lo_edges = [], lo_triples = []\<rparr>) empty_ontology) = Inl (IntegrityError ''ontogen_nodes_name_key'')"
  by code_simp

text \<open>A node whose slug is too long is skipped, its dataset maps are not.\<close>

lemma long_name_fails:
  "fst (persist (\<lambda>i. True) 7 5 \<lparr>pr_nodes = [\<lparr>pn_id = replicate 65 CHR ''a'', pn_name = replicate 65 CHR ''a'', pn_description = [],
        pn_confidence = 1, pn_status = ''llm_approved'', pn_reuse = False, pn_urns = [''urn:a'']\<rparr>], pr_edges = [], pr_triples = []\<rparr>
      empty_ontology) = Inl (IntegrityError ''dataset_node_map_node_id_fkey'')"
  by code_simp

end
