(* ===== verification/Metagen_Validator.thy ===== *)
theory Metagen_Validator
  imports Ontogen_Validator
begin

text \<open>
  \<open>src/backend/metagen/validator.py\<close>, the candidate models of \<open>debate_models.py\<close> and the target items of
  \<open>service.py\<close>: which descriptions a run asks for, the semantic rules a proposed candidate is checked against, and
  the producer loop with this validator. The Pydantic field check is a parameter, as for the ontology.
\<close>

section \<open>Item identifiers\<close>

definition py_endswith :: "string \<Rightarrow> string \<Rightarrow> bool" where
  "py_endswith s p \<longleftrightarrow> length p \<le> length s \<and> drop (length s - length p) s = p"

definition DATASET_KIND :: string where
  "DATASET_KIND = ''dataset.description''"

definition COLUMN_KIND :: string where
  "COLUMN_KIND = ''column.description''"

text \<open>\<open>item_id[len("column.") : -len(".description")]\<close> and \<open>f"column.{field_path}.description"\<close>.\<close>

definition item_field :: "string \<Rightarrow> string" where
  "item_field item_id = drop 7 (take (length item_id - 12) item_id)"

definition column_item :: "string \<Rightarrow> string" where
  "column_item field_path = ''column.'' @ field_path @ ''.description''"

definition item_kind :: "string \<Rightarrow> string" where
  "item_kind item_id = (if item_id = DATASET_KIND then DATASET_KIND else COLUMN_KIND)"

definition item_field_path :: "string \<Rightarrow> string option" where
  "item_field_path item_id = (if item_id = DATASET_KIND then None else Some (item_field item_id))"

text \<open>\<open>_ITEM_ID_RE.match\<close>; a dollar sign also matches before a final newline.\<close>

definition item_id_core :: "string \<Rightarrow> bool" where
  "item_id_core s \<longleftrightarrow> s = DATASET_KIND \<or>
     (py_startswith s ''column.'' \<and> py_endswith s ''.description'' \<and> 20 \<le> length s \<and> CHR ''.'' \<notin> set (item_field s))"

definition item_id_matches :: "string \<Rightarrow> bool" where
  "item_id_matches s \<longleftrightarrow> item_id_core s \<or> (s \<noteq> [] \<and> last s = CHR 0x0A \<and> item_id_core (butlast s))"

section \<open>The rules\<close>

record metagen_candidate =
  mc_dataset_urn :: string
  mc_item_id :: string
  mc_value :: string
  mc_confidence :: rat

type_synonym metagen_output = "metagen_candidate list"

type_synonym metagen_schema_fn = "json \<Rightarrow> (schema_error, metagen_output) result"

text \<open>What a run passes to the validator: the scope, the kinds each boundary allows, the columns of each schema
  and the items that have an approved candidate.\<close>

record metagen_rules =
  mr_scope :: "string list"
  mr_allowed :: "(string \<times> string list) list"
  mr_paths :: "(string \<times> string list) list"
  mr_approved :: "(string \<times> string) list"

definition get_list :: "(string \<times> 'a list) list \<Rightarrow> string \<Rightarrow> 'a list" where
  "get_list m k = (case map_of m k of Some xs \<Rightarrow> xs | None \<Rightarrow> [])"

definition VALUE_MAX_BYTES :: nat where
  "VALUE_MAX_BYTES = 16 * 1024"

text \<open>\<open>len(value.encode("utf-8"))\<close> for code points below 256.\<close>

definition utf8_length :: "string \<Rightarrow> nat" where
  "utf8_length s = sum_list (map (\<lambda>c. if code c < 128 then 1 else 2) s)"

definition mc_key :: "metagen_candidate \<Rightarrow> string \<times> string" where
  "mc_key c = (mc_dataset_urn c, mc_item_id c)"

text \<open>The body of the loop for a candidate that is in scope and has an identifier of the right form.\<close>

definition item_errors :: "metagen_rules \<Rightarrow> (string \<times> string) list \<Rightarrow> nat \<Rightarrow> metagen_candidate \<Rightarrow> validation_error list" where
  "item_errors rules seen i c =
     (let known = get_list (mr_paths rules) (mc_dataset_urn c); path = row_path ''candidates'' i in
      (case item_field_path (mc_item_id c) of
         Some f \<Rightarrow> if known \<noteq> [] \<and> f \<notin> set known then [verr (path ''.item_id'') ''UNKNOWN_FIELD_PATH''] else []
       | None \<Rightarrow> []) @
      (if item_kind (mc_item_id c) \<notin> set (get_list (mr_allowed rules) (mc_dataset_urn c))
         then [verr (path ''.item_id'') ''KIND_NOT_ALLOWED''] else []) @
      (if py_strip (mc_value c) = [] then [verr (path ''.value'') ''EMPTY_VALUE'']
       else if utf8_length (mc_value c) > VALUE_MAX_BYTES then [verr (path ''.value'') ''VALUE_TOO_LARGE''] else []) @
      (if 0 \<le> mc_confidence c \<and> mc_confidence c \<le> 1 then [] else [verr (path ''.confidence_score'') ''CONF_OUT_OF_RANGE'']) @
      (if mc_key c \<in> set seen then [verr (path '''') ''DUP_ITEM''] else []) @
      (if mc_key c \<in> set (mr_approved rules) then [verr (path '''') ''ITEM_ALREADY_APPROVED''] else []))"

fun candidate_errors :: "metagen_rules \<Rightarrow> (string \<times> string) list \<Rightarrow> nat \<Rightarrow> metagen_output \<Rightarrow> validation_error list" where
  "candidate_errors rules seen i [] = []"
| "candidate_errors rules seen i (c # cs) =
     (if mc_dataset_urn c \<notin> set (mr_scope rules)
        then verr (row_path ''candidates'' i ''.dataset_urn'') ''OUT_OF_SCOPE_URN'' # candidate_errors rules seen (Suc i) cs
      else if \<not> item_id_matches (mc_item_id c)
        then verr (row_path ''candidates'' i ''.item_id'') ''INVALID_ITEM_ID'' # candidate_errors rules seen (Suc i) cs
      else item_errors rules seen i c @ candidate_errors rules (mc_key c # seen) (Suc i) cs)"

definition validate_metagen_output :: "metagen_schema_fn \<Rightarrow> metagen_rules \<Rightarrow> json \<Rightarrow> validation_error list" where
  "validate_metagen_output schema rules payload =
     (case schema payload of
        Inl _ \<Rightarrow> [verr '''' ''SCHEMA'']
      | Inr out \<Rightarrow> candidate_errors rules [] 0 out)"

definition metagen_validate_tool :: "metagen_schema_fn \<Rightarrow> metagen_rules \<Rightarrow> tool_fn" where
  "metagen_validate_tool schema rules args =
     (case map_of args ''payload'' of
        Some (JObj d) \<Rightarrow> (let errs = validate_metagen_output schema rules (JObj d) in Tool_result (errs = []) errs)
      | _ \<Rightarrow> Tool_recoverable ''ValidationError'')"

definition metagen_schema :: "metagen_schema_fn \<Rightarrow> schema_check" where
  "metagen_schema schema payload =
     (case schema payload of
        Inl (loc, locs) \<Rightarrow> Schema_errors (map (\<lambda>l. verr l ''SCHEMA'') (loc # locs)) payload
      | Inr out \<Rightarrow> Schema_ok payload)"

definition metagen_producer ::
  "metagen_schema_fn \<Rightarrow> metagen_rules \<Rightarrow> chat_model \<Rightarrow> nat \<Rightarrow> string \<Rightarrow> (ds_error, loop_result) result" where
  "metagen_producer schema rules model max_iterations prompt =
     complete_with_tools model [(''metagen_validate'', metagen_validate_tool schema rules)] ''metagen_validate''
       (metagen_schema schema) [] max_iterations prompt"

section \<open>Target items\<close>

record target_item =
  tg_dataset_urn :: string
  tg_item_id :: string
  tg_kind :: string
  tg_field_path :: "string option"

text \<open>\<open>_enumerate_target_items\<close>; \<open>cols\<close> are the field paths of the gathered schema.\<close>

definition column_target :: "string \<Rightarrow> (string \<times> string) list \<Rightarrow> string \<Rightarrow> target_item option" where
  "column_target urn approved field_path =
     (if field_path = [] then None
      else if (urn, column_item field_path) \<in> set approved then None
      else Some \<lparr>tg_dataset_urn = urn, tg_item_id = column_item field_path, tg_kind = COLUMN_KIND, tg_field_path = Some field_path\<rparr>)"

definition enumerate_target_items :: "string \<Rightarrow> string list \<Rightarrow> string list \<Rightarrow> (string \<times> string) list \<Rightarrow> target_item list" where
  "enumerate_target_items urn allowed cols approved =
     (if DATASET_KIND \<in> set allowed \<and> (urn, DATASET_KIND) \<notin> set approved
      then [\<lparr>tg_dataset_urn = urn, tg_item_id = DATASET_KIND, tg_kind = DATASET_KIND, tg_field_path = None\<rparr>] else []) @
     (if COLUMN_KIND \<in> set allowed then List.map_filter (column_target urn approved) cols else [])"

text \<open>The rules of a run for one dataset.\<close>

definition rules_for :: "string \<Rightarrow> string list \<Rightarrow> string list \<Rightarrow> (string \<times> string) list \<Rightarrow> metagen_rules" where
  "rules_for urn allowed cols approved =
     \<lparr>mr_scope = [urn], mr_allowed = [(urn, allowed)], mr_paths = [(urn, filter (\<lambda>f. f \<noteq> []) cols)], mr_approved = approved\<rparr>"

section \<open>What the validator accepts\<close>

definition candidate_ok :: "metagen_rules \<Rightarrow> metagen_candidate \<Rightarrow> bool" where
  "candidate_ok rules c \<longleftrightarrow>
     mc_dataset_urn c \<in> set (mr_scope rules) \<and> item_id_matches (mc_item_id c) \<and>
     (mc_item_id c \<noteq> DATASET_KIND \<longrightarrow> get_list (mr_paths rules) (mc_dataset_urn c) \<noteq> [] \<longrightarrow>
        item_field (mc_item_id c) \<in> set (get_list (mr_paths rules) (mc_dataset_urn c))) \<and>
     item_kind (mc_item_id c) \<in> set (get_list (mr_allowed rules) (mc_dataset_urn c)) \<and>
     py_strip (mc_value c) \<noteq> [] \<and> utf8_length (mc_value c) \<le> VALUE_MAX_BYTES \<and>
     0 \<le> mc_confidence c \<and> mc_confidence c \<le> 1 \<and> mc_key c \<notin> set (mr_approved rules)"

definition coherent_candidates :: "metagen_rules \<Rightarrow> metagen_output \<Rightarrow> bool" where
  "coherent_candidates rules out \<longleftrightarrow> (\<forall>c \<in> set out. candidate_ok rules c) \<and> distinct (map mc_key out)"

lemma item_errors_empty:
  assumes "mc_dataset_urn c \<in> set (mr_scope rules)" "item_id_matches (mc_item_id c)"
  shows "item_errors rules seen i c = [] \<longleftrightarrow> candidate_ok rules c \<and> mc_key c \<notin> set seen"
  using assms by (auto simp: item_errors_def candidate_ok_def Let_def item_field_path_def)

lemma candidate_errors_empty:
  "candidate_errors rules seen i out = [] \<longleftrightarrow>
     coherent_candidates rules out \<and> (\<forall>c \<in> set out. mc_key c \<notin> set seen)"
proof (induction out arbitrary: seen i)
  case Nil
  then show ?case by (simp add: coherent_candidates_def)
next
  case (Cons c cs)
  show ?case
  proof (cases "mc_dataset_urn c \<in> set (mr_scope rules) \<and> item_id_matches (mc_item_id c)")
    case True
    then have "candidate_errors rules seen i (c # cs) = [] \<longleftrightarrow> candidate_ok rules c \<and> mc_key c \<notin> set seen \<and>
        coherent_candidates rules cs \<and> (\<forall>d \<in> set cs. mc_key d \<notin> set (mc_key c # seen))"
      using Cons [of "mc_key c # seen" "Suc i"] item_errors_empty [of c rules seen i] by simp
    then show ?thesis by (auto simp: coherent_candidates_def image_iff)
  qed (auto simp: coherent_candidates_def candidate_ok_def)
qed

lemma column_item_split:
  assumes "py_startswith s ''column.''" "py_endswith s ''.description''" "20 \<le> length s"
  shows "s = column_item (item_field s)"
proof -
  have t: "take 7 s = ''column.''" using assms(1) by (simp add: py_startswith_def eval_nat_numeral)
  have d: "drop (length s - 12) s = ''.description''" using assms(2) by (simp add: py_endswith_def eval_nat_numeral)
  have "s = take (length s - 12) s @ ''.description''" using d by (metis append_take_drop_id)
  moreover have "take (length s - 12) s = take 7 (take (length s - 12) s) @ item_field s"
    unfolding item_field_def by (rule append_take_drop_id [symmetric])
  moreover have "take 7 (take (length s - 12) s) = ''column.''" using t assms(3) by (simp add: min_def)
  ultimately show ?thesis unfolding column_item_def by (metis append.assoc)
qed

lemma item_field_column [simp]: "item_field (column_item f) = f"
  by (simp add: item_field_def column_item_def)

lemma column_item_not_dataset [simp]: "column_item f \<noteq> DATASET_KIND"
  by (simp add: column_item_def DATASET_KIND_def)

lemma column_item_inject [simp]: "column_item f = column_item g \<longleftrightarrow> f = g"
  by (simp add: column_item_def)

lemma column_target_mem:
  assumes "COLUMN_KIND \<in> set allowed" "f \<in> set cols" "column_target urn approved f = Some t"
  shows "t \<in> set (enumerate_target_items urn allowed cols approved)"
proof -
  have "t \<in> set (List.map_filter (column_target urn approved) cols)"
    using assms(2,3) by (force simp: map_filter_def)
  with assms(1) show ?thesis by (simp add: enumerate_target_items_def)
qed

lemma candidate_is_target:
  assumes "candidate_ok (rules_for urn allowed cols approved) c" "last (mc_item_id c) \<noteq> CHR 0x0A"
    and "\<exists>f \<in> set cols. f \<noteq> []"
  shows "\<exists>t \<in> set (enumerate_target_items urn allowed cols approved).
    tg_dataset_urn t = mc_dataset_urn c \<and> tg_item_id t = mc_item_id c"
proof -
  have u: "mc_dataset_urn c = urn" and core: "item_id_core (mc_item_id c)" and fresh: "(urn, mc_item_id c) \<notin> set approved"
    and kind: "item_kind (mc_item_id c) \<in> set allowed"
    using assms(1,2) by (auto simp: candidate_ok_def rules_for_def item_id_matches_def mc_key_def get_list_def)
  show ?thesis
  proof (cases "mc_item_id c = DATASET_KIND")
    case True
    with u fresh kind show ?thesis by (simp add: enumerate_target_items_def item_kind_def)
  next
    case False
    with core obtain f where f: "mc_item_id c = column_item f" "20 \<le> length (mc_item_id c)"
      using column_item_split unfolding item_id_core_def by blast
    have ne: "f \<noteq> []" using f by (auto simp: column_item_def)
    have "f \<in> set cols" using assms(1,3) u f(1)
      by (auto simp: candidate_ok_def rules_for_def get_list_def filter_empty_conv)
    moreover have "COLUMN_KIND \<in> set allowed" using kind False by (simp add: item_kind_def)
    moreover have "column_target urn approved f = Some \<lparr>tg_dataset_urn = urn, tg_item_id = column_item f, tg_kind = COLUMN_KIND,
        tg_field_path = Some f\<rparr>"
      using ne fresh f(1) by (simp add: column_target_def)
    ultimately show ?thesis using column_target_mem u f(1) by force
  qed
qed

section \<open>The producer\<close>

lemma metagen_tool_payload:
  assumes "metagen_validate_tool schema rules (args_with args (candidate_of args)) = Tool_result ok errs"
  shows "validate_metagen_output schema rules (candidate_of args) = errs \<and> (ok \<longleftrightarrow> errs = [])"
proof (cases "map_of args ''payload''")
  case None
  then have "''payload'' \<notin> fst ` set args" by (simp add: map_of_eq_None_iff)
  with None have "args_with args (candidate_of args) = args"
    by (simp add: args_with_def candidate_of_def dict_get_or_def)
  with assms None show ?thesis by (simp add: metagen_validate_tool_def)
next
  case (Some v)
  then have "candidate_of args = v" "''payload'' \<in> fst ` set args"
    by (auto simp: candidate_of_def dict_get_or_def dest: map_of_SomeD intro: rev_image_eqI)
  with assms show ?thesis
    by (auto simp: metagen_validate_tool_def args_with_def map_of_update_key Let_def split: json.splits)
qed

interpretation metagen_tool: validating_tool "metagen_schema schema" "metagen_validate_tool schema rules"
    "\<lambda>p. validate_metagen_output schema rules p = []"
  for schema rules
proof (unfold_locales, goal_cases)
  case (1 args p errs)
  then have "p = candidate_of args" by (auto simp: metagen_schema_def split: sum.splits prod.splits)
  with 1 metagen_tool_payload [of schema rules args True errs] show ?case by simp
next
  case (2 args p errs)
  then have "p = candidate_of args" by (auto simp: metagen_schema_def split: sum.splits prod.splits)
  with 2 metagen_tool_payload [of schema rules args False errs] show ?case by simp
next
  case (3 j errs p)
  then show ?case by (auto simp: metagen_schema_def split: sum.splits prod.splits)
qed

text \<open>
  C32. The metadata producer: when the loop ends without a remaining error, its payload parses to candidates each of which
  is in scope, names an item of a kind its boundary allows and a column of its schema when one is known, has a
  value that is neither blank nor above 16 KiB and a score in [0, 1], and is neither approved already nor proposed twice; under the
  rules a run builds for a dataset with a known schema, each of them is one of the items the run asked for, unless its
  identifier ends in a newline.
\<close>

theorem metagen_producer_sound:
  assumes "metagen_producer schema rules model n prompt = Inr r" "0 < n" "lt_final_errors (lr_trace r) = []"
  shows "\<exists>out. schema (lr_payload r) = Inr out \<and> coherent_candidates rules out \<and>
    (\<forall>urn allowed cols approved. rules = rules_for urn allowed cols approved \<longrightarrow> (\<exists>f \<in> set cols. f \<noteq> []) \<longrightarrow>
      (\<forall>c \<in> set out. last (mc_item_id c) = CHR 0x0A \<or>
        (\<exists>t \<in> set (enumerate_target_items urn allowed cols approved).
           tg_dataset_urn t = mc_dataset_urn c \<and> tg_item_id t = mc_item_id c)))"
proof -
  have "validate_metagen_output schema rules (lr_payload r) = []"
    using metagen_tool.complete_with_tools_trace [of "[(''metagen_validate'', metagen_validate_tool schema rules)]" "''metagen_validate''"
        schema rules model "[]" n prompt r] assms by (simp add: metagen_producer_def)
  then obtain out where "schema (lr_payload r) = Inr out" "coherent_candidates rules out"
    by (auto simp: validate_metagen_output_def candidate_errors_empty split: sum.splits)
  then show ?thesis using candidate_is_target unfolding coherent_candidates_def by blast
qed

definition example_candidates :: metagen_output where
  "example_candidates = [\<lparr>mc_dataset_urn = ''urn:a'', mc_item_id = ''column.id.description'', mc_value = ''Key'', mc_confidence = 9/10\<rparr>]"

definition example_metagen_chat :: chat_model where
  "example_metagen_chat i msgs = Reply [] [\<lparr>tc_name = Some ''metagen_validate'', tc_args = [(''payload'', JObj [(''candidates'', JList [])])], tc_id = ''c''\<rparr>]"

definition example_rules :: metagen_rules where
  "example_rules = rules_for ''urn:a'' [''column.description''] [''id'', ''name''] []"

theorem metagen_producer_sound_witness:
  "\<exists>r out. metagen_producer (\<lambda>_. Inr example_candidates) example_rules example_metagen_chat 2 ''p'' = Inr r \<and>
     lt_final_errors (lr_trace r) = [] \<and> out = example_candidates \<and> coherent_candidates example_rules out"
proof -
  let ?p = "metagen_producer (\<lambda>_. Inr example_candidates) example_rules example_metagen_chat 2 ''p''"
  have "(case ?p of Inr r \<Rightarrow> lt_final_errors (lr_trace r) = [] | Inl e \<Rightarrow> False)" by code_simp
  then obtain r where r: "?p = Inr r" "lt_final_errors (lr_trace r) = []" by (cases ?p) auto
  with metagen_producer_sound [OF r(1) _ r(2)] show ?thesis by auto
qed

text \<open>A column whose path contains a dot is asked for, but no candidate for it is ever accepted.\<close>

lemma dotted_target_refused:
  assumes "CHR ''.'' \<in> set f" "last f \<noteq> CHR 0x0A"
  shows "\<not> candidate_ok rules \<lparr>mc_dataset_urn = u, mc_item_id = column_item f, mc_value = v, mc_confidence = s\<rparr>"
    and "COLUMN_KIND \<in> set allowed \<Longrightarrow> f \<in> set cols \<Longrightarrow>
      \<exists>t \<in> set (enumerate_target_items u allowed cols []). tg_item_id t = column_item f"
proof -
  have "last (column_item f) \<noteq> CHR 0x0A" by (simp add: column_item_def)
  then show "\<not> candidate_ok rules \<lparr>mc_dataset_urn = u, mc_item_id = column_item f, mc_value = v, mc_confidence = s\<rparr>"
    using assms(1) by (simp add: candidate_ok_def item_id_matches_def item_id_core_def)
next
  assume "COLUMN_KIND \<in> set allowed" "f \<in> set cols"
  moreover have "column_target u [] f = Some \<lparr>tg_dataset_urn = u, tg_item_id = column_item f, tg_kind = COLUMN_KIND, tg_field_path = Some f\<rparr>"
    using assms(1) by (auto simp: column_target_def)
  ultimately show "\<exists>t \<in> set (enumerate_target_items u allowed cols []). tg_item_id t = column_item f"
    using column_target_mem by force
qed

end
