(* ===== verification/Metagen_Store.thy ===== *)
theory Metagen_Store
  imports Metagen_Validator Ontogen_Store
begin

text \<open>
  \<open>src/backend/metagen/service.py\<close>: the tables of the metadata generation service with their constraints, its
  configurations, boundaries, item and candidate views. A configuration identifier given by a caller is the outcome of
  \<open>uuid.UUID(conf_id)\<close>, \<open>None\<close> when that raises; \<open>str\<close> of an identifier is \<open>show_nat\<close>.
\<close>

section \<open>Tables\<close>

record metagen_config =
  cf_id :: nat
  cf_name :: string
  cf_enabled :: bool
  cf_tier :: "string option"
  cf_filter :: string
  cf_limit :: int
  cf_overwrite :: bool
  cf_created :: nat
  cf_updated :: nat

record metagen_boundary =
  bd_urn :: string
  bd_enabled :: bool
  bd_allowed :: "string list"
  bd_created :: nat
  bd_updated :: nat

record metagen_item =
  mi_urn :: string
  mi_item :: string
  mi_kind :: string
  mi_field :: "string option"
  mi_created :: nat
  mi_updated :: nat

record metagen_row =
  ca_id :: nat
  ca_conf :: "nat option"
  ca_urn :: string
  ca_item :: string
  ca_run :: nat
  ca_value :: string
  ca_confidence :: rat
  ca_status :: string
  ca_evidence :: jdict
  ca_created :: nat
  ca_reviewed :: "nat option"
  ca_reviewer :: "string option"

text \<open>Of an embedding only its candidate and its kind matter here.\<close>

record metagen_db =
  mb_confs :: "metagen_config list"
  mb_boundaries :: "metagen_boundary list"
  mb_items :: "metagen_item list"
  mb_cands :: "metagen_row list"
  mb_embs :: "(nat \<times> string) list"
  mb_events :: "event_row list"

definition mi_key :: "metagen_item \<Rightarrow> string \<times> string" where
  "mi_key i = (mi_urn i, mi_item i)"

definition ca_key :: "metagen_row \<Rightarrow> string \<times> string" where
  "ca_key c = (ca_urn c, ca_item c)"

section \<open>Statements and their constraints\<close>

definition conf_checks :: "metagen_config \<Rightarrow> metagen_config list \<Rightarrow> (ds_error, unit) result" where
  "conf_checks row others =
     (if cf_name row \<in> cf_name ` set others then Inl (IntegrityError ''uq_metagen_config_name'')
      else if \<not> (1 \<le> cf_limit row \<and> cf_limit row \<le> 20) then Inl (IntegrityError ''ck_metagen_config_result_limit'')
      else Inr ())"

definition insert_conf :: "metagen_config \<Rightarrow> metagen_db \<Rightarrow> (ds_error, metagen_db) result" where
  "insert_conf row db =
     (if cf_id row \<in> cf_id ` set (mb_confs db) then Inl (IntegrityError ''metagen_config_pkey'')
      else rmap (\<lambda>_. db\<lparr>mb_confs := mb_confs db @ [row]\<rparr>) (conf_checks row (mb_confs db)))"

definition update_conf :: "metagen_config \<Rightarrow> metagen_db \<Rightarrow> (ds_error, metagen_db) result" where
  "update_conf row db =
     rmap (\<lambda>_. db\<lparr>mb_confs := row_update cf_id (cf_id row) (\<lambda>_. row) (mb_confs db)\<rparr>)
       (conf_checks row (row_delete cf_id (cf_id row) (mb_confs db)))"

text \<open>The foreign key of the candidates is \<open>ON DELETE SET NULL\<close>.\<close>

definition remove_conf :: "nat \<Rightarrow> metagen_db \<Rightarrow> metagen_db" where
  "remove_conf i db =
     db\<lparr>mb_confs := row_delete cf_id i (mb_confs db),
        mb_cands := map (\<lambda>c. if ca_conf c = Some i then c\<lparr>ca_conf := None\<rparr> else c) (mb_cands db)\<rparr>"

definition insert_item :: "metagen_item \<Rightarrow> metagen_db \<Rightarrow> (ds_error, metagen_db) result" where
  "insert_item row db =
     (if mi_key row \<in> mi_key ` set (mb_items db) then Inl (IntegrityError ''metagen_items_pkey'')
      else if mi_kind row \<noteq> DATASET_KIND \<and> mi_kind row \<noteq> COLUMN_KIND then Inl (IntegrityError ''ck_metagen_items_kind'')
      else Inr (db\<lparr>mb_items := mb_items db @ [row]\<rparr>))"

text \<open>The partial unique index admits one approved candidate for each item.\<close>

definition CANDIDATE_STATUSES :: "string list" where
  "CANDIDATE_STATUSES = [''llm_approved'', ''approved'', ''rejected'']"

definition approved_clash :: "metagen_row \<Rightarrow> metagen_row list \<Rightarrow> bool" where
  "approved_clash row rows \<longleftrightarrow> ca_status row = ''approved'' \<and>
     (\<exists>c \<in> set rows. ca_id c \<noteq> ca_id row \<and> ca_key c = ca_key row \<and> ca_status c = ''approved'')"

definition insert_candidate :: "metagen_row \<Rightarrow> metagen_db \<Rightarrow> (ds_error, metagen_db) result" where
  "insert_candidate row db =
     (if ca_id row \<in> ca_id ` set (mb_cands db) then Inl (IntegrityError ''metagen_candidates_pkey'')
      else if ca_key row \<notin> mi_key ` set (mb_items db) then Inl (IntegrityError ''metagen_candidates_dataset_urn_fkey'')
      else if (case ca_conf row of None \<Rightarrow> False | Some i \<Rightarrow> i \<notin> cf_id ` set (mb_confs db))
        then Inl (IntegrityError ''metagen_candidates_conf_id_fkey'')
      else if ca_status row \<notin> set CANDIDATE_STATUSES then Inl (IntegrityError ''ck_metagen_candidates_status'')
      else if approved_clash row (mb_cands db) then Inl (IntegrityError ''ix_metagen_candidates_one_approved'')
      else Inr (db\<lparr>mb_cands := mb_cands db @ [row]\<rparr>))"

definition update_candidate :: "metagen_row \<Rightarrow> metagen_db \<Rightarrow> (ds_error, metagen_db) result" where
  "update_candidate row db =
     (if ca_status row \<notin> set CANDIDATE_STATUSES then Inl (IntegrityError ''ck_metagen_candidates_status'')
      else if approved_clash row (mb_cands db) then Inl (IntegrityError ''ix_metagen_candidates_one_approved'')
      else Inr (db\<lparr>mb_cands := row_update ca_id (ca_id row) (\<lambda>_. row) (mb_cands db)\<rparr>))"

text \<open>Deleting candidates that still have an embedding breaks the foreign key of the embeddings.\<close>

definition delete_embeddings :: "(metagen_row \<Rightarrow> bool) \<Rightarrow> metagen_db \<Rightarrow> metagen_db" where
  "delete_embeddings P db = db\<lparr>mb_embs := filter (\<lambda>(i, k). i \<notin> ca_id ` set (filter P (mb_cands db))) (mb_embs db)\<rparr>"

definition delete_candidates :: "(metagen_row \<Rightarrow> bool) \<Rightarrow> metagen_db \<Rightarrow> (ds_error, metagen_db) result" where
  "delete_candidates P db =
     (if \<exists>c \<in> set (mb_cands db). P c \<and> ca_id c \<in> fst ` set (mb_embs db)
      then Inl (IntegrityError ''metagen_candidate_embeddings_candidate_id_fkey'')
      else Inr (db\<lparr>mb_cands := filter (\<lambda>c. \<not> P c) (mb_cands db)\<rparr>))"

text \<open>\<open>_refresh_candidate_embedding\<close> with \<open>_upsert_candidate_embedding\<close>: whatever fails is logged and skipped.\<close>

definition refresh_candidate_embedding :: "bool \<Rightarrow> metagen_row \<Rightarrow> metagen_db \<Rightarrow> metagen_db" where
  "refresh_candidate_embedding ok c db =
     (if \<not> ok \<or> ca_id c \<notin> ca_id ` set (mb_cands db) then db
      else if ca_id c \<in> fst ` set (mb_embs db)
        then db\<lparr>mb_embs := map (\<lambda>(i, k). (i, if i = ca_id c then item_kind (ca_item c) else k)) (mb_embs db)\<rparr>
      else db\<lparr>mb_embs := mb_embs db @ [(ca_id c, item_kind (ca_item c))]\<rparr>)"

section \<open>Events\<close>

definition append_event :: "string \<Rightarrow> string \<Rightarrow> string \<Rightarrow> string \<Rightarrow> jdict \<Rightarrow> nat \<Rightarrow> metagen_db \<Rightarrow> metagen_db" where
  "append_event etype eid evtype st det now db =
     db\<lparr>mb_events := mb_events db @
       [\<lparr>ev_entity_type = etype, ev_entity_id = eid, ev_type = evtype, ev_status = st, ev_detail = det, ev_at = now\<rparr>]\<rparr>"

definition record_metagen_event :: "string \<Rightarrow> string \<Rightarrow> string \<Rightarrow> jdict \<Rightarrow> nat \<Rightarrow> metagen_db \<Rightarrow> metagen_db" where
  "record_metagen_event eid evtype st det now db = append_event ''metagen'' eid evtype st det now db"

definition record_dataset_event :: "string \<Rightarrow> string \<Rightarrow> string \<Rightarrow> jdict \<Rightarrow> nat \<Rightarrow> metagen_db \<Rightarrow> metagen_db" where
  "record_dataset_event urn evtype st det now db = append_event ''dataset'' urn evtype st det now db"

section \<open>Configurations\<close>

definition load_conf_row :: "nat option \<Rightarrow> metagen_db \<Rightarrow> (svc_error, metagen_config) result" where
  "load_conf_row cid db =
     (case cid of
        None \<Rightarrow> Inl (SvcErr (EntityNotFoundError ''metagen_conf''))
      | Some i \<Rightarrow> (case row_get cf_id i (mb_confs db) of
          None \<Rightarrow> Inl (SvcErr (EntityNotFoundError ''metagen_conf'')) | Some r \<Rightarrow> Inr r))"

record conf_dto =
  dt_conf :: metagen_config
  dt_affected :: nat
  dt_last_run :: "nat option"

text \<open>\<open>_load_conf_rollups\<close> for one configuration: the datasets with a candidate of it and its last run.\<close>

definition conf_affected :: "nat \<Rightarrow> metagen_db \<Rightarrow> nat" where
  "conf_affected i db = length (remdups (map ca_urn (filter (\<lambda>c. ca_conf c = Some i) (mb_cands db))))"

definition conf_last_run :: "nat \<Rightarrow> metagen_db \<Rightarrow> nat option" where
  "conf_last_run i db =
     (let times = map ev_at (filter (\<lambda>e. ev_entity_type e = ''metagen'' \<and> ev_entity_id e = show_nat i \<and>
            ev_type e \<in> {''METAGEN.RUN_COMPLETE'', ''METAGEN.RUN_FAILED''}) (mb_events db))
      in if times = [] then None else Some (foldr max times 0))"

definition conf_to_dto :: "metagen_config \<Rightarrow> conf_dto" where
  "conf_to_dto c = \<lparr>dt_conf = c, dt_affected = 0, dt_last_run = None\<rparr>"

definition with_rollups :: "metagen_db \<Rightarrow> metagen_config \<Rightarrow> conf_dto" where
  "with_rollups db c = (conf_to_dto c)\<lparr>dt_affected := conf_affected (cf_id c) db, dt_last_run := conf_last_run (cf_id c) db\<rparr>"

definition list_confs ::
  "nat \<Rightarrow> nat \<Rightarrow> (metagen_config list \<Rightarrow> metagen_config list) option \<Rightarrow> metagen_db \<Rightarrow> conf_dto list \<times> nat" where
  "list_confs offset limit order_by db =
     (map (with_rollups db) (page offset limit (ordered order_by cf_created (mb_confs db))), length (mb_confs db))"

definition get_metagen_conf :: "nat option \<Rightarrow> metagen_db \<Rightarrow> (svc_error, conf_dto) result" where
  "get_metagen_conf cid db = rmap (with_rollups db) (load_conf_row cid db)"

text \<open>A request body with the defaults of \<open>data.get\<close> for absent keys.\<close>

record conf_data =
  cd_name :: string
  cd_enabled :: "bool option"
  cd_tier :: "string option"
  cd_filter :: "string option"
  cd_limit :: "int option"
  cd_overwrite :: "bool option"

definition or_default :: "'a option \<Rightarrow> 'a \<Rightarrow> 'a" where
  "or_default x d = (case x of Some v \<Rightarrow> v | None \<Rightarrow> d)"

definition conf_of_data :: "conf_data \<Rightarrow> nat \<Rightarrow> nat \<Rightarrow> nat \<Rightarrow> metagen_config" where
  "conf_of_data data i created now =
     \<lparr>cf_id = i, cf_name = cd_name data, cf_enabled = or_default (cd_enabled data) False, cf_tier = cd_tier data,
      cf_filter = or_default (cd_filter data) [], cf_limit = or_default (cd_limit data) 3,
      cf_overwrite = or_default (cd_overwrite data) True, cf_created = created, cf_updated = now\<rparr>"

definition conf_event :: "string \<Rightarrow> string \<Rightarrow> jdict \<Rightarrow> nat \<Rightarrow> metagen_config \<Rightarrow> metagen_db \<Rightarrow> metagen_db" where
  "conf_event evtype operation extra now row db =
     record_metagen_event (show_nat (cf_id row)) evtype ''success''
       ([(''operation'', JStr operation), (''conf_id'', JStr (show_nat (cf_id row))), (''conf_name'', JStr (cf_name row))] @ extra) now db"

text \<open>The check of the filter, before anything is read.\<close>

definition check_filter :: "string \<Rightarrow> (svc_error, 'a) result \<Rightarrow> (svc_error, 'a) result" where
  "check_filter flt k = (case validate_dataset_filter_service (Some flt) of Inl e \<Rightarrow> Inl (FilterErr e) | Inr _ \<Rightarrow> k)"

definition svc :: "(ds_error, 'a) result \<Rightarrow> (svc_error, 'a) result" where
  "svc r = (case r of Inl e \<Rightarrow> Inl (SvcErr e) | Inr x \<Rightarrow> Inr x)"

definition create_metagen_conf :: "nat \<Rightarrow> nat \<Rightarrow> conf_data \<Rightarrow> metagen_db \<Rightarrow> (svc_error, conf_dto \<times> metagen_db) result" where
  "create_metagen_conf new_id now data db =
     check_filter (or_default (cd_filter data) [])
       (if cd_name data \<in> cf_name ` set (mb_confs db) then Inl (SvcErr (ConflictError ''METAGEN_CONF_EXISTS''))
        else
          let row = conf_of_data data new_id now now in
          svc (rmap (\<lambda>db'. (conf_to_dto row, conf_event ''METAGEN.CONFIG_CREATE'' ''POST'' [] now row db')) (insert_conf row db)))"

text \<open>The lookup before a rename.\<close>

definition name_clash :: "string \<Rightarrow> metagen_config \<Rightarrow> metagen_db \<Rightarrow> bool" where
  "name_clash name row db \<longleftrightarrow> name \<noteq> cf_name row \<and> (\<exists>c \<in> set (mb_confs db). cf_name c = name \<and> cf_id c \<noteq> cf_id row)"

definition save_conf :: "string \<Rightarrow> jdict \<Rightarrow> nat \<Rightarrow> metagen_config \<Rightarrow> metagen_db \<Rightarrow> (svc_error, conf_dto \<times> metagen_db) result" where
  "save_conf operation extra now row db =
     svc (rmap (\<lambda>db'. let db'' = conf_event ''METAGEN.CONFIG_UPDATE'' operation extra now row db' in (with_rollups db'' row, db''))
       (update_conf row db))"

definition put_metagen_conf :: "nat \<Rightarrow> nat option \<Rightarrow> conf_data \<Rightarrow> metagen_db \<Rightarrow> (svc_error, conf_dto \<times> metagen_db) result" where
  "put_metagen_conf now cid data db =
     check_filter (or_default (cd_filter data) []) (rbind (load_conf_row cid db) (\<lambda>row.
       if name_clash (cd_name data) row db then Inl (SvcErr (ConflictError ''METAGEN_CONF_EXISTS''))
       else save_conf ''PUT'' [] now (conf_of_data data (cf_id row) (cf_created row) now) db))"

text \<open>The keys of a PATCH with their values; only the tier may be set to null.\<close>

record metagen_conf_patch =
  mp_name :: "string option option"
  mp_enabled :: "bool option option"
  mp_tier :: "string option option"
  mp_filter :: "string option option"
  mp_limit :: "int option option"
  mp_overwrite :: "bool option option"
  mp_keys :: "string list"

definition patched :: "'a option option \<Rightarrow> 'a \<Rightarrow> 'a" where
  "patched p old = (case p of Some (Some v) \<Rightarrow> v | _ \<Rightarrow> old)"

definition patch_conf_row :: "metagen_conf_patch \<Rightarrow> nat \<Rightarrow> metagen_config \<Rightarrow> metagen_config" where
  "patch_conf_row p now c =
     c\<lparr>cf_name := patched (mp_name p) (cf_name c), cf_enabled := patched (mp_enabled p) (cf_enabled c),
       cf_filter := patched (mp_filter p) (cf_filter c), cf_limit := patched (mp_limit p) (cf_limit c),
       cf_overwrite := patched (mp_overwrite p) (cf_overwrite c), cf_tier := or_default (mp_tier p) (cf_tier c), cf_updated := now\<rparr>"

definition patch_metagen_conf ::
  "nat \<Rightarrow> nat option \<Rightarrow> metagen_conf_patch \<Rightarrow> metagen_db \<Rightarrow> (svc_error, conf_dto \<times> metagen_db) result" where
  "patch_metagen_conf now cid p db =
     (let k = rbind (load_conf_row cid db) (\<lambda>row.
            if name_clash (patched (mp_name p) (cf_name row)) row db then Inl (SvcErr (ConflictError ''METAGEN_CONF_EXISTS''))
            else save_conf ''PATCH'' [(''fields_changed'', JList (map JStr (mp_keys p)))] now (patch_conf_row p now row) db)
      in case mp_filter p of Some (Some f) \<Rightarrow> check_filter f k | _ \<Rightarrow> k)"

definition delete_metagen_conf :: "nat \<Rightarrow> nat option \<Rightarrow> string \<Rightarrow> metagen_db \<Rightarrow> (svc_error, metagen_db) result" where
  "delete_metagen_conf now cid conf_id db =
     rmap (\<lambda>row. record_metagen_event conf_id ''METAGEN.CONFIG_DELETE'' ''success''
         [(''operation'', JStr ''DELETE''), (''conf_id'', JStr conf_id)] now (remove_conf (cf_id row) db))
       (load_conf_row cid db)"

section \<open>Boundaries\<close>

definition get_boundary :: "string \<Rightarrow> metagen_db \<Rightarrow> metagen_boundary option" where
  "get_boundary urn db = row_get bd_urn urn (mb_boundaries db)"

definition valid_kinds :: "string list \<Rightarrow> bool" where
  "valid_kinds kinds \<longleftrightarrow> set kinds \<subseteq> {DATASET_KIND, COLUMN_KIND}"

definition put_boundary ::
  "nat \<Rightarrow> string \<Rightarrow> bool option \<Rightarrow> string list option \<Rightarrow> metagen_db \<Rightarrow> (ds_error, metagen_boundary \<times> metagen_db) result" where
  "put_boundary now urn enabled kinds db =
     (if \<not> valid_kinds (or_default kinds []) then Inl (PreconditionFailedError ''INVALID_PARAMETER'')
      else
        let new = \<lparr>bd_urn = urn, bd_enabled = or_default enabled False, bd_allowed = or_default kinds [], bd_created = now, bd_updated = now\<rparr>
        in case get_boundary urn db of
             None \<Rightarrow> Inr (new, db\<lparr>mb_boundaries := mb_boundaries db @ [new]\<rparr>)
           | Some old \<Rightarrow> (let row = new\<lparr>bd_created := bd_created old\<rparr>
               in Inr (row, db\<lparr>mb_boundaries := row_update bd_urn urn (\<lambda>_. row) (mb_boundaries db)\<rparr>)))"

definition patch_boundary ::
  "nat \<Rightarrow> string \<Rightarrow> bool option option \<Rightarrow> string list option option \<Rightarrow> metagen_db \<Rightarrow> (ds_error, metagen_boundary \<times> metagen_db) result" where
  "patch_boundary now urn enabled kinds db =
     (if \<not> valid_kinds (patched kinds []) then Inl (PreconditionFailedError ''INVALID_PARAMETER'')
      else case get_boundary urn db of
        None \<Rightarrow> Inl (EntityNotFoundError ''metagen_boundary'')
      | Some old \<Rightarrow>
          (let row = old\<lparr>bd_enabled := patched enabled (bd_enabled old), bd_allowed := patched kinds (bd_allowed old), bd_updated := now\<rparr>
           in Inr (row, db\<lparr>mb_boundaries := row_update bd_urn urn (\<lambda>_. row) (mb_boundaries db)\<rparr>)))"

definition delete_boundary :: "string \<Rightarrow> metagen_db \<Rightarrow> (ds_error, metagen_db) result" where
  "delete_boundary urn db =
     (case get_boundary urn db of
        None \<Rightarrow> Inl (EntityNotFoundError ''metagen_boundary'')
      | Some _ \<Rightarrow> Inr (db\<lparr>mb_boundaries := row_delete bd_urn urn (mb_boundaries db)\<rparr>))"

section \<open>Items and candidates\<close>

record item_summary =
  is_item :: metagen_item
  is_candidates :: nat
  is_non_rejected :: nat
  is_has_approved :: bool

definition candidates_of :: "metagen_db \<Rightarrow> metagen_item \<Rightarrow> metagen_row list" where
  "candidates_of db i = filter (\<lambda>c. ca_key c = mi_key i) (mb_cands db)"

definition build_item_summary :: "metagen_db \<Rightarrow> string option \<Rightarrow> metagen_item \<Rightarrow> item_summary option" where
  "build_item_summary db status i =
     (let cands = filter (\<lambda>c. case status of None \<Rightarrow> True | Some s \<Rightarrow> ca_status c = s) (candidates_of db i) in
      if status \<noteq> None \<and> cands = [] then None
      else Some \<lparr>is_item = i, is_candidates = length cands,
        is_non_rejected = length (filter (\<lambda>c. ca_status c \<noteq> ''rejected'') cands),
        is_has_approved = (\<exists>c \<in> set cands. ca_status c = ''approved'')\<rparr>)"

text \<open>A configuration filter: absent, or the outcome of parsing it.\<close>

definition with_conf_arg :: "nat option option \<Rightarrow> (nat option \<Rightarrow> 'a) \<Rightarrow> (ds_error, 'a) result" where
  "with_conf_arg conf k =
     (case conf of None \<Rightarrow> Inr (k None) | Some None \<Rightarrow> Inl (EntityNotFoundError ''metagen_conf'') | Some (Some i) \<Rightarrow> Inr (k (Some i)))"

definition list_items ::
  "string option \<Rightarrow> string option \<Rightarrow> string option \<Rightarrow> nat option option \<Rightarrow> nat \<Rightarrow> nat
     \<Rightarrow> (metagen_item list \<Rightarrow> metagen_item list) option \<Rightarrow> metagen_db \<Rightarrow> (ds_error, item_summary list \<times> nat) result" where
  "list_items dataset_urn knd status conf offset limit order_by db =
     with_conf_arg conf (\<lambda>cid.
       let base = filter (\<lambda>i. (case dataset_urn of None \<Rightarrow> True | Some u \<Rightarrow> mi_urn i = u) \<and>
              (case knd of None \<Rightarrow> True | Some k \<Rightarrow> mi_kind i = k) \<and>
              (case cid of None \<Rightarrow> True | Some n \<Rightarrow> \<exists>c \<in> set (candidates_of db i). ca_conf c = Some n) \<and>
              (case status of None \<Rightarrow> True | Some s \<Rightarrow> \<exists>c \<in> set (candidates_of db i). ca_status c = s)) (mb_items db)
       in (List.map_filter (build_item_summary db status) (page offset limit (ordered order_by mi_updated base)), length base))"

definition conf_name_map :: "metagen_db \<Rightarrow> nat option \<Rightarrow> string option" where
  "conf_name_map db cid = (case cid of None \<Rightarrow> None | Some i \<Rightarrow> map_option cf_name (row_get cf_id i (mb_confs db)))"

definition candidate_to_dto :: "metagen_db \<Rightarrow> metagen_row \<Rightarrow> metagen_row \<times> string option" where
  "candidate_to_dto db c = (c, conf_name_map db (ca_conf c))"

definition get_item :: "string \<Rightarrow> string \<Rightarrow> metagen_db \<Rightarrow> (ds_error, metagen_item \<times> (metagen_row \<times> string option) list) result" where
  "get_item dataset_urn item_id db =
     (case row_get mi_key (dataset_urn, item_id) (mb_items db) of
        None \<Rightarrow> Inl (EntityNotFoundError ''metagen_item'')
      | Some i \<Rightarrow> Inr (i, map (candidate_to_dto db) (desc_by ca_created (candidates_of db i))))"

definition count_dataset_candidates :: "string \<Rightarrow> metagen_db \<Rightarrow> nat" where
  "count_dataset_candidates urn db = length (filter (\<lambda>c. ca_urn c = urn) (mb_cands db))"

section \<open>Rollup by dataset\<close>

text \<open>PostgreSQL's \<open>ILIKE\<close> with a backslash as the escape character, on ASCII letters.\<close>

fun like :: "string \<Rightarrow> string \<Rightarrow> bool" where
  "like [] s \<longleftrightarrow> s = []"
| "like (p # ps) [] \<longleftrightarrow> p = CHR ''%'' \<and> like ps []"
| "like (p # ps) (c # cs) \<longleftrightarrow>
     (if p = CHR ''%'' then like ps (c # cs) \<or> like (p # ps) cs
      else if p = CHR ''_'' then like ps cs
      else if p = CHR 0x5C \<and> ps \<noteq> [] then hd ps = c \<and> like (tl ps) cs
      else p = c \<and> like ps cs)"

definition ilike_contains :: "string \<Rightarrow> string \<Rightarrow> bool" where
  "ilike_contains s needle \<longleftrightarrow> like (py_lower (''%'' @ needle @ ''%'')) (py_lower s)"

record dataset_summary =
  sm_urn :: string
  sm_enabled :: bool
  sm_allowed :: "string list"
  sm_items :: nat
  sm_approved :: nat
  sm_rejected :: nat
  sm_candidates :: nat
  sm_last :: nat

definition summarise :: "metagen_db \<Rightarrow> nat option \<Rightarrow> string \<Rightarrow> dataset_summary" where
  "summarise db cid urn =
     (let items = filter (\<lambda>i. mi_urn i = urn) (mb_items db);
          cands = filter (\<lambda>c. case cid of None \<Rightarrow> True | Some n \<Rightarrow> ca_conf c = Some n) (concat (map (candidates_of db) items));
          b = get_boundary urn db
      in \<lparr>sm_urn = urn, sm_enabled = (case b of None \<Rightarrow> False | Some b \<Rightarrow> bd_enabled b),
          sm_allowed = (case b of None \<Rightarrow> [] | Some b \<Rightarrow> bd_allowed b),
          sm_items = length (remdups (map mi_item items)),
          sm_approved = length (filter (\<lambda>c. ca_status c = ''approved'') cands),
          sm_rejected = length (filter (\<lambda>c. ca_status c = ''rejected'') cands),
          sm_candidates = length cands, sm_last = foldr max (map mi_created items) 0\<rparr>)"

definition list_dataset_summaries ::
  "string option \<Rightarrow> nat option option \<Rightarrow> nat \<Rightarrow> nat \<Rightarrow> bool \<Rightarrow> metagen_db \<Rightarrow> (ds_error, dataset_summary list \<times> nat) result" where
  "list_dataset_summaries dataset_urn conf offset limit sort_desc db =
     with_conf_arg conf (\<lambda>cid.
       let urns = filter (\<lambda>u. (case dataset_urn of None \<Rightarrow> True | Some d \<Rightarrow> ilike_contains u d) \<and>
              (case cid of None \<Rightarrow> True | Some n \<Rightarrow> \<exists>c \<in> set (mb_cands db). ca_urn c = u \<and> ca_conf c = Some n)) (remdups (map mi_urn (mb_items db)));
           rows = map (summarise db cid) urns
       in (page offset limit (if sort_desc then desc_by sm_last rows else sort_key sm_last rows), length rows))"

end
