(* ===== verification/Metagen_Coverage.thy ===== *)
theory Metagen_Coverage
  imports Metagen_Store
begin

text \<open>
  The coverage views of \<open>src/backend/metagen/service.py\<close>: which enabled configurations select a dataset
  (\<open>match_confs_for_urns\<close>, in batches), which registered datasets no configuration documents (\<open>list_uncovered\<close>) and
  which datasets one configuration covers (\<open>list_covered_datasets\<close>). The engine that evaluates a compiled filter on
  a row of the registry is the parameter \<open>sql\<close>.
\<close>

section \<open>The configurations of a page of datasets\<close>

definition CONF_CLAUSE_BATCH :: nat where
  "CONF_CLAUSE_BATCH = 8"

text \<open>\<open>for start in range(0, len(xs), n): xs[start : start + n]\<close>.\<close>

fun batches :: "nat \<Rightarrow> 'a list \<Rightarrow> 'a list list" where
  "batches n xs = (if n = 0 \<or> xs = [] then [] else take n xs # batches n (drop n xs))"

declare batches.simps [simp del]

definition enabled_confs :: "metagen_db \<Rightarrow> metagen_config list" where
  "enabled_confs db = filter cf_enabled (mb_confs db)"

definition conf_clauses :: "metagen_config list \<Rightarrow> (filter_error, clause list) result" where
  "conf_clauses confs = rmapM (\<lambda>c. dataset_filter_clause (Some (cf_filter c))) confs"

type_synonym conf_matches = "(string \<times> (nat \<times> string) list) list"

text \<open>One row of the answer: a truth value for each configuration of the batch.\<close>

definition row_matches :: "sql_engine_fn \<Rightarrow> (metagen_config \<times> clause) list \<Rightarrow> registry_row \<Rightarrow> (nat \<times> string) list" where
  "row_matches sql batch r = map (\<lambda>(c, cl). (cf_id c, cf_name c)) (filter (\<lambda>(c, cl). sql r cl = Some True) batch)"

definition add_matches :: "sql_engine_fn \<Rightarrow> (metagen_config \<times> clause) list \<Rightarrow> conf_matches \<Rightarrow> registry_row \<Rightarrow> conf_matches" where
  "add_matches sql batch m r = map (\<lambda>(u, ms). (u, if u = reg_dataset_urn r then ms @ row_matches sql batch r else ms)) m"

definition match_batch ::
  "sql_engine_fn \<Rightarrow> registry_row list \<Rightarrow> metagen_config list \<Rightarrow> conf_matches \<Rightarrow> (filter_error, conf_matches) result" where
  "match_batch sql rows batch m = rmap (\<lambda>cls. foldl (add_matches sql (zip batch cls)) m rows) (conf_clauses batch)"

definition match_confs_for_urns ::
  "sql_engine_fn \<Rightarrow> registry_row list \<Rightarrow> string list \<Rightarrow> metagen_db \<Rightarrow> (filter_error, conf_matches) result" where
  "match_confs_for_urns sql registry urns db =
     (if urns = [] then Inr []
      else rfold (match_batch sql (filter (\<lambda>r. reg_datahub_registered r \<and> reg_dataset_urn r \<in> set urns) registry))
        (batches CONF_CLAUSE_BATCH (sort_key cf_name (enabled_confs db))) (map (\<lambda>u. (u, [])) (add_new [] urns)))"

section \<open>Uncovered and covered datasets\<close>

text \<open>\<open>func.coalesce(sa.or_(*clauses), sa.false())\<close>; a disjunction of one clause is that clause.\<close>

definition matched_row :: "sql_engine_fn \<Rightarrow> clause list \<Rightarrow> registry_row \<Rightarrow> bool" where
  "matched_row sql cls r =
     (case cls of [] \<Rightarrow> False | [cl] \<Rightarrow> sql r cl = Some True | _ \<Rightarrow> sql r (Clause_or cls) = Some True)"

definition writable :: "metagen_db \<Rightarrow> string \<Rightarrow> bool" where
  "writable db urn = (case get_boundary urn db of None \<Rightarrow> False | Some b \<Rightarrow> bd_enabled b \<and> bd_allowed b \<noteq> [])"

definition asc_or :: "('r list \<Rightarrow> 'r list) option \<Rightarrow> ('r \<Rightarrow> string) \<Rightarrow> 'r list \<Rightarrow> 'r list" where
  "asc_or order_by f rows = (case order_by of Some g \<Rightarrow> g rows | None \<Rightarrow> sort_key f rows)"

definition urn_filter :: "string option \<Rightarrow> string \<Rightarrow> bool" where
  "urn_filter dataset_urn urn = (case dataset_urn of None \<Rightarrow> True | Some d \<Rightarrow> d \<noteq> [] \<longrightarrow> ilike_contains urn d)"

definition uncovered_rows ::
  "sql_engine_fn \<Rightarrow> registry_row list \<Rightarrow> bool \<Rightarrow> string option \<Rightarrow> metagen_db \<Rightarrow> (filter_error, (string \<times> string) list) result" where
  "uncovered_rows sql registry include_disallowed dataset_urn db =
     rmap (\<lambda>cls. map (\<lambda>r. (reg_dataset_urn r, if matched_row sql cls r then ''boundary_blocked'' else ''no_conf_match''))
         (filter (\<lambda>r. reg_datahub_registered r \<and> urn_filter dataset_urn (reg_dataset_urn r) \<and>
            (\<not> matched_row sql cls r \<or> (include_disallowed \<and> \<not> writable db (reg_dataset_urn r)))) registry))
       (conf_clauses (enabled_confs db))"

definition list_uncovered ::
  "sql_engine_fn \<Rightarrow> registry_row list \<Rightarrow> bool \<Rightarrow> string option \<Rightarrow> nat \<Rightarrow> nat \<Rightarrow> ((string \<times> string) list \<Rightarrow> (string \<times> string) list) option
     \<Rightarrow> metagen_db \<Rightarrow> (filter_error, (string \<times> string) list \<times> nat) result" where
  "list_uncovered sql registry include_disallowed dataset_urn offset limit order_by db =
     rmap (\<lambda>rows. (page offset limit (asc_or order_by fst rows), length rows))
       (uncovered_rows sql registry include_disallowed dataset_urn db)"

record covered_row =
  cv_urn :: string
  cv_enabled :: bool
  cv_allowed :: "string list"
  cv_blocked :: bool
  cv_reason :: "string option"

definition covered_row_of :: "metagen_db \<Rightarrow> string \<Rightarrow> covered_row" where
  "covered_row_of db urn =
     (let b = get_boundary urn db; blocked = \<not> writable db urn in
      \<lparr>cv_urn = urn, cv_enabled = (case b of None \<Rightarrow> False | Some b \<Rightarrow> bd_enabled b),
       cv_allowed = (case b of None \<Rightarrow> [] | Some b \<Rightarrow> bd_allowed b), cv_blocked = blocked,
       cv_reason = (if blocked then Some ''boundary_blocked'' else None)\<rparr>)"

definition covered_rows ::
  "sql_engine_fn \<Rightarrow> registry_row list \<Rightarrow> metagen_config \<Rightarrow> bool \<Rightarrow> string option \<Rightarrow> metagen_db \<Rightarrow> (filter_error, covered_row list) result" where
  "covered_rows sql registry conf include_disallowed dataset_urn db =
     rmap (\<lambda>cl. filter (\<lambda>v. include_disallowed \<or> \<not> cv_blocked v)
         (map (covered_row_of db) (filter (urn_filter dataset_urn)
           (map reg_dataset_urn (filter (\<lambda>r. reg_datahub_registered r \<and> sql r cl = Some True) registry)))))
       (dataset_filter_clause (Some (cf_filter conf)))"

definition list_covered_datasets ::
  "sql_engine_fn \<Rightarrow> registry_row list \<Rightarrow> nat option \<Rightarrow> bool \<Rightarrow> string option \<Rightarrow> nat \<Rightarrow> nat \<Rightarrow> (covered_row list \<Rightarrow> covered_row list) option
     \<Rightarrow> metagen_db \<Rightarrow> (svc_error, covered_row list \<times> nat) result" where
  "list_covered_datasets sql registry cid include_disallowed dataset_urn offset limit order_by db =
     rbind (load_conf_row cid db) (\<lambda>conf.
       case covered_rows sql registry conf include_disallowed dataset_urn db of
         Inl e \<Rightarrow> Inl (FilterErr e)
       | Inr rows \<Rightarrow> Inr (page offset limit (asc_or order_by cv_urn rows), length rows))"

section \<open>What the batches compute\<close>

lemma concat_batches: "0 < n \<Longrightarrow> concat (batches n xs) = xs"
proof (induction n xs rule: batches.induct)
  case (1 n xs)
  then show ?case by (subst batches.simps) simp
qed

lemma conf_clauses_append:
  "conf_clauses (xs @ ys) = rbind (conf_clauses xs) (\<lambda>cs. rmap (\<lambda>ds. cs @ ds) (conf_clauses ys))"
proof (induction xs)
  case Nil
  show ?case by (cases "conf_clauses ys") (simp_all add: conf_clauses_def)
next
  case (Cons x xs)
  then show ?case
    by (cases "dataset_filter_clause (Some (cf_filter x))"; cases "conf_clauses xs"; cases "conf_clauses ys")
      (auto simp: conf_clauses_def)
qed

lemma foldl_add_matches:
  "foldl (add_matches sql batch) m rows =
     map (\<lambda>(u, ms). (u, ms @ concat (map (row_matches sql batch) (filter (\<lambda>r. reg_dataset_urn r = u) rows)))) m"
  by (induction rows arbitrary: m) (auto simp: add_matches_def split: prod.splits)

text \<open>A configuration selects a dataset.\<close>

definition conf_selects :: "sql_engine_fn \<Rightarrow> registry_row list \<Rightarrow> string \<Rightarrow> metagen_config \<Rightarrow> bool" where
  "conf_selects sql registry u c \<longleftrightarrow> (\<exists>r \<in> set registry. reg_datahub_registered r \<and> reg_dataset_urn r = u \<and>
     (\<exists>cl. dataset_filter_clause (Some (cf_filter c)) = Inr cl \<and> sql r cl = Some True))"

lemma row_of_urn:
  assumes "distinct (map reg_dataset_urn registry)" "r \<in> set registry"
  shows "filter (\<lambda>x. reg_dataset_urn x = reg_dataset_urn r) registry = [r]"
  using assms by (induction registry) (auto simp: filter_empty_conv image_iff)

text \<open>A registry has one row for a dataset.\<close>

lemma selects_row:
  assumes "distinct (map reg_dataset_urn registry)" "r \<in> set registry" "reg_datahub_registered r"
    and "dataset_filter_clause (Some (cf_filter c)) = Inr cl"
  shows "conf_selects sql registry (reg_dataset_urn r) c \<longleftrightarrow> sql r cl = Some True"
proof -
  have only: "x = r" if "x \<in> set registry" "reg_dataset_urn x = reg_dataset_urn r" for x
    using assms(1,2) that by (auto simp: distinct_map dest: inj_onD)
  show ?thesis
  proof
    assume "conf_selects sql registry (reg_dataset_urn r) c"
    then obtain x where x: "x \<in> set registry" "reg_dataset_urn x = reg_dataset_urn r" "sql x cl = Some True"
      using assms(4) by (auto simp: conf_selects_def)
    from x(3) only [OF x(1,2)] show "sql r cl = Some True" by simp
  next
    assume "sql r cl = Some True"
    with assms(2-4) show "conf_selects sql registry (reg_dataset_urn r) c" unfolding conf_selects_def by blast
  qed
qed

lemma conf_clauses_zip:
  "conf_clauses cs = Inr cls \<Longrightarrow> length cls = length cs \<and>
     (\<forall>(c, cl) \<in> set (zip cs cls). dataset_filter_clause (Some (cf_filter c)) = Inr cl)"
  by (induction cs arbitrary: cls) (auto simp: conf_clauses_def result_simps)

lemma filter_zip_fst:
  "length ys = length xs \<Longrightarrow> (\<And>x y. (x, y) \<in> set (zip xs ys) \<Longrightarrow> Q x y = P x) \<Longrightarrow>
     map (\<lambda>(x, y). f x) (filter (\<lambda>(x, y). Q x y) (zip xs ys)) = map f (filter P xs)"
  by (induction ys xs rule: list_induct2) auto

lemma batch_selects:
  assumes "distinct (map reg_dataset_urn registry)" "conf_clauses cs = Inr cls" "u \<in> set urns"
  shows "concat (map (row_matches sql (zip cs cls)) (filter (\<lambda>r. reg_dataset_urn r = u)
      (filter (\<lambda>r. reg_datahub_registered r \<and> reg_dataset_urn r \<in> set urns) registry)))
    = map (\<lambda>c. (cf_id c, cf_name c)) (filter (conf_selects sql registry u) cs)"
proof (cases "\<exists>r \<in> set registry. reg_datahub_registered r \<and> reg_dataset_urn r = u")
  case True
  then obtain r where r: "r \<in> set registry" "reg_datahub_registered r" "reg_dataset_urn r = u" by blast
  have "filter (\<lambda>x. reg_dataset_urn x = u) (filter (\<lambda>x. reg_datahub_registered x \<and> reg_dataset_urn x \<in> set urns) registry)
      = filter (\<lambda>x. reg_datahub_registered x) (filter (\<lambda>x. reg_dataset_urn x = u) registry)"
    using assms(3) by (auto intro: filter_cong)
  also have "\<dots> = [r]" using row_of_urn [OF assms(1) r(1)] r(2,3) by simp
  finally have one: "filter (\<lambda>x. reg_dataset_urn x = u) (filter (\<lambda>x. reg_datahub_registered x \<and> reg_dataset_urn x \<in> set urns) registry) = [r]" .
  have "row_matches sql (zip cs cls) r = map (\<lambda>c. (cf_id c, cf_name c)) (filter (conf_selects sql registry u) cs)"
    unfolding row_matches_def
  proof (rule filter_zip_fst)
    show "length cls = length cs" using conf_clauses_zip [OF assms(2)] by simp
    fix c cl
    assume "(c, cl) \<in> set (zip cs cls)"
    then have "dataset_filter_clause (Some (cf_filter c)) = Inr cl" using conf_clauses_zip [OF assms(2)] by auto
    then show "(sql r cl = Some True) = conf_selects sql registry u c"
      using selects_row [OF assms(1) r(1,2)] r(3) by simp
  qed
  with one show ?thesis by simp
next
  case False
  then have "filter (\<lambda>r. reg_dataset_urn r = u) (filter (\<lambda>r. reg_datahub_registered r \<and> reg_dataset_urn r \<in> set urns) registry) = []"
    by (auto simp: filter_empty_conv)
  moreover have "filter (conf_selects sql registry u) cs = []" using False by (auto simp: filter_empty_conv conf_selects_def)
  ultimately show ?thesis by simp
qed

lemma match_batches:
  assumes "distinct (map reg_dataset_urn registry)" "conf_clauses (concat bs) = Inr cls" "fst ` set m \<subseteq> set urns"
  shows "rfold (match_batch sql (filter (\<lambda>r. reg_datahub_registered r \<and> reg_dataset_urn r \<in> set urns) registry)) bs m =
    Inr (map (\<lambda>(u, ms). (u, ms @ map (\<lambda>c. (cf_id c, cf_name c)) (filter (conf_selects sql registry u) (concat bs)))) m)"
  using assms(2,3)
proof (induction bs arbitrary: cls m)
  case Nil
  then show ?case by (simp add: case_prod_beta' map_idI)
next
  case (Cons b bs)
  then obtain c1 c2 where c: "conf_clauses b = Inr c1" "conf_clauses (concat bs) = Inr c2"
    by (auto simp: conf_clauses_append result_simps)
  let ?m = "map (\<lambda>(u, ms). (u, ms @ map (\<lambda>c. (cf_id c, cf_name c)) (filter (conf_selects sql registry u) b))) m"
  have "match_batch sql (filter (\<lambda>r. reg_datahub_registered r \<and> reg_dataset_urn r \<in> set urns) registry) b m = Inr ?m"
    using batch_selects [OF assms(1) c(1)] Cons.prems(2) by (auto simp: match_batch_def c(1) foldl_add_matches)
  moreover have "fst ` set ?m \<subseteq> set urns" using Cons.prems(2) by force
  ultimately show ?case using Cons.IH [OF c(2), of ?m] by (simp add: case_prod_beta')
qed


lemma matched_row_iff:
  assumes "sql_engine sql"
  shows "matched_row sql cls r \<longleftrightarrow> (\<exists>cl \<in> set cls. sql r cl = Some True)"
proof -
  have "sql r (Clause_or cs) = Some True \<longleftrightarrow> (\<exists>cl \<in> set cs. sql r cl = Some True)" if "cs \<noteq> []" for cs
    using sql_engine.sql_or [OF assms that, of r] tri_or_True [of "sql r" cs] by argo
  then show ?thesis unfolding matched_row_def by (simp split: list.split)
qed

lemma matched_selects:
  assumes "sql_engine sql" "conf_clauses cs = Inr cls"
    and "distinct (map reg_dataset_urn registry)" "r \<in> set registry" "reg_datahub_registered r"
  shows "matched_row sql cls r \<longleftrightarrow> (\<exists>c \<in> set cs. conf_selects sql registry (reg_dataset_urn r) c)"
proof -
  have "(\<exists>cl \<in> set cls. sql r cl = Some True) \<longleftrightarrow> (\<exists>c \<in> set cs. conf_selects sql registry (reg_dataset_urn r) c)"
    using assms(2)
  proof (induction cs arbitrary: cls)
    case (Cons c cs)
    then obtain cl cls' where cl: "cls = cl # cls'" "dataset_filter_clause (Some (cf_filter c)) = Inr cl" "conf_clauses cs = Inr cls'"
      by (auto simp: conf_clauses_def result_simps)
    from Cons.IH [OF cl(3)] selects_row [OF assms(3-5) cl(2), of sql] show ?case by (simp add: cl(1))
  qed (simp add: conf_clauses_def)
  then show ?thesis by (simp add: matched_row_iff [OF assms(1)])
qed

lemma conf_clauses_set:
  assumes "conf_clauses cs = Inr cls" "set ds \<subseteq> set cs"
  shows "\<exists>cls'. conf_clauses ds = Inr cls'"
  using assms rmapM_Inr_iff [of "\<lambda>c. dataset_filter_clause (Some (cf_filter c))"] unfolding conf_clauses_def by blast

lemma covered_iff:
  assumes "conf_clauses cs = Inr cls" "d \<in> set cs"
  shows "\<exists>vs. covered_rows sql registry d True None db = Inr vs \<and> (\<forall>u. u \<in> cv_urn ` set vs \<longleftrightarrow> conf_selects sql registry u d)"
proof -
  obtain cl where cl: "dataset_filter_clause (Some (cf_filter d)) = Inr cl"
    using assms rmapM_Inr_iff [of "\<lambda>c. dataset_filter_clause (Some (cf_filter c))"] unfolding conf_clauses_def by blast
  let ?us = "map reg_dataset_urn (filter (\<lambda>r. reg_datahub_registered r \<and> sql r cl = Some True) registry)"
  have "covered_rows sql registry d True None db = Inr (map (covered_row_of db) ?us)"
    by (simp add: covered_rows_def cl urn_filter_def)
  moreover have "cv_urn (covered_row_of db v) = v" for v by (simp add: covered_row_of_def Let_def)
  then have "cv_urn ` set (map (covered_row_of db) ?us) = set ?us" unfolding set_map image_image by simp
  moreover have "u \<in> set ?us \<longleftrightarrow> conf_selects sql registry u d" for u using cl by (auto simp: conf_selects_def)
  ultimately show ?thesis by (metis (no_types, lifting))
qed

lemma uncovered_iff:
  assumes "sql_engine sql" "distinct (map reg_dataset_urn registry)" "conf_clauses cs = Inr cls" "cs = enabled_confs db"
  shows "\<exists>rows. uncovered_rows sql registry blocked None db = Inr rows \<and>
    (\<forall>u. ((u, ''no_conf_match'') \<in> set rows \<longleftrightarrow> (\<forall>c \<in> set cs. \<not> conf_selects sql registry u c) \<and>
           (\<exists>r \<in> set registry. reg_datahub_registered r \<and> reg_dataset_urn r = u)) \<and>
         ((u, ''boundary_blocked'') \<in> set rows \<longleftrightarrow> blocked \<and> (\<exists>c \<in> set cs. conf_selects sql registry u c) \<and> \<not> writable db u))"
proof -
  define P where "P u \<longleftrightarrow> (\<exists>c \<in> set cs. conf_selects sql registry u c)" for u
  define R where "R = filter reg_datahub_registered registry"
  have reg: "u \<in> reg_dataset_urn ` set R" if "P u" for u using that by (auto simp: P_def conf_selects_def R_def)
  have mr: "matched_row sql cls r \<longleftrightarrow> P (reg_dataset_urn r)" if "r \<in> set R" for r
    using matched_selects [OF assms(1,3,2)] that by (auto simp: P_def R_def)
  let ?rows = "map (\<lambda>r. (reg_dataset_urn r, if P (reg_dataset_urn r) then ''boundary_blocked'' else ''no_conf_match''))
      (filter (\<lambda>r. \<not> P (reg_dataset_urn r) \<or> (blocked \<and> \<not> writable db (reg_dataset_urn r))) R)"
  have "filter (\<lambda>r. reg_datahub_registered r \<and> urn_filter None (reg_dataset_urn r) \<and>
      (\<not> matched_row sql cls r \<or> (blocked \<and> \<not> writable db (reg_dataset_urn r)))) registry
    = filter (\<lambda>r. \<not> matched_row sql cls r \<or> (blocked \<and> \<not> writable db (reg_dataset_urn r))) R"
    by (simp add: R_def urn_filter_def)
  also have "\<dots> = filter (\<lambda>r. \<not> P (reg_dataset_urn r) \<or> (blocked \<and> \<not> writable db (reg_dataset_urn r))) R"
    by (rule filter_cong [OF refl]) (simp add: mr)
  finally have f: "filter (\<lambda>r. reg_datahub_registered r \<and> urn_filter None (reg_dataset_urn r) \<and>
      (\<not> matched_row sql cls r \<or> (blocked \<and> \<not> writable db (reg_dataset_urn r)))) registry
    = filter (\<lambda>r. \<not> P (reg_dataset_urn r) \<or> (blocked \<and> \<not> writable db (reg_dataset_urn r))) R" .
  have rows: "uncovered_rows sql registry blocked None db = Inr ?rows"
    unfolding uncovered_rows_def assms(4) [symmetric] assms(3) rmap.simps f
    by (rule arg_cong [of _ _ Inr], rule map_cong [OF refl]) (simp add: mr)
  have n: "(u, ''no_conf_match'') \<in> set ?rows \<longleftrightarrow> \<not> P u \<and> u \<in> reg_dataset_urn ` set R"
    and b: "(u, ''boundary_blocked'') \<in> set ?rows \<longleftrightarrow> blocked \<and> P u \<and> \<not> writable db u \<and> u \<in> reg_dataset_urn ` set R" for u
    by (auto split: if_splits)
  have r: "u \<in> reg_dataset_urn ` set R \<longleftrightarrow> (\<exists>r \<in> set registry. reg_datahub_registered r \<and> reg_dataset_urn r = u)" for u
    by (auto simp: R_def)
  have p: "\<not> P u \<longleftrightarrow> (\<forall>c \<in> set cs. \<not> conf_selects sql registry u c)" for u by (simp add: P_def)
  have b': "blocked \<and> P u \<and> \<not> writable db u \<and> u \<in> reg_dataset_urn ` set R
      \<longleftrightarrow> blocked \<and> (\<exists>c \<in> set cs. conf_selects sql registry u c) \<and> \<not> writable db u" for u
    using reg [of u] unfolding P_def by argo
  show ?thesis
  proof (rule exI [of _ ?rows], intro conjI allI)
    show "uncovered_rows sql registry blocked None db = Inr ?rows" by (rule rows)
  next
    fix u
    from n [of u] p [of u] r [of u]
    show "(u, ''no_conf_match'') \<in> set ?rows \<longleftrightarrow> (\<forall>c \<in> set cs. \<not> conf_selects sql registry u c) \<and>
        (\<exists>r \<in> set registry. reg_datahub_registered r \<and> reg_dataset_urn r = u)" by argo
    from b [of u] b' [of u]
    show "(u, ''boundary_blocked'') \<in> set ?rows \<longleftrightarrow> blocked \<and> (\<exists>c \<in> set cs. conf_selects sql registry u c) \<and> \<not> writable db u" by argo
  qed
qed

lemma match_confs_exact:
  assumes "distinct (map reg_dataset_urn registry)" "conf_clauses (enabled_confs db) = Inr cls"
  shows "match_confs_for_urns sql registry urns db = Inr (map (\<lambda>u. (u, map (\<lambda>c. (cf_id c, cf_name c))
    (filter (conf_selects sql registry u) (sort_key cf_name (enabled_confs db))))) (add_new [] urns))"
proof (cases "urns = []")
  case False
  let ?sorted = "sort_key cf_name (enabled_confs db)"
  obtain cls' where c: "conf_clauses ?sorted = Inr cls'" using conf_clauses_set [OF assms(2), of ?sorted] by auto
  have b: "concat (batches CONF_CLAUSE_BATCH ?sorted) = ?sorted" by (simp add: concat_batches CONF_CLAUSE_BATCH_def)
  have c': "conf_clauses (concat (batches CONF_CLAUSE_BATCH ?sorted)) = Inr cls'" using c by (simp only: b)
  have "fst ` set (map (\<lambda>u. (u, [])) (add_new [] urns)) \<subseteq> set urns" by auto
  from match_batches [OF assms(1) c' this, of sql] False show ?thesis
    by (simp add: match_confs_for_urns_def comp_def b)
qed (simp add: match_confs_for_urns_def)

text \<open>
  C36. The coverage views agree, whatever the batches: when the filters of the enabled configurations compile, the batched
  lookup answers once for every dataset asked for, with exactly the enabled configurations that
  select it, in the order of their names; the uncovered view lists a registered dataset as unmatched exactly when
  that answer is empty, and, when asked for, as blocked exactly when it is not empty and the dataset is not writable; the covered
  view of a configuration lists a dataset exactly when the configuration is in the answer.
\<close>

theorem coverage_views_agree:
  assumes "sql_engine sql" "distinct (map reg_dataset_urn registry)" "conf_clauses (enabled_confs db) = Inr cls"
  shows "\<exists>m rows. match_confs_for_urns sql registry urns db = Inr m \<and> map fst m = add_new [] urns \<and>
    uncovered_rows sql registry blocked None db = Inr rows \<and>
    (\<forall>u ms. (u, ms) \<in> set m \<longrightarrow>
       ms = map (\<lambda>c. (cf_id c, cf_name c)) (filter (conf_selects sql registry u) (sort_key cf_name (enabled_confs db))) \<and>
       ((u, ''no_conf_match'') \<in> set rows \<longleftrightarrow> ms = [] \<and> (\<exists>r \<in> set registry. reg_datahub_registered r \<and> reg_dataset_urn r = u)) \<and>
       ((u, ''boundary_blocked'') \<in> set rows \<longleftrightarrow> blocked \<and> ms \<noteq> [] \<and> \<not> writable db u) \<and>
       (\<forall>c \<in> set (enabled_confs db). \<exists>vs. covered_rows sql registry c True None db = Inr vs \<and>
          (u \<in> cv_urn ` set vs \<longleftrightarrow> conf_selects sql registry u c)))"
proof -
  let ?m = "map (\<lambda>u. (u, map (\<lambda>c. (cf_id c, cf_name c)) (filter (conf_selects sql registry u) (sort_key cf_name (enabled_confs db)))))
    (add_new [] urns)"
  obtain rows where rows: "uncovered_rows sql registry blocked None db = Inr rows"
    "\<And>u. (u, ''no_conf_match'') \<in> set rows \<longleftrightarrow> (\<forall>c \<in> set (enabled_confs db). \<not> conf_selects sql registry u c) \<and>
           (\<exists>r \<in> set registry. reg_datahub_registered r \<and> reg_dataset_urn r = u)"
    "\<And>u. (u, ''boundary_blocked'') \<in> set rows \<longleftrightarrow> blocked \<and> (\<exists>c \<in> set (enabled_confs db). conf_selects sql registry u c) \<and> \<not> writable db u"
    using uncovered_iff [OF assms refl, of blocked] by blast
  have none: "ms = [] \<longleftrightarrow> (\<forall>c \<in> set (enabled_confs db). \<not> conf_selects sql registry u c)"
    and ms: "ms = map (\<lambda>c. (cf_id c, cf_name c)) (filter (conf_selects sql registry u) (sort_key cf_name (enabled_confs db)))"
    if "(u, ms) \<in> set ?m" for u ms
    using that by (auto simp: filter_empty_conv)
  have fst: "map fst ?m = add_new [] urns" by (simp add: comp_def)
  show ?thesis
  proof (intro exI [of _ ?m] exI [of _ rows] conjI allI impI ballI)
    show "match_confs_for_urns sql registry urns db = Inr ?m" by (rule match_confs_exact [OF assms(2,3)])
  next
    fix u ms d
    assume "d \<in> set (enabled_confs db)"
    then obtain vs where "covered_rows sql registry d True None db = Inr vs" "\<And>u. u \<in> cv_urn ` set vs \<longleftrightarrow> conf_selects sql registry u d"
      using covered_iff [OF assms(3), of d sql registry] by metis
    then show "\<exists>vs. covered_rows sql registry d True None db = Inr vs \<and> (u \<in> cv_urn ` set vs \<longleftrightarrow> conf_selects sql registry u d)"
      by metis
  next
    fix u ms
    assume mem: "(u, ms) \<in> set ?m"
    show "(u, ''no_conf_match'') \<in> set rows \<longleftrightarrow> ms = [] \<and> (\<exists>r \<in> set registry. reg_datahub_registered r \<and> reg_dataset_urn r = u)"
      unfolding rows(2) none [OF mem] by (rule refl)
    show "(u, ''boundary_blocked'') \<in> set rows \<longleftrightarrow> blocked \<and> ms \<noteq> [] \<and> \<not> writable db u"
      unfolding rows(3) none [OF mem] by simp
  next
    show "map fst ?m = add_new [] urns" by (rule fst)
    show "uncovered_rows sql registry blocked None db = Inr rows" by (rule rows(1))
  next
    fix u ms
    assume "(u, ms) \<in> set ?m"
    then show "ms = map (\<lambda>c. (cf_id c, cf_name c)) (filter (conf_selects sql registry u) (sort_key cf_name (enabled_confs db)))"
      by (rule ms)
  qed
qed

definition example_conf :: "nat \<Rightarrow> string \<Rightarrow> string \<Rightarrow> metagen_config" where
  "example_conf i name flt = \<lparr>cf_id = i, cf_name = name, cf_enabled = True, cf_tier = None, cf_filter = flt, cf_limit = 3,
     cf_overwrite = True, cf_created = 0, cf_updated = 0\<rparr>"

definition example_metagen :: metagen_db where
  "example_metagen = \<lparr>mb_confs = [example_conf 1 ''docs'' ''origin != 'DEV' '', example_conf 2 ''all'' []],
     mb_boundaries = [], mb_items = [], mb_cands = [], mb_embs = [], mb_events = []\<rparr>"

theorem coverage_views_agree_witness:
  "\<exists>m rows. match_confs_for_urns kleene example_rows [''urn:b'', ''urn:z''] example_metagen = Inr m \<and>
     map fst m = [''urn:b'', ''urn:z''] \<and> uncovered_rows kleene example_rows True None example_metagen = Inr rows \<and>
     m = [(''urn:b'', [(2, ''all''), (1, ''docs'')]), (''urn:z'', [])] \<and> (''urn:b'', ''boundary_blocked'') \<in> set rows \<and>
     (''urn:z'', ''no_conf_match'') \<notin> set rows"
proof -
  have "\<exists>cls. conf_clauses (enabled_confs example_metagen) = Inr cls"
  proof -
    have "(case conf_clauses (enabled_confs example_metagen) of Inr _ \<Rightarrow> True | Inl _ \<Rightarrow> False)" by code_simp
    then show ?thesis by (auto split: sum.splits)
  qed
  then obtain cls where cls: "conf_clauses (enabled_confs example_metagen) = Inr cls" by blast
  have rows: "distinct (map reg_dataset_urn example_rows)" by code_simp
  have m: "match_confs_for_urns kleene example_rows [''urn:b'', ''urn:z''] example_metagen
      = Inr [(''urn:b'', [(2, ''all''), (1, ''docs'')]), (''urn:z'', [])]" by code_simp
  have w: "\<not> writable example_metagen ''urn:b''" by code_simp
  have z: "\<not> (\<exists>r \<in> set example_rows. reg_datahub_registered r \<and> reg_dataset_urn r = ''urn:z'')" by code_simp
  from coverage_views_agree [OF kleene.sql_engine_axioms rows cls, of "[''urn:b'', ''urn:z'']" True] m w z show ?thesis
    by auto
qed

end
