(* ===== verification/Metagen_Debate.thy ===== *)
theory Metagen_Debate
  imports Metagen_Store Ontogen_Run
begin

text \<open>
  What \<open>src/backend/metagen/debate.py\<close> supplies to the shared debate loop (\<open>Debate\<close>), with
  \<open>embedding_search.py\<close>: the approved candidates nearest to a proposed value, sampled for the reviewer by kind. The
  embedding and its distance are parameters: a score for each embedded candidate, \<open>None\<close> where pgvector yields NaN.
\<close>

record metagen_hit =
  mh_id :: nat
  mh_urn :: string
  mh_item :: string
  mh_value :: string
  mh_score :: rat

type_synonym metagen_search_fn = "string \<Rightarrow> string \<Rightarrow> metagen_hit list option"

text \<open>The query: join with the approved candidates, order by score with NaN first, limit; NaN is then read as 0.\<close>

definition better :: "rat option \<Rightarrow> rat option \<Rightarrow> bool" where
  "better a b = (case (a, b) of (None, _) \<Rightarrow> True | (Some _, None) \<Rightarrow> False | (Some x, Some y) \<Rightarrow> y \<le> x)"

fun insert_hit :: "(nat \<Rightarrow> rat option) \<Rightarrow> metagen_row \<Rightarrow> metagen_row list \<Rightarrow> metagen_row list" where
  "insert_hit score c [] = [c]"
| "insert_hit score c (d # ds) = (if better (score (ca_id c)) (score (ca_id d)) then c # d # ds else d # insert_hit score c ds)"

definition search_candidate_embeddings :: "(nat \<Rightarrow> rat option) \<Rightarrow> string \<Rightarrow> nat \<Rightarrow> metagen_db \<Rightarrow> metagen_hit list" where
  "search_candidate_embeddings score knd top_k db =
     (let joined = List.map_filter (\<lambda>(i, k). case row_get ca_id i (mb_cands db) of
            Some c \<Rightarrow> if ca_status c = ''approved'' \<and> k = knd then Some c else None | None \<Rightarrow> None) (mb_embs db)
      in map (\<lambda>c. \<lparr>mh_id = ca_id c, mh_urn = ca_urn c, mh_item = ca_item c, mh_value = ca_value c,
             mh_score = (case score (ca_id c) of None \<Rightarrow> 0 | Some s \<Rightarrow> max 0 s)\<rparr>)
           (take top_k (foldr (insert_hit score) joined [])))"

section \<open>Anchor sampling\<close>

record metagen_anchor =
  ma_kind :: string
  ma_id :: nat
  ma_urn :: string
  ma_item :: string
  ma_value :: string
  ma_similarity :: rat

text \<open>The kind of a proposed candidate and its stripped value, \<open>None\<close> for one that is skipped.\<close>

definition anchor_query :: "json \<Rightarrow> (ds_error, (string \<times> string) option) result" where
  "anchor_query cand =
     rbind (text_of cand ''value'') (\<lambda>v.
       case cand of
         JObj d \<Rightarrow>
           (case dict_get_or d ''item_id'' (JStr []) of
              JStr s \<Rightarrow>
                (let knd = (if s = DATASET_KIND then Some DATASET_KIND
                            else if py_startswith s ''column.'' \<and> py_endswith s ''.description'' then Some COLUMN_KIND else None)
                 in Inr (case knd of Some k \<Rightarrow> if v = [] then None else Some (k, v) | None \<Rightarrow> None))
            | _ \<Rightarrow> Inl (UncaughtError ''AttributeError''))
       | _ \<Rightarrow> Inl (UncaughtError ''AttributeError''))"

definition anchor_of_hit :: "string \<Rightarrow> metagen_hit \<Rightarrow> metagen_anchor" where
  "anchor_of_hit knd h = \<lparr>ma_kind = knd, ma_id = mh_id h, ma_urn = mh_urn h, ma_item = mh_item h, ma_value = mh_value h, ma_similarity = mh_score h\<rparr>"

definition add_metagen_anchor :: "metagen_anchor list \<Rightarrow> metagen_anchor \<Rightarrow> metagen_anchor list" where
  "add_metagen_anchor as a = (if ma_id a \<in> ma_id ` set as then as else as @ [a])"

definition add_anchor_hits :: "metagen_search_fn \<Rightarrow> string \<Rightarrow> metagen_anchor list \<Rightarrow> (string \<times> string) option \<Rightarrow> metagen_anchor list" where
  "add_anchor_hits search knd as q =
     (case q of
        Some (k, v) \<Rightarrow> if k = knd then (case search k v of None \<Rightarrow> as | Some hits \<Rightarrow> foldl add_metagen_anchor as (map (anchor_of_hit k) hits)) else as
      | None \<Rightarrow> as)"

definition anchors_of_kind :: "metagen_search_fn \<Rightarrow> nat \<Rightarrow> string \<Rightarrow> (string \<times> string) option list \<Rightarrow> metagen_anchor list" where
  "anchors_of_kind search rag_k knd qs = take (rag_k * 2) (foldl (add_anchor_hits search knd) [] qs)"

type_synonym metagen_anchors = "(string \<times> metagen_anchor list) list"

definition sample_metagen_anchors :: "metagen_search_fn \<Rightarrow> nat \<Rightarrow> json \<Rightarrow> (ds_error, metagen_anchors) result" where
  "sample_metagen_anchors search rag_k payload =
     rbind (rows_of payload ''candidates'') (\<lambda>rows.
       rmap (\<lambda>qs. map (\<lambda>knd. (knd, anchors_of_kind search rag_k knd qs)) [DATASET_KIND, COLUMN_KIND]) (rmapM anchor_query rows))"

definition flatten_metagen_anchors :: "metagen_anchors \<Rightarrow> (string \<times> string \<times> string \<times> rat) list" where
  "flatten_metagen_anchors groups =
     concat (map (\<lambda>(knd, as). map (\<lambda>a. (knd, ma_urn a, ma_item a, ma_similarity a)) as) groups)"

section \<open>The debate\<close>

record metagen_llm =
  ml_chat :: "nat \<Rightarrow> chat_model"
  ml_reviewer_chat :: "nat \<Rightarrow> chat_model"
  ml_hash :: "json \<Rightarrow> string"
  ml_parse_review :: "json \<Rightarrow> review_output option"
  ml_search :: metagen_search_fn
  ml_reviewer_prompt :: "json \<Rightarrow> metagen_anchors \<Rightarrow> string \<Rightarrow> string"
  ml_revision_prompt :: "json \<Rightarrow> json \<Rightarrow> string \<Rightarrow> string \<Rightarrow> string"
  ml_max_turns :: nat
  ml_rag_k :: nat
  ml_max_iterations :: nat

definition metagen_debate_env ::
  "metagen_llm \<Rightarrow> metagen_schema_fn \<Rightarrow> metagen_rules \<Rightarrow> (string \<times> string \<times> string \<times> rat, metagen_anchors) debate_env" where
  "metagen_debate_env env schema rules =
     \<lparr>dv_producer = \<lambda>turn p. metagen_producer schema rules (ml_chat env turn) (ml_max_iterations env) p,
      dv_reviewer = \<lambda>turn p. complete_with_tools (ml_reviewer_chat env turn) [(''metagen_review'', review_tool (ml_parse_review env))]
        ''metagen_review'' (review_schema (ml_parse_review env)) [] 1 p,
      dv_hash = ml_hash env, dv_parse_review = ml_parse_review env, dv_rebuttals = (\<lambda>_. Inr None),
      dv_sample = sample_metagen_anchors (ml_search env) (ml_rag_k env), dv_flatten = flatten_metagen_anchors,
      dv_reviewer_prompt = ml_reviewer_prompt env, dv_revision_prompt = ml_revision_prompt env\<rparr>"

text \<open>What a run takes from a debate: the payload, the outcome, the iterations and the transcript it stores as evidence.\<close>

type_synonym debate_summary = "json \<times> debate_outcome \<times> nat \<times> jdict"

definition metagen_debate ::
  "metagen_llm \<Rightarrow> metagen_schema_fn \<Rightarrow> ((string \<times> string \<times> string \<times> rat) transcript \<Rightarrow> jdict) \<Rightarrow> string \<Rightarrow> metagen_rules
     \<Rightarrow> (ds_error, debate_summary) result" where
  "metagen_debate env schema render prompt rules =
     rmap (\<lambda>r. (dr_payload r, dr_outcome r, ts_iterations (dr_transcript r), render (dr_transcript r)))
       (run_debate (metagen_debate_env env schema rules) prompt (ml_max_turns env))"

section \<open>What a reviewer sees\<close>

lemma foldl_keeps: "P s \<Longrightarrow> (\<And>s x. x \<in> set xs \<Longrightarrow> P s \<Longrightarrow> P (f s x)) \<Longrightarrow> P (foldl f s xs)"
  by (induction xs arbitrary: s) simp_all

definition anchors_ok :: "string \<Rightarrow> metagen_anchor list \<Rightarrow> bool" where
  "anchors_ok knd as \<longleftrightarrow> (\<forall>a \<in> set as. ma_kind a = knd) \<and> distinct (map ma_id as)"

lemma anchors_ok_hits: "anchors_ok knd as \<Longrightarrow> anchors_ok knd (add_anchor_hits search knd as q)"
  unfolding add_anchor_hits_def
  by (auto split: option.split intro!: foldl_keeps [of "anchors_ok knd"])
    (auto simp: anchors_ok_def add_metagen_anchor_def anchor_of_hit_def)

lemma anchors_of_kind_bounded:
  "length (anchors_of_kind search rag_k knd qs) \<le> 2 * rag_k \<and> anchors_ok knd (anchors_of_kind search rag_k knd qs)"
proof -
  have "anchors_ok knd (foldl (add_anchor_hits search knd) [] qs)"
    by (rule foldl_keeps [of "anchors_ok knd"]) (simp_all add: anchors_ok_hits, simp add: anchors_ok_def)
  then show ?thesis
    by (auto simp: anchors_of_kind_def anchors_ok_def take_map [symmetric] dest: in_set_takeD)
qed

end
