(* ===== verification/Metagen_Evidence.thy ===== *)
theory Metagen_Evidence
  imports Metagen_Store Ontogen_Run
begin

text \<open>
  \<open>_fetch_evidence\<close> of \<open>src/backend/metagen/service.py\<close>: what a run knows of a dataset. The reads of DataHub are
  parameters, each an answer or a failure; the ontology context comes from the tables of the ontology service.
\<close>

record dataset_props =
  dp_name :: "string option"
  dp_description :: "string option"
  dp_tags :: json

record schema_field =
  sf_path :: string
  sf_type :: string
  sf_description :: "string option"

record ontology_rag =
  og_nodes :: "(string \<times> string \<times> string \<times> rat) list"
  og_edges :: "(string \<times> string \<times> rat) list"
  og_triples :: "(string \<times> string \<times> string \<times> rat) list"

record evidence =
  ed_props :: "dataset_props option"
  ed_schema :: "schema_field list option"
  ed_editable :: "string option option"
  ed_columns :: "(string \<times> string option) list option"
  ed_glossary :: "string list option"
  ed_documents :: "json list"
  ed_approved_nodes :: "(string \<times> string \<times> string) list option"
  ed_rag :: ontology_rag

text \<open>The five aspects in the order they are read, the related documents, and the vector search for the context; \<open>None\<close> is a call
  that raises, \<open>Some None\<close> an absent aspect.\<close>

record dataset_reads =
  rd_props :: "dataset_props option option"
  rd_schema :: "schema_field list option option"
  rd_editable :: "string option option option"
  rd_columns :: "(string \<times> string option) list option option"
  rd_glossary :: "string list option option"
  rd_documents :: "json list option"
  rd_search :: "string \<Rightarrow> (vector_hit list \<times> vector_hit list \<times> vector_hit list) option"

definition no_rag :: ontology_rag where
  "no_rag = \<lparr>og_nodes = [], og_edges = [], og_triples = []\<rparr>"

definition no_evidence :: evidence where
  "no_evidence = \<lparr>ed_props = None, ed_schema = None, ed_editable = None, ed_columns = None, ed_glossary = None,
     ed_documents = [], ed_approved_nodes = None, ed_rag = no_rag\<rparr>"

text \<open>The first call that raises ends the reading; what was read before it is kept.\<close>

definition fetch_aspects :: "dataset_reads \<Rightarrow> evidence" where
  "fetch_aspects rd =
     (case rd_props rd of None \<Rightarrow> no_evidence | Some p \<Rightarrow>
       let e1 = no_evidence\<lparr>ed_props := p\<rparr> in
      case rd_schema rd of None \<Rightarrow> e1 | Some s \<Rightarrow>
       let e2 = e1\<lparr>ed_schema := s\<rparr> in
      case rd_editable rd of None \<Rightarrow> e2 | Some d \<Rightarrow>
       let e3 = e2\<lparr>ed_editable := d\<rparr> in
      case rd_columns rd of None \<Rightarrow> e3 | Some c \<Rightarrow>
       let e4 = e3\<lparr>ed_columns := c\<rparr> in
      case rd_glossary rd of None \<Rightarrow> e4 | Some g \<Rightarrow> e4\<lparr>ed_glossary := g\<rparr>)"

definition approved_context :: "ontogen_db \<Rightarrow> string \<Rightarrow> (string \<times> string \<times> string) list option" where
  "approved_context odb urn =
     (let ids = map dm_node (filter (\<lambda>m. dm_urn m = urn \<and> dm_status m = ''approved'') (ob_maps odb)) in
      if ids = [] then None
      else Some (map (\<lambda>n. (on_id n, on_name n, on_description n))
        (filter (\<lambda>n. on_id n \<in> set ids \<and> on_status n = ''approved'') (ob_nodes odb))))"

text \<open>\<open>f"{x}"\<close> of an optional string.\<close>

definition show_opt :: "string option \<Rightarrow> string" where
  "show_opt x = (case x of Some s \<Rightarrow> s | None \<Rightarrow> ''None'')"

definition rag_query :: "string \<Rightarrow> evidence \<Rightarrow> string" where
  "rag_query urn ev =
     py_join '' '' [urn, (case ed_props ev of Some p \<Rightarrow> show_opt (dp_name p) | None \<Rightarrow> []),
       (case ed_props ev of Some p \<Rightarrow> show_opt (dp_description p) | None \<Rightarrow> []),
       py_join '' '' (map sf_path (case ed_schema ev of Some fs \<Rightarrow> fs | None \<Rightarrow> []))]"

definition score_of :: "vector_hit list \<Rightarrow> string \<Rightarrow> rat" where
  "score_of hits i = (case map_of (rev (map (\<lambda>h. (vh_id h, vh_score h)) hits)) i of Some s \<Rightarrow> s | None \<Rightarrow> 0)"

text \<open>The rows behind the hits, in the order of the tables.\<close>

definition hydrate :: "ontogen_db \<Rightarrow> vector_hit list \<times> vector_hit list \<times> vector_hit list \<Rightarrow> ontology_rag" where
  "hydrate odb = (\<lambda>(nh, eh, th).
     \<lparr>og_nodes = map (\<lambda>n. (on_id n, on_name n, on_description n, score_of nh (on_id n)))
        (filter (\<lambda>n. on_id n \<in> vh_id ` set nh) (ob_nodes odb)),
      og_edges = map (\<lambda>e. (oe_id e, oe_label e, score_of eh (oe_id e))) (filter (\<lambda>e. oe_id e \<in> vh_id ` set eh) (ob_edges odb)),
      og_triples = List.map_filter (\<lambda>t.
          case (row_get on_id (ot_subject t) (ob_nodes odb), row_get oe_id (ot_edge t) (ob_edges odb), row_get on_id (ot_object t) (ob_nodes odb)) of
            (Some s, Some e, Some ob) \<Rightarrow> Some (on_name s, oe_label e, on_name ob, score_of th (ot_id t))
          | _ \<Rightarrow> None)
        (filter (\<lambda>t. ot_id t \<in> vh_id ` set th) (ob_triples odb))\<rparr>)"

definition fetch_evidence :: "dataset_reads \<Rightarrow> ontogen_db \<Rightarrow> string \<Rightarrow> evidence" where
  "fetch_evidence rd odb urn =
     (let ev = (fetch_aspects rd)\<lparr>ed_documents := (case rd_documents rd of Some ds \<Rightarrow> ds | None \<Rightarrow> []),
                  ed_approved_nodes := approved_context odb urn\<rparr>
      in ev\<lparr>ed_rag := (case rd_search rd (rag_query urn ev) of None \<Rightarrow> no_rag | Some hits \<Rightarrow> hydrate odb hits)\<rparr>)"

definition evidence_columns :: "evidence \<Rightarrow> string list" where
  "evidence_columns ev = (case ed_schema ev of Some fs \<Rightarrow> map sf_path fs | None \<Rightarrow> [])"

end
