(* ===== verification/Metagen_Review.thy ===== *)
theory Metagen_Review
  imports Metagen_Store
begin

text \<open>
  The review of a candidate in \<open>src/backend/metagen/service.py\<close> and the editable aspects of DataHub it writes. DataHub
  is the map from datasets to the two aspects concerned; whether its calls answer is a parameter, since the code logs and skips a
  call that fails. A review commits, then reads an aspect, then writes it whole; the pieces are definitions of their own, and
  \<open>approve_candidate\<close> and \<open>reject_candidate\<close> run them without another request in between. Of a field's metadata other than path and description only its presence matters, \<open>fi_other\<close>.
\<close>

section \<open>Editable aspects\<close>

record field_info =
  fi_path :: string
  fi_description :: "string option"
  fi_other :: jdict

record editable_props =
  ep_name :: "string option"
  ep_description :: "string option"

record editable_schema =
  es_fields :: "field_info list"
  es_audit :: "nat option"

record aspects =
  as_props :: "editable_props option"
  as_schema :: "editable_schema option"

type_synonym datahub = "string \<Rightarrow> aspects"

definition is_column_item :: "string \<Rightarrow> bool" where
  "is_column_item item_id \<longleftrightarrow> py_startswith item_id ''column.'' \<and> py_endswith item_id ''.description''"

text \<open>The search for the first entry of a field; \<open>None\<close> when the loop ends without one.\<close>

fun edit_field :: "string \<Rightarrow> string option \<Rightarrow> field_info list \<Rightarrow> field_info list option" where
  "edit_field path d [] = None"
| "edit_field path d (f # fs) =
     (if fi_path f = path then Some (f\<lparr>fi_description := d\<rparr> # fs) else map_option (\<lambda>fs'. f # fs') (edit_field path d fs))"

definition set_field :: "string \<Rightarrow> string \<Rightarrow> field_info list \<Rightarrow> field_info list" where
  "set_field path v fs =
     (case edit_field path (Some v) fs of
        Some fs' \<Rightarrow> fs'
      | None \<Rightarrow> fs @ [\<lparr>fi_path = path, fi_description = Some v, fi_other = []\<rparr>])"

definition new_schema :: "field_info list \<Rightarrow> editable_schema" where
  "new_schema fs = \<lparr>es_fields = fs, es_audit = None\<rparr>"

text \<open>An aspect is written whole, from what was read before: \<open>seen\<close> are the aspects at the read, \<open>dh\<close> those at the write.\<close>

definition write_description :: "aspects \<Rightarrow> string \<Rightarrow> string \<Rightarrow> string \<Rightarrow> datahub \<Rightarrow> datahub" where
  "write_description seen urn item_id v dh =
     (if item_id = DATASET_KIND then
        dh(urn := (dh urn)\<lparr>as_props := Some (case as_props seen of
             Some p \<Rightarrow> p\<lparr>ep_description := Some v\<rparr> | None \<Rightarrow> \<lparr>ep_name = None, ep_description = Some v\<rparr>)\<rparr>)
      else if is_column_item item_id then
        dh(urn := (dh urn)\<lparr>as_schema := Some (new_schema (set_field (item_field item_id) v
             (case as_schema seen of Some s \<Rightarrow> es_fields s | None \<Rightarrow> [])))\<rparr>)
      else dh)"

definition write_cleared :: "aspects \<Rightarrow> string \<Rightarrow> string \<Rightarrow> datahub \<Rightarrow> datahub" where
  "write_cleared seen urn item_id dh =
     (if item_id = DATASET_KIND then
        (case as_props seen of None \<Rightarrow> dh | Some p \<Rightarrow> dh(urn := (dh urn)\<lparr>as_props := Some (p\<lparr>ep_description := None\<rparr>)\<rparr>))
      else if is_column_item item_id then
        (case as_schema seen of
           None \<Rightarrow> dh
         | Some s \<Rightarrow> (case edit_field (item_field item_id) None (es_fields s) of
             None \<Rightarrow> dh | Some fs \<Rightarrow> dh(urn := (dh urn)\<lparr>as_schema := Some (new_schema fs)\<rparr>)))
      else dh)"

text \<open>The read and the write with nothing in between.\<close>

definition emit_to_datahub :: "bool \<Rightarrow> string \<Rightarrow> string \<Rightarrow> string \<Rightarrow> datahub \<Rightarrow> datahub" where
  "emit_to_datahub ok urn item_id v dh = (if ok then write_description (dh urn) urn item_id v dh else dh)"

definition clear_datahub_aspect :: "bool \<Rightarrow> string \<Rightarrow> string \<Rightarrow> datahub \<Rightarrow> datahub" where
  "clear_datahub_aspect ok urn item_id dh = (if ok then write_cleared (dh urn) urn item_id dh else dh)"

text \<open>What DataHub shows for an item: the description of the dataset, or of the first entry of its column.\<close>

definition field_description :: "string \<Rightarrow> field_info list \<Rightarrow> string option" where
  "field_description path fs = (case find (\<lambda>f. fi_path f = path) fs of Some f \<Rightarrow> fi_description f | None \<Rightarrow> None)"

definition shown :: "datahub \<Rightarrow> string \<Rightarrow> string \<Rightarrow> string option" where
  "shown dh urn item_id =
     (if item_id = DATASET_KIND then (case as_props (dh urn) of Some p \<Rightarrow> ep_description p | None \<Rightarrow> None)
      else (case as_schema (dh urn) of Some s \<Rightarrow> field_description (item_field item_id) (es_fields s) | None \<Rightarrow> None))"

section \<open>The review\<close>

definition approved_siblings :: "metagen_row \<Rightarrow> metagen_row list \<Rightarrow> metagen_row list" where
  "approved_siblings c rows = filter (\<lambda>x. ca_key x = ca_key c \<and> ca_status x = ''approved'' \<and> ca_id x \<noteq> ca_id c) rows"

definition demote_sibling :: "nat \<Rightarrow> metagen_row \<Rightarrow> metagen_db \<Rightarrow> (ds_error, metagen_db) result" where
  "demote_sibling now c db =
     (case approved_siblings c (mb_cands db) of
        [] \<Rightarrow> Inr db
      | [s] \<Rightarrow> update_candidate (s\<lparr>ca_status := ''llm_approved'', ca_reviewed := Some now\<rparr>) db
      | _ \<Rightarrow> Inl (UncaughtError ''MultipleResultsFound''))"

definition find_candidate :: "string \<Rightarrow> string \<Rightarrow> nat option \<Rightarrow> metagen_db \<Rightarrow> (ds_error, metagen_row) result" where
  "find_candidate dataset_urn item_id cid db =
     (case cid of
        None \<Rightarrow> Inl (EntityNotFoundError ''metagen_candidate'')
      | Some i \<Rightarrow> (case row_get ca_id i (mb_cands db) of
          Some c \<Rightarrow> if ca_key c = (dataset_urn, item_id) then Inr c else Inl (EntityNotFoundError ''metagen_candidate'')
        | None \<Rightarrow> Inl (EntityNotFoundError ''metagen_candidate'')))"

definition boundary_active :: "metagen_db \<Rightarrow> string \<Rightarrow> bool" where
  "boundary_active db urn = (case get_boundary urn db of None \<Rightarrow> False | Some b \<Rightarrow> bd_enabled b)"

record review_call =
  rc_urn :: string
  rc_item :: string
  rc_candidate :: string
  rc_uuid :: "nat option"
  rc_verdict :: string
  rc_reason :: string
  rc_reviewer :: "string option"

definition review_detail :: "review_call \<Rightarrow> jdict" where
  "review_detail call = [(''item_id'', JStr (rc_item call)), (''candidate_id'', JStr (rc_candidate call)), (''reason'', JStr (rc_reason call))]"

text \<open>The row a verdict leaves, and the transaction of each verdict up to its commit.\<close>

definition decided :: "nat \<Rightarrow> string \<Rightarrow> string option \<Rightarrow> metagen_row \<Rightarrow> metagen_row" where
  "decided now st who c = c\<lparr>ca_status := st, ca_reviewed := Some now, ca_reviewer := who\<rparr>"

definition commit_approval :: "nat \<Rightarrow> review_call \<Rightarrow> metagen_row \<Rightarrow> metagen_db \<Rightarrow> (ds_error, metagen_db) result" where
  "commit_approval now call c db = rbind (demote_sibling now c db) (update_candidate (decided now ''approved'' (rc_reviewer call) c))"

definition commit_rejection :: "nat \<Rightarrow> review_call \<Rightarrow> metagen_row \<Rightarrow> metagen_db \<Rightarrow> (ds_error, metagen_db) result" where
  "commit_rejection now call c db = update_candidate (decided now ''rejected'' (rc_reviewer call) c) db"

definition approve_candidate ::
  "nat \<Rightarrow> bool \<Rightarrow> bool \<Rightarrow> review_call \<Rightarrow> metagen_row \<Rightarrow> metagen_db \<times> datahub \<Rightarrow> (ds_error, metagen_row \<times> metagen_db \<times> datahub) result" where
  "approve_candidate now dh_ok embed_ok call c = (\<lambda>(db, dh).
     let c' = decided now ''approved'' (rc_reviewer call) c in
     rmap (\<lambda>db'. (c', record_dataset_event (rc_urn call) ''METAGEN.CANDIDATE_APPROVE'' ''success'' (review_detail call) now
                  (refresh_candidate_embedding embed_ok c' db'),
                emit_to_datahub dh_ok (rc_urn call) (rc_item call) (ca_value c) dh))
       (commit_approval now call c db))"

definition reject_candidate ::
  "nat \<Rightarrow> bool \<Rightarrow> review_call \<Rightarrow> metagen_row \<Rightarrow> metagen_db \<times> datahub \<Rightarrow> (ds_error, metagen_row \<times> metagen_db \<times> datahub) result" where
  "reject_candidate now dh_ok call c = (\<lambda>(db, dh).
     rmap (\<lambda>db'. (decided now ''rejected'' (rc_reviewer call) c,
                record_dataset_event (rc_urn call) ''METAGEN.CANDIDATE_REJECT'' ''success'' (review_detail call) now db',
                if ca_status c = ''approved'' then clear_datahub_aspect dh_ok (rc_urn call) (rc_item call) dh else dh))
       (commit_rejection now call c db))"

definition review_candidate ::
  "nat \<Rightarrow> bool \<Rightarrow> bool \<Rightarrow> review_call \<Rightarrow> metagen_db \<times> datahub
     \<Rightarrow> (ds_error, (metagen_row \<times> string option) \<times> metagen_db \<times> datahub) result" where
  "review_candidate now dh_ok embed_ok call = (\<lambda>(db, dh).
     if \<not> boundary_active db (rc_urn call) then Inl (PreconditionFailedError ''METAGEN_DATASET_NOT_IN_BOUNDARY'')
     else rbind (find_candidate (rc_urn call) (rc_item call) (rc_uuid call) db) (\<lambda>c.
       rmap (\<lambda>(c', db', dh'). (candidate_to_dto db' c', db', dh'))
         (if rc_verdict call = ''approve'' then approve_candidate now dh_ok embed_ok call c (db, dh)
          else if rc_verdict call = ''reject'' then reject_candidate now dh_ok call c (db, dh)
          else Inr (c, db, dh))))"

section \<open>Reading back what was written\<close>

text \<open>The contract of the store of descriptions: a write to an item is read back and a cleared item shows nothing;
  neither changes what another item shows.\<close>

locale description_store =
  fixes put_text :: "string \<Rightarrow> string \<Rightarrow> string \<Rightarrow> 'h \<Rightarrow> 'h"
    and drop_text :: "string \<Rightarrow> string \<Rightarrow> 'h \<Rightarrow> 'h"
    and get_text :: "'h \<Rightarrow> string \<Rightarrow> string \<Rightarrow> string option"
    and proper :: "string \<Rightarrow> bool"
  assumes read_write: "proper i \<Longrightarrow> get_text (put_text u i v h) u i = Some v"
    and read_clear: "proper i \<Longrightarrow> get_text (drop_text u i h) u i = None"
    and other_write: "proper j \<Longrightarrow> (u', j) \<noteq> (u, i) \<Longrightarrow> get_text (put_text u i v h) u' j = get_text h u' j"
    and other_clear: "proper j \<Longrightarrow> (u', j) \<noteq> (u, i) \<Longrightarrow> get_text (drop_text u i h) u' j = get_text h u' j"
begin

text \<open>The store mirrors a partial map when it shows the map's value for every proper item.\<close>

definition mirrors :: "(string \<times> string \<Rightarrow> string option) \<Rightarrow> 'h \<Rightarrow> bool" where
  "mirrors m h \<longleftrightarrow> (\<forall>u i. proper i \<longrightarrow> get_text h u i = m (u, i))"

lemma mirrors_write: "mirrors m h \<Longrightarrow> mirrors (m((u, i) \<mapsto> v)) (put_text u i v h)"
  by (auto simp: mirrors_def read_write other_write)

lemma mirrors_clear: "mirrors m h \<Longrightarrow> mirrors (m((u, i) := None)) (drop_text u i h)"
  by (auto simp: mirrors_def read_clear other_clear)

end

text \<open>The items the aspects tell apart: the dataset, and every column with a non-empty path.\<close>

definition proper_item :: "string \<Rightarrow> bool" where
  "proper_item i \<longleftrightarrow> i = DATASET_KIND \<or> (is_column_item i \<and> item_field i \<noteq> [])"

lemma proper_item_cases:
  assumes "proper_item i"
  obtains "i = DATASET_KIND" | f where "i = column_item f" "f \<noteq> []"
proof (cases "i = DATASET_KIND")
  case False
  with assms have c: "py_startswith i ''column.''" "py_endswith i ''.description''" "item_field i \<noteq> []"
    by (auto simp: proper_item_def is_column_item_def)
  then have "20 \<le> length i" by (auto simp: item_field_def)
  with c column_item_split [OF c(1,2)] that(2) show ?thesis by metis
qed (use that in blast)

lemma column_item_is [simp]: "is_column_item (column_item f)"
proof -
  have "drop (length (''column.'' @ f)) ((''column.'' @ f) @ ''.description'') = ''.description''" by simp
  then show ?thesis by (simp add: is_column_item_def py_startswith_def py_endswith_def column_item_def)
qed

lemma field_description_edit:
  "edit_field p d fs = Some fs' \<Longrightarrow> field_description q fs' = (if q = p then d else field_description q fs)"
  by (induction fs arbitrary: fs') (auto simp: field_description_def split: if_splits)

lemma edit_field_None: "edit_field p d fs = None \<longleftrightarrow> p \<notin> fi_path ` set fs"
  by (induction fs) auto

lemma field_description_set: "field_description q (set_field p v fs) = (if q = p then Some v else field_description q fs)"
proof (cases "edit_field p (Some v) fs")
  case None
  then have "find (\<lambda>f. fi_path f = p) fs = None" by (auto simp: edit_field_None find_None_iff)
  moreover have "find (\<lambda>f. fi_path f = q) (fs @ gs) = (case find (\<lambda>f. fi_path f = q) fs of Some f \<Rightarrow> Some f
      | None \<Rightarrow> find (\<lambda>f. fi_path f = q) gs)" for q gs
    by (induction fs) auto
  ultimately show ?thesis using None by (auto simp: set_field_def field_description_def split: option.splits)
qed (simp add: set_field_def field_description_edit)

lemma shown_column:
  "shown dh u (column_item f) = (case as_schema (dh u) of Some s \<Rightarrow> field_description f (es_fields s) | None \<Rightarrow> None)"
  by (simp add: shown_def split: option.split)

lemma shown_dataset:
  "shown dh u DATASET_KIND = (case as_props (dh u) of Some p \<Rightarrow> ep_description p | None \<Rightarrow> None)"
  by (simp add: shown_def)

lemma field_description_Nil [simp]: "field_description p [] = None"
  by (simp add: field_description_def)

lemma field_description_absent: "p \<notin> fi_path ` set fs \<Longrightarrow> field_description p fs = None"
  by (induction fs) (auto simp: field_description_def)

lemma emit_column:
  "i \<noteq> DATASET_KIND \<Longrightarrow> is_column_item i \<Longrightarrow>
   shown (emit_to_datahub True u i v dh) u' (column_item f) =
     (if u' = u \<and> f = item_field i then Some v else shown dh u' (column_item f))"
  by (auto simp: shown_column emit_to_datahub_def write_description_def Let_def new_schema_def field_description_set split: option.split)

lemma clear_column:
  assumes "i \<noteq> DATASET_KIND" "is_column_item i"
  shows "shown (clear_datahub_aspect True u i dh) u' (column_item f) =
     (if u' = u \<and> f = item_field i then None else shown dh u' (column_item f))"
proof (cases "as_schema (dh u)")
  case (Some s)
  show ?thesis
  proof (cases "edit_field (item_field i) None (es_fields s)")
    case None
    then have "field_description (item_field i) (es_fields s) = None" by (simp add: edit_field_None field_description_absent)
    with None Some assms show ?thesis by (auto simp: shown_column clear_datahub_aspect_def write_cleared_def Let_def)
  next
    case fs: (Some fs)
    from field_description_edit [OF fs] Some fs assms show ?thesis
      by (simp add: shown_column clear_datahub_aspect_def write_cleared_def Let_def new_schema_def)
  qed
qed (use assms in \<open>simp add: shown_column clear_datahub_aspect_def write_cleared_def Let_def\<close>)

lemma other_column:
  assumes "(u', j) \<noteq> (u, i)" "j = column_item f" "f \<noteq> []" "i \<noteq> DATASET_KIND" "is_column_item i"
  shows "\<not> (u' = u \<and> f = item_field i)"
proof
  assume eq: "u' = u \<and> f = item_field i"
  with assms(3-5) have "proper_item i" by (simp add: proper_item_def)
  then obtain g where "i = column_item g" using assms(4) by (cases rule: proper_item_cases) auto
  with eq assms(1,2) show False by simp
qed

interpretation descriptions: description_store "emit_to_datahub True" "clear_datahub_aspect True" shown proper_item
proof (unfold_locales, goal_cases)
  case (1 i u v h)
  then show ?case
  proof (cases rule: proper_item_cases)
    case 1
    then show ?thesis by (simp add: shown_dataset emit_to_datahub_def write_description_def Let_def split: option.split)
  qed (simp add: emit_column)
next
  case (2 i u h)
  then show ?case
  proof (cases rule: proper_item_cases)
    case 1
    then show ?thesis by (simp add: shown_dataset clear_datahub_aspect_def write_cleared_def Let_def split: option.split)
  qed (simp add: clear_column)
next
  case (3 j u' u i v h)
  from 3(1) show ?case
  proof (cases rule: proper_item_cases)
    case 1
    with 3(2) show ?thesis by (auto simp: shown_dataset emit_to_datahub_def write_description_def Let_def)
  next
    case (2 f)
    show ?thesis
    proof (cases "i \<noteq> DATASET_KIND \<and> is_column_item i")
      case True
      from other_column [OF 3(2) 2 conjunct1 [OF True] conjunct2 [OF True]] True show ?thesis unfolding 2(1) by (subst emit_column) auto
    next
      case False
      then show ?thesis by (auto simp: 2(1) shown_column emit_to_datahub_def write_description_def Let_def)
    qed
  qed
next
  case (4 j u' u i h)
  from 4(1) show ?case
  proof (cases rule: proper_item_cases)
    case 1
    with 4(2) show ?thesis by (auto simp: shown_dataset clear_datahub_aspect_def write_cleared_def Let_def split: option.split)
  next
    case (2 f)
    show ?thesis
    proof (cases "i \<noteq> DATASET_KIND \<and> is_column_item i")
      case True
      from other_column [OF 4(2) 2 conjunct1 [OF True] conjunct2 [OF True]] True show ?thesis unfolding 2(1) by (subst clear_column) auto
    next
      case False
      then show ?thesis by (auto simp: 2(1) shown_column clear_datahub_aspect_def write_cleared_def Let_def split: option.split)
    qed
  qed
qed

end
