(* ===== verification/Metagen_Run.thy ===== *)
theory Metagen_Run
  imports Metagen_Debate Metagen_Evidence Metagen_Review
begin

text \<open>
  The run of a configuration in \<open>src/backend/metagen/service.py\<close>: the lock, the datasets in scope, the removal of rejected candidates,
  then for each dataset the evidence, the items still open, the debate and the budget under which accepted candidates are
  stored. Each added candidate is committed at once; a failure keeps what was committed before it.
\<close>

section \<open>Storing a candidate\<close>

definition materialise_item :: "nat \<Rightarrow> string \<Rightarrow> string \<Rightarrow> metagen_db \<Rightarrow> (ds_error, metagen_db) result" where
  "materialise_item now urn item db =
     (case row_get mi_key (urn, item) (mb_items db) of
        Some _ \<Rightarrow> Inr db
      | None \<Rightarrow> insert_item \<lparr>mi_urn = urn, mi_item = item, mi_kind = item_kind item, mi_field = item_field_path item,
            mi_created = now, mi_updated = now\<rparr> db)"

text \<open>The candidates of one configuration on one item.\<close>

definition own :: "nat \<Rightarrow> string \<times> string \<Rightarrow> metagen_row \<Rightarrow> bool" where
  "own cid key c \<longleftrightarrow> ca_conf c = Some cid \<and> ca_key c = key"

definition budget_used :: "nat \<Rightarrow> string \<times> string \<Rightarrow> metagen_db \<Rightarrow> nat" where
  "budget_used cid key db = length (filter (\<lambda>c. own cid key c \<and> ca_status c \<noteq> ''rejected'') (mb_cands db))"

definition oldest_open :: "nat \<Rightarrow> string \<times> string \<Rightarrow> metagen_db \<Rightarrow> metagen_row option" where
  "oldest_open cid key db =
     (case sort_key ca_created (filter (\<lambda>c. own cid key c \<and> ca_status c = ''llm_approved'') (mb_cands db)) of
        [] \<Rightarrow> None | c # _ \<Rightarrow> Some c)"

definition evict :: "metagen_row \<Rightarrow> metagen_db \<Rightarrow> (ds_error, metagen_db) result" where
  "evict v db = delete_candidates (\<lambda>c. ca_id c = ca_id v) (delete_embeddings (\<lambda>c. ca_id c = ca_id v) db)"

definition add_candidate :: "bool \<Rightarrow> metagen_row \<Rightarrow> metagen_db \<Rightarrow> (ds_error, metagen_db) result" where
  "add_candidate embed_ok row db = rmap (refresh_candidate_embedding embed_ok row) (insert_candidate row db)"

text \<open>The result says whether the candidate was added and whether another was evicted for it.\<close>

definition apply_per_item_budget ::
  "nat \<Rightarrow> bool \<Rightarrow> metagen_config \<Rightarrow> metagen_row \<Rightarrow> metagen_db \<Rightarrow> (ds_error, bool \<times> bool \<times> metagen_db) result" where
  "apply_per_item_budget now embed_ok conf row db =
     rbind (materialise_item now (ca_urn row) (ca_item row) db) (\<lambda>db1.
       if int (budget_used (cf_id conf) (ca_key row) db1) \<ge> cf_limit conf then
         if \<not> cf_overwrite conf then Inr (False, False, db1)
         else case oldest_open (cf_id conf) (ca_key row) db1 of
           None \<Rightarrow> Inr (False, False, db1)
         | Some v \<Rightarrow> rbind (evict v db1) (\<lambda>db2. rmap (\<lambda>db3. (True, True, db3)) (add_candidate embed_ok row db2))
       else rmap (\<lambda>db2. (True, False, db2)) (add_candidate embed_ok row db1))"

section \<open>The run\<close>

record metagen_env =
  mg_uuid :: "string \<Rightarrow> nat option"
  mg_sql :: sql_engine_fn
  mg_registry :: "registry_row list"
  mg_reads :: "string \<Rightarrow> dataset_reads"
  mg_ontology :: ontogen_db
  mg_prompt :: "string \<Rightarrow> evidence \<Rightarrow> target_item list \<Rightarrow> string"
  mg_llm :: "string \<Rightarrow> metagen_llm"
  mg_scores :: "string \<Rightarrow> (nat \<Rightarrow> rat option) option"
  mg_render :: "(string \<times> string \<times> string \<times> rat) transcript \<Rightarrow> jdict"
  mg_schema :: metagen_schema_fn
  mg_threshold :: rat
  mg_embed_ok :: "nat \<Rightarrow> bool"
  mg_new_id :: "nat \<Rightarrow> nat"
  mg_clock :: "nat \<Rightarrow> nat"
  mg_run_id :: nat
  mg_now :: nat

record run_state =
  rt_db :: metagen_db
  rt_considered :: nat
  rt_added :: nat
  rt_evicted :: nat
  rt_outcome :: "debate_outcome option"
  rt_iterations :: "nat option"

definition enumerate_in_scope ::
  "metagen_env \<Rightarrow> metagen_config \<Rightarrow> string list option \<Rightarrow> metagen_db \<Rightarrow> (filter_error, string list \<times> string list) result" where
  "enumerate_in_scope env conf override db =
     rmap (\<lambda>scope. (filter (boundary_active db) (resolved_urns scope), unresolved_urns scope))
       (resolve_dataset_scope (mg_sql env) (mg_registry env) (Some (cf_filter conf))
         (case override of Some urns \<Rightarrow> if urns = [] then None else Some urns | None \<Rightarrow> None))"

definition rejected_in :: "nat \<Rightarrow> string list \<Rightarrow> metagen_row \<Rightarrow> bool" where
  "rejected_in cid urns c \<longleftrightarrow> ca_conf c = Some cid \<and> ca_urn c \<in> set urns \<and> ca_status c = ''rejected''"

definition clear_rejected_candidates :: "string list \<Rightarrow> nat \<Rightarrow> metagen_db \<Rightarrow> (ds_error, nat \<times> metagen_db) result" where
  "clear_rejected_candidates urns cid db =
     rmap (\<lambda>db'. (length (filter (rejected_in cid urns) (mb_cands db)), db'))
       (delete_candidates (rejected_in cid urns) (delete_embeddings (rejected_in cid urns) db))"

definition new_candidate :: "metagen_env \<Rightarrow> metagen_config \<Rightarrow> jdict \<Rightarrow> nat \<Rightarrow> metagen_candidate \<Rightarrow> metagen_row" where
  "new_candidate env conf transcript k c =
     \<lparr>ca_id = mg_new_id env k, ca_conf = Some (cf_id conf), ca_urn = mc_dataset_urn c, ca_item = mc_item_id c, ca_run = mg_run_id env,
      ca_value = mc_value c, ca_confidence = mc_confidence c, ca_status = ''llm_approved'', ca_evidence = transcript,
      ca_created = mg_clock env k, ca_reviewed = None, ca_reviewer = None\<rparr>"

fun store_candidates :: "metagen_env \<Rightarrow> metagen_config \<Rightarrow> jdict \<Rightarrow> metagen_output \<Rightarrow> run_state \<Rightarrow> (ds_error, unit) result \<times> run_state" where
  "store_candidates env conf transcript [] st = (Inr (), st)"
| "store_candidates env conf transcript (c # cs) st =
     (let row = new_candidate env conf transcript (rt_added st) c in
      case apply_per_item_budget (mg_now env) (mg_embed_ok env (ca_id row)) conf row (rt_db st) of
        Inl e \<Rightarrow> (Inl e, st)
      | Inr (added, evicted, db') \<Rightarrow> store_candidates env conf transcript cs
          (st\<lparr>rt_db := db', rt_added := rt_added st + (if added then 1 else 0), rt_evicted := rt_evicted st + (if evicted then 1 else 0)\<rparr>))"

definition approved_items :: "metagen_db \<Rightarrow> string \<Rightarrow> (string \<times> string) list" where
  "approved_items db urn = map ca_key (filter (\<lambda>c. ca_urn c = urn \<and> ca_status c = ''approved'') (mb_cands db))"

text \<open>What of a debate is stored: nothing unless it was accepted and its payload parses; then the candidates whose score
  reaches the threshold.\<close>

definition accepted_candidates :: "metagen_env \<Rightarrow> debate_summary \<Rightarrow> metagen_output" where
  "accepted_candidates env = (\<lambda>(payload, outcome, _, _).
     if outcome \<noteq> Accepted then []
     else case mg_schema env payload of Inl _ \<Rightarrow> [] | Inr out \<Rightarrow> filter (\<lambda>c. mg_threshold env \<le> mc_confidence c) out)"

text \<open>The language models that answer for one dataset, and the search of the approved candidates as they stand: a score for each
  candidate against a text, \<open>None\<close> when the text cannot be embedded.\<close>

definition debate_for :: "metagen_env \<Rightarrow> string \<Rightarrow> metagen_db \<Rightarrow> string \<Rightarrow> metagen_rules \<Rightarrow> (ds_error, debate_summary) result" where
  "debate_for env urn db prompt rules =
     (let llm = mg_llm env urn in
      metagen_debate
        (llm\<lparr>ml_search := \<lambda>knd v. map_option (\<lambda>score. search_candidate_embeddings score knd (ml_rag_k llm) db) (mg_scores env v)\<rparr>)
        (mg_schema env) (mg_render env) prompt rules)"

definition process_dataset :: "metagen_env \<Rightarrow> metagen_config \<Rightarrow> bool \<Rightarrow> string \<Rightarrow> run_state \<Rightarrow> (ds_error, unit) result \<times> run_state" where
  "process_dataset env conf dry_run urn st =
     (let ev = fetch_evidence (mg_reads env urn) (mg_ontology env) urn; db = rt_db st in
      case get_boundary urn db of
        None \<Rightarrow> (Inr (), st)
      | Some b \<Rightarrow>
          if \<not> bd_enabled b then (Inr (), st)
          else
            let approved = approved_items db urn; cols = evidence_columns ev;
                targets = enumerate_target_items urn (bd_allowed b) cols approved;
                st1 = st\<lparr>rt_considered := rt_considered st + length targets\<rparr>
            in if targets = [] then (Inr (), st1)
               else case debate_for env urn db (mg_prompt env urn ev targets) (rules_for urn (bd_allowed b) cols approved) of
                 Inl e \<Rightarrow> (Inl e, st1)
               | Inr (payload, outcome, iterations, transcript) \<Rightarrow>
                   let st2 = st1\<lparr>rt_outcome := Some outcome, rt_iterations := Some iterations\<rparr>;
                       accepted = accepted_candidates env (payload, outcome, iterations, transcript)
                   in if dry_run then (Inr (), st2\<lparr>rt_added := rt_added st2 + length accepted\<rparr>)
                      else store_candidates env conf transcript accepted st2)"

fun process_datasets :: "metagen_env \<Rightarrow> metagen_config \<Rightarrow> bool \<Rightarrow> string list \<Rightarrow> run_state \<Rightarrow> (ds_error, unit) result \<times> run_state" where
  "process_datasets env conf dry_run [] st = (Inr (), st)"
| "process_datasets env conf dry_run (urn # urns) st =
     (case process_dataset env conf dry_run urn st of
        (Inl e, st') \<Rightarrow> (Inl e, st')
      | (Inr _, st') \<Rightarrow> process_datasets env conf dry_run urns st')"

record metagen_run_result =
  mrr_dry_run :: bool
  mrr_unresolved :: "string list"
  mrr_counts :: "(string \<times> nat) list"
  mrr_outcome :: "debate_outcome option"
  mrr_iterations :: "nat option"

definition run_counts :: "bool \<Rightarrow> nat \<Rightarrow> run_state \<Rightarrow> (string \<times> nat) list" where
  "run_counts dry_run cleared st =
     (if dry_run then [(''items_considered'', rt_considered st), (''candidates_proposed'', rt_added st)]
      else [(''items_considered'', rt_considered st), (''candidates_added'', rt_added st), (''candidates_evicted'', rt_evicted st),
            (''rejected_cleared'', cleared)])"

definition outcome_json :: "debate_outcome option \<Rightarrow> json" where
  "outcome_json oc = (case oc of None \<Rightarrow> JNull | Some Accepted \<Rightarrow> JStr ''accept'' | Some Turns_exhausted \<Rightarrow> JStr ''turns_exhausted''
     | Some Cycle_detected \<Rightarrow> JStr ''cycle_detected'')"

definition run_complete_event :: "metagen_env \<Rightarrow> metagen_config \<Rightarrow> metagen_run_result \<Rightarrow> metagen_db \<Rightarrow> metagen_db" where
  "run_complete_event env conf res db =
     record_metagen_event (show_nat (cf_id conf)) ''METAGEN.RUN_COMPLETE'' ''success''
       [(''run_id'', JStr (show_nat (mg_run_id env))), (''conf_id'', JStr (show_nat (cf_id conf))), (''conf_name'', JStr (cf_name conf)),
        (''unresolved_urns'', JList (map JStr (mrr_unresolved res))), (''counts'', JObj (map (\<lambda>(k, n). (k, JInt (int n))) (mrr_counts res))),
        (''dry_run'', JBool (mrr_dry_run res)),
        (''producer_iterations'', (case mrr_iterations res of Some n \<Rightarrow> JInt (int n) | None \<Rightarrow> JNull)),
        (''debate_outcome'', outcome_json (mrr_outcome res))] (mg_now env) db"

definition metagen_run_inner ::
  "metagen_env \<Rightarrow> metagen_config \<Rightarrow> string list option \<Rightarrow> bool \<Rightarrow> metagen_db \<Rightarrow> (svc_error, metagen_run_result) result \<times> metagen_db" where
  "metagen_run_inner env conf override dry_run db =
     (if \<not> cf_enabled conf \<and> \<not> dry_run then (Inl (SvcErr (ConflictError ''METAGEN_DISABLED'')), db)
      else case enumerate_in_scope env conf override db of
        Inl e \<Rightarrow> (Inl (FilterErr e), db)
      | Inr (urns, unresolved) \<Rightarrow>
          (case (if dry_run then Inr (0, db) else clear_rejected_candidates urns (cf_id conf) db) of
             Inl e \<Rightarrow> (Inl (SvcErr e), db)
           | Inr (cleared, db1) \<Rightarrow>
               (case process_datasets env conf dry_run urns \<lparr>rt_db = db1, rt_considered = 0, rt_added = 0, rt_evicted = 0,
                        rt_outcome = None, rt_iterations = None\<rparr> of
                  (Inl e, st) \<Rightarrow> (Inl (SvcErr e), rt_db st)
                | (Inr _, st) \<Rightarrow>
                    (let res = \<lparr>mrr_dry_run = dry_run, mrr_unresolved = unresolved, mrr_counts = run_counts dry_run cleared st,
                                mrr_outcome = rt_outcome st, mrr_iterations = rt_iterations st\<rparr>
                     in (Inr res, run_complete_event env conf res (rt_db st))))))"

definition metagen_lock_key :: "string \<Rightarrow> string" where
  "metagen_lock_key conf_id = ''metagen:running:'' @ conf_id"

definition metagen_run ::
  "metagen_env \<Rightarrow> string \<Rightarrow> nat \<Rightarrow> bool \<Rightarrow> string \<Rightarrow> string list option \<Rightarrow> bool \<Rightarrow> metagen_db \<times> redis
     \<Rightarrow> (svc_error, metagen_run_result) result \<times> metagen_db \<times> redis" where
  "metagen_run env token end_time event_ok conf_id override dry_run = (\<lambda>(db, r).
     case load_conf_row (mg_uuid env conf_id) db of
       Inl e \<Rightarrow> (Inl e, db, r)
     | Inr conf \<Rightarrow>
         (case set_nx (mg_now env) (metagen_lock_key conf_id) token LOCK_TTL_SECONDS r of
            (False, r1) \<Rightarrow> (Inl (SvcErr (ConflictError ''METAGEN_RUNNING'')), db, r1)
          | (True, r1) \<Rightarrow>
              (let (res, db1) = metagen_run_inner env conf override dry_run db;
                   db2 = (case res of
                       Inr _ \<Rightarrow> db1
                     | Inl (SvcErr (ConflictError _)) \<Rightarrow> db1
                     | Inl _ \<Rightarrow> if event_ok then record_metagen_event conf_id ''METAGEN.RUN_FAILED'' ''failure''
                           [(''run_id'', JStr (show_nat (mg_run_id env))), (''conf_id'', JStr conf_id), (''conf_name'', JStr (cf_name conf))]
                           end_time db1 else db1)
               in (res, db2, snd (delete_if_value end_time (metagen_lock_key conf_id) token r1)))))"

end
