(* ===== verification/Metagen_Invariant.thy ===== *)
theory Metagen_Invariant
  imports Metagen_Run
begin

text \<open>
  What the tables of the metadata generation service keep under every statement and operation, and what one run may
  change.
\<close>

section \<open>The tables are well formed\<close>

definition conf_inv :: "metagen_config list \<Rightarrow> bool" where
  "conf_inv confs \<longleftrightarrow> distinct (map cf_id confs) \<and> distinct (map cf_name confs) \<and> (\<forall>c \<in> set confs. 1 \<le> cf_limit c \<and> cf_limit c \<le> 20)"

definition boundary_inv :: "metagen_boundary list \<Rightarrow> bool" where
  "boundary_inv bs \<longleftrightarrow> distinct (map bd_urn bs) \<and> (\<forall>b \<in> set bs. valid_kinds (bd_allowed b))"

definition item_inv :: "metagen_item list \<Rightarrow> bool" where
  "item_inv items \<longleftrightarrow> distinct (map mi_key items) \<and>
     (\<forall>i \<in> set items. mi_kind i = item_kind (mi_item i) \<and> mi_field i = item_field_path (mi_item i))"

definition one_approved :: "metagen_row list \<Rightarrow> bool" where
  "one_approved cands \<longleftrightarrow> (\<forall>c \<in> set cands. \<forall>d \<in> set cands.
     ca_status c = ''approved'' \<longrightarrow> ca_status d = ''approved'' \<longrightarrow> ca_key c = ca_key d \<longrightarrow> ca_id c = ca_id d)"

definition cand_inv :: "(string \<times> string) set \<Rightarrow> nat set \<Rightarrow> metagen_row list \<Rightarrow> bool" where
  "cand_inv keys confs cands \<longleftrightarrow> distinct (map ca_id cands) \<and> one_approved cands \<and>
     (\<forall>c \<in> set cands. ca_key c \<in> keys \<and> ca_status c \<in> set CANDIDATE_STATUSES \<and> (\<forall>i. ca_conf c = Some i \<longrightarrow> i \<in> confs))"

definition emb_inv :: "metagen_row list \<Rightarrow> (nat \<times> string) list \<Rightarrow> bool" where
  "emb_inv cands embs \<longleftrightarrow> distinct (map fst embs) \<and> (\<forall>(i, k) \<in> set embs. \<exists>c \<in> set cands. ca_id c = i \<and> k = item_kind (ca_item c))"

definition meta_inv :: "metagen_db \<Rightarrow> bool" where
  "meta_inv db \<longleftrightarrow> conf_inv (mb_confs db) \<and> boundary_inv (mb_boundaries db) \<and> item_inv (mb_items db) \<and>
     cand_inv (mi_key ` set (mb_items db)) (cf_id ` set (mb_confs db)) (mb_cands db) \<and> emb_inv (mb_cands db) (mb_embs db)"

lemma meta_inv_event [simp]: "meta_inv (append_event et eid ty st d now db) \<longleftrightarrow> meta_inv db"
  by (simp add: meta_inv_def append_event_def)

lemma append_event_rows [simp]:
  "mb_confs (append_event et eid ty st d now db) = mb_confs db" "mb_boundaries (append_event et eid ty st d now db) = mb_boundaries db"
  "mb_items (append_event et eid ty st d now db) = mb_items db" "mb_cands (append_event et eid ty st d now db) = mb_cands db"
  "mb_embs (append_event et eid ty st d now db) = mb_embs db"
  by (simp_all add: append_event_def)

lemmas events = record_metagen_event_def record_dataset_event_def conf_event_def

section \<open>Configurations and boundaries\<close>

lemma insert_conf_inv:
  assumes "insert_conf row db = Inr db'" "meta_inv db"
  shows "meta_inv db' \<and> mb_cands db' = mb_cands db"
  using assms
  by (auto simp: insert_conf_def conf_checks_def meta_inv_def conf_inv_def cand_inv_def result_simps split: if_splits)

lemma map_key_row_put: "map key (row_update key (key row) (\<lambda>_. row) rows) = map key rows"
  by (simp add: row_update_def)

lemma set_key_row_put: "key ` set (row_update key (key row) (\<lambda>_. row) rows) = key ` set rows"
  unfolding list.set_map [symmetric] map_key_row_put ..

lemma row_update_absent: "key row \<notin> key ` set rows \<Longrightarrow> row_update key (key row) (\<lambda>_. row) rows = rows"
  unfolding row_update_def by (intro map_idI) (auto simp: image_iff)

lemma row_delete_absent: "k \<notin> key ` set rows \<Longrightarrow> row_delete key k rows = rows"
  unfolding row_delete_def by (rule filter_True) (auto simp: image_iff)

lemma distinct_name_update:
  assumes "distinct (map cf_id confs)" "distinct (map cf_name confs)" "cf_name row \<notin> cf_name ` set (row_delete cf_id (cf_id row) confs)"
  shows "distinct (map cf_name (row_update cf_id (cf_id row) (\<lambda>_. row) confs))"
  using assms
proof (induction confs)
  case (Cons c confs)
  show ?case
  proof (cases "cf_id c = cf_id row")
    case True
    with Cons.prems(1) have "cf_id row \<notin> cf_id ` set confs" by simp
    then have same: "row_update cf_id (cf_id row) (\<lambda>_. row) confs = confs" "row_delete cf_id (cf_id row) confs = confs"
      by (simp_all only: row_update_absent row_delete_absent not_False_eq_True)
    have "row_update cf_id (cf_id row) (\<lambda>_. row) (c # confs) = row # confs"
      "row_delete cf_id (cf_id row) (c # confs) = confs"
      using True same by (simp_all add: row_update_def row_delete_def)
    with Cons.prems(2,3) show ?thesis by simp
  next
    case False
    have u: "row_update cf_id (cf_id row) (\<lambda>_. row) (c # confs) = c # row_update cf_id (cf_id row) (\<lambda>_. row) confs"
      and r: "row_delete cf_id (cf_id row) (c # confs) = c # row_delete cf_id (cf_id row) confs"
      using False by (simp_all add: row_update_def row_delete_def)
    from Cons.prems(3) have n: "cf_name c \<noteq> cf_name row" "cf_name row \<notin> cf_name ` set (row_delete cf_id (cf_id row) confs)"
      unfolding r by auto
    from Cons.prems(1,2) n(2) have "distinct (map cf_name (row_update cf_id (cf_id row) (\<lambda>_. row) confs))" by (intro Cons.IH) simp_all
    moreover have "cf_name c \<notin> cf_name ` set (row_update cf_id (cf_id row) (\<lambda>_. row) confs)"
      using Cons.prems(2) n(1) by (auto simp: row_update_def)
    ultimately show ?thesis unfolding u by simp
  qed
qed (simp add: row_update_def)

lemma update_conf_inv:
  assumes "update_conf row db = Inr db'" "meta_inv db"
  shows "meta_inv db' \<and> mb_cands db' = mb_cands db"
proof -
  from assms(1) have d: "db' = db\<lparr>mb_confs := row_update cf_id (cf_id row) (\<lambda>_. row) (mb_confs db)\<rparr>"
    and n: "cf_name row \<notin> cf_name ` set (row_delete cf_id (cf_id row) (mb_confs db))" "1 \<le> cf_limit row" "cf_limit row \<le> 20"
    by (auto simp: update_conf_def conf_checks_def result_simps simp del: set_row_delete split: if_splits)
  have "conf_inv (row_update cf_id (cf_id row) (\<lambda>_. row) (mb_confs db))"
    using assms(2) n distinct_name_update [OF _ _ n(1)]
    by (auto simp: meta_inv_def conf_inv_def map_key_row_put set_row_update)
  with assms(2) d show ?thesis by (simp add: meta_inv_def set_key_row_put)
qed

lemma one_approvedD:
  "one_approved cands \<Longrightarrow> c \<in> set cands \<Longrightarrow> d \<in> set cands \<Longrightarrow> ca_status c = ''approved'' \<Longrightarrow> ca_status d = ''approved'' \<Longrightarrow>
   ca_key c = ca_key d \<Longrightarrow> ca_id c = ca_id d"
  unfolding one_approved_def by blast

text \<open>Rows rewritten without touching identifier, key and status.\<close>

lemma one_approved_map:
  assumes "one_approved cands" "\<And>c. ca_id (f c) = ca_id c" "\<And>c. ca_key (f c) = ca_key c" "\<And>c. ca_status (f c) = ca_status c"
  shows "one_approved (map f cands)"
  unfolding one_approved_def
proof (intro ballI impI)
  fix x y
  assume x: "x \<in> set (map f cands)" and y: "y \<in> set (map f cands)"
    and st: "ca_status x = ''approved''" "ca_status y = ''approved''" "ca_key x = ca_key y"
  from x obtain a where a: "a \<in> set cands" "x = f a" by auto
  from y obtain b where b: "b \<in> set cands" "y = f b" by auto
  have "ca_id a = ca_id b"
    using one_approvedD [OF assms(1) a(1) b(1)] st unfolding a(2) b(2) assms(3,4) .
  then show "ca_id x = ca_id y" by (simp only: a(2) b(2) assms(2))
qed

lemma remove_conf_inv:
  assumes inv: "meta_inv db"
  shows "meta_inv (remove_conf i db)"
proof -
  let ?f = "\<lambda>c. if ca_conf c = Some i then c\<lparr>ca_conf := None\<rparr> else c"
  have f: "ca_id (?f c) = ca_id c" "ca_key (?f c) = ca_key c" "ca_status (?f c) = ca_status c" "ca_item (?f c) = ca_item c" for c
    by (simp_all add: ca_key_def)
  from inv have cands: "cand_inv (mi_key ` set (mb_items db)) (cf_id ` set (mb_confs db)) (mb_cands db)" and e: "emb_inv (mb_cands db) (mb_embs db)"
    and confs: "conf_inv (mb_confs db)" and rest: "boundary_inv (mb_boundaries db)" "item_inv (mb_items db)"
    by (simp_all add: meta_inv_def)
  have ids: "map ca_id (map ?f (mb_cands db)) = map ca_id (mb_cands db)" by simp
  have one: "one_approved (map ?f (mb_cands db))"
    using cands f by (intro one_approved_map) (simp_all add: cand_inv_def)
  have embs: "emb_inv (map ?f (mb_cands db)) (mb_embs db)"
    using e unfolding emb_inv_def set_map bex_simps(7) f(1,4) by simp
  have "conf_inv (row_delete cf_id i (mb_confs db))"
    using confs by (auto simp: conf_inv_def distinct_row_delete)
  moreover have "\<forall>c \<in> set (mb_cands db). ca_key (?f c) \<in> mi_key ` set (mb_items db) \<and> ca_status (?f c) \<in> set CANDIDATE_STATUSES \<and>
      (\<forall>j. ca_conf (?f c) = Some j \<longrightarrow> j \<in> cf_id ` set (row_delete cf_id i (mb_confs db)))"
  proof (intro ballI conjI allI impI)
    fix c j
    assume c: "c \<in> set (mb_cands db)"
    with cands f(2,3) show "ca_key (?f c) \<in> mi_key ` set (mb_items db)" "ca_status (?f c) \<in> set CANDIDATE_STATUSES"
      by (simp_all only: cand_inv_def)
    assume "ca_conf (?f c) = Some j"
    then have "ca_conf c = Some j" "j \<noteq> i" by (auto split: if_splits)
    with cands c have "j \<in> cf_id ` set (mb_confs db)" by (simp add: cand_inv_def)
    with \<open>j \<noteq> i\<close> show "j \<in> cf_id ` set (row_delete cf_id i (mb_confs db))" by (auto simp: row_delete_def)
  qed
  ultimately have "cand_inv (mi_key ` set (mb_items db)) (cf_id ` set (row_delete cf_id i (mb_confs db))) (map ?f (mb_cands db))"
    using cands one ids unfolding cand_inv_def set_map ball_simps(9) by (intro conjI) (simp_all only:)
  with \<open>conf_inv (row_delete cf_id i (mb_confs db))\<close> embs rest show ?thesis
    by (simp add: meta_inv_def remove_conf_def cong: if_cong)
qed

lemma boundary_update_inv:
  assumes "meta_inv db" "valid_kinds (bd_allowed row)"
  shows "get_boundary (bd_urn row) db = None \<Longrightarrow> meta_inv (db\<lparr>mb_boundaries := mb_boundaries db @ [row]\<rparr>)"
    and "meta_inv (db\<lparr>mb_boundaries := row_update bd_urn (bd_urn row) (\<lambda>_. row) (mb_boundaries db)\<rparr>)"
    and "meta_inv (db\<lparr>mb_boundaries := row_delete bd_urn urn (mb_boundaries db)\<rparr>)"
proof -
  have "map bd_urn (row_update bd_urn (bd_urn row) (\<lambda>_. row) (mb_boundaries db)) = map bd_urn (mb_boundaries db)"
    by (auto simp: row_update_def)
  with assms show "meta_inv (db\<lparr>mb_boundaries := row_update bd_urn (bd_urn row) (\<lambda>_. row) (mb_boundaries db)\<rparr>)"
    by (auto simp: meta_inv_def boundary_inv_def set_row_update)
qed (use assms in \<open>auto simp: meta_inv_def boundary_inv_def get_boundary_def distinct_row_delete\<close>)

section \<open>Items, candidates and embeddings\<close>

lemma insert_item_inv:
  assumes "insert_item row db = Inr db'" "meta_inv db" "mi_kind row = item_kind (mi_item row)" "mi_field row = item_field_path (mi_item row)"
  shows "meta_inv db'"
  using assms by (auto simp: insert_item_def meta_inv_def item_inv_def cand_inv_def split: if_splits)

lemma insert_candidate_inv:
  assumes "insert_candidate row db = Inr db'" "meta_inv db"
  shows "meta_inv db'"
proof -
  from assms(1) have d: "db' = db\<lparr>mb_cands := mb_cands db @ [row]\<rparr>" and n: "ca_id row \<notin> ca_id ` set (mb_cands db)"
    "ca_key row \<in> mi_key ` set (mb_items db)" "\<forall>i. ca_conf row = Some i \<longrightarrow> i \<in> cf_id ` set (mb_confs db)"
    "ca_status row \<in> set CANDIDATE_STATUSES" "\<not> approved_clash row (mb_cands db)"
    by (auto simp: insert_candidate_def split: if_splits option.splits)
  have "one_approved (mb_cands db @ [row])"
    using assms(2) n(1,5) unfolding meta_inv_def cand_inv_def one_approved_def approved_clash_def by fastforce
  with assms(2) d n show ?thesis by (auto simp: meta_inv_def cand_inv_def emb_inv_def)
qed


lemma update_candidate_inv:
  assumes "update_candidate row db = Inr db'" "meta_inv db" "c \<in> set (mb_cands db)"
    "ca_id row = ca_id c" "ca_urn row = ca_urn c" "ca_item row = ca_item c" "ca_conf row = ca_conf c"
  shows "meta_inv db'"
proof -
  let ?rows = "row_update ca_id (ca_id row) (\<lambda>_. row) (mb_cands db)"
  from assms(1) have d: "db' = db\<lparr>mb_cands := ?rows\<rparr>" and n: "ca_status row \<in> set CANDIDATE_STATUSES" "\<not> approved_clash row (mb_cands db)"
    by (auto simp: update_candidate_def split: if_splits)
  have key: "ca_key row = ca_key c" using assms(5,6) by (simp add: ca_key_def)
  have cands: "cand_inv (mi_key ` set (mb_items db)) (cf_id ` set (mb_confs db)) (mb_cands db)" and e: "emb_inv (mb_cands db) (mb_embs db)"
    using assms(2) by (simp_all add: meta_inv_def)
  have same: "x = c" if "x \<in> set (mb_cands db)" "ca_id x = ca_id row" for x
    using cands assms(3,4) that by (auto simp: cand_inv_def distinct_map dest: inj_onD)
  have mem: "x = row \<or> (x \<in> set (mb_cands db) \<and> ca_id x \<noteq> ca_id row)" if "x \<in> set ?rows" for x
    using that by (auto simp: row_update_def)
  have clash: "ca_status row = ''approved'' \<Longrightarrow> ca_status x = ''approved'' \<Longrightarrow> ca_key x = ca_key row \<Longrightarrow> x \<in> set (mb_cands db) \<Longrightarrow>
      ca_id x = ca_id row" for x
    using n(2) unfolding approved_clash_def by blast
  have one: "one_approved ?rows"
    unfolding one_approved_def
  proof (intro ballI impI)
    fix x y
    assume x: "x \<in> set ?rows" and y: "y \<in> set ?rows" and st: "ca_status x = ''approved''" "ca_status y = ''approved''" "ca_key x = ca_key y"
    show "ca_id x = ca_id y"
    proof (cases "x = row \<or> y = row")
      case True
      then show ?thesis using mem [OF x] mem [OF y] st clash [of x] clash [of y] by auto
    next
      case False
      with mem [OF x] mem [OF y] have "x \<in> set (mb_cands db)" "y \<in> set (mb_cands db)" by auto
      with st cands show ?thesis unfolding cand_inv_def by (blast intro: one_approvedD)
    qed
  qed
  have rows: "ca_key x \<in> mi_key ` set (mb_items db) \<and> ca_status x \<in> set CANDIDATE_STATUSES \<and>
      (\<forall>i. ca_conf x = Some i \<longrightarrow> i \<in> cf_id ` set (mb_confs db))" if "x \<in> set ?rows" for x
    using mem [OF that]
  proof
    assume "x = row"
    with cands assms(3,7) n(1) key show ?thesis unfolding cand_inv_def by simp
  next
    assume "x \<in> set (mb_cands db) \<and> ca_id x \<noteq> ca_id row"
    with cands show ?thesis unfolding cand_inv_def by blast
  qed
  have "emb_inv ?rows (mb_embs db)"
  proof -
    have "\<exists>y \<in> set ?rows. ca_id y = ca_id x \<and> ca_item y = ca_item x" if "x \<in> set (mb_cands db)" for x
    proof (cases "ca_id x = ca_id row")
      case True
      with same [OF that] that assms(6) show ?thesis by (intro bexI [of _ row]) (auto simp: row_update_def intro!: image_eqI [of _ _ x])
    qed (use that in \<open>auto simp: row_update_def intro!: bexI [of _ x] image_eqI [of _ _ x]\<close>)
    note keep = this
    show ?thesis
      unfolding emb_inv_def
    proof (intro conjI ballI, goal_cases)
      case (2 p)
      with e obtain x where "x \<in> set (mb_cands db)" "ca_id x = fst p" "snd p = item_kind (ca_item x)" unfolding emb_inv_def by auto
      with keep [of x] show ?case by (auto simp: case_prod_beta)
    qed (use e in \<open>simp add: emb_inv_def\<close>)
  qed
  with cands one rows assms(2) show ?thesis
    unfolding d by (simp add: meta_inv_def cand_inv_def map_key_row_put)
qed

lemma delete_with_embeddings:
  assumes "meta_inv db"
  shows "\<exists>db'. delete_candidates P (delete_embeddings P db) = Inr db' \<and> meta_inv db' \<and> mb_cands db' = filter (\<lambda>c. \<not> P c) (mb_cands db) \<and>
    mb_confs db' = mb_confs db \<and> mb_boundaries db' = mb_boundaries db \<and> mb_items db' = mb_items db"
proof -
  let ?ids = "ca_id ` set (filter P (mb_cands db))"
  let ?embs = "filter (\<lambda>(i, k). i \<notin> ?ids) (mb_embs db)"
  let ?db = "db\<lparr>mb_embs := ?embs, mb_cands := filter (\<lambda>c. \<not> P c) (mb_cands db)\<rparr>"
  have no: "\<not> (P c \<and> ca_id c \<in> fst ` set ?embs)" if "c \<in> set (mb_cands db)" for c using that by auto
  have e: "emb_inv (mb_cands db) (mb_embs db)" using assms by (simp add: meta_inv_def)
  have "emb_inv (filter (\<lambda>c. \<not> P c) (mb_cands db)) ?embs"
    unfolding emb_inv_def
  proof
    show "distinct (map fst ?embs)" using e by (simp add: emb_inv_def distinct_map_filter)
    show "\<forall>(i, k) \<in> set ?embs. \<exists>c \<in> set (filter (\<lambda>c. \<not> P c) (mb_cands db)). ca_id c = i \<and> k = item_kind (ca_item c)"
    proof (intro ballI, clarify)
      fix i k
      assume ik: "(i, k) \<in> set ?embs"
      with e obtain c where c: "c \<in> set (mb_cands db)" "ca_id c = i" "k = item_kind (ca_item c)" unfolding emb_inv_def by auto
      with ik have "\<not> P c" by auto
      with c show "\<exists>c \<in> set (filter (\<lambda>c. \<not> P c) (mb_cands db)). ca_id c = i \<and> k = item_kind (ca_item c)" by auto
    qed
  qed
  moreover have "cand_inv (mi_key ` set (mb_items db)) (cf_id ` set (mb_confs db)) (filter (\<lambda>c. \<not> P c) (mb_cands db))"
    using assms by (simp add: meta_inv_def cand_inv_def one_approved_def distinct_map_filter) blast
  ultimately have "meta_inv ?db" using assms by (simp add: meta_inv_def)
  moreover have "delete_candidates P (delete_embeddings P db) = Inr ?db"
    using no by (auto simp: delete_candidates_def delete_embeddings_def)
  ultimately show ?thesis by auto
qed

lemma refresh_rows [simp]:
  "mb_cands (refresh_candidate_embedding ok c db) = mb_cands db" "mb_confs (refresh_candidate_embedding ok c db) = mb_confs db"
  "mb_boundaries (refresh_candidate_embedding ok c db) = mb_boundaries db" "mb_items (refresh_candidate_embedding ok c db) = mb_items db"
  by (simp_all add: refresh_candidate_embedding_def)

lemma refresh_embedding_inv:
  assumes "meta_inv db" "c \<in> set (mb_cands db)"
  shows "meta_inv (refresh_candidate_embedding ok c db)"
proof -
  let ?k = "item_kind (ca_item c)"
  have e: "emb_inv (mb_cands db) (mb_embs db)" using assms(1) by (simp add: meta_inv_def)
  consider "mb_embs (refresh_candidate_embedding ok c db) = mb_embs db"
    | "mb_embs (refresh_candidate_embedding ok c db) = map (\<lambda>(i, k). (i, if i = ca_id c then ?k else k)) (mb_embs db)"
    | "mb_embs (refresh_candidate_embedding ok c db) = mb_embs db @ [(ca_id c, ?k)]" "ca_id c \<notin> fst ` set (mb_embs db)"
  proof (cases "ok \<and> ca_id c \<in> ca_id ` set (mb_cands db)")
    case True
    with that(2,3) show ?thesis
      by (cases "ca_id c \<in> fst ` set (mb_embs db)") (simp_all add: refresh_candidate_embedding_def del: imp_conjL)
  next
    case False
    then have "refresh_candidate_embedding ok c db = db" by (auto simp: refresh_candidate_embedding_def)
    with that(1) show ?thesis by simp
  qed
  then have "emb_inv (mb_cands db) (mb_embs (refresh_candidate_embedding ok c db))"
  proof cases
    case 2
    have "map fst (map (\<lambda>(i, k). (i, if i = ca_id c then ?k else k)) (mb_embs db)) = map fst (mb_embs db)"
      by (simp add: case_prod_beta)
    moreover have "\<forall>(i, k) \<in> set (map (\<lambda>(i, k). (i, if i = ca_id c then ?k else k)) (mb_embs db)).
        \<exists>d \<in> set (mb_cands db). ca_id d = i \<and> k = item_kind (ca_item d)"
    proof (clarsimp, intro conjI impI)
      fix i k
      assume "(i, k) \<in> set (mb_embs db)"
      with e show "\<exists>d \<in> set (mb_cands db). ca_id d = i \<and> k = item_kind (ca_item d)" unfolding emb_inv_def by auto
    qed (use assms(2) in auto)
    moreover have "distinct (map fst (mb_embs db))" using e by (simp only: emb_inv_def)
    ultimately show ?thesis unfolding 2 emb_inv_def by (simp only: simp_thms)
  next
    case 3
    with e assms(2) show ?thesis unfolding emb_inv_def by auto
  qed (use e in simp)
  with assms(1) show ?thesis by (simp add: meta_inv_def)
qed

end
