(* ===== verification/Metagen_Safety.thy ===== *)
theory Metagen_Safety
  imports Metagen_Invariant
begin

text \<open>
  What one run of a configuration may change: its own candidates that no reviewer has approved, within the budget of each
  item. Every operation of the service keeps the tables well formed.
\<close>

section \<open>The frame of a run\<close>

definition approved_list :: "metagen_db \<Rightarrow> metagen_row list" where
  "approved_list db = filter (\<lambda>c. ca_status c = ''approved'') (mb_cands db)"

definition foreign_list :: "nat \<Rightarrow> metagen_db \<Rightarrow> metagen_row list" where
  "foreign_list cid db = filter (\<lambda>c. ca_conf c \<noteq> Some cid) (mb_cands db)"

definition fresh_row :: "metagen_env \<Rightarrow> metagen_config \<Rightarrow> metagen_row \<Rightarrow> bool" where
  "fresh_row env conf c \<longleftrightarrow> ca_status c = ''llm_approved'' \<and> ca_conf c = Some (cf_id conf) \<and> ca_run c = mg_run_id env \<and>
     mg_threshold env \<le> ca_confidence c \<and> ca_reviewed c = None"

definition run_keeps :: "metagen_env \<Rightarrow> metagen_config \<Rightarrow> metagen_db \<Rightarrow> metagen_db \<Rightarrow> bool" where
  "run_keeps env conf db db' \<longleftrightarrow>
     mb_confs db' = mb_confs db \<and> mb_boundaries db' = mb_boundaries db \<and> set (mb_items db) \<subseteq> set (mb_items db') \<and>
     approved_list db' = approved_list db \<and> foreign_list (cf_id conf) db' = foreign_list (cf_id conf) db \<and>
     (\<forall>c \<in> set (mb_cands db'). c \<in> set (mb_cands db) \<or> fresh_row env conf c) \<and>
     (\<forall>key. int (budget_used (cf_id conf) key db') \<le> max (cf_limit conf) (int (budget_used (cf_id conf) key db)))"

lemma run_keeps_refl [simp]: "run_keeps env conf db db"
  by (simp add: run_keeps_def)

lemma run_keeps_trans: "run_keeps env conf a b \<Longrightarrow> run_keeps env conf b c \<Longrightarrow> run_keeps env conf a c"
proof -
  assume ab: "run_keeps env conf a b" and bc: "run_keeps env conf b c"
  have "int (budget_used (cf_id conf) key c) \<le> max (cf_limit conf) (int (budget_used (cf_id conf) key a))" for key
  proof -
    from ab have "int (budget_used (cf_id conf) key b) \<le> max (cf_limit conf) (int (budget_used (cf_id conf) key a))"
      unfolding run_keeps_def by blast
    moreover from bc have "int (budget_used (cf_id conf) key c) \<le> max (cf_limit conf) (int (budget_used (cf_id conf) key b))"
      unfolding run_keeps_def by blast
    ultimately show ?thesis by linarith
  qed
  with ab bc show ?thesis unfolding run_keeps_def by auto
qed

text \<open>Only the rows of the candidates matter; items may grow.\<close>

lemma run_keeps_same:
  assumes "mb_confs db' = mb_confs db" "mb_boundaries db' = mb_boundaries db" "set (mb_items db) \<subseteq> set (mb_items db')"
    "mb_cands db' = mb_cands db"
  shows "run_keeps env conf db db'"
  using assms by (simp add: run_keeps_def approved_list_def foreign_list_def budget_used_def)

lemma own_conf: "own cid key c \<Longrightarrow> ca_conf c = Some cid"
  by (simp add: own_def)

lemma length_filter_le_all: "(\<And>x. x \<in> set xs \<Longrightarrow> P x \<Longrightarrow> Q x) \<Longrightarrow> length (filter P xs) \<le> length (filter Q xs)"
  by (induction xs) auto

text \<open>Removing candidates of the run's configuration that are not approved.\<close>

lemma run_keeps_delete:
  assumes "\<And>c. c \<in> set (mb_cands db) \<Longrightarrow> P c \<Longrightarrow> ca_conf c = Some (cf_id conf) \<and> ca_status c \<noteq> ''approved''"
    "mb_cands db' = filter (\<lambda>c. \<not> P c) (mb_cands db)" "mb_confs db' = mb_confs db" "mb_boundaries db' = mb_boundaries db"
    "mb_items db' = mb_items db"
  shows "run_keeps env conf db db'"
proof -
  have "approved_list db' = approved_list db"
    using assms(1) unfolding approved_list_def assms(2) filter_filter by (intro filter_cong) auto
  moreover have "foreign_list (cf_id conf) db' = foreign_list (cf_id conf) db"
    using assms(1) unfolding foreign_list_def assms(2) filter_filter by (intro filter_cong) auto
  moreover have "budget_used (cf_id conf) key db' \<le> budget_used (cf_id conf) key db" for key
    unfolding budget_used_def assms(2) filter_filter by (rule length_filter_le_all) auto
  then have "int (budget_used (cf_id conf) key db') \<le> max (cf_limit conf) (int (budget_used (cf_id conf) key db))" for key
    by (simp add: le_max_iff_disj)
  ultimately show ?thesis using assms(2-5) by (auto simp: run_keeps_def)
qed

lemma run_keeps_insert:
  assumes "fresh_row env conf row" "mb_cands db' = mb_cands db @ [row]" "mb_confs db' = mb_confs db" "mb_boundaries db' = mb_boundaries db"
    "mb_items db' = mb_items db" "int (budget_used (cf_id conf) (ca_key row) db) < cf_limit conf"
  shows "run_keeps env conf db db'"
proof -
  have "int (budget_used (cf_id conf) key db') \<le> max (cf_limit conf) (int (budget_used (cf_id conf) key db))" for key
    using assms(1,2,6) by (cases "key = ca_key row") (auto simp: budget_used_def own_def)
  with assms(1-5) show ?thesis by (auto simp: run_keeps_def fresh_row_def approved_list_def foreign_list_def)
qed

section \<open>The statements of a run\<close>

lemma clear_rejected_ok:
  assumes "meta_inv db"
  shows "\<exists>n db'. clear_rejected_candidates urns (cf_id conf) db = Inr (n, db') \<and> meta_inv db' \<and> run_keeps env conf db db' \<and>
    length (mb_cands db') + n = length (mb_cands db)"
proof -
  let ?P = "rejected_in (cf_id conf) urns"
  obtain db' where d: "delete_candidates ?P (delete_embeddings ?P db) = Inr db'" "meta_inv db'" "mb_cands db' = filter (\<lambda>c. \<not> ?P c) (mb_cands db)"
    "mb_confs db' = mb_confs db" "mb_boundaries db' = mb_boundaries db" "mb_items db' = mb_items db"
    using delete_with_embeddings [OF assms, of ?P] by blast
  have "run_keeps env conf db db'"
    by (rule run_keeps_delete [of db ?P]) (use d(3-6) in \<open>auto simp: rejected_in_def\<close>)
  moreover have "length (mb_cands db') + length (filter ?P (mb_cands db)) = length (mb_cands db)"
    using sum_length_filter_compl [of ?P "mb_cands db"] d(3) by simp
  ultimately show ?thesis using d(1,2) by (simp add: clear_rejected_candidates_def)
qed

lemma materialise_item_ok:
  assumes "materialise_item now urn item db = Inr db'" "meta_inv db"
  shows "meta_inv db' \<and> run_keeps env conf db db' \<and> mb_cands db' = mb_cands db"
proof (cases "row_get mi_key (urn, item) (mb_items db)")
  case None
  let ?row = "\<lparr>mi_urn = urn, mi_item = item, mi_kind = item_kind item, mi_field = item_field_path item, mi_created = now, mi_updated = now\<rparr>"
  from assms(1) None have i: "insert_item ?row db = Inr db'" by (simp add: materialise_item_def)
  then have "meta_inv db'" using insert_item_inv [OF i assms(2)] by simp
  moreover from i have "db' = db\<lparr>mb_items := mb_items db @ [?row]\<rparr>" by (simp add: insert_item_def split: if_splits)
  ultimately show ?thesis by (auto intro!: run_keeps_same)
qed (use assms in \<open>simp add: materialise_item_def\<close>)

lemma add_candidate_ok:
  assumes "add_candidate ok row db = Inr db'" "meta_inv db"
  shows "meta_inv db' \<and> mb_cands db' = mb_cands db @ [row] \<and> mb_confs db' = mb_confs db \<and> mb_boundaries db' = mb_boundaries db \<and>
    mb_items db' = mb_items db"
proof -
  from assms(1) obtain db1 where i: "insert_candidate row db = Inr db1" and d: "db' = refresh_candidate_embedding ok row db1"
    by (auto simp: add_candidate_def result_simps)
  from i have d1: "db1 = db\<lparr>mb_cands := mb_cands db @ [row]\<rparr>" by (auto simp: insert_candidate_def split: if_splits option.splits)
  then have "meta_inv db'" using refresh_embedding_inv [OF insert_candidate_inv [OF i assms(2)], of row ok] unfolding d by simp
  then show ?thesis using d d1 by simp
qed

lemma oldest_open_row: "oldest_open cid key db = Some v \<Longrightarrow> v \<in> set (mb_cands db) \<and> own cid key v \<and> ca_status v = ''llm_approved''"
proof -
  let ?rows = "filter (\<lambda>c. own cid key c \<and> ca_status c = ''llm_approved'') (mb_cands db)"
  assume "oldest_open cid key db = Some v"
  then obtain vs where "sort_key ca_created ?rows = v # vs" unfolding oldest_open_def by (auto split: list.splits)
  then have "set (v # vs) = set (sort_key ca_created ?rows)" by (simp only:)
  then have "set (v # vs) = set ?rows" unfolding set_sort .
  then have "v \<in> set ?rows" by auto
  then show ?thesis by simp
qed

lemma length_filter_id:
  assumes "distinct (map key xs)" "x \<in> set xs" "Q x"
  shows "length (filter (\<lambda>y. key y \<noteq> key x \<and> Q y) xs) + 1 = length (filter Q xs)"
  using assms
proof (induction xs)
  case (Cons a xs)
  show ?case
  proof (cases "x = a")
    case True
    have "key y \<noteq> key x" if "y \<in> set xs" for y using Cons.prems(1) True that by (auto simp: image_iff)
    then have "filter (\<lambda>y. key y \<noteq> key x \<and> Q y) xs = filter Q xs" by (intro filter_cong) auto
    then show ?thesis using True Cons.prems(3) by simp
  next
    case False
    with Cons.prems have "x \<in> set xs" "key a \<noteq> key x" by auto
    with Cons show ?thesis by auto
  qed
qed simp

lemma evict_ok:
  assumes inv: "meta_inv db" and v: "oldest_open (cf_id conf) key db = Some v"
  shows "\<exists>db'. evict v db = Inr db' \<and> meta_inv db' \<and> run_keeps env conf db db' \<and> length (mb_cands db') + 1 = length (mb_cands db) \<and>
    budget_used (cf_id conf) key db' + 1 = budget_used (cf_id conf) key db"
proof -
  let ?P = "\<lambda>c. ca_id c = ca_id v"
  obtain db' where d: "delete_candidates ?P (delete_embeddings ?P db) = Inr db'" "meta_inv db'" "mb_cands db' = filter (\<lambda>c. \<not> ?P c) (mb_cands db)"
    "mb_confs db' = mb_confs db" "mb_boundaries db' = mb_boundaries db" "mb_items db' = mb_items db"
    using delete_with_embeddings [OF inv, of ?P] by blast
  from oldest_open_row [OF v] have vr: "v \<in> set (mb_cands db)" "own (cf_id conf) key v" "ca_status v = ''llm_approved''" by auto
  from inv have dist: "distinct (map ca_id (mb_cands db))" by (simp add: meta_inv_def cand_inv_def)
  then have same: "c = v" if "c \<in> set (mb_cands db)" "ca_id c = ca_id v" for c
    using vr(1) that by (auto simp: distinct_map dest: inj_onD)
  have "run_keeps env conf db db'"
  proof (rule run_keeps_delete [of db ?P])
    fix c
    assume "c \<in> set (mb_cands db)" "ca_id c = ca_id v"
    then have "c = v" by (rule same)
    with vr(2,3) own_conf show "ca_conf c = Some (cf_id conf) \<and> ca_status c \<noteq> ''approved''" by fastforce
  qed (use d(3-6) in simp_all)
  moreover have "length (mb_cands db') + 1 = length (mb_cands db)"
    using length_filter_id [OF dist vr(1), of "\<lambda>_. True"] d(3) by simp
  moreover have "budget_used (cf_id conf) key db' + 1 = budget_used (cf_id conf) key db"
    using length_filter_id [OF dist vr(1), of "\<lambda>c. own (cf_id conf) key c \<and> ca_status c \<noteq> ''rejected''"] vr(2,3)
    unfolding budget_used_def d(3) filter_filter by simp
  ultimately show ?thesis using d(1,2) by (auto simp: evict_def)
qed

section \<open>The run\<close>

text \<open>What a step of the run guarantees of the database it leaves.\<close>

definition run_ok :: "metagen_env \<Rightarrow> metagen_config \<Rightarrow> metagen_db \<Rightarrow> metagen_db \<Rightarrow> bool" where
  "run_ok env conf db db' \<longleftrightarrow> meta_inv db' \<and> run_keeps env conf db db'"

lemma run_ok_trans: "run_ok env conf a b \<Longrightarrow> run_ok env conf b c \<Longrightarrow> run_ok env conf a c"
  by (auto simp: run_ok_def intro: run_keeps_trans)

lemma run_ok_refl: "meta_inv db \<Longrightarrow> run_ok env conf db db"
  by (simp add: run_ok_def)

lemma add_candidate_run_ok:
  assumes "add_candidate ok row db = Inr db'" "meta_inv db" "fresh_row env conf row"
    "int (budget_used (cf_id conf) (ca_key row) db) < cf_limit conf"
  shows "run_ok env conf db db' \<and> length (mb_cands db') = length (mb_cands db) + 1"
proof -
  from add_candidate_ok [OF assms(1,2)] have a: "meta_inv db'" "mb_cands db' = mb_cands db @ [row]" "mb_confs db' = mb_confs db"
    "mb_boundaries db' = mb_boundaries db" "mb_items db' = mb_items db" by simp_all
  from run_keeps_insert [OF assms(3) a(2-5) assms(4)] a(1,2) show ?thesis by (simp add: run_ok_def)
qed

text \<open>An eviction makes room in the budget only while the budget is not above its limit; a limit lowered since leaves it above, and
  then the count stays where it was.\<close>

lemma evict_add_run_ok:
  assumes "meta_inv db" "oldest_open (cf_id conf) (ca_key row) db = Some v" "evict v db = Inr db2" "add_candidate ok row db2 = Inr db3"
    "fresh_row env conf row"
  shows "run_ok env conf db db3 \<and> length (mb_cands db3) = length (mb_cands db)"
proof -
  from evict_ok [OF assms(1,2)] assms(3) have e: "meta_inv db2" "run_keeps env conf db db2" "length (mb_cands db2) + 1 = length (mb_cands db)"
    "budget_used (cf_id conf) (ca_key row) db2 + 1 = budget_used (cf_id conf) (ca_key row) db" by auto
  from add_candidate_ok [OF assms(4) e(1)] have a: "meta_inv db3" "mb_cands db3 = mb_cands db2 @ [row]" "mb_confs db3 = mb_confs db2"
    "mb_boundaries db3 = mb_boundaries db2" "mb_items db3 = mb_items db2" by simp_all
  have "int (budget_used (cf_id conf) key db3) \<le> max (cf_limit conf) (int (budget_used (cf_id conf) key db))" for key
  proof (cases "key = ca_key row")
    case True
    with assms(5) a(2) have "budget_used (cf_id conf) key db3 = budget_used (cf_id conf) key db2 + 1"
      by (simp add: budget_used_def own_def fresh_row_def)
    with e(4) True show ?thesis by simp
  next
    case False
    with a(2) have "budget_used (cf_id conf) key db3 = budget_used (cf_id conf) key db2"
      by (simp add: budget_used_def own_def)
    with e(2) show ?thesis unfolding run_keeps_def by metis
  qed
  moreover have "approved_list db3 = approved_list db2" "foreign_list (cf_id conf) db3 = foreign_list (cf_id conf) db2"
    using a(2) assms(5) by (simp_all add: approved_list_def foreign_list_def fresh_row_def)
  ultimately have "run_keeps env conf db db3" using e(2) a assms(5) by (auto simp: run_keeps_def)
  with a(1,2) e(3) show ?thesis by (simp add: run_ok_def)
qed

lemma apply_budget_ok:
  assumes "apply_per_item_budget now ok conf row db = Inr (added, evicted, db')" "meta_inv db" "fresh_row env conf row"
  shows "run_ok env conf db db' \<and> length (mb_cands db') + (if evicted then 1 else 0) = length (mb_cands db) + (if added then 1 else 0)"
proof -
  from assms(1) obtain db1 where m: "materialise_item now (ca_urn row) (ca_item row) db = Inr db1" 
    and k: "(if int (budget_used (cf_id conf) (ca_key row) db1) \<ge> cf_limit conf then
         if \<not> cf_overwrite conf then Inr (False, False, db1)
         else case oldest_open (cf_id conf) (ca_key row) db1 of
           None \<Rightarrow> Inr (False, False, db1)
         | Some v \<Rightarrow> rbind (evict v db1) (\<lambda>db2. rmap (\<lambda>db3. (True, True, db3)) (add_candidate ok row db2))
       else rmap (\<lambda>db2. (True, False, db2)) (add_candidate ok row db1)) = Inr (added, evicted, db')"
    by (auto simp: apply_per_item_budget_def rbind_eq_Inr)
  from materialise_item_ok [OF m assms(2)] have m1: "meta_inv db1" "run_ok env conf db db1" "mb_cands db1 = mb_cands db"
    by (simp_all add: run_ok_def)
  consider "\<not> added" "\<not> evicted" "db' = db1"
    | v db2 where "oldest_open (cf_id conf) (ca_key row) db1 = Some v" "evict v db1 = Inr db2" "add_candidate ok row db2 = Inr db'" added evicted
    | "add_candidate ok row db1 = Inr db'" "int (budget_used (cf_id conf) (ca_key row) db1) < cf_limit conf" added "\<not> evicted"
    using k by (auto simp: result_simps split: if_splits option.splits)
  then show ?thesis
  proof cases
    case 2
    from evict_add_run_ok [OF m1(1) 2(1-3) assms(3)] 2(4,5) m1 show ?thesis by (auto intro: run_ok_trans)
  next
    case 3
    from add_candidate_run_ok [OF 3(1) m1(1) assms(3) 3(2)] 3(3,4) m1 show ?thesis by (auto intro: run_ok_trans)
  qed (use m1 in auto)
qed

lemma store_candidates_ok:
  assumes "store_candidates env conf transcript cs st = (res, st')" "meta_inv (rt_db st)" "\<forall>c \<in> set cs. mg_threshold env \<le> mc_confidence c"
  shows "run_ok env conf (rt_db st) (rt_db st') \<and>
    length (mb_cands (rt_db st')) + rt_evicted st' + rt_added st = length (mb_cands (rt_db st)) + rt_evicted st + rt_added st'"
  using assms
proof (induction cs arbitrary: st)
  case (Cons c cs)
  let ?row = "new_candidate env conf transcript (rt_added st) c"
  have fresh: "fresh_row env conf ?row" using Cons.prems(3) by (simp add: fresh_row_def new_candidate_def)
  show ?case
  proof (cases "apply_per_item_budget (mg_now env) (mg_embed_ok env (ca_id ?row)) conf ?row (rt_db st)")
    case (Inl e)
    with Cons.prems(1,2) show ?thesis by (simp add: run_ok_refl)
  next
    case (Inr r)
    obtain a e db1 where r: "r = (a, e, db1)" by (cases r)
    from apply_budget_ok [OF Inr [unfolded r] Cons.prems(2) fresh]
    have ok: "run_ok env conf (rt_db st) db1" "length (mb_cands db1) + (if e then 1 else 0) = length (mb_cands (rt_db st)) + (if a then 1 else 0)"
      by simp_all
    let ?st = "st\<lparr>rt_db := db1, rt_added := rt_added st + (if a then 1 else 0), rt_evicted := rt_evicted st + (if e then 1 else 0)\<rparr>"
    from Cons.prems(1) have "store_candidates env conf transcript cs ?st = (res, st')" by (simp add: Let_def Inr r)
    with Cons.IH [of ?st] ok Cons.prems(3) have ih: "run_ok env conf db1 (rt_db st')"
      "length (mb_cands (rt_db st')) + rt_evicted st' + rt_added ?st = length (mb_cands db1) + rt_evicted ?st + rt_added st'"
      by (simp_all add: run_ok_def)
    from run_ok_trans [OF ok(1) ih(1)] ih(2) ok(2) show ?thesis by (cases a; cases e) simp_all
  qed
qed (simp add: run_ok_refl)

lemma accepted_confident: "c \<in> set (accepted_candidates env s) \<Longrightarrow> mg_threshold env \<le> mc_confidence c"
  by (auto simp: accepted_candidates_def split: prod.splits if_splits sum.splits)

lemma process_dataset_ok:
  assumes "process_dataset env conf dry urn st = (res, st')" "meta_inv (rt_db st)"
  shows "run_ok env conf (rt_db st) (rt_db st') \<and> (dry \<longrightarrow> rt_db st' = rt_db st) \<and>
    (\<not> dry \<longrightarrow> length (mb_cands (rt_db st')) + rt_evicted st' + rt_added st = length (mb_cands (rt_db st)) + rt_evicted st + rt_added st')"
proof -
  consider "rt_db st' = rt_db st" "rt_evicted st' = rt_evicted st" "rt_added st' = rt_added st" | "dry" "rt_db st' = rt_db st"
    | tr s st2 where "\<not> dry" "store_candidates env conf tr (accepted_candidates env s) st2 = (res, st')" "rt_db st2 = rt_db st"
      "rt_evicted st2 = rt_evicted st" "rt_added st2 = rt_added st"
    using assms(1) unfolding process_dataset_def Let_def by (auto split: option.splits if_splits sum.splits prod.splits)
  then show ?thesis
  proof cases
    case 3
    from store_candidates_ok [OF 3(2)] assms(2) 3(3-5) accepted_confident have "run_ok env conf (rt_db st2) (rt_db st') \<and>
      length (mb_cands (rt_db st')) + rt_evicted st' + rt_added st2 = length (mb_cands (rt_db st2)) + rt_evicted st2 + rt_added st'"
      by metis
    with 3 show ?thesis by simp
  qed (use assms(2) in \<open>simp_all add: run_ok_refl\<close>)
qed

lemma process_datasets_ok:
  assumes "process_datasets env conf dry urns st = (res, st')" "meta_inv (rt_db st)"
  shows "run_ok env conf (rt_db st) (rt_db st') \<and> (dry \<longrightarrow> rt_db st' = rt_db st) \<and>
    (\<not> dry \<longrightarrow> length (mb_cands (rt_db st')) + rt_evicted st' + rt_added st = length (mb_cands (rt_db st)) + rt_evicted st + rt_added st')"
  using assms
proof (induction urns arbitrary: st)
  case (Cons urn urns)
  obtain res1 st1 where p: "process_dataset env conf dry urn st = (res1, st1)" by (cases "process_dataset env conf dry urn st")
  from process_dataset_ok [OF p Cons.prems(2)] have one: "run_ok env conf (rt_db st) (rt_db st1)" "dry \<longrightarrow> rt_db st1 = rt_db st"
    "\<not> dry \<longrightarrow> length (mb_cands (rt_db st1)) + rt_evicted st1 + rt_added st = length (mb_cands (rt_db st)) + rt_evicted st + rt_added st1"
    by simp_all
  show ?case
  proof (cases res1)
    case (Inl e)
    with Cons.prems(1) p one show ?thesis by simp
  next
    case (Inr u)
    with Cons.prems(1) p have "process_datasets env conf dry urns st1 = (res, st')" by simp
    from Cons.IH [OF this] one(1) have ih: "run_ok env conf (rt_db st1) (rt_db st')" "dry \<longrightarrow> rt_db st' = rt_db st1"
      "\<not> dry \<longrightarrow> length (mb_cands (rt_db st')) + rt_evicted st' + rt_added st1 = length (mb_cands (rt_db st1)) + rt_evicted st1 + rt_added st'"
      by (simp_all add: run_ok_def)
    from run_ok_trans [OF one(1) ih(1)] one(2,3) ih(2,3) show ?thesis by auto
  qed
qed (simp add: run_ok_refl)

end
