(* ===== verification/Metagen_Operations.thy ===== *)
theory Metagen_Operations
  imports Metagen_Safety
begin

text \<open>
  Every operation of the metadata generation service keeps its tables well formed, and only reviews change what is approved.
\<close>

section \<open>A whole run\<close>

lemma run_ok_event [simp]: "run_ok env conf db (append_event et eid ty st d now db') \<longleftrightarrow> run_ok env conf db db'"
  by (simp add: run_ok_def run_keeps_def approved_list_def foreign_list_def budget_used_def)

text \<open>What a run that stores candidates reports, against the rows it leaves.\<close>

definition accounts :: "metagen_db \<Rightarrow> metagen_db \<Rightarrow> (string \<times> nat) list \<Rightarrow> bool" where
  "accounts db db' counts \<longleftrightarrow> length (mb_cands db') + sum_list (map snd (filter (\<lambda>(k, _). k \<in> {''candidates_evicted'', ''rejected_cleared''}) counts)) =
     length (mb_cands db) + sum_list (map snd (filter (\<lambda>(k, _). k = ''candidates_added'') counts))"

lemma metagen_run_inner_ok:
  assumes "metagen_run_inner env conf override dry db = (res, db')" "meta_inv db"
  shows "run_ok env conf db db' \<and>
    (dry \<longrightarrow> mb_cands db' = mb_cands db \<and> mb_items db' = mb_items db \<and> mb_embs db' = mb_embs db) \<and>
    (\<forall>rr. res = Inr rr \<longrightarrow> \<not> dry \<longrightarrow> accounts db db' (mrr_counts rr))"
proof -
  let ?st = "\<lambda>db1. \<lparr>rt_db = db1, rt_considered = 0, rt_added = 0, rt_evicted = 0, rt_outcome = None, rt_iterations = None\<rparr>"
  consider "\<exists>e. res = Inl e" "db' = db"
    | urns cleared db1 res1 st where "(if dry then Inr (0, db) else clear_rejected_candidates urns (cf_id conf) db) = Inr (cleared, db1)"
      "process_datasets env conf dry urns (?st db1) = (res1, st)"
      "(\<exists>e. res = Inl e \<and> db' = rt_db st) \<or> (\<exists>rr. res = Inr rr \<and> mrr_counts rr = run_counts dry cleared st \<and>
          db' = run_complete_event env conf rr (rt_db st))"
    using assms(1) unfolding metagen_run_inner_def Let_def
    by (auto split: if_splits sum.splits prod.splits simp: metagen_run_result.defs)
  then show ?thesis
  proof cases
    case 1
    then show ?thesis using assms(2) by (auto simp: run_ok_refl)
  next
    case 2
    have c: "run_ok env conf db db1" "dry \<longrightarrow> db1 = db" "\<not> dry \<longrightarrow> length (mb_cands db1) + cleared = length (mb_cands db)"
      using 2(1) clear_rejected_ok [OF assms(2), of urns conf env] assms(2) by (auto simp: run_ok_def split: if_splits)
    then have "meta_inv (rt_db (?st db1))" by (simp add: run_ok_def)
    from process_datasets_ok [OF 2(2) this] have p: "run_ok env conf db1 (rt_db st)" "dry \<longrightarrow> rt_db st = db1"
      "\<not> dry \<longrightarrow> length (mb_cands (rt_db st)) + rt_evicted st = length (mb_cands db1) + rt_added st" by simp_all
    have ok: "run_ok env conf db (rt_db st)" by (rule run_ok_trans [OF c(1) p(1)])
    have sum: "\<not> dry \<longrightarrow> accounts db (rt_db st) (run_counts dry cleared st)"
      using c(3) p(3) by (cases dry) (simp_all add: accounts_def run_counts_def)
    from 2(3) ok sum c(2) p(2) show ?thesis
      by (auto simp: run_complete_event_def events accounts_def)
  qed
qed

lemma metagen_run_ok:
  assumes "load_conf_row (mg_uuid env conf_id) db = Inr conf"
    "metagen_run env token end_time event_ok conf_id override dry (db, r) = (res, db', r')" "meta_inv db"
  shows "run_ok env conf db db' \<and>
    (dry \<longrightarrow> mb_cands db' = mb_cands db \<and> mb_items db' = mb_items db \<and> mb_embs db' = mb_embs db) \<and>
    (\<forall>rr. res = Inr rr \<longrightarrow> \<not> dry \<longrightarrow> accounts db db' (mrr_counts rr))"
proof -
  obtain res1 db1 where i: "metagen_run_inner env conf override dry db = (res1, db1)" by (cases "metagen_run_inner env conf override dry db")
  note inner = metagen_run_inner_ok [OF i assms(3)]
  obtain got r1 where s: "set_nx (mg_now env) (metagen_lock_key conf_id) token LOCK_TTL_SECONDS r = (got, r1)"
    by (cases "set_nx (mg_now env) (metagen_lock_key conf_id) token LOCK_TTL_SECONDS r")
  show ?thesis
  proof (cases got)
    case False
    with assms s show ?thesis by (auto simp: metagen_run_def run_ok_refl)
  next
    case True
    with assms(1,2) s i have "res = res1"
      "db' = db1 \<or> (\<exists>e. res = Inl e) \<and> (\<exists>d. db' = record_metagen_event conf_id ''METAGEN.RUN_FAILED'' ''failure'' d end_time db1)"
      by (auto simp: metagen_run_def Let_def split: sum.splits svc_error.splits ds_error.splits if_splits)
    with inner show ?thesis by (auto simp: events)
  qed
qed

section \<open>The approved values\<close>

definition approved_value :: "metagen_db \<Rightarrow> string \<times> string \<Rightarrow> string option" where
  "approved_value db = map_of (map (\<lambda>c. (ca_key c, ca_value c)) (approved_list db))"

lemma approved_value_event [simp]: "approved_value (append_event et eid ty st d now db) = approved_value db"
  by (simp add: approved_value_def approved_list_def)

lemma approved_value_refresh [simp]: "approved_value (refresh_candidate_embedding ok c db) = approved_value db"
  by (simp add: approved_value_def approved_list_def)

lemma approved_value_iff:
  assumes "meta_inv db"
  shows "approved_value db k = Some v \<longleftrightarrow> (\<exists>c \<in> set (mb_cands db). ca_status c = ''approved'' \<and> ca_key c = k \<and> ca_value c = v)"
proof -
  from assms have dist: "distinct (map ca_id (mb_cands db))" and one: "one_approved (mb_cands db)" by (simp_all add: meta_inv_def cand_inv_def)
  have inj: "inj_on ca_key (set (approved_list db))"
  proof (rule inj_onI)
    fix x y
    assume "x \<in> set (approved_list db)" "y \<in> set (approved_list db)" "ca_key x = ca_key y"
    then have xy: "x \<in> set (mb_cands db)" "y \<in> set (mb_cands db)" "ca_id x = ca_id y"
      using one_approvedD [OF one, of x y] by (auto simp: approved_list_def)
    from dist have "inj_on ca_id (set (mb_cands db))" by (simp add: distinct_map)
    then show "x = y" using xy by (metis inj_onD)
  qed
  have "distinct (approved_list db)" using dist by (simp add: approved_list_def distinct_map)
  with inj have "distinct (map fst (map (\<lambda>c. (ca_key c, ca_value c)) (approved_list db)))" by (simp add: distinct_map o_def)
  then show ?thesis unfolding approved_value_def by (subst map_of_eq_Some_iff) (auto simp: approved_list_def)
qed

lemma approved_value_remove [simp]: "approved_value (remove_conf i db) = approved_value db"
proof -
  let ?f = "\<lambda>c. if ca_conf c = Some i then c\<lparr>ca_conf := None\<rparr> else c"
  have f: "ca_status (?f c) = ca_status c" "ca_key (?f c) = ca_key c" "ca_value (?f c) = ca_value c" for c by (simp_all add: ca_key_def)
  have "map (\<lambda>c. (ca_key c, ca_value c)) (filter (\<lambda>c. ca_status c = ''approved'') (map ?f cs)) =
      map (\<lambda>c. (ca_key c, ca_value c)) (filter (\<lambda>c. ca_status c = ''approved'') cs)" for cs
    unfolding filter_map map_map o_def f ..
  then show ?thesis unfolding approved_value_def approved_list_def remove_conf_def by simp
qed

section \<open>Configurations and boundaries\<close>

lemma create_conf_ok:
  assumes "create_metagen_conf i now data db = Inr (dto, db')" "meta_inv db"
  shows "meta_inv db' \<and> approved_value db' = approved_value db"
proof -
  from assms(1) obtain row db1 where i: "insert_conf row db = Inr db1" and d: "db' = conf_event ''METAGEN.CONFIG_CREATE'' ''POST'' [] now row db1"
    by (auto simp: create_metagen_conf_def check_filter_def svc_def Let_def result_simps split: if_splits sum.splits)
  from insert_conf_inv [OF i assms(2)] show ?thesis unfolding d by (simp add: events approved_value_def approved_list_def)
qed

lemma save_conf_ok:
  assumes "save_conf operation extra now row db = Inr (dto, db')" "meta_inv db"
  shows "meta_inv db' \<and> approved_value db' = approved_value db"
proof -
  from assms(1) obtain db1 where i: "update_conf row db = Inr db1" and d: "db' = conf_event ''METAGEN.CONFIG_UPDATE'' operation extra now row db1"
    by (auto simp: save_conf_def svc_def Let_def result_simps split: sum.splits)
  from update_conf_inv [OF i assms(2)] show ?thesis unfolding d by (simp add: events approved_value_def approved_list_def)
qed

lemma put_conf_ok:
  assumes "put_metagen_conf now cid data db = Inr (dto, db')" "meta_inv db"
  shows "meta_inv db' \<and> approved_value db' = approved_value db"
  using assms save_conf_ok
  by (auto simp: put_metagen_conf_def check_filter_def result_simps split: if_splits sum.splits)

lemma patch_conf_ok:
  assumes "patch_metagen_conf now cid p db = Inr (dto, db')" "meta_inv db"
  shows "meta_inv db' \<and> approved_value db' = approved_value db"
proof -
  from assms(1) obtain extra row where "save_conf ''PATCH'' extra now row db = Inr (dto, db')"
    by (auto simp: patch_metagen_conf_def check_filter_def Let_def result_simps split: if_splits sum.splits option.splits)
  from save_conf_ok [OF this assms(2)] show ?thesis .
qed

lemma delete_conf_ok:
  assumes "delete_metagen_conf now cid conf_id db = Inr db'" "meta_inv db"
  shows "meta_inv db' \<and> approved_value db' = approved_value db"
  using assms remove_conf_inv by (auto simp: delete_metagen_conf_def events result_simps)

lemma approved_value_boundaries [simp]: "approved_value (db\<lparr>mb_boundaries := bs\<rparr>) = approved_value db"
  by (simp add: approved_value_def approved_list_def)

lemma get_boundary_urn: "get_boundary urn db = Some b \<Longrightarrow> bd_urn b = urn \<and> b \<in> set (mb_boundaries db)"
  unfolding get_boundary_def row_get_def by (auto simp: find_Some_iff)

lemma put_boundary_ok:
  assumes "put_boundary now urn enabled kinds db = Inr (b, db')" "meta_inv db"
  shows "meta_inv db' \<and> approved_value db' = approved_value db"
proof (cases "get_boundary urn db")
  case None
  with assms(1) have v: "valid_kinds (bd_allowed b)" "bd_urn b = urn" and d: "db' = db\<lparr>mb_boundaries := mb_boundaries db @ [b]\<rparr>"
    by (auto simp: put_boundary_def Let_def split: if_splits)
  from boundary_update_inv(1) [OF assms(2) v(1)] None v(2) show ?thesis by (simp add: d)
next
  case (Some old)
  with assms(1) have v: "valid_kinds (bd_allowed b)" "bd_urn b = urn"
    and d: "db' = db\<lparr>mb_boundaries := row_update bd_urn (bd_urn b) (\<lambda>_. b) (mb_boundaries db)\<rparr>"
    by (auto simp: put_boundary_def Let_def split: if_splits)
  from boundary_update_inv(2) [OF assms(2) v(1)] show ?thesis by (simp add: d)
qed

lemma patch_boundary_ok:
  assumes "patch_boundary now urn enabled kinds db = Inr (b, db')" "meta_inv db"
  shows "meta_inv db' \<and> approved_value db' = approved_value db"
proof -
  from assms(1) obtain old where o: "get_boundary urn db = Some old" "valid_kinds (patched kinds [])"
    and b: "b = old\<lparr>bd_enabled := patched enabled (bd_enabled old), bd_allowed := patched kinds (bd_allowed old), bd_updated := now\<rparr>"
    and d: "db' = db\<lparr>mb_boundaries := row_update bd_urn urn (\<lambda>_. b) (mb_boundaries db)\<rparr>"
    by (auto simp: patch_boundary_def Let_def split: if_splits option.splits)
  from get_boundary_urn [OF o(1)] have old: "bd_urn old = urn" "old \<in> set (mb_boundaries db)" by simp_all
  with assms(2) have "valid_kinds (bd_allowed old)" by (simp add: meta_inv_def boundary_inv_def)
  with o(2) have "valid_kinds (patched kinds (bd_allowed old))" by (auto simp: patched_def split: option.splits)
  from boundary_update_inv(2) [OF assms(2), of b] this old(1) show ?thesis by (simp add: b d)
qed

lemma delete_boundary_ok:
  assumes "delete_boundary urn db = Inr db'" "meta_inv db"
  shows "meta_inv db' \<and> approved_value db' = approved_value db"
proof -
  from assms(1) have d: "db' = db\<lparr>mb_boundaries := row_delete bd_urn urn (mb_boundaries db)\<rparr>"
    by (auto simp: delete_boundary_def split: option.splits)
  have "valid_kinds (bd_allowed \<lparr>bd_urn = urn, bd_enabled = False, bd_allowed = [], bd_created = 0, bd_updated = 0\<rparr>)" by (simp add: valid_kinds_def)
  from boundary_update_inv(3) [OF assms(2) this] show ?thesis by (simp add: d)
qed

section \<open>Reviews\<close>

text \<open>What an approval makes of every candidate: the reviewed one is approved, an approved one of the same item is demoted.\<close>

definition demoted :: "nat \<Rightarrow> metagen_row \<Rightarrow> metagen_row \<Rightarrow> metagen_row" where
  "demoted now c x = (if ca_key x = ca_key c \<and> ca_status x = ''approved'' \<and> ca_id x \<noteq> ca_id c
     then x\<lparr>ca_status := ''llm_approved'', ca_reviewed := Some now\<rparr> else x)"

lemma decided_same [simp]:
  "ca_id (decided now st who c) = ca_id c" "ca_key (decided now st who c) = ca_key c" "ca_value (decided now st who c) = ca_value c"
  "ca_urn (decided now st who c) = ca_urn c" "ca_item (decided now st who c) = ca_item c" "ca_conf (decided now st who c) = ca_conf c"
  "ca_status (decided now st who c) = st"
  by (simp_all add: decided_def ca_key_def)

lemma demoted_same [simp]:
  "ca_id (demoted now c x) = ca_id x" "ca_key (demoted now c x) = ca_key x" "ca_value (demoted now c x) = ca_value x"
  by (simp_all add: demoted_def ca_key_def)

lemma demote_sibling_ok:
  assumes "meta_inv db" "c \<in> set (mb_cands db)"
  shows "\<exists>db'. demote_sibling now c db = Inr db' \<and> meta_inv db' \<and> mb_cands db' = map (demoted now c) (mb_cands db) \<and>
    mb_boundaries db' = mb_boundaries db"
proof -
  from assms(1) have dist: "distinct (map ca_id (mb_cands db))" and one: "one_approved (mb_cands db)" by (simp_all add: meta_inv_def cand_inv_def)
  have inj: "x = y" if "x \<in> set (mb_cands db)" "y \<in> set (mb_cands db)" "ca_id x = ca_id y" for x y
    using dist that by (auto simp: distinct_map dest: inj_onD)
  let ?S = "approved_siblings c (mb_cands db)"
  have S: "x \<in> set ?S \<longleftrightarrow> x \<in> set (mb_cands db) \<and> ca_key x = ca_key c \<and> ca_status x = ''approved'' \<and> ca_id x \<noteq> ca_id c" for x
    by (auto simp: approved_siblings_def)
  have all_same: "x = y" if "x \<in> set ?S" "y \<in> set ?S" for x y
    using that one_approvedD [OF one, of x y] inj [of x y] by (simp add: S)
  have dS: "distinct ?S" using dist by (simp add: approved_siblings_def distinct_map)
  show ?thesis
  proof (cases ?S)
    case Nil
    have "map (demoted now c) (mb_cands db) = mb_cands db"
    proof (rule map_idI)
      fix x
      assume "x \<in> set (mb_cands db)"
      with S [of x] Nil show "demoted now c x = x" by (auto simp: demoted_def)
    qed
    with Nil assms(1) show ?thesis by (simp add: demote_sibling_def)
  next
    case (Cons s ss)
    have ss: "ss = []"
    proof (cases ss)
      case (Cons t ts)
      with \<open>?S = s # ss\<close> all_same [of s t] dS show ?thesis by auto
    qed
    from S [of s] Cons have s: "s \<in> set (mb_cands db)" "ca_key s = ca_key c" "ca_status s = ''approved''" "ca_id s \<noteq> ca_id c" by auto
    let ?s = "s\<lparr>ca_status := ''llm_approved'', ca_reviewed := Some now\<rparr>"
    have u: "update_candidate ?s db = Inr (db\<lparr>mb_cands := row_update ca_id (ca_id ?s) (\<lambda>_. ?s) (mb_cands db)\<rparr>)"
      by (simp add: update_candidate_def approved_clash_def CANDIDATE_STATUSES_def)
    have "row_update ca_id (ca_id ?s) (\<lambda>_. ?s) (mb_cands db) = map (demoted now c) (mb_cands db)"
      unfolding row_update_def
    proof (rule map_cong [OF refl])
      fix x
      assume x: "x \<in> set (mb_cands db)"
      show "(if ca_id x = ca_id ?s then ?s else x) = demoted now c x"
      proof (cases "ca_id x = ca_id s")
        case True
        with inj [OF x s(1)] s(2-4) show ?thesis by (simp add: demoted_def)
      next
        case False
        then have "x \<notin> set ?S" using all_same [of x s] Cons by auto
        with x False show ?thesis by (auto simp: demoted_def S)
      qed
    qed
    with u update_candidate_inv [OF u assms(1) s(1)] Cons ss show ?thesis by (simp add: demote_sibling_def)
  qed
qed

lemma update_candidate_ok:
  assumes "meta_inv db" "c \<in> set (mb_cands db)" "st \<in> set CANDIDATE_STATUSES"
    "st = ''approved'' \<Longrightarrow> \<forall>x \<in> set (mb_cands db). ca_key x = ca_key c \<longrightarrow> ca_status x = ''approved'' \<longrightarrow> ca_id x = ca_id c"
  shows "\<exists>db'. update_candidate (decided now st who c) db = Inr db' \<and> meta_inv db' \<and>
    mb_cands db' = map (\<lambda>x. if ca_id x = ca_id c then decided now st who c else x) (mb_cands db) \<and> mb_boundaries db' = mb_boundaries db"
proof -
  let ?row = "decided now st who c"
  have "\<not> approved_clash ?row (mb_cands db)" using assms(4) by (auto simp: approved_clash_def)
  then have u: "update_candidate ?row db = Inr (db\<lparr>mb_cands := row_update ca_id (ca_id ?row) (\<lambda>_. ?row) (mb_cands db)\<rparr>)"
    using assms(3) by (simp add: update_candidate_def)
  from update_candidate_inv [OF u assms(1,2)] u show ?thesis by (simp add: row_update_def)
qed

lemma commit_approval_ok:
  assumes "meta_inv db" "c \<in> set (mb_cands db)"
  shows "\<exists>db'. commit_approval now call c db = Inr db' \<and> meta_inv db' \<and>
    mb_cands db' = map (\<lambda>x. if ca_id x = ca_id c then decided now ''approved'' (rc_reviewer call) c else demoted now c x) (mb_cands db)"
proof -
  let ?row = "decided now ''approved'' (rc_reviewer call) c"
  obtain db1 where d1: "demote_sibling now c db = Inr db1" "meta_inv db1" "mb_cands db1 = map (demoted now c) (mb_cands db)"
    using demote_sibling_ok [OF assms, of now] by blast
  have "demoted now c c = c" by (simp add: demoted_def)
  with assms(2) have c1: "c \<in> set (mb_cands db1)" unfolding d1(3) by (metis image_eqI list.set_map)
  have alone: "\<forall>x \<in> set (mb_cands db1). ca_key x = ca_key c \<longrightarrow> ca_status x = ''approved'' \<longrightarrow> ca_id x = ca_id c"
    unfolding d1(3) by (auto simp: demoted_def)
  obtain db2 where d2: "update_candidate ?row db1 = Inr db2" "meta_inv db2"
    "mb_cands db2 = map (\<lambda>x. if ca_id x = ca_id c then ?row else x) (mb_cands db1)"
    using update_candidate_ok [OF d1(2) c1 _ alone, where st = "''approved''" and now = now and who = "rc_reviewer call"] by (auto simp: CANDIDATE_STATUSES_def)
  have "mb_cands db2 = map (\<lambda>x. if ca_id x = ca_id c then ?row else demoted now c x) (mb_cands db)"
    unfolding d2(3) d1(3) map_map o_def by simp
  then show ?thesis using d1(1) d2(1,2) by (simp add: commit_approval_def)
qed

lemma commit_rejection_ok:
  assumes "meta_inv db" "c \<in> set (mb_cands db)"
  shows "\<exists>db'. commit_rejection now call c db = Inr db' \<and> meta_inv db' \<and>
    mb_cands db' = map (\<lambda>x. if ca_id x = ca_id c then decided now ''rejected'' (rc_reviewer call) c else x) (mb_cands db)"
  using update_candidate_ok [OF assms, where st = "''rejected''" and now = now and who = "rc_reviewer call"]
  by (auto simp: CANDIDATE_STATUSES_def commit_rejection_def)

lemma approve_candidate_ok:
  assumes "meta_inv db" "c \<in> set (mb_cands db)"
  shows "\<exists>db'. approve_candidate now dh_ok embed_ok call c (db, dh) = Inr (decided now ''approved'' (rc_reviewer call) c, db',
      emit_to_datahub dh_ok (rc_urn call) (rc_item call) (ca_value c) dh) \<and> meta_inv db' \<and>
    mb_cands db' = map (\<lambda>x. if ca_id x = ca_id c then decided now ''approved'' (rc_reviewer call) c else demoted now c x) (mb_cands db)"
proof -
  let ?row = "decided now ''approved'' (rc_reviewer call) c"
  from commit_approval_ok [OF assms, of now call] obtain db2 where d: "commit_approval now call c db = Inr db2" "meta_inv db2"
    "mb_cands db2 = map (\<lambda>x. if ca_id x = ca_id c then ?row else demoted now c x) (mb_cands db)" by blast
  have mem: "?row \<in> set (mb_cands db2)" unfolding d(3) using assms(2) by force
  have "meta_inv (refresh_candidate_embedding embed_ok ?row db2)" by (rule refresh_embedding_inv [OF d(2) mem])
  with d(1,3) show ?thesis by (simp add: approve_candidate_def Let_def events)
qed

lemma reject_candidate_ok:
  assumes "meta_inv db" "c \<in> set (mb_cands db)"
  shows "\<exists>db'. reject_candidate now dh_ok call c (db, dh) = Inr (decided now ''rejected'' (rc_reviewer call) c, db',
      if ca_status c = ''approved'' then clear_datahub_aspect dh_ok (rc_urn call) (rc_item call) dh else dh) \<and> meta_inv db' \<and>
    mb_cands db' = map (\<lambda>x. if ca_id x = ca_id c then decided now ''rejected'' (rc_reviewer call) c else x) (mb_cands db)"
  using commit_rejection_ok [OF assms, of now call] by (auto simp: reject_candidate_def events)

end
