(* ===== verification/Metagen_Frame.thy ===== *)
theory Metagen_Frame
  imports Metagen_Safety
begin

text \<open>
  What a run of a configuration deletes and what it records: every row that goes is a rejected candidate of the configuration in
  the scope of the run, or an open one evicted under its overwrite flag; and one event at most is appended.
\<close>

section \<open>Rows that stay\<close>

definition rows_stay :: "metagen_config \<Rightarrow> string set \<Rightarrow> metagen_db \<Rightarrow> metagen_db \<Rightarrow> bool" where
  "rows_stay conf U db db' \<longleftrightarrow> mb_events db' = mb_events db \<and>
     (\<forall>c \<in> set (mb_cands db). c \<in> set (mb_cands db') \<or> ca_conf c = Some (cf_id conf) \<and>
        (ca_status c = ''llm_approved'' \<and> cf_overwrite conf \<or> ca_status c = ''rejected'' \<and> ca_urn c \<in> U))"

lemma rows_stay_refl [simp]: "rows_stay conf U db db"
  by (simp add: rows_stay_def)

lemma rows_stay_trans: "rows_stay conf U a b \<Longrightarrow> rows_stay conf U b c \<Longrightarrow> rows_stay conf U a c"
  unfolding rows_stay_def by metis

lemma rows_stay_weaken: "rows_stay conf {} a b \<Longrightarrow> rows_stay conf U a b"
  unfolding rows_stay_def by auto

lemma refresh_embedding_frame:
  "mb_events (refresh_candidate_embedding ok c db) = mb_events db" "mb_cands (refresh_candidate_embedding ok c db) = mb_cands db"
  by (simp_all add: refresh_candidate_embedding_def)

lemma delete_rows:
  "delete_candidates P (delete_embeddings P db) = Inr db' \<Longrightarrow>
     mb_events db' = mb_events db \<and> mb_cands db' = filter (\<lambda>c. \<not> P c) (mb_cands db)"
  by (auto simp: delete_candidates_def delete_embeddings_def split: if_splits)

lemma clear_rejected_stay:
  assumes "clear_rejected_candidates urns (cf_id conf) db = Inr (n, db')"
  shows "rows_stay conf (set urns) db db' \<and> (\<forall>c \<in> set (mb_cands db'). \<not> rejected_in (cf_id conf) urns c)"
  using assms by (auto simp: clear_rejected_candidates_def result_simps rows_stay_def rejected_in_def dest!: delete_rows)

lemma add_candidate_stay: "add_candidate ok row db = Inr db' \<Longrightarrow> rows_stay conf U db db'"
  by (auto simp: add_candidate_def result_simps insert_candidate_def rows_stay_def refresh_embedding_frame split: if_splits)

lemma evict_stay:
  assumes "meta_inv db" "oldest_open (cf_id conf) key db = Some v" "evict v db = Inr db'" "cf_overwrite conf"
  shows "rows_stay conf U db db'"
proof -
  from oldest_open_row [OF assms(2)] have v: "v \<in> set (mb_cands db)" "own (cf_id conf) key v" "ca_status v = ''llm_approved''" by auto
  from assms(1) have "distinct (map ca_id (mb_cands db))" by (simp add: meta_inv_def cand_inv_def)
  then have "c = v" if "c \<in> set (mb_cands db)" "ca_id c = ca_id v" for c
    using v(1) that by (auto simp: distinct_map dest: inj_onD)
  moreover from assms(3) have "mb_events db' = mb_events db \<and> mb_cands db' = filter (\<lambda>c. ca_id c \<noteq> ca_id v) (mb_cands db)"
    unfolding evict_def by (rule delete_rows)
  ultimately show ?thesis using v(2,3) assms(4) unfolding rows_stay_def own_def by auto
qed

lemma materialise_stay: "materialise_item now urn item db = Inr db' \<Longrightarrow> rows_stay conf U db db'"
  by (auto simp: materialise_item_def insert_item_def rows_stay_def split: option.splits if_splits)

lemma apply_budget_stay:
  assumes "apply_per_item_budget now ok conf row db = Inr (a, e, db')" "meta_inv db"
  shows "rows_stay conf U db db'"
proof -
  from assms(1) obtain db1 where m: "materialise_item now (ca_urn row) (ca_item row) db = Inr db1"
    and k: "(if int (budget_used (cf_id conf) (ca_key row) db1) \<ge> cf_limit conf then
         if \<not> cf_overwrite conf then Inr (False, False, db1)
         else case oldest_open (cf_id conf) (ca_key row) db1 of
           None \<Rightarrow> Inr (False, False, db1)
         | Some v \<Rightarrow> rbind (evict v db1) (\<lambda>db2. rmap (\<lambda>db3. (True, True, db3)) (add_candidate ok row db2))
       else rmap (\<lambda>db2. (True, False, db2)) (add_candidate ok row db1)) = Inr (a, e, db')"
    by (auto simp: apply_per_item_budget_def rbind_eq_Inr)
  from materialise_item_ok [OF m assms(2)] have inv: "meta_inv db1" by simp
  consider "db' = db1" | v db2 where "oldest_open (cf_id conf) (ca_key row) db1 = Some v" "evict v db1 = Inr db2"
      "add_candidate ok row db2 = Inr db'" "cf_overwrite conf"
    | "add_candidate ok row db1 = Inr db'"
    using k by (auto simp: result_simps split: if_splits option.splits)
  then have "rows_stay conf U db1 db'"
    by cases (auto intro: add_candidate_stay rows_stay_trans [OF evict_stay [OF inv] add_candidate_stay])
  with materialise_stay [OF m] show ?thesis by (rule rows_stay_trans)
qed

lemma store_candidates_stay:
  assumes "store_candidates env conf tr cs st = (res, st')" "meta_inv (rt_db st)" "\<forall>c \<in> set cs. mg_threshold env \<le> mc_confidence c"
  shows "rows_stay conf U (rt_db st) (rt_db st')"
  using assms
proof (induction cs arbitrary: st)
  case (Cons c cs)
  let ?row = "new_candidate env conf tr (rt_added st) c"
  have fresh: "fresh_row env conf ?row" using Cons.prems(3) by (simp add: fresh_row_def new_candidate_def)
  show ?case
  proof (cases "apply_per_item_budget (mg_now env) (mg_embed_ok env (ca_id ?row)) conf ?row (rt_db st)")
    case (Inl e)
    with Cons.prems(1) show ?thesis by simp
  next
    case (Inr r)
    obtain a e db1 where r: "r = (a, e, db1)" by (cases r)
    let ?st = "st\<lparr>rt_db := db1, rt_added := rt_added st + (if a then 1 else 0), rt_evicted := rt_evicted st + (if e then 1 else 0)\<rparr>"
    have inv: "meta_inv (rt_db ?st)" using apply_budget_ok [OF Inr [unfolded r] Cons.prems(2) fresh] by (simp add: run_ok_def)
    from Cons.prems(1) have "store_candidates env conf tr cs ?st = (res, st')" by (simp add: Let_def Inr r)
    from Cons.IH [OF this inv] Cons.prems(3) have "rows_stay conf U (rt_db ?st) (rt_db st')" by simp
    with apply_budget_stay [OF Inr [unfolded r] Cons.prems(2), of U] show ?thesis by (auto intro: rows_stay_trans)
  qed
qed simp

lemma process_dataset_stay:
  assumes "process_dataset env conf dry urn st = (res, st')" "meta_inv (rt_db st)"
  shows "rows_stay conf U (rt_db st) (rt_db st')"
proof -
  consider "rt_db st' = rt_db st"
    | tr s st2 where "store_candidates env conf tr (accepted_candidates env s) st2 = (res, st')" "rt_db st2 = rt_db st"
    using assms(1) unfolding process_dataset_def Let_def by (auto split: option.splits if_splits sum.splits prod.splits)
  then show ?thesis
  proof cases
    case 2
    from store_candidates_stay [OF 2(1)] assms(2) 2(2) accepted_confident show ?thesis by metis
  qed simp
qed

lemma process_datasets_stay:
  assumes "process_datasets env conf dry urns st = (res, st')" "meta_inv (rt_db st)"
  shows "rows_stay conf U (rt_db st) (rt_db st')"
  using assms
proof (induction urns arbitrary: st)
  case (Cons urn urns)
  obtain res1 st1 where p: "process_dataset env conf dry urn st = (res1, st1)" by (cases "process_dataset env conf dry urn st")
  note one = process_dataset_stay [OF p Cons.prems(2), of U]
  have inv: "meta_inv (rt_db st1)" using process_dataset_ok [OF p Cons.prems(2)] by (simp add: run_ok_def)
  show ?case
  proof (cases res1)
    case (Inl e)
    with Cons.prems(1) p one show ?thesis by simp
  next
    case (Inr u)
    with Cons.prems(1) p have "process_datasets env conf dry urns st1 = (res, st')" by simp
    from rows_stay_trans [OF one Cons.IH [OF this inv]] show ?thesis .
  qed
qed simp

section \<open>A whole run\<close>

text \<open>
  The rows and the events after a run. \<open>U\<close> is the scope of the run, empty when it is dry or does not get that far. The rejected candidates
  of the configuration in the scope are gone, every row that stays is as it was, and the events are those before and the one of the run, if any.
\<close>

definition run_frame ::
  "metagen_env \<Rightarrow> metagen_config \<Rightarrow> string list option \<Rightarrow> bool \<Rightarrow> bool \<Rightarrow> metagen_db \<Rightarrow> (svc_error, metagen_run_result) result \<Rightarrow> metagen_db \<Rightarrow> bool" where
  "run_frame env conf override dry event_ok db res db' \<longleftrightarrow>
     (\<exists>urns. (urns \<noteq> [] \<longrightarrow> \<not> dry \<and> (\<exists>un. enumerate_in_scope env conf override db = Inr (urns, un))) \<and>
        (\<forall>c \<in> set (mb_cands db). c \<in> set (mb_cands db') \<or> ca_conf c = Some (cf_id conf) \<and>
           (ca_status c = ''llm_approved'' \<and> cf_overwrite conf \<or> ca_status c = ''rejected'' \<and> ca_urn c \<in> set urns)) \<and>
        (\<forall>c \<in> set (mb_cands db'). \<not> rejected_in (cf_id conf) urns c) \<and>
        (\<forall>rr. res = Inr rr \<and> \<not> dry \<longrightarrow> (\<exists>un. enumerate_in_scope env conf override db = Inr (urns, un)))) \<and>
     (\<exists>evs. mb_events db' = mb_events db @ evs \<and>
        (case res of
           Inr rr \<Rightarrow> map ev_type evs = [''METAGEN.RUN_COMPLETE'']
         | Inl (SvcErr (ConflictError _)) \<Rightarrow> evs = []
         | Inl _ \<Rightarrow> map ev_type evs = (if event_ok then [''METAGEN.RUN_FAILED''] else [])))"

lemma stays_no_rejected:
  assumes "run_keeps env conf db db'" "\<forall>c \<in> set (mb_cands db). \<not> rejected_in cid urns c"
  shows "\<forall>c \<in> set (mb_cands db'). \<not> rejected_in cid urns c"
  using assms by (auto simp: run_keeps_def fresh_row_def rejected_in_def)

definition inner_frame ::
  "metagen_env \<Rightarrow> metagen_config \<Rightarrow> string list option \<Rightarrow> bool \<Rightarrow> metagen_db \<Rightarrow> (svc_error, metagen_run_result) result \<Rightarrow> metagen_db \<Rightarrow> bool" where
  "inner_frame env conf override dry db res db' \<longleftrightarrow> (\<exists>urns db1.
     (urns \<noteq> [] \<longrightarrow> \<not> dry \<and> (\<exists>un. enumerate_in_scope env conf override db = Inr (urns, un))) \<and>
     rows_stay conf (set urns) db db1 \<and> (\<forall>c \<in> set (mb_cands db1). \<not> rejected_in (cf_id conf) urns c) \<and>
     (case res of Inl e \<Rightarrow> db' = db1
      | Inr rr \<Rightarrow> db' = run_complete_event env conf rr db1 \<and>
          (\<not> dry \<longrightarrow> (\<exists>un. enumerate_in_scope env conf override db = Inr (urns, un)))))"

lemma metagen_run_inner_frame:
  assumes "metagen_run_inner env conf override dry db = (res, db')" "meta_inv db"
  shows "inner_frame env conf override dry db res db'"
proof -
  let ?st = "\<lambda>db1. \<lparr>rt_db = db1, rt_considered = 0, rt_added = 0, rt_evicted = 0, rt_outcome = None, rt_iterations = None\<rparr>"
  consider "\<exists>e. res = Inl e" "db' = db"
    | urns un cleared db1 res1 st where "enumerate_in_scope env conf override db = Inr (urns, un)"
      "(if dry then Inr (0, db) else clear_rejected_candidates urns (cf_id conf) db) = Inr (cleared, db1)"
      "process_datasets env conf dry urns (?st db1) = (res1, st)"
      "(\<exists>e. res = Inl e \<and> db' = rt_db st) \<or> (\<exists>rr. res = Inr rr \<and> db' = run_complete_event env conf rr (rt_db st))"
    using assms(1) unfolding metagen_run_inner_def Let_def
    by (auto split: if_splits sum.splits prod.splits)
  then show ?thesis
  proof cases
    case 1
    then show ?thesis unfolding inner_frame_def by (intro exI [of _ "[]"] exI [of _ db]) (auto simp: rejected_in_def)
  next
    case 2
    let ?U = "if dry then [] else urns"
    have c: "rows_stay conf (set ?U) db db1" "\<forall>c \<in> set (mb_cands db1). \<not> rejected_in (cf_id conf) ?U c" "meta_inv db1"
      using 2(2) clear_rejected_stay [of urns conf db cleared db1] clear_rejected_ok [OF assms(2), of urns conf env] assms(2)
      by (auto simp: rejected_in_def split: if_splits)
    then have inv: "meta_inv (rt_db (?st db1))" by simp
    have k: "rows_stay conf (set ?U) db (rt_db st)"
      using rows_stay_trans [OF c(1)] process_datasets_stay [OF 2(3) inv, of "set ?U"] by simp
    have "run_keeps env conf db1 (rt_db st)" using process_datasets_ok [OF 2(3) inv] by (simp add: run_ok_def)
    from stays_no_rejected [OF this c(2)] k 2(1,4) show ?thesis
      unfolding inner_frame_def by (intro exI [of _ ?U] exI [of _ "rt_db st"]) auto
  qed
qed

lemma metagen_run_frame:
  assumes "load_conf_row (mg_uuid env conf_id) db = Inr conf"
    "metagen_run env token end_time event_ok conf_id override dry (db, r) = (res, db', r')" "meta_inv db"
  shows "run_frame env conf override dry event_ok db res db'"
proof -
  obtain res1 db1 where i: "metagen_run_inner env conf override dry db = (res1, db1)" by (cases "metagen_run_inner env conf override dry db")
  obtain got r1 where s: "set_nx (mg_now env) (metagen_lock_key conf_id) token LOCK_TTL_SECONDS r = (got, r1)"
    by (cases "set_nx (mg_now env) (metagen_lock_key conf_id) token LOCK_TTL_SECONDS r")
  show ?thesis
  proof (cases got)
    case False
    with assms s have "res = Inl (SvcErr (ConflictError ''METAGEN_RUNNING''))" "db' = db" by (auto simp: metagen_run_def)
    then show ?thesis unfolding run_frame_def by (auto intro!: exI [of _ "[]"] simp: rejected_in_def)
  next
    case True
    from metagen_run_inner_frame [OF i assms(3)] obtain urns db2 where
      u: "urns \<noteq> [] \<longrightarrow> \<not> dry \<and> (\<exists>un. enumerate_in_scope env conf override db = Inr (urns, un))"
      and k: "rows_stay conf (set urns) db db2" "\<forall>c \<in> set (mb_cands db2). \<not> rejected_in (cf_id conf) urns c"
      and d: "case res1 of Inl e \<Rightarrow> db1 = db2
        | Inr rr \<Rightarrow> db1 = run_complete_event env conf rr db2 \<and>
            (\<not> dry \<longrightarrow> (\<exists>un. enumerate_in_scope env conf override db = Inr (urns, un)))"
      unfolding inner_frame_def by blast
    have res: "res = res1" "mb_cands db' = mb_cands db2"
      and ev: "\<exists>evs. mb_events db' = mb_events db2 @ evs \<and>
        (case res of
           Inr rr \<Rightarrow> map ev_type evs = [''METAGEN.RUN_COMPLETE'']
         | Inl (SvcErr (ConflictError _)) \<Rightarrow> evs = []
         | Inl _ \<Rightarrow> map ev_type evs = (if event_ok then [''METAGEN.RUN_FAILED''] else []))"
      using assms(1,2) s i True d
      by (auto simp: metagen_run_def Let_def run_complete_event_def record_metagen_event_def append_event_def
          split: sum.splits svc_error.splits ds_error.splits if_splits)
    from k(1) have e: "mb_events db2 = mb_events db" by (simp add: rows_stay_def)
    have "\<forall>rr. res = Inr rr \<and> \<not> dry \<longrightarrow> (\<exists>un. enumerate_in_scope env conf override db = Inr (urns, un))"
      using d res(1) by auto
    with u k ev res(2) show ?thesis unfolding run_frame_def rows_stay_def by (intro conjI exI [of _ urns]) (auto simp: e)
  qed
qed

end
