(* ===== verification/Metagen_Properties.thy ===== *)
theory Metagen_Properties
  imports Metagen_Operations Metagen_Frame
begin

text \<open>
  The operations of the metadata generation service as steps on its tables and on DataHub, and what holds in every state
  they reach.
\<close>

definition empty_metagen :: metagen_db where
  "empty_metagen = \<lparr>mb_confs = [], mb_boundaries = [], mb_items = [], mb_cands = [], mb_embs = [], mb_events = []\<rparr>"

text \<open>The operations on the tables alone, a run among them; each is one step.\<close>

inductive table_step :: "metagen_db \<Rightarrow> metagen_db \<Rightarrow> bool" where
  step_create: "create_metagen_conf i now data db = Inr (dto, db') \<Longrightarrow> table_step db db'"
| step_put: "put_metagen_conf now cid data db = Inr (dto, db') \<Longrightarrow> table_step db db'"
| step_patch: "patch_metagen_conf now cid p db = Inr (dto, db') \<Longrightarrow> table_step db db'"
| step_delete: "delete_metagen_conf now cid conf_id db = Inr db' \<Longrightarrow> table_step db db'"
| step_put_boundary: "put_boundary now urn enabled kinds db = Inr (b, db') \<Longrightarrow> table_step db db'"
| step_patch_boundary: "patch_boundary now urn en ks db = Inr (b, db') \<Longrightarrow> table_step db db'"
| step_delete_boundary: "delete_boundary urn db = Inr db' \<Longrightarrow> table_step db db'"
| step_run: "metagen_run env token end_time event_ok conf_id override dry (db, r) = (res, db', r') \<Longrightarrow> table_step db db'"

text \<open>With the reviews, each without another request in between. With \<open>reliable\<close> every call of DataHub answers.\<close>

inductive metagen_step :: "bool \<Rightarrow> metagen_db \<times> datahub \<Rightarrow> metagen_db \<times> datahub \<Rightarrow> bool" for reliable :: bool where
  step_table: "table_step db db' \<Longrightarrow> metagen_step reliable (db, dh) (db', dh)"
| step_review: "review_candidate now dh_ok embed_ok call (db, dh) = Inr (out, db', dh') \<Longrightarrow> (reliable \<Longrightarrow> dh_ok) \<Longrightarrow>
    metagen_step reliable (db, dh) (db', dh')"

section \<open>What a review does\<close>

lemma find_candidate_key:
  "find_candidate urn item cid db = Inr c \<Longrightarrow> c \<in> set (mb_cands db) \<and> ca_key c = (urn, item)"
  unfolding find_candidate_def row_get_def by (auto split: option.splits if_splits simp: find_Some_iff)

text \<open>The value shown for the reviewed item, after an approval, a rejection and any other verdict.\<close>

lemma approved_value_approve:
  assumes "meta_inv db" "meta_inv db'" "c \<in> set (mb_cands db)"
    "mb_cands db' = map (\<lambda>x. if ca_id x = ca_id c then decided now ''approved'' who c else demoted now c x) (mb_cands db)"
  shows "approved_value db' = (approved_value db)(ca_key c \<mapsto> ca_value c)"
proof
  fix k
  have inj: "x = c" if "x \<in> set (mb_cands db)" "ca_id x = ca_id c" for x
    using assms(1,3) that by (auto simp: meta_inv_def cand_inv_def distinct_map dest: inj_onD)
  have "approved_value db' k = Some v \<longleftrightarrow> ((approved_value db)(ca_key c \<mapsto> ca_value c)) k = Some v" for v
  proof (cases "k = ca_key c")
    case True
    have "(\<exists>x \<in> set (mb_cands db'). ca_status x = ''approved'' \<and> ca_key x = ca_key c \<and> ca_value x = v) \<longleftrightarrow> v = ca_value c"
    proof
      assume v: "v = ca_value c"
      have "decided now ''approved'' who c \<in> set (mb_cands db')" unfolding assms(4) using assms(3) by force
      then show "\<exists>x \<in> set (mb_cands db'). ca_status x = ''approved'' \<and> ca_key x = ca_key c \<and> ca_value x = v"
        by (rule bexI [rotated]) (simp add: v)
    next
      assume "\<exists>x \<in> set (mb_cands db'). ca_status x = ''approved'' \<and> ca_key x = ca_key c \<and> ca_value x = v"
      then obtain y where y: "y \<in> set (mb_cands db)" and st: "ca_status (if ca_id y = ca_id c then decided now ''approved'' who c else demoted now c y) = ''approved''"
        "ca_key (if ca_id y = ca_id c then decided now ''approved'' who c else demoted now c y) = ca_key c"
        "ca_value (if ca_id y = ca_id c then decided now ''approved'' who c else demoted now c y) = v" unfolding assms(4) by auto
      have "ca_id y = ca_id c"
      proof (rule ccontr)
        assume "ca_id y \<noteq> ca_id c"
        with st(1,2) show False by (auto simp: demoted_def split: if_splits)
      qed
      with st(3) show "v = ca_value c" by simp
    qed
    with True show ?thesis by (auto simp: approved_value_iff [OF assms(2)])
  next
    case False
    have "(\<exists>x \<in> set (mb_cands db'). ca_status x = ''approved'' \<and> ca_key x = k \<and> ca_value x = v) \<longleftrightarrow>
        (\<exists>x \<in> set (mb_cands db). ca_status x = ''approved'' \<and> ca_key x = k \<and> ca_value x = v)"
    proof -
      have "(ca_status (if ca_id x = ca_id c then decided now ''approved'' who c else demoted now c x) = ''approved'' \<and>
          ca_key (if ca_id x = ca_id c then decided now ''approved'' who c else demoted now c x) = k \<and>
          ca_value (if ca_id x = ca_id c then decided now ''approved'' who c else demoted now c x) = v) \<longleftrightarrow>
        (ca_status x = ''approved'' \<and> ca_key x = k \<and> ca_value x = v)" if x: "x \<in> set (mb_cands db)" for x
      proof (cases "ca_id x = ca_id c")
        case True
        with inj [OF x] False show ?thesis by auto
      next
        case other: False
        show ?thesis
        proof (cases "ca_key x = k")
          case True
          with False have "demoted now c x = x" by (auto simp: demoted_def)
          with other show ?thesis by simp
        qed (use other in simp)
      qed
      then show ?thesis unfolding assms(4) set_map bex_simps(7) by (rule bex_cong [OF refl])
    qed
    with False show ?thesis by (simp add: approved_value_iff [OF assms(1)] approved_value_iff [OF assms(2)])
  qed
  then show "approved_value db' k = ((approved_value db)(ca_key c \<mapsto> ca_value c)) k" by (metis option.exhaust)
qed

lemma approved_value_reject:
  assumes "meta_inv db" "meta_inv db'" "c \<in> set (mb_cands db)"
    "mb_cands db' = map (\<lambda>x. if ca_id x = ca_id c then decided now ''rejected'' who c else x) (mb_cands db)"
  shows "approved_value db' = (if ca_status c = ''approved'' then (approved_value db)(ca_key c := None) else approved_value db)"
proof
  fix k
  have inj: "x = c" if "x \<in> set (mb_cands db)" "ca_id x = ca_id c" for x
    using assms(1,3) that by (auto simp: meta_inv_def cand_inv_def distinct_map dest: inj_onD)
  have one: "one_approved (mb_cands db)" using assms(1) by (simp add: meta_inv_def cand_inv_def)
  have new: "(\<exists>x \<in> set (mb_cands db'). ca_status x = ''approved'' \<and> ca_key x = k \<and> ca_value x = v) \<longleftrightarrow>
      (\<exists>x \<in> set (mb_cands db). x \<noteq> c \<and> ca_status x = ''approved'' \<and> ca_key x = k \<and> ca_value x = v)" for v
    unfolding assms(4) set_map bex_simps(7)
  proof (rule bex_cong [OF refl])
    fix x
    assume x: "x \<in> set (mb_cands db)"
    show "(ca_status (if ca_id x = ca_id c then decided now ''rejected'' who c else x) = ''approved'' \<and>
          ca_key (if ca_id x = ca_id c then decided now ''rejected'' who c else x) = k \<and>
          ca_value (if ca_id x = ca_id c then decided now ''rejected'' who c else x) = v) \<longleftrightarrow>
        (x \<noteq> c \<and> ca_status x = ''approved'' \<and> ca_key x = k \<and> ca_value x = v)"
      using inj [OF x] by auto
  qed
  have "approved_value db' k = Some v \<longleftrightarrow>
      (if ca_status c = ''approved'' then (approved_value db)(ca_key c := None) else approved_value db) k = Some v" for v
  proof (cases "ca_status c = ''approved'' \<and> k = ca_key c")
    case True
    have "\<not> (\<exists>x \<in> set (mb_cands db). x \<noteq> c \<and> ca_status x = ''approved'' \<and> ca_key x = k \<and> ca_value x = v)"
    proof
      assume "\<exists>x \<in> set (mb_cands db). x \<noteq> c \<and> ca_status x = ''approved'' \<and> ca_key x = k \<and> ca_value x = v"
      then obtain x where x: "x \<in> set (mb_cands db)" "x \<noteq> c" "ca_status x = ''approved''" "ca_key x = k" by auto
      from one_approvedD [OF one x(1) assms(3)] x(3,4) True have "ca_id x = ca_id c" by simp
      with inj [OF x(1)] x(2) show False by simp
    qed
    with True show ?thesis using approved_value_iff [OF assms(2), of k v] new [of v] by simp
  next
    case False
    then have "(\<exists>x \<in> set (mb_cands db). x \<noteq> c \<and> ca_status x = ''approved'' \<and> ca_key x = k \<and> ca_value x = v) \<longleftrightarrow>
        (\<exists>x \<in> set (mb_cands db). ca_status x = ''approved'' \<and> ca_key x = k \<and> ca_value x = v)" by auto
    with False show ?thesis
      using approved_value_iff [OF assms(2), of k v] approved_value_iff [OF assms(1), of k v] new [of v] by (auto split: if_splits)
  qed
  then show "approved_value db' k =
      (if ca_status c = ''approved'' then (approved_value db)(ca_key c := None) else approved_value db) k" by (metis option.exhaust)
qed

lemma review_cases:
  assumes "meta_inv db" "review_candidate now dh_ok embed_ok call (db, dh) = res"
  obtains (failed) e where "res = Inl e" "e = PreconditionFailedError ''METAGEN_DATASET_NOT_IN_BOUNDARY'' \<or> e = EntityNotFoundError ''metagen_candidate''"
      "\<not> boundary_active db (rc_urn call) \<or> find_candidate (rc_urn call) (rc_item call) (rc_uuid call) db = Inl e"
  | (approved) c out db' where "rc_verdict call = ''approve''" "res = Inr (out, db', emit_to_datahub dh_ok (rc_urn call) (rc_item call) (ca_value c) dh)"
      "find_candidate (rc_urn call) (rc_item call) (rc_uuid call) db = Inr c" "meta_inv db'"
      "mb_cands db' = map (\<lambda>x. if ca_id x = ca_id c then decided now ''approved'' (rc_reviewer call) c else demoted now c x) (mb_cands db)"
  | (rejected) c out db' where "rc_verdict call = ''reject''"
      "res = Inr (out, db', if ca_status c = ''approved'' then clear_datahub_aspect dh_ok (rc_urn call) (rc_item call) dh else dh)"
      "find_candidate (rc_urn call) (rc_item call) (rc_uuid call) db = Inr c" "meta_inv db'"
      "mb_cands db' = map (\<lambda>x. if ca_id x = ca_id c then decided now ''rejected'' (rc_reviewer call) c else x) (mb_cands db)"
  | (other) out where "rc_verdict call \<noteq> ''approve''" "rc_verdict call \<noteq> ''reject''" "res = Inr (out, db, dh)"
proof (cases "boundary_active db (rc_urn call)")
  case False
  with assms(2) have "res = Inl (PreconditionFailedError ''METAGEN_DATASET_NOT_IN_BOUNDARY'')" by (simp add: review_candidate_def)
  then show ?thesis by (rule failed) (simp_all add: False)
next
  case active: True
  show ?thesis
  proof (cases "find_candidate (rc_urn call) (rc_item call) (rc_uuid call) db")
    case (Inl e)
    with assms(2) active have "res = Inl e" by (simp add: review_candidate_def)
    moreover have "e = EntityNotFoundError ''metagen_candidate''"
      using Inl by (auto simp: find_candidate_def split: option.splits if_splits)
    ultimately show ?thesis using Inl by (intro failed) auto
  next
    case (Inr c)
    then have c: "c \<in> set (mb_cands db)" using find_candidate_key by blast
    show ?thesis
    proof (cases "rc_verdict call = ''approve''")
      case True
      obtain db2 where d: "approve_candidate now dh_ok embed_ok call c (db, dh) = Inr (decided now ''approved'' (rc_reviewer call) c, db2,
          emit_to_datahub dh_ok (rc_urn call) (rc_item call) (ca_value c) dh)"
        "meta_inv db2" "mb_cands db2 = map (\<lambda>x. if ca_id x = ca_id c then decided now ''approved'' (rc_reviewer call) c else demoted now c x) (mb_cands db)"
        using approve_candidate_ok [OF assms(1) c, of now dh_ok embed_ok call dh] by blast
      have "res = Inr (candidate_to_dto db2 (decided now ''approved'' (rc_reviewer call) c), db2,
          emit_to_datahub dh_ok (rc_urn call) (rc_item call) (ca_value c) dh)"
        using assms(2) active Inr True d(1) by (simp add: review_candidate_def)
      from approved [OF True this Inr d(2,3)] show ?thesis .
    next
      case not_approve: False
      show ?thesis
      proof (cases "rc_verdict call = ''reject''")
        case True
        obtain db2 where d: "reject_candidate now dh_ok call c (db, dh) = Inr (decided now ''rejected'' (rc_reviewer call) c, db2,
            if ca_status c = ''approved'' then clear_datahub_aspect dh_ok (rc_urn call) (rc_item call) dh else dh)"
          "meta_inv db2" "mb_cands db2 = map (\<lambda>x. if ca_id x = ca_id c then decided now ''rejected'' (rc_reviewer call) c else x) (mb_cands db)"
          using reject_candidate_ok [OF assms(1) c, of now dh_ok call dh] by blast
        have "res = Inr (candidate_to_dto db2 (decided now ''rejected'' (rc_reviewer call) c), db2,
            if ca_status c = ''approved'' then clear_datahub_aspect dh_ok (rc_urn call) (rc_item call) dh else dh)"
          using assms(2) active Inr True d(1) by (simp add: review_candidate_def)
        from rejected [OF True this Inr d(2,3)] show ?thesis .
      next
        case False
        with not_approve assms(2) active Inr show ?thesis by (intro other) (auto simp: review_candidate_def)
      qed
    qed
  qed
qed

section \<open>Reachable states\<close>

lemma run_ok_approved: "run_ok env conf db db' \<Longrightarrow> approved_value db' = approved_value db"
  by (simp add: run_ok_def run_keeps_def approved_value_def)

lemma step_run_inv:
  assumes "metagen_run env token end_time event_ok conf_id override dry (db, r) = (res, db', r')" "meta_inv db"
  shows "meta_inv db' \<and> approved_value db' = approved_value db"
proof (cases "load_conf_row (mg_uuid env conf_id) db")
  case (Inl e)
  with assms show ?thesis by (simp add: metagen_run_def)
next
  case (Inr conf)
  from metagen_run_ok [OF Inr assms] have "run_ok env conf db db'" by simp
  then show ?thesis by (simp add: run_ok_approved) (simp add: run_ok_def)
qed

lemma table_step_ok: "table_step db db' \<Longrightarrow> meta_inv db \<Longrightarrow> meta_inv db' \<and> approved_value db' = approved_value db"
  by (induction rule: table_step.induct)
    (auto dest: create_conf_ok put_conf_ok patch_conf_ok delete_conf_ok put_boundary_ok patch_boundary_ok delete_boundary_ok step_run_inv)

text \<open>A step is a review, or it leaves the approved values and DataHub alone.\<close>

lemma metagen_step_cases:
  "metagen_step reliable s s' \<Longrightarrow> meta_inv (fst s) \<Longrightarrow>
   (meta_inv (fst s') \<and> approved_value (fst s') = approved_value (fst s) \<and> snd s' = snd s) \<or>
   (\<exists>now dh_ok embed_ok call out. review_candidate now dh_ok embed_ok call s = Inr (out, s') \<and> (reliable \<longrightarrow> dh_ok))"
proof (induction rule: metagen_step.induct)
  case (step_review now dh_ok embed_ok call db dh out db' dh')
  then show ?case by (intro disjI2 exI [of _ now] exI [of _ dh_ok] exI [of _ embed_ok] exI [of _ call] exI [of _ out]) simp
qed (auto dest: table_step_ok)

lemma review_inv: "review_candidate now dh_ok embed_ok call s = Inr (out, s') \<Longrightarrow> meta_inv (fst s) \<Longrightarrow> meta_inv (fst s')"
proof -
  assume r: "review_candidate now dh_ok embed_ok call s = Inr (out, s')" and inv: "meta_inv (fst s)"
  obtain db dh where s: "s = (db, dh)" by (cases s)
  from inv have inv: "meta_inv db" by (simp add: s)
  from inv r [unfolded s] show ?thesis by (cases rule: review_cases) (use inv in auto)
qed

lemma metagen_step_inv: "metagen_step reliable s s' \<Longrightarrow> meta_inv (fst s) \<Longrightarrow> meta_inv (fst s')"
  using metagen_step_cases review_inv by metis

lemma empty_metagen_inv [simp]: "meta_inv empty_metagen"
  by (simp add: meta_inv_def empty_metagen_def conf_inv_def boundary_inv_def item_inv_def cand_inv_def one_approved_def emb_inv_def)

definition metagen_reachable :: "bool \<Rightarrow> datahub \<Rightarrow> metagen_db \<times> datahub \<Rightarrow> bool" where
  "metagen_reachable reliable dh0 s \<longleftrightarrow> (metagen_step reliable)\<^sup>*\<^sup>* (empty_metagen, dh0) s"

lemma metagen_reachable_inv: "metagen_reachable reliable dh0 s \<Longrightarrow> meta_inv (fst s)"
  unfolding metagen_reachable_def by (induction rule: rtranclp_induct) (auto intro: metagen_step_inv)

section \<open>An example\<close>

text \<open>A configuration and a boundary, a run whose debate ends with an accepted payload the validation tool refused, since it names a
  dataset other than the one asked for, and the approval of one of its candidates.\<close>

definition example_start :: metagen_db where
  "example_start =
    \<lparr>mb_confs = [\<lparr>cf_id = 1, cf_name = ''docs'', cf_enabled = True, cf_tier = None, cf_filter = [],
     cf_limit = 3, cf_overwrite = True, cf_created = 0, cf_updated = 0\<rparr>], mb_boundaries = [\<lparr>bd_urn =
     ''urn:b'', bd_enabled = True, bd_allowed = [''dataset.description'', ''column.description''], bd_created = 0,
     bd_updated = 0\<rparr>], mb_items = [], mb_cands = [], mb_embs = [], mb_events = [\<lparr>ev_entity_type =
     ''metagen'', ev_entity_id = ''1'', ev_type = ''METAGEN.CONFIG_CREATE'', ev_status = ''success'', ev_detail =
     [(''operation'', JStr ''POST''), (''conf_id'', JStr ''1''), (''conf_name'', JStr ''docs'')], ev_at =
     0\<rparr>]\<rparr>"

definition example_proposals :: metagen_output where
  "example_proposals =
     [\<lparr>mc_dataset_urn = ''urn:b'', mc_item_id = ''column.id.description'', mc_value = ''Key'', mc_confidence = 9/10\<rparr>,
      \<lparr>mc_dataset_urn = ''urn:z'', mc_item_id = DATASET_KIND, mc_value = ''Orders'', mc_confidence = 1\<rparr>]"

definition example_llm :: metagen_llm where
  "example_llm = \<lparr>ml_chat = \<lambda>_ _ _. Reply [] [\<lparr>tc_name = Some ''metagen_validate'', tc_args = [(''payload'', JObj [(''candidates'', JList [])])], tc_id = ''c''\<rparr>],
     ml_reviewer_chat = \<lambda>_ _ _. Reply [] [\<lparr>tc_name = Some ''metagen_review'', tc_args = [(''payload'', JObj [])], tc_id = ''r''\<rparr>],
     ml_hash = \<lambda>_. [], ml_parse_review = \<lambda>_. Some \<lparr>ro_verdict = Verdict_accept, ro_items = [], ro_summary = []\<rparr>,
     ml_search = \<lambda>_ _. None, ml_reviewer_prompt = \<lambda>_ _ _. ''review'', ml_revision_prompt = \<lambda>_ _ _ _. ''revise'',
     ml_max_turns = 2, ml_rag_k = 3, ml_max_iterations = 2\<rparr>"

definition example_reads :: dataset_reads where
  "example_reads = \<lparr>rd_props = Some None, rd_schema = Some (Some [\<lparr>sf_path = ''id'', sf_type = ''int'', sf_description = None\<rparr>]),
     rd_editable = Some None, rd_columns = Some None, rd_glossary = Some None, rd_documents = None, rd_search = \<lambda>_. None\<rparr>"

definition example_metagen_env :: metagen_env where
  "example_metagen_env = \<lparr>mg_uuid = \<lambda>s. if s = ''1'' then Some 1 else None, mg_sql = kleene, mg_registry = example_rows,
     mg_reads = \<lambda>_. example_reads, mg_ontology = \<lparr>ob_conf = None, ob_seeds = [], ob_nodes = [], ob_edges = [], ob_triples = [], ob_maps = [],
       ob_node_emb = [], ob_edge_emb = [], ob_triple_emb = [], ob_events = []\<rparr>, mg_prompt = \<lambda>_ _ _. ''propose'',
     mg_llm = \<lambda>_. example_llm, mg_scores = \<lambda>_. None, mg_render = \<lambda>_. [], mg_schema = \<lambda>_. Inr example_proposals,
     mg_threshold = 1/2, mg_embed_ok = \<lambda>_. True, mg_new_id = \<lambda>k. 10 + k, mg_clock = \<lambda>k. k, mg_run_id = 7, mg_now = 5\<rparr>"

definition example_run_result :: "(svc_error, metagen_run_result) result \<times> metagen_db \<times> redis" where
  "example_run_result = metagen_run example_metagen_env ''t'' 9 True ''1'' None False (example_start, Map.empty)"

definition example_proposed :: metagen_db where
  "example_proposed =
    \<lparr>mb_confs = [\<lparr>cf_id = 1, cf_name = ''docs'', cf_enabled = True, cf_tier = None, cf_filter = [],
     cf_limit = 3, cf_overwrite = True, cf_created = 0, cf_updated = 0\<rparr>], mb_boundaries = [\<lparr>bd_urn =
     ''urn:b'', bd_enabled = True, bd_allowed = [''dataset.description'', ''column.description''], bd_created = 0,
     bd_updated = 0\<rparr>], mb_items = [\<lparr>mi_urn = ''urn:b'', mi_item = ''column.id.description'', mi_kind =
     ''column.description'', mi_field = Some ''id'', mi_created = 5, mi_updated = 5\<rparr>, \<lparr>mi_urn =
     ''urn:z'', mi_item = ''dataset.description'', mi_kind = ''dataset.description'', mi_field = None, mi_created = 5,
     mi_updated = 5\<rparr>], mb_cands = [\<lparr>ca_id = 10, ca_conf = Some 1, ca_urn = ''urn:b'', ca_item =
     ''column.id.description'', ca_run = 7, ca_value = ''Key'', ca_confidence = 9 / 10, ca_status = ''llm_approved'',
     ca_evidence = [], ca_created = 0, ca_reviewed = None, ca_reviewer = None\<rparr>, \<lparr>ca_id = 11, ca_conf =
     Some 1, ca_urn = ''urn:z'', ca_item = ''dataset.description'', ca_run = 7, ca_value = ''Orders'', ca_confidence =
     1, ca_status = ''llm_approved'', ca_evidence = [], ca_created = 1, ca_reviewed = None, ca_reviewer =
     None\<rparr>], mb_embs = [(10, ''column.description''), (11, ''dataset.description'')], mb_events =
     [\<lparr>ev_entity_type = ''metagen'', ev_entity_id = ''1'', ev_type = ''METAGEN.CONFIG_CREATE'', ev_status =
     ''success'', ev_detail = [(''operation'', JStr ''POST''), (''conf_id'', JStr ''1''), (''conf_name'', JStr
     ''docs'')], ev_at = 0\<rparr>, \<lparr>ev_entity_type = ''metagen'', ev_entity_id = ''1'', ev_type =
     ''METAGEN.RUN_COMPLETE'', ev_status = ''success'', ev_detail = [(''run_id'', JStr ''7''), (''conf_id'', JStr
     ''1''), (''conf_name'', JStr ''docs''), (''unresolved_urns'', JList []), (''counts'', JObj
     [(''items_considered'', JInt 2), (''candidates_added'', JInt 2), (''candidates_evicted'', JInt 0),
     (''rejected_cleared'', JInt 0)]), (''dry_run'', JBool False), (''producer_iterations'', JInt 2),
     (''debate_outcome'', JStr ''accept'')], ev_at = 5\<rparr>]\<rparr>"

definition example_datahub :: datahub where
  "example_datahub = (\<lambda>_. \<lparr>as_props = None, as_schema = None\<rparr>)"

definition example_approval :: review_call where
  "example_approval = \<lparr>rc_urn = ''urn:b'', rc_item = ''column.id.description'', rc_candidate = ''10'', rc_uuid = Some 10, rc_verdict = ''approve'',
     rc_reason = [], rc_reviewer = Some ''ana''\<rparr>"

lemma tables_metagen: "table_step\<^sup>*\<^sup>* empty_metagen db \<Longrightarrow> metagen_reachable reliable dh (db, dh)"
  by (induction rule: rtranclp_induct)
    (auto simp: metagen_reachable_def intro: rtranclp.rtrancl_into_rtrancl step_table)

lemma example_start_tables: "table_step\<^sup>*\<^sup>* empty_metagen example_start"
proof -
  let ?data = "\<lparr>cd_name = ''docs'', cd_enabled = Some True, cd_tier = None, cd_filter = None, cd_limit = None, cd_overwrite = None\<rparr>"
  have "(case create_metagen_conf 1 0 ?data empty_metagen of Inl _ \<Rightarrow> False | Inr (_, db) \<Rightarrow>
      (case put_boundary 0 ''urn:b'' (Some True) (Some [DATASET_KIND, COLUMN_KIND]) db of Inl _ \<Rightarrow> False | Inr (_, db') \<Rightarrow> db' = example_start))"
    by code_simp
  then obtain dto db where c: "create_metagen_conf 1 0 ?data empty_metagen = Inr (dto, db)"
    and q: "(case put_boundary 0 ''urn:b'' (Some True) (Some [DATASET_KIND, COLUMN_KIND]) db of Inl _ \<Rightarrow> False | Inr (_, db') \<Rightarrow> db' = example_start)"
    by (cases "create_metagen_conf 1 0 ?data empty_metagen") auto
  from q obtain b where p: "put_boundary 0 ''urn:b'' (Some True) (Some [DATASET_KIND, COLUMN_KIND]) db = Inr (b, example_start)"
    by (cases "put_boundary 0 ''urn:b'' (Some True) (Some [DATASET_KIND, COLUMN_KIND]) db") auto
  from step_create [OF c] step_put_boundary [OF p] show ?thesis by (meson converse_rtranclp_into_rtranclp r_into_rtranclp)
qed


lemma example_run:
  "\<exists>rr r'. metagen_run example_metagen_env ''t'' 9 True ''1'' None False (example_start, Map.empty) = (Inr rr, example_proposed, r')"
proof -
  have "(case example_run_result of (Inr _, db, _) \<Rightarrow> db = example_proposed | _ \<Rightarrow> False)" by code_simp
  then show ?thesis by (cases example_run_result) (auto simp: example_run_result_def split: sum.splits)
qed

lemma example_proposed_tables: "table_step\<^sup>*\<^sup>* empty_metagen example_proposed"
proof -
  obtain rr r' where "metagen_run example_metagen_env ''t'' 9 True ''1'' None False (example_start, Map.empty) = (Inr rr, example_proposed, r')"
    using example_run by blast
  from step_run [OF this] example_start_tables show ?thesis by (rule rtranclp.rtrancl_into_rtrancl [rotated])
qed

lemma example_proposed_reached: "metagen_reachable True dh (example_proposed, dh)"
  by (rule tables_metagen [OF example_proposed_tables])

lemma example_proposed_rows:
  "map (\<lambda>c. (ca_id c, ca_key c, ca_status c)) (mb_cands example_proposed) =
     [(10, (''urn:b'', ''column.id.description''), ''llm_approved''), (11, (''urn:z'', ''dataset.description''), ''llm_approved'')]"
  by code_simp

text \<open>A candidate outside every boundary and outside the scope of the run is stored once the reviewer accepts the payload.\<close>

lemma run_stores_invalid:
  "boundary_active example_start ''urn:z'' = False \<and> (11, (''urn:z'', ''dataset.description''), ''llm_approved'') \<in>
     (\<lambda>c. (ca_id c, ca_key c, ca_status c)) ` set (mb_cands example_proposed)"
proof
  show "boundary_active example_start ''urn:z'' = False" by code_simp
  show "(11, (''urn:z'', ''dataset.description''), ''llm_approved'') \<in> (\<lambda>c. (ca_id c, ca_key c, ca_status c)) ` set (mb_cands example_proposed)"
    unfolding set_map [symmetric] example_proposed_rows by simp
qed

section \<open>The properties\<close>

text \<open>
  C33. In every state the service reaches, whatever configurations, boundaries, runs and reviews came before and whatever the model
  proposed: identifiers, configuration names and boundaries are unique, limits lie between 1 and 20, boundaries allow known
  kinds only, each candidate belongs to an item and each reference to an existing configuration, an item has at most one approved candidate
  and each embedding belongs to an existing candidate and carries the kind of its item. A review there ends, if it does not succeed,
  with one of its two documented errors, never with a broken constraint or an ambiguous row.
\<close>

theorem metagen_well_formed:
  assumes "metagen_reachable reliable dh0 (db, dh)"
  shows "meta_inv db \<and> (\<forall>now dh_ok embed_ok call e. review_candidate now dh_ok embed_ok call (db, dh) = Inl e \<longrightarrow>
    e = PreconditionFailedError ''METAGEN_DATASET_NOT_IN_BOUNDARY'' \<or> e = EntityNotFoundError ''metagen_candidate'')"
proof -
  from metagen_reachable_inv [OF assms] have inv: "meta_inv db" by simp
  have "e = PreconditionFailedError ''METAGEN_DATASET_NOT_IN_BOUNDARY'' \<or> e = EntityNotFoundError ''metagen_candidate''"
    if r: "review_candidate now dh_ok embed_ok call (db, dh) = Inl e" for now dh_ok embed_ok call e
    using inv r by (cases rule: review_cases) auto
  with inv show ?thesis by blast
qed

theorem metagen_well_formed_witness:
  "meta_inv example_proposed \<and> map (\<lambda>c. (ca_id c, ca_status c)) (mb_cands example_proposed) = [(10, ''llm_approved''), (11, ''llm_approved'')]"
proof -
  have "map (\<lambda>(i, k, st). (i, st)) (map (\<lambda>c. (ca_id c, ca_key c, ca_status c)) (mb_cands example_proposed)) =
      [(10, ''llm_approved''), (11, ''llm_approved'')]" unfolding example_proposed_rows by simp
  then have "map (\<lambda>c. (ca_id c, ca_status c)) (mb_cands example_proposed) = [(10, ''llm_approved''), (11, ''llm_approved'')]" by (simp add: o_def)
  with metagen_well_formed [OF example_proposed_reached] show ?thesis by blast
qed



definition example_reviewed :: "metagen_db \<times> datahub" where
  "example_reviewed = (case review_candidate 6 True True example_approval (example_proposed, example_datahub) of
     Inl _ \<Rightarrow> (example_proposed, example_datahub) | Inr (_, db, dh) \<Rightarrow> (db, dh))"

lemma example_reviewed_reached: "metagen_reachable True example_datahub example_reviewed"
proof -
  have "(case review_candidate 6 True True example_approval (example_proposed, example_datahub) of Inl _ \<Rightarrow> False | Inr _ \<Rightarrow> True)" by code_simp
  then obtain out db dh where r: "review_candidate 6 True True example_approval (example_proposed, example_datahub) = Inr (out, db, dh)"
    by (auto split: sum.splits)
  then have "example_reviewed = (db, dh)" by (simp add: example_reviewed_def)
  with step_review [OF r, of True] example_proposed_reached [of example_datahub] show ?thesis
    unfolding metagen_reachable_def by (auto intro: rtranclp.rtrancl_into_rtrancl)
qed

definition reviewed :: "nat \<Rightarrow> review_call \<Rightarrow> metagen_row \<Rightarrow> metagen_row \<Rightarrow> metagen_row" where
  "reviewed now call c x =
     (if rc_verdict call = ''approve'' then (if ca_id x = ca_id c then decided now ''approved'' (rc_reviewer call) c else demoted now c x)
      else if rc_verdict call = ''reject'' then (if ca_id x = ca_id c then decided now ''rejected'' (rc_reviewer call) c else x)
      else x)"

definition value_after :: "review_call \<Rightarrow> metagen_row \<Rightarrow> (string \<times> string \<Rightarrow> string option) \<Rightarrow> string \<times> string \<Rightarrow> string option" where
  "value_after call c m =
     (if rc_verdict call = ''approve'' then m(ca_key c \<mapsto> ca_value c)
      else if rc_verdict call = ''reject'' \<and> ca_status c = ''approved'' then m(ca_key c := None) else m)"

lemma review_value:
  assumes "meta_inv db" "review_candidate now dh_ok embed_ok call (db, dh) = Inr (out, db', dh')"
    "find_candidate (rc_urn call) (rc_item call) (rc_uuid call) db = Inr c"
  shows "mb_cands db' = map (reviewed now call c) (mb_cands db) \<and> approved_value db' = value_after call c (approved_value db)"
proof -
  from assms(1,2) show ?thesis
  proof (cases rule: review_cases)
    case (approved c2 out2 db2)
    with assms(3) have c: "c2 = c" "db2 = db'" by auto
    with approved find_candidate_key [OF assms(3)] approved_value_approve [OF assms(1), of db' c now "rc_reviewer call"] show ?thesis
      by (simp add: value_after_def reviewed_def [abs_def])
  next
    case (rejected c2 out2 db2)
    with assms(3) have c: "c2 = c" "db2 = db'" by auto
    with rejected find_candidate_key [OF assms(3)] approved_value_reject [OF assms(1), of db' c now "rc_reviewer call"] show ?thesis
      by (simp add: value_after_def reviewed_def [abs_def])
  next
    case (other out2)
    then have "reviewed now call c = (\<lambda>x. x)" by (auto simp: reviewed_def)
    with other show ?thesis by (simp add: value_after_def)
  qed simp
qed

text \<open>
  C37. The review of a candidate found in a dataset whose boundary is active succeeds. An approval makes it the approved candidate
  of its item and demotes the one approved before, so that the item's approved value is the candidate's; a rejection of the approved
  candidate leaves the item without one; every other row stays as it is, and any other verdict changes nothing.
\<close>

theorem review_outcome:
  assumes "metagen_reachable reliable dh0 (db, dh)" "boundary_active db (rc_urn call)"
    "find_candidate (rc_urn call) (rc_item call) (rc_uuid call) db = Inr c"
  shows "\<exists>out db' dh'. review_candidate now dh_ok embed_ok call (db, dh) = Inr (out, db', dh') \<and>
    mb_cands db' = map (reviewed now call c) (mb_cands db) \<and> approved_value db' = value_after call c (approved_value db)"
proof -
  from metagen_reachable_inv [OF assms(1)] have inv: "meta_inv db" by simp
  obtain out db' dh' where r: "review_candidate now dh_ok embed_ok call (db, dh) = Inr (out, db', dh')"
  proof (cases "review_candidate now dh_ok embed_ok call (db, dh)")
    case (Inl e)
    from inv Inl show ?thesis by (cases rule: review_cases) (use assms(2,3) in auto)
  next
    case (Inr x)
    with that show ?thesis by (cases x) auto
  qed
  with review_value [OF inv r assms(3)] show ?thesis by blast
qed

theorem review_outcome_witness:
  "\<exists>c out db' dh'. find_candidate ''urn:b'' ''column.id.description'' (Some 10) example_proposed = Inr c \<and>
     review_candidate 6 True True example_approval (example_proposed, example_datahub) = Inr (out, db', dh') \<and>
     approved_value db' = (approved_value example_proposed)(ca_key c \<mapsto> ''Key'') \<and> ca_value c = ''Key''"
proof -
  have "(case find_candidate ''urn:b'' ''column.id.description'' (Some 10) example_proposed of Inl _ \<Rightarrow> False | Inr c \<Rightarrow> ca_value c = ''Key'')"
    by code_simp
  then obtain c where c: "find_candidate ''urn:b'' ''column.id.description'' (Some 10) example_proposed = Inr c" "ca_value c = ''Key''"
    by (auto split: sum.splits)
  have b: "boundary_active example_proposed (rc_urn example_approval)" by code_simp
  have call: "rc_urn example_approval = ''urn:b''" "rc_item example_approval = ''column.id.description''" "rc_uuid example_approval = Some 10"
    "rc_verdict example_approval = ''approve''" by (simp_all add: example_approval_def)
  from c(1) have f: "find_candidate (rc_urn example_approval) (rc_item example_approval) (rc_uuid example_approval) example_proposed = Inr c"
    unfolding call .
  from review_outcome [OF example_proposed_reached b f, of 6 True True example_datahub] c call(4) show ?thesis
    by (auto simp: value_after_def)
qed

end
