(* ===== verification/Metagen_Interleaving.thy ===== *)
theory Metagen_Interleaving
  imports Metagen_Properties
begin

text \<open>
  Reviews as \<open>src/backend/metagen/service.py\<close> runs them: a transaction that ends with a commit, the re-reading of the row, a read of the DataHub
  aspect, a write of the whole aspect, and the embedding and the event. Between any two of these other requests run. What DataHub shows follows the
  approved values when the reviews of a dataset come one after the other; without that it need not, although every call answers.
\<close>

section \<open>Reviews under way\<close>

datatype datahub_edit = Keep | Put string | Drop

datatype phase = Refreshing | Reading | Writing aspects | Finishing

record review_job =
  rj_call :: review_call
  rj_id :: nat
  rj_edit :: datahub_edit
  rj_phase :: phase

record review_sys =
  rs_db :: metagen_db
  rs_dh :: datahub
  rs_jobs :: "review_job list"

abbreviation job_urn :: "review_job \<Rightarrow> string" where
  "job_urn j \<equiv> rc_urn (rj_call j)"

definition job_key :: "review_job \<Rightarrow> string \<times> string" where
  "job_key j = (rc_urn (rj_call j), rc_item (rj_call j))"

text \<open>The transaction of a review with a verdict, and what it leaves to do.\<close>

definition commit_review :: "nat \<Rightarrow> review_call \<Rightarrow> metagen_db \<Rightarrow> (ds_error, review_job \<times> metagen_db) result" where
  "commit_review now call db =
     (if \<not> boundary_active db (rc_urn call) then Inl (PreconditionFailedError ''METAGEN_DATASET_NOT_IN_BOUNDARY'')
      else rbind (find_candidate (rc_urn call) (rc_item call) (rc_uuid call) db) (\<lambda>c.
        if rc_verdict call = ''approve''
        then rmap (\<lambda>db'. (\<lparr>rj_call = call, rj_id = ca_id c, rj_edit = Put (ca_value c), rj_phase = Refreshing\<rparr>, db'))
               (commit_approval now call c db)
        else rmap (\<lambda>db'. (\<lparr>rj_call = call, rj_id = ca_id c, rj_edit = (if ca_status c = ''approved'' then Drop else Keep),
                            rj_phase = Refreshing\<rparr>, db'))
               (commit_rejection now call c db)))"

definition apply_edit :: "aspects \<Rightarrow> review_job \<Rightarrow> datahub \<Rightarrow> datahub" where
  "apply_edit seen j dh = (case rj_edit j of
      Keep \<Rightarrow> dh
    | Put v \<Rightarrow> write_description seen (job_urn j) (rc_item (rj_call j)) v dh
    | Drop \<Rightarrow> write_cleared seen (job_urn j) (rc_item (rj_call j)) dh)"

text \<open>The end of a review: the embedding of an approved row, as it then stands, and the event.\<close>

definition finish_review :: "nat \<Rightarrow> bool \<Rightarrow> review_job \<Rightarrow> metagen_db \<Rightarrow> metagen_db" where
  "finish_review now embed_ok j db =
     (let call = rj_call j in
      if rc_verdict call = ''approve''
      then record_dataset_event (rc_urn call) ''METAGEN.CANDIDATE_APPROVE'' ''success'' (review_detail call) now
        (case row_get ca_id (rj_id j) (mb_cands db) of Some c \<Rightarrow> refresh_candidate_embedding embed_ok c db | None \<Rightarrow> db)
      else record_dataset_event (rc_urn call) ''METAGEN.CANDIDATE_REJECT'' ''success'' (review_detail call) now db)"

abbreviation row_there :: "nat \<Rightarrow> metagen_db \<Rightarrow> bool" where
  "row_there i db \<equiv> i \<in> ca_id ` set (mb_cands db)"

text \<open>
  With \<open>orderly\<close> a review commits only when no other one of its dataset is under way, and no row goes between the commit of its review and
  the re-reading. With \<open>reliable\<close> every call of DataHub answers; a call that fails is logged and the review goes on. Re-reading a row that is
  gone raises, and the review ends there.
\<close>

inductive review_step :: "bool \<Rightarrow> bool \<Rightarrow> review_sys \<Rightarrow> review_sys \<Rightarrow> bool" for orderly reliable where
  tables: "table_step (rs_db s) db' \<Longrightarrow>
    (orderly \<Longrightarrow> \<forall>j \<in> set (rs_jobs s). rj_phase j = Refreshing \<longrightarrow> row_there (rj_id j) db') \<Longrightarrow>
    review_step orderly reliable s (s\<lparr>rs_db := db'\<rparr>)"
| commits: "commit_review now call (rs_db s) = Inr (j, db') \<Longrightarrow> rc_verdict call \<in> {''approve'', ''reject''} \<Longrightarrow>
    (orderly \<Longrightarrow> rc_urn call \<notin> job_urn ` set (rs_jobs s)) \<Longrightarrow>
    review_step orderly reliable s (s\<lparr>rs_db := db', rs_jobs := rs_jobs s @ [j]\<rparr>)"
| reread: "rs_jobs s = xs @ j # ys \<Longrightarrow> rj_phase j = Refreshing \<Longrightarrow> row_there (rj_id j) (rs_db s) \<Longrightarrow>
    review_step orderly reliable s
      (s\<lparr>rs_jobs := xs @ j\<lparr>rj_phase := (if rj_edit j = Keep then Finishing else Reading)\<rparr> # ys\<rparr>)"
| gone: "rs_jobs s = xs @ j # ys \<Longrightarrow> rj_phase j = Refreshing \<Longrightarrow> \<not> row_there (rj_id j) (rs_db s) \<Longrightarrow>
    review_step orderly reliable s (s\<lparr>rs_jobs := xs @ ys\<rparr>)"
| reads: "rs_jobs s = xs @ j # ys \<Longrightarrow> rj_phase j = Reading \<Longrightarrow>
    review_step orderly reliable s (s\<lparr>rs_jobs := xs @ j\<lparr>rj_phase := Writing (rs_dh s (job_urn j))\<rparr> # ys\<rparr>)"
| write_back: "rs_jobs s = xs @ j # ys \<Longrightarrow> rj_phase j = Writing seen \<Longrightarrow>
    review_step orderly reliable s
      (s\<lparr>rs_dh := apply_edit seen j (rs_dh s), rs_jobs := xs @ j\<lparr>rj_phase := Finishing\<rparr> # ys\<rparr>)"
| lost: "\<not> reliable \<Longrightarrow> rs_jobs s = xs @ j # ys \<Longrightarrow> rj_phase j = Reading \<or> (\<exists>seen. rj_phase j = Writing seen) \<Longrightarrow>
    review_step orderly reliable s (s\<lparr>rs_jobs := xs @ j\<lparr>rj_phase := Finishing\<rparr> # ys\<rparr>)"
| finishes: "rs_jobs s = xs @ j # ys \<Longrightarrow> rj_phase j = Finishing \<Longrightarrow>
    review_step orderly reliable s (s\<lparr>rs_db := finish_review now embed_ok j (rs_db s), rs_jobs := xs @ ys\<rparr>)"

definition review_reachable :: "bool \<Rightarrow> bool \<Rightarrow> datahub \<Rightarrow> review_sys \<Rightarrow> bool" where
  "review_reachable orderly reliable dh0 s \<longleftrightarrow>
     (review_step orderly reliable)\<^sup>*\<^sup>* \<lparr>rs_db = empty_metagen, rs_dh = dh0, rs_jobs = []\<rparr> s"

section \<open>What each piece does\<close>

text \<open>What the item of a job is to show when its edit has been written.\<close>

definition target :: "review_job \<Rightarrow> (string \<times> string \<Rightarrow> string option) \<Rightarrow> (string \<times> string \<Rightarrow> string option)" where
  "target j m = (case rj_edit j of Keep \<Rightarrow> m | Put v \<Rightarrow> m(job_key j \<mapsto> v) | Drop \<Rightarrow> m(job_key j := None))"

lemma commit_review_ok:
  assumes "commit_review now call db = Inr (j, db')" "rc_verdict call \<in> {''approve'', ''reject''}" "meta_inv db"
  shows "rj_call j = call \<and> rj_phase j = Refreshing \<and> meta_inv db' \<and> row_there (rj_id j) db' \<and>
    ca_id ` set (mb_cands db') = ca_id ` set (mb_cands db) \<and> approved_value db' = target j (approved_value db)"
proof -
  from assms(1) obtain c where c: "find_candidate (rc_urn call) (rc_item call) (rc_uuid call) db = Inr c"
    by (auto simp: commit_review_def rbind_eq_Inr split: if_splits)
  from find_candidate_key [OF c] have mem: "c \<in> set (mb_cands db)" "ca_key c = (rc_urn call, rc_item call)" by simp_all
  show ?thesis
  proof (cases "rc_verdict call = ''approve''")
    case True
    with commit_approval_ok [OF assms(3) mem(1), of now call] assms(1) c have d: "meta_inv db'"
      "mb_cands db' = map (\<lambda>x. if ca_id x = ca_id c then decided now ''approved'' (rc_reviewer call) c else demoted now c x) (mb_cands db)"
      and j: "j = \<lparr>rj_call = call, rj_id = ca_id c, rj_edit = Put (ca_value c), rj_phase = Refreshing\<rparr>"
      by (auto simp: commit_review_def result_simps split: if_splits)
    have "map ca_id (mb_cands db') = map ca_id (mb_cands db)" unfolding d(2) by simp
    then have "ca_id ` set (mb_cands db') = ca_id ` set (mb_cands db)" by (metis list.set_map)
    with approved_value_approve [OF assms(3) d(1) mem(1) d(2)] d(1) mem j show ?thesis
      by (simp add: target_def job_key_def)
  next
    case False
    with commit_rejection_ok [OF assms(3) mem(1), of now call] assms(1,2) c have d: "meta_inv db'"
      "mb_cands db' = map (\<lambda>x. if ca_id x = ca_id c then decided now ''rejected'' (rc_reviewer call) c else x) (mb_cands db)"
      and j: "j = \<lparr>rj_call = call, rj_id = ca_id c, rj_edit = (if ca_status c = ''approved'' then Drop else Keep), rj_phase = Refreshing\<rparr>"
      by (auto simp: commit_review_def result_simps split: if_splits)
    have "map ca_id (mb_cands db') = map ca_id (mb_cands db)" unfolding d(2) by simp
    then have "ca_id ` set (mb_cands db') = ca_id ` set (mb_cands db)" by (metis list.set_map)
    with approved_value_reject [OF assms(3) d(1) mem(1) d(2)] d(1) mem j show ?thesis
      by (auto simp: target_def job_key_def)
  qed
qed

lemma finish_review_ok:
  assumes "meta_inv db"
  shows "meta_inv (finish_review now embed_ok j db) \<and> approved_value (finish_review now embed_ok j db) = approved_value db \<and>
    mb_cands (finish_review now embed_ok j db) = mb_cands db"
proof (cases "row_get ca_id (rj_id j) (mb_cands db)")
  case (Some c)
  then have "c \<in> set (mb_cands db)" by (auto dest: row_get_SomeD)
  with Some assms refresh_embedding_inv [OF assms this] show ?thesis
    by (simp add: finish_review_def Let_def events)
next
  case None
  show ?thesis unfolding finish_review_def Let_def None using assms by (simp add: events)
qed

text \<open>A write from what the aspects are is the write of the composed operation.\<close>

lemma apply_edit_fresh:
  assumes "descriptions.mirrors m dh"
  shows "descriptions.mirrors (target j m) (apply_edit (dh (job_urn j)) j dh)"
  using descriptions.mirrors_write [OF assms] descriptions.mirrors_clear [OF assms] assms
  by (auto simp: target_def apply_edit_def job_key_def emit_to_datahub_def clear_datahub_aspect_def split: datahub_edit.split)

lemma apply_edit_other: "u \<noteq> job_urn j \<Longrightarrow> apply_edit seen j dh u = dh u"
  by (auto simp: apply_edit_def write_description_def write_cleared_def split: datahub_edit.split option.split)

lemma finish_review_phase [simp]: "finish_review now embed_ok (j\<lparr>rj_phase := p\<rparr>) db = finish_review now embed_ok j db"
  by (simp add: finish_review_def Let_def)

section \<open>The invariant of orderly reviews\<close>

definition active :: "review_job \<Rightarrow> bool" where
  "active j \<longleftrightarrow> rj_phase j \<noteq> Finishing \<and> rj_edit j \<noteq> Keep"

text \<open>What is shown for an item agrees with its approved value.\<close>

definition agrees :: "datahub \<Rightarrow> metagen_db \<Rightarrow> (string \<times> string \<Rightarrow> string option) \<Rightarrow> string \<times> string \<Rightarrow> bool" where
  "agrees dh0 db m k \<longleftrightarrow> (case approved_value db k of
      Some v \<Rightarrow> m k = Some v | None \<Rightarrow> m k = None \<or> m k = shown dh0 (fst k) (snd k))"

definition job_ok :: "metagen_db \<Rightarrow> datahub \<Rightarrow> review_job \<Rightarrow> bool" where
  "job_ok db dh j \<longleftrightarrow> (rj_phase j = Refreshing \<longrightarrow> row_there (rj_id j) db) \<and>
     (\<forall>seen. rj_phase j = Writing seen \<longrightarrow> seen = dh (job_urn j)) \<and>
     (active j \<longrightarrow> target j (approved_value db) = approved_value db)"

definition orderly_inv :: "datahub \<Rightarrow> review_sys \<Rightarrow> bool" where
  "orderly_inv dh0 s \<longleftrightarrow> meta_inv (rs_db s) \<and> distinct (map (\<lambda>j. job_urn j) (rs_jobs s)) \<and>
     (\<forall>j \<in> set (rs_jobs s). job_ok (rs_db s) (rs_dh s) j) \<and>
     (\<exists>m. descriptions.mirrors m (rs_dh s) \<and> (\<forall>k. k \<notin> job_key ` {j \<in> set (rs_jobs s). active j} \<longrightarrow> agrees dh0 (rs_db s) m k))"

lemma orderly_invE:
  assumes "orderly_inv dh0 s"
  obtains m where "meta_inv (rs_db s)" "distinct (map (\<lambda>j. job_urn j) (rs_jobs s))"
    "\<forall>j \<in> set (rs_jobs s). job_ok (rs_db s) (rs_dh s) j" "descriptions.mirrors m (rs_dh s)"
    "\<And>k. k \<notin> job_key ` {j \<in> set (rs_jobs s). active j} \<Longrightarrow> agrees dh0 (rs_db s) m k"
  using assms unfolding orderly_inv_def by blast

lemma target_other: "job_key j \<noteq> job_key j' \<Longrightarrow> target j m = m \<Longrightarrow> target j (target j' m) = target j' m"
  by (auto simp: target_def fun_upd_twist split: datahub_edit.splits) (metis fun_upd_twist fun_upd_triv)+

lemma job_key_phase [simp]: "job_key (j\<lparr>rj_phase := p\<rparr>) = job_key j"
  by (simp add: job_key_def)

lemma target_phase [simp]: "target (j\<lparr>rj_phase := p\<rparr>) = target j"
  by (rule ext, cases "rj_edit j") (simp_all add: target_def)

lemma apply_edit_phase [simp]: "apply_edit seen (j\<lparr>rj_phase := p\<rparr>) = apply_edit seen j"
  by (rule ext, cases "rj_edit j") (simp_all add: apply_edit_def)

lemma target_at: "k \<noteq> job_key j \<Longrightarrow> target j m k = m k"
  by (simp add: target_def split: datahub_edit.split)

lemma agrees_target: "target j (approved_value db) = approved_value db \<Longrightarrow> rj_edit j \<noteq> Keep \<Longrightarrow> agrees dh0 db (target j m) (job_key j)"
proof -
  assume a: "target j (approved_value db) = approved_value db" "rj_edit j \<noteq> Keep"
  then have "approved_value db (job_key j) = target j m (job_key j)"
    by (cases "rj_edit j") (auto simp: target_def dest: fun_cong [of _ _ "job_key j"])
  then show ?thesis by (simp add: agrees_def split: option.split)
qed

lemma orderly_tables:
  assumes "orderly_inv dh0 s" "table_step (rs_db s) db'"
    "\<forall>j \<in> set (rs_jobs s). rj_phase j = Refreshing \<longrightarrow> row_there (rj_id j) db'"
  shows "orderly_inv dh0 (s\<lparr>rs_db := db'\<rparr>)"
proof -
  obtain m where m: "meta_inv (rs_db s)" "distinct (map (\<lambda>j. job_urn j) (rs_jobs s))"
    "\<forall>j \<in> set (rs_jobs s). job_ok (rs_db s) (rs_dh s) j" "descriptions.mirrors m (rs_dh s)"
    "\<And>k. k \<notin> job_key ` {j \<in> set (rs_jobs s). active j} \<Longrightarrow> agrees dh0 (rs_db s) m k" by (rule orderly_invE [OF assms(1)]) blast
  from table_step_ok [OF assms(2) m(1)] have db': "meta_inv db'" "approved_value db' = approved_value (rs_db s)" by simp_all
  have "\<forall>j \<in> set (rs_jobs s). job_ok db' (rs_dh s) j" using m(3) assms(3) by (simp add: job_ok_def db'(2))
  moreover have "agrees dh0 db' m k" if "k \<notin> job_key ` {j \<in> set (rs_jobs s). active j}" for k
    using m(5) [OF that] by (simp add: agrees_def db'(2))
  ultimately show ?thesis unfolding orderly_inv_def using db'(1) m(2,4) by auto
qed

lemma orderly_commit:
  assumes "orderly_inv dh0 s" "commit_review now call (rs_db s) = Inr (j, db')" "rc_verdict call \<in> {''approve'', ''reject''}"
    "rc_urn call \<notin> job_urn ` set (rs_jobs s)"
  shows "orderly_inv dh0 (s\<lparr>rs_db := db', rs_jobs := rs_jobs s @ [j]\<rparr>)"
proof -
  obtain m where m: "meta_inv (rs_db s)" "distinct (map (\<lambda>j. job_urn j) (rs_jobs s))"
    "\<forall>j \<in> set (rs_jobs s). job_ok (rs_db s) (rs_dh s) j" "descriptions.mirrors m (rs_dh s)"
    "\<And>k. k \<notin> job_key ` {j \<in> set (rs_jobs s). active j} \<Longrightarrow> agrees dh0 (rs_db s) m k" by (rule orderly_invE [OF assms(1)]) blast
  have j: "rj_call j = call" "rj_phase j = Refreshing" "meta_inv db'" "row_there (rj_id j) db'"
    "ca_id ` set (mb_cands db') = ca_id ` set (mb_cands (rs_db s))" "approved_value db' = target j (approved_value (rs_db s))"
    using commit_review_ok [OF assms(2,3) m(1)] by blast+
  have key: "job_key j' \<noteq> job_key j" if "j' \<in> set (rs_jobs s)" for j' using assms(4) that j(1)
    unfolding job_key_def by (metis fst_conv imageI)
  have "job_ok db' (rs_dh s) j'" if "j' \<in> set (rs_jobs s)" for j'
    using m(3) that key [OF that] target_other [of j' j "approved_value (rs_db s)"] by (auto simp: job_ok_def j(5,6))
  moreover have "job_ok db' (rs_dh s) j"
  proof -
    have "target j (approved_value db') = approved_value db'" unfolding j(6) by (auto simp: target_def split: datahub_edit.split)
    with j(2,4) show ?thesis by (simp add: job_ok_def)
  qed
  moreover have "agrees dh0 db' m k" if k: "k \<notin> job_key ` {j' \<in> set (rs_jobs s @ [j]). active j'}" for k
  proof -
    have old: "agrees dh0 (rs_db s) m k" using k by (intro m(5)) auto
    have "approved_value db' k = approved_value (rs_db s) k"
    proof (cases "rj_edit j = Keep")
      case True
      then show ?thesis by (simp add: j(6) target_def)
    next
      case False
      then have "active j" by (simp add: active_def j(2))
      with k have "k \<noteq> job_key j" by auto
      then show ?thesis by (simp add: j(6) target_at)
    qed
    with old show ?thesis by (simp add: agrees_def)
  qed
  ultimately show ?thesis unfolding orderly_inv_def using m(2,4) j(1,3) assms(4) by auto
qed

lemma active_keys: "job_key ` {j' \<in> set (xs @ j # ys). active j'} =
    job_key ` {j' \<in> set (xs @ ys). active j'} \<union> (if active j then {job_key j} else {})"
  by auto

text \<open>A job that moves on without a write, to a phase that asks no more of it.\<close>

lemma orderly_phase:
  assumes "orderly_inv dh0 s" "rs_jobs s = xs @ j # ys" "job_ok (rs_db s) (rs_dh s) (j\<lparr>rj_phase := p\<rparr>)"
    "active (j\<lparr>rj_phase := p\<rparr>) = active j"
  shows "orderly_inv dh0 (s\<lparr>rs_jobs := xs @ j\<lparr>rj_phase := p\<rparr> # ys\<rparr>)"
proof -
  obtain m where m: "meta_inv (rs_db s)" "distinct (map (\<lambda>j. job_urn j) (rs_jobs s))"
    "\<forall>j \<in> set (rs_jobs s). job_ok (rs_db s) (rs_dh s) j" "descriptions.mirrors m (rs_dh s)"
    "\<And>k. k \<notin> job_key ` {j \<in> set (rs_jobs s). active j} \<Longrightarrow> agrees dh0 (rs_db s) m k" by (rule orderly_invE [OF assms(1)]) blast
  have key: "job_key (j\<lparr>rj_phase := p\<rparr>) = job_key j" by (simp add: job_key_def)
  have "job_key ` {j' \<in> set (xs @ j\<lparr>rj_phase := p\<rparr> # ys). active j'} = job_key ` {j' \<in> set (rs_jobs s). active j'}"
    unfolding assms(2) active_keys assms(4) key ..
  then show ?thesis unfolding orderly_inv_def using m assms(2,3) by auto
qed

lemma orderly_write:
  assumes "orderly_inv dh0 s" "rs_jobs s = xs @ j # ys" "rj_phase j = Writing seen"
  shows "orderly_inv dh0 (s\<lparr>rs_dh := apply_edit seen j (rs_dh s), rs_jobs := xs @ j\<lparr>rj_phase := Finishing\<rparr> # ys\<rparr>)"
proof -
  obtain m where m: "meta_inv (rs_db s)" "distinct (map (\<lambda>j. job_urn j) (rs_jobs s))"
    "\<forall>j \<in> set (rs_jobs s). job_ok (rs_db s) (rs_dh s) j" "descriptions.mirrors m (rs_dh s)"
    "\<And>k. k \<notin> job_key ` {j \<in> set (rs_jobs s). active j} \<Longrightarrow> agrees dh0 (rs_db s) m k" by (rule orderly_invE [OF assms(1)]) blast
  have jok: "job_ok (rs_db s) (rs_dh s) j" using m(3) assms(2) by simp
  then have seen: "seen = rs_dh s (job_urn j)" using assms(3) by (simp add: job_ok_def)
  let ?dh = "apply_edit seen j (rs_dh s)"
  have mirrors: "descriptions.mirrors (target j m) ?dh" unfolding seen by (rule apply_edit_fresh [OF m(4)])
  have urn: "job_urn j' \<noteq> job_urn j" if "j' \<in> set (xs @ ys)" for j' using m(2) that unfolding assms(2) by (auto simp: image_iff)
  have others: "job_ok (rs_db s) ?dh j'" if "j' \<in> set (xs @ ys)" for j'
    using m(3) that apply_edit_other [OF urn [OF that], of seen "rs_dh s"] unfolding assms(2) job_ok_def by auto
  have finished: "job_ok (rs_db s) ?dh (j\<lparr>rj_phase := Finishing\<rparr>)" by (simp add: job_ok_def active_def)
  have agree: "agrees dh0 (rs_db s) (target j m) k" if k: "k \<notin> job_key ` {j' \<in> set (xs @ ys). active j'}" for k
  proof (cases "k = job_key j \<and> rj_edit j \<noteq> Keep")
    case True
    then have "active j" using assms(3) by (simp add: active_def)
    with jok have "target j (approved_value (rs_db s)) = approved_value (rs_db s)" by (simp add: job_ok_def)
    with True agrees_target show ?thesis by blast
  next
    case False
    have notin: "k \<notin> job_key ` {j' \<in> set (rs_jobs s). active j'}" using k False unfolding assms(2) by (auto simp: active_def)
    from False have same: "target j m k = m k" by (cases "rj_edit j") (auto simp: target_def)
    from m(5) [OF notin] show ?thesis unfolding agrees_def same .
  qed
  have rest: "{j' \<in> set (xs @ j\<lparr>rj_phase := Finishing\<rparr> # ys). active j'} = {j' \<in> set (xs @ ys). active j'}"
    by (auto simp: active_def)
  show ?thesis unfolding orderly_inv_def using m(1,2) mirrors others finished agree rest assms(2) by auto
qed

lemma orderly_finish:
  assumes "orderly_inv dh0 s" "rs_jobs s = xs @ j # ys" "rj_phase j = Finishing"
  shows "orderly_inv dh0 (s\<lparr>rs_db := finish_review now embed_ok j (rs_db s), rs_jobs := xs @ ys\<rparr>)"
proof -
  obtain m where m: "meta_inv (rs_db s)" "distinct (map (\<lambda>j. job_urn j) (rs_jobs s))"
    "\<forall>j \<in> set (rs_jobs s). job_ok (rs_db s) (rs_dh s) j" "descriptions.mirrors m (rs_dh s)"
    "\<And>k. k \<notin> job_key ` {j \<in> set (rs_jobs s). active j} \<Longrightarrow> agrees dh0 (rs_db s) m k" by (rule orderly_invE [OF assms(1)]) blast
  note fin = finish_review_ok [OF m(1), of now embed_ok j]
  have rest: "{j' \<in> set (rs_jobs s). active j'} = {j' \<in> set (xs @ ys). active j'}"
    using assms(3) unfolding assms(2) by (auto simp: active_def)
  have "\<forall>j' \<in> set (xs @ ys). job_ok (finish_review now embed_ok j (rs_db s)) (rs_dh s) j'"
    using m(3) fin unfolding assms(2) by (auto simp: job_ok_def)
  moreover have "agrees dh0 (finish_review now embed_ok j (rs_db s)) m k" if "k \<notin> job_key ` {j' \<in> set (xs @ ys). active j'}" for k
    using m(5) that fin unfolding rest by (simp add: agrees_def)
  ultimately show ?thesis unfolding orderly_inv_def using m(2,4) fin assms(2) by auto
qed

lemma orderly_step:
  assumes "review_step True True s s'" "orderly_inv dh0 s"
  shows "orderly_inv dh0 s'"
  using assms(1)
proof cases
  case (tables db')
  from orderly_tables [OF assms(2) tables(2)] tables(1,3) show ?thesis by simp
next
  case (commits now call j db')
  from orderly_commit [OF assms(2) commits(2,3)] commits(1,4) show ?thesis by simp
next
  case (reread xs j ys)
  from assms(2) reread(2) have "job_ok (rs_db s) (rs_dh s) j" by (auto simp: orderly_inv_def)
  then show ?thesis unfolding reread(1)
    by (intro orderly_phase [OF assms(2) reread(2)]) (use reread(3) in \<open>auto simp: job_ok_def active_def\<close>)
next
  case (gone xs j ys)
  from assms(2) gone(2) have "job_ok (rs_db s) (rs_dh s) j" by (auto simp: orderly_inv_def)
  with gone(3,4) show ?thesis by (simp add: job_ok_def)
next
  case (reads xs j ys)
  from assms(2) reads(2) have "job_ok (rs_db s) (rs_dh s) j" by (auto simp: orderly_inv_def)
  then show ?thesis unfolding reads(1)
    by (intro orderly_phase [OF assms(2) reads(2)]) (use reads(3) in \<open>auto simp: job_ok_def active_def\<close>)
next
  case (write_back xs j ys seen)
  from orderly_write [OF assms(2) write_back(2,3)] show ?thesis unfolding write_back(1) .
next
  case (finishes xs j ys now embed_ok)
  from orderly_finish [OF assms(2) finishes(2,3)] show ?thesis unfolding finishes(1) .
qed simp

interpretation orderly: step_invariant "review_step True True" "orderly_inv dh0" for dh0
  by unfold_locales (rule orderly_step)

lemma orderly_start: "orderly_inv dh0 \<lparr>rs_db = empty_metagen, rs_dh = dh0, rs_jobs = []\<rparr>"
proof -
  have "descriptions.mirrors (\<lambda>k. shown dh0 (fst k) (snd k)) dh0" by (simp add: descriptions.mirrors_def)
  then show ?thesis
    by (auto simp: orderly_inv_def agrees_def approved_value_def approved_list_def empty_metagen_def [THEN arg_cong [of _ _ mb_cands]])
qed

lemma orderly_reached: "review_reachable True True dh0 s \<Longrightarrow> orderly_inv dh0 s"
  unfolding review_reachable_def using orderly.run_keeps [OF _ orderly_start] by blast

section \<open>The properties\<close>

text \<open>
  C35. DataHub shows what was approved, once the reviews of a dataset are done. A review commits, re-reads its row, reads the aspect and writes it
  back in separate steps, with any operation and any review of another dataset in between. Suppose no review of a dataset
  commits while another one of it is under way, no row is deleted between the commit of its review and the re-reading, every call of DataHub
  answers and nobody else writes the editable aspects. Then in every state reached, for every dataset without a review
  that has yet to write, an item with an approved candidate shows that candidate's value, and an item without one shows nothing or the
  text that was there at the start. The service enforces none of the first three (\<open>stale_write_reached\<close>, \<open>lost_update\<close>).
\<close>

theorem datahub_follows_approvals:
  assumes "review_reachable True True dh0 s" "proper_item i"
    "\<forall>j \<in> set (rs_jobs s). rc_urn (rj_call j) = u \<longrightarrow> rj_phase j = Finishing"
  shows "case approved_value (rs_db s) (u, i) of
      Some v \<Rightarrow> shown (rs_dh s) u i = Some v
    | None \<Rightarrow> shown (rs_dh s) u i = None \<or> shown (rs_dh s) u i = shown dh0 u i"
proof -
  from orderly_reached [OF assms(1)] obtain m where m: "descriptions.mirrors m (rs_dh s)"
    "\<And>k. k \<notin> job_key ` {j \<in> set (rs_jobs s). active j} \<Longrightarrow> agrees dh0 (rs_db s) m k" by (rule orderly_invE) blast
  have "(u, i) \<notin> job_key ` {j \<in> set (rs_jobs s). active j}" using assms(3) by (auto simp: job_key_def active_def)
  from m(2) [OF this] have "agrees dh0 (rs_db s) m (u, i)" .
  moreover from m(1) assms(2) have "shown (rs_dh s) u i = m (u, i)" by (simp add: descriptions.mirrors_def)
  ultimately show ?thesis by (auto simp: agrees_def split: option.splits)
qed

text \<open>The tables of the example are reached here too, and its approval runs to its end.\<close>

lemma tables_reached: "table_step\<^sup>*\<^sup>* empty_metagen db \<Longrightarrow> review_reachable orderly reliable dh \<lparr>rs_db = db, rs_dh = dh, rs_jobs = []\<rparr>"
proof (induction rule: rtranclp_induct)
  case base
  show ?case by (simp add: review_reachable_def)
next
  case (step db db')
  from tables [of "\<lparr>rs_db = db, rs_dh = dh, rs_jobs = []\<rparr>" db' orderly reliable] step(2)
  have "review_step orderly reliable \<lparr>rs_db = db, rs_dh = dh, rs_jobs = []\<rparr> \<lparr>rs_db = db', rs_dh = dh, rs_jobs = []\<rparr>" by simp
  with step(3) show ?case unfolding review_reachable_def by (rule rtranclp.rtrancl_into_rtrancl)
qed

definition one_job :: "review_job \<Rightarrow> metagen_db \<Rightarrow> datahub \<Rightarrow> review_sys" where
  "one_job j db dh = \<lparr>rs_db = db, rs_dh = dh, rs_jobs = [j]\<rparr>"

text \<open>One review from its commit to its end, alone.\<close>

lemma review_alone:
  assumes "review_reachable orderly reliable dh0 \<lparr>rs_db = db, rs_dh = dh, rs_jobs = []\<rparr>" "commit_review now call db = Inr (j, db')"
    "rc_verdict call \<in> {''approve'', ''reject''}" "meta_inv db"
  shows "review_reachable orderly reliable dh0
    \<lparr>rs_db = finish_review now embed_ok j db', rs_dh = apply_edit (dh (rc_urn call)) j dh, rs_jobs = []\<rparr>"
proof -
  have j: "rj_call j = call" "rj_phase j = Refreshing" "row_there (rj_id j) db'" using commit_review_ok [OF assms(2-4)] by blast+
  let ?r = "review_step orderly reliable"
  have c: "?r \<lparr>rs_db = db, rs_dh = dh, rs_jobs = []\<rparr> (one_job j db' dh)"
    using commits [of now call "\<lparr>rs_db = db, rs_dh = dh, rs_jobs = []\<rparr>" j db' orderly reliable] assms(2,3) by (simp add: one_job_def)
  have "?r\<^sup>*\<^sup>* (one_job j db' dh) (one_job (j\<lparr>rj_phase := Finishing\<rparr>) db' (apply_edit (dh (rc_urn call)) j dh))"
  proof (cases "rj_edit j = Keep")
    case True
    have "?r (one_job j db' dh) (one_job (j\<lparr>rj_phase := Finishing\<rparr>) db' dh)"
      using reread [of "one_job j db' dh" "[]" j "[]" orderly reliable] j True by (simp add: one_job_def)
    with True show ?thesis by (simp add: apply_edit_def r_into_rtranclp)
  next
    case False
    have 1: "?r (one_job j db' dh) (one_job (j\<lparr>rj_phase := Reading\<rparr>) db' dh)"
      using reread [of "one_job j db' dh" "[]" j "[]" orderly reliable] j False by (simp add: one_job_def)
    have 2: "?r (one_job (j\<lparr>rj_phase := Reading\<rparr>) db' dh) (one_job (j\<lparr>rj_phase := Writing (dh (rc_urn call))\<rparr>) db' dh)"
      using reads [of "one_job (j\<lparr>rj_phase := Reading\<rparr>) db' dh" "[]" "j\<lparr>rj_phase := Reading\<rparr>" "[]" orderly reliable] j
      by (simp add: one_job_def)
    have 3: "?r (one_job (j\<lparr>rj_phase := Writing (dh (rc_urn call))\<rparr>) db' dh)
        (one_job (j\<lparr>rj_phase := Finishing\<rparr>) db' (apply_edit (dh (rc_urn call)) j dh))"
      using write_back [of "one_job (j\<lparr>rj_phase := Writing (dh (rc_urn call))\<rparr>) db' dh" "[]" "j\<lparr>rj_phase := Writing (dh (rc_urn call))\<rparr>" "[]"
          "dh (rc_urn call)" orderly reliable] by (simp add: one_job_def)
    from 1 2 3 show ?thesis by (meson converse_rtranclp_into_rtranclp r_into_rtranclp)
  qed
  moreover have "?r (one_job (j\<lparr>rj_phase := Finishing\<rparr>) db' (apply_edit (dh (rc_urn call)) j dh))
      \<lparr>rs_db = finish_review now embed_ok j db', rs_dh = apply_edit (dh (rc_urn call)) j dh, rs_jobs = []\<rparr>"
    using finishes [of "one_job (j\<lparr>rj_phase := Finishing\<rparr>) db' (apply_edit (dh (rc_urn call)) j dh)" "[]" "j\<lparr>rj_phase := Finishing\<rparr>" "[]"
        orderly reliable now embed_ok] by (simp add: one_job_def)
  ultimately show ?thesis using assms(1) c unfolding review_reachable_def by (meson rtranclp.rtrancl_into_rtrancl rtranclp_trans)
qed

text \<open>So the composed review is one way the pieces run.\<close>

lemma review_composed:
  assumes "review_reachable orderly reliable dh0 \<lparr>rs_db = db, rs_dh = dh, rs_jobs = []\<rparr>" "meta_inv db"
    "review_candidate now True embed_ok call (db, dh) = Inr (out, db', dh')"
  shows "review_reachable orderly reliable dh0 \<lparr>rs_db = db', rs_dh = dh', rs_jobs = []\<rparr>"
proof (cases "rc_verdict call \<in> {''approve'', ''reject''}")
  case False
  with assms(3) have "db' = db" "dh' = dh" by (auto simp: review_candidate_def result_simps split: if_splits)
  with assms(1) show ?thesis by simp
next
  case verdict: True
  from assms(3) obtain c where act: "boundary_active db (rc_urn call)" and c: "find_candidate (rc_urn call) (rc_item call) (rc_uuid call) db = Inr c"
    by (auto simp: review_candidate_def result_simps split: if_splits)
  from find_candidate_key [OF c] have mem: "c \<in> set (mb_cands db)" by simp
  show ?thesis
  proof (cases "rc_verdict call = ''approve''")
    case True
    let ?c' = "decided now ''approved'' (rc_reviewer call) c"
    let ?j = "\<lparr>rj_call = call, rj_id = ca_id c, rj_edit = Put (ca_value c), rj_phase = Refreshing\<rparr>"
    obtain db1 where d: "commit_approval now call c db = Inr db1" "meta_inv db1"
      "mb_cands db1 = map (\<lambda>x. if ca_id x = ca_id c then ?c' else demoted now c x) (mb_cands db)"
      using commit_approval_ok [OF assms(2) mem, of now call] by blast
    have "?c' \<in> set (mb_cands db1)" unfolding d(3) using mem by force
    moreover have "distinct (map ca_id (mb_cands db1))" using d(2) by (simp add: meta_inv_def cand_inv_def)
    ultimately have row: "row_get ca_id (ca_id c) (mb_cands db1) = Some ?c'" using row_get_unique by fastforce
    have "commit_review now call db = Inr (?j, db1)" by (simp add: commit_review_def act c True d(1))
    from review_alone [OF assms(1) this verdict assms(2), of embed_ok]
    have "review_reachable orderly reliable dh0
      \<lparr>rs_db = finish_review now embed_ok ?j db1, rs_dh = apply_edit (dh (rc_urn call)) ?j dh, rs_jobs = []\<rparr>" .
    moreover have "db' = finish_review now embed_ok ?j db1" "dh' = apply_edit (dh (rc_urn call)) ?j dh"
      using assms(3) by (auto simp: review_candidate_def act c True approve_candidate_def d(1) finish_review_def row apply_edit_def emit_to_datahub_def Let_def)
    ultimately show ?thesis by simp
  next
    case False
    with verdict have reject: "rc_verdict call = ''reject''" by simp
    let ?j = "\<lparr>rj_call = call, rj_id = ca_id c, rj_edit = (if ca_status c = ''approved'' then Drop else Keep), rj_phase = Refreshing\<rparr>"
    obtain db1 where d: "commit_rejection now call c db = Inr db1" using commit_rejection_ok [OF assms(2) mem, of now call] by blast
    have "commit_review now call db = Inr (?j, db1)" by (simp add: commit_review_def act c reject d)
    from review_alone [OF assms(1) this verdict assms(2), of embed_ok]
    have "review_reachable orderly reliable dh0
      \<lparr>rs_db = finish_review now embed_ok ?j db1, rs_dh = apply_edit (dh (rc_urn call)) ?j dh, rs_jobs = []\<rparr>" .
    moreover have "db' = finish_review now embed_ok ?j db1" "dh' = apply_edit (dh (rc_urn call)) ?j dh"
      using assms(3) by (auto simp: review_candidate_def act c reject reject_candidate_def d finish_review_def apply_edit_def clear_datahub_aspect_def)
    ultimately show ?thesis by simp
  qed
qed

theorem datahub_follows_approvals_witness:
  "\<exists>s. review_reachable True True example_datahub s \<and> rs_jobs s = [] \<and> approved_value (rs_db s) (''urn:b'', ''column.id.description'') = Some ''Key'' \<and>
     shown (rs_dh s) ''urn:b'' ''column.id.description'' = Some ''Key''"
proof -
  have "(case review_candidate 6 True True example_approval (example_proposed, example_datahub) of Inl _ \<Rightarrow> False | Inr _ \<Rightarrow> True)" by code_simp
  then obtain out db dh where r: "review_candidate 6 True True example_approval (example_proposed, example_datahub) = Inr (out, db, dh)"
    by (auto split: sum.splits)
  then have ex: "example_reviewed = (db, dh)" by (simp add: example_reviewed_def)
  let ?s = "\<lparr>rs_db = db, rs_dh = dh, rs_jobs = []\<rparr>"
  have inv: "meta_inv example_proposed" using metagen_reachable_inv [OF example_proposed_reached] by simp
  have s: "review_reachable True True example_datahub ?s"
    by (rule review_composed [OF tables_reached [OF example_proposed_tables] inv r])
  have "approved_value (fst example_reviewed) (''urn:b'', ''column.id.description'') = Some ''Key''" by code_simp
  then have v: "approved_value db (''urn:b'', ''column.id.description'') = Some ''Key''" by (simp add: ex)
  have p: "proper_item ''column.id.description''" by code_simp
  from datahub_follows_approvals [OF s p, of "''urn:b''"] v s show ?thesis by (intro exI [of _ ?s]) simp
qed

section \<open>What goes wrong without order\<close>

text \<open>Two columns of one dataset approved at once, both reads before both writes: the second write takes the first one's text back.\<close>

lemma lost_update:
  assumes "f \<noteq> g"
  shows "shown (write_description seen u (column_item g) w (write_description seen u (column_item f) v dh)) u (column_item f) =
    (case as_schema seen of None \<Rightarrow> None | Some a \<Rightarrow> field_description f (es_fields a))"
proof -
  have c: "column_item g \<noteq> DATASET_KIND" "item_field (column_item g) = g" by (simp_all add: column_item_def DATASET_KIND_def item_field_def)
  show ?thesis using assms
    by (simp add: shown_column write_description_def c new_schema_def field_description_set split: option.split)
qed

text \<open>A rejection that overtakes the approval before it: the aspect is cleared before the approved text is written, and the text of the
  rejected candidate stays, although every call of DataHub answered and no review is under way.\<close>

definition example_rejection :: review_call where
  "example_rejection = example_approval\<lparr>rc_verdict := ''reject''\<rparr>"

definition two_jobs :: "review_job \<Rightarrow> review_job \<Rightarrow> metagen_db \<Rightarrow> datahub \<Rightarrow> review_sys" where
  "two_jobs j1 j2 db dh = \<lparr>rs_db = db, rs_dh = dh, rs_jobs = [j1, j2]\<rparr>"

lemma two_jobs_steps:
  "rj_phase j1 = Refreshing \<Longrightarrow> rj_edit j1 \<noteq> Keep \<Longrightarrow> row_there (rj_id j1) db \<Longrightarrow>
     review_step o1 r (one_job j1 db dh) (one_job (j1\<lparr>rj_phase := Reading\<rparr>) db dh)"
  "rj_phase j1 = Reading \<Longrightarrow> review_step o1 r (one_job j1 db dh) (one_job (j1\<lparr>rj_phase := Writing (dh (job_urn j1))\<rparr>) db dh)"
  "rj_phase j2 = Refreshing \<Longrightarrow> rj_edit j2 \<noteq> Keep \<Longrightarrow> row_there (rj_id j2) db \<Longrightarrow>
     review_step o1 r (two_jobs j1 j2 db dh) (two_jobs j1 (j2\<lparr>rj_phase := Reading\<rparr>) db dh)"
  "rj_phase j2 = Reading \<Longrightarrow> review_step o1 r (two_jobs j1 j2 db dh) (two_jobs j1 (j2\<lparr>rj_phase := Writing (dh (job_urn j2))\<rparr>) db dh)"
  "rj_phase j2 = Writing seen \<Longrightarrow>
     review_step o1 r (two_jobs j1 j2 db dh) (two_jobs j1 (j2\<lparr>rj_phase := Finishing\<rparr>) db (apply_edit seen j2 dh))"
  "rj_phase j1 = Writing seen \<Longrightarrow>
     review_step o1 r (two_jobs j1 j2 db dh) (two_jobs (j1\<lparr>rj_phase := Finishing\<rparr>) j2 db (apply_edit seen j1 dh))"
  "rj_phase j1 = Finishing \<Longrightarrow> review_step o1 r (two_jobs j1 j2 db dh) (one_job j2 (finish_review n e j1 db) dh)"
  "rj_phase j2 = Finishing \<Longrightarrow>
     review_step o1 r (one_job j2 db dh) \<lparr>rs_db = finish_review n e j2 db, rs_dh = dh, rs_jobs = []\<rparr>"
  using reread [of "one_job j1 db dh" "[]" j1 "[]" o1 r] reads [of "one_job j1 db dh" "[]" j1 "[]" o1 r]
    reread [of "two_jobs j1 j2 db dh" "[j1]" j2 "[]" o1 r] reads [of "two_jobs j1 j2 db dh" "[j1]" j2 "[]" o1 r]
    write_back [of "two_jobs j1 j2 db dh" "[j1]" j2 "[]" seen o1 r] write_back [of "two_jobs j1 j2 db dh" "[]" j1 "[j2]" seen o1 r]
    finishes [of "two_jobs j1 j2 db dh" "[]" j1 "[j2]" o1 r n e] finishes [of "one_job j2 db dh" "[]" j2 "[]" o1 r n e]
  by (simp_all add: one_job_def two_jobs_def)

lemma overtaken:
  assumes "commit_review n1 call1 db = Inr (j1, db1)" "commit_review n2 call2 db1 = Inr (j2, db2)" "meta_inv db"
    "rc_verdict call1 \<in> {''approve'', ''reject''}" "rc_verdict call2 \<in> {''approve'', ''reject''}" "rj_edit j1 \<noteq> Keep" "rj_edit j2 \<noteq> Keep"
  shows "(review_step False True)\<^sup>*\<^sup>* \<lparr>rs_db = db, rs_dh = dh, rs_jobs = []\<rparr>
    \<lparr>rs_db = finish_review n2 True j2 (finish_review n1 True j1 db2),
     rs_dh = apply_edit (dh (rc_urn call1)) j1 (apply_edit (dh (rc_urn call2)) j2 dh), rs_jobs = []\<rparr>"
proof -
  let ?r = "review_step False True"
  have j1: "rj_call j1 = call1" "rj_phase j1 = Refreshing" "meta_inv db1" "row_there (rj_id j1) db1"
    using commit_review_ok [OF assms(1,4,3)] by blast+
  have j2: "rj_call j2 = call2" "rj_phase j2 = Refreshing" "row_there (rj_id j2) db2"
    using commit_review_ok [OF assms(2,5) j1(3)] by blast+
  let ?w1 = "j1\<lparr>rj_phase := Writing (dh (rc_urn call1))\<rparr>" and ?w2 = "j2\<lparr>rj_phase := Writing (dh (rc_urn call2))\<rparr>"
  let ?f1 = "j1\<lparr>rj_phase := Finishing\<rparr>" and ?f2 = "j2\<lparr>rj_phase := Finishing\<rparr>"
  have 1: "?r \<lparr>rs_db = db, rs_dh = dh, rs_jobs = []\<rparr> (one_job j1 db1 dh)"
    using commits [of n1 call1 "\<lparr>rs_db = db, rs_dh = dh, rs_jobs = []\<rparr>" j1 db1 False True] assms(1,4) by (simp add: one_job_def)
  have 2: "?r (one_job j1 db1 dh) (one_job (j1\<lparr>rj_phase := Reading\<rparr>) db1 dh)" by (rule two_jobs_steps(1) [OF j1(2) assms(6) j1(4)])
  have 3: "?r (one_job (j1\<lparr>rj_phase := Reading\<rparr>) db1 dh) (one_job ?w1 db1 dh)"
    using two_jobs_steps(2) [of "j1\<lparr>rj_phase := Reading\<rparr>" False True db1 dh] j1(1) by simp
  have 4: "?r (one_job ?w1 db1 dh) (two_jobs ?w1 j2 db2 dh)"
    using commits [of n2 call2 "one_job ?w1 db1 dh" j2 db2 False True] assms(2,5) by (simp add: one_job_def two_jobs_def)
  have 5: "?r (two_jobs ?w1 j2 db2 dh) (two_jobs ?w1 (j2\<lparr>rj_phase := Reading\<rparr>) db2 dh)" by (rule two_jobs_steps(3) [OF j2(2) assms(7) j2(3)])
  have 6: "?r (two_jobs ?w1 (j2\<lparr>rj_phase := Reading\<rparr>) db2 dh) (two_jobs ?w1 ?w2 db2 dh)"
    using two_jobs_steps(4) [of "j2\<lparr>rj_phase := Reading\<rparr>" False True ?w1 db2 dh] j2(1) by simp
  have 7: "?r (two_jobs ?w1 ?w2 db2 dh) (two_jobs ?w1 ?f2 db2 (apply_edit (dh (rc_urn call2)) j2 dh))"
    using two_jobs_steps(5) [of ?w2 "dh (rc_urn call2)" False True ?w1 db2 dh] by simp
  have 8: "?r (two_jobs ?w1 ?f2 db2 (apply_edit (dh (rc_urn call2)) j2 dh))
      (two_jobs ?f1 ?f2 db2 (apply_edit (dh (rc_urn call1)) j1 (apply_edit (dh (rc_urn call2)) j2 dh)))"
    using two_jobs_steps(6) [of ?w1 "dh (rc_urn call1)" False True ?f2 db2 "apply_edit (dh (rc_urn call2)) j2 dh"] by simp
  have 9: "?r (two_jobs ?f1 ?f2 db2 dh') (one_job ?f2 (finish_review n1 True j1 db2) dh')" for dh'
    using two_jobs_steps(7) [of ?f1 False True ?f2 db2 dh' n1 True] by simp
  have 10: "?r (one_job ?f2 db' dh') \<lparr>rs_db = finish_review n2 True j2 db', rs_dh = dh', rs_jobs = []\<rparr>" for db' dh'
    using two_jobs_steps(8) [of ?f2 False True db' dh' n2 True] by simp
  note chain = converse_rtranclp_into_rtranclp
  show ?thesis by (rule chain [OF 1 chain [OF 2 chain [OF 3 chain [OF 4 chain [OF 5 chain [OF 6 chain [OF 7 chain [OF 8 chain [OF 9
      r_into_rtranclp [of ?r, OF 10]]]]]]]]]])
qed

lemma stale_write_reached:
  "\<exists>s. review_reachable False True example_datahub s \<and> rs_jobs s = [] \<and> approved_value (rs_db s) (''urn:b'', ''column.id.description'') = None \<and>
     shown (rs_dh s) ''urn:b'' ''column.id.description'' = Some ''Key''"
proof -
  have "(case rbind (commit_review 6 example_approval example_proposed) (\<lambda>(j1, db1).
        rmap (\<lambda>(j2, db2). (j1, j2, finish_review 7 True j2 (finish_review 6 True j1 db2))) (commit_review 7 example_rejection db1)) of
      Inr (j1, j2, db3) \<Rightarrow> rj_edit j1 = Put ''Key'' \<and> rj_edit j2 = Drop \<and> approved_value db3 (''urn:b'', ''column.id.description'') = None \<and>
        shown (apply_edit (example_datahub ''urn:b'') j1 (apply_edit (example_datahub ''urn:b'') j2 example_datahub)) ''urn:b'' ''column.id.description'' = Some ''Key''
    | Inl _ \<Rightarrow> False)" by code_simp
  then obtain j1 db1 j2 db2 where c: "commit_review 6 example_approval example_proposed = Inr (j1, db1)"
      "commit_review 7 example_rejection db1 = Inr (j2, db2)"
    and e: "rj_edit j1 = Put ''Key''" "rj_edit j2 = Drop"
      "approved_value (finish_review 7 True j2 (finish_review 6 True j1 db2)) (''urn:b'', ''column.id.description'') = None"
      "shown (apply_edit (example_datahub ''urn:b'') j1 (apply_edit (example_datahub ''urn:b'') j2 example_datahub)) ''urn:b'' ''column.id.description'' = Some ''Key''"
    by (auto simp: result_simps split: sum.splits prod.splits)
  have inv: "meta_inv example_proposed" using metagen_reachable_inv [OF example_proposed_reached] by simp
  have call: "rc_urn example_approval = ''urn:b''" "rc_urn example_rejection = ''urn:b''" "rc_verdict example_approval \<in> {''approve'', ''reject''}"
    "rc_verdict example_rejection \<in> {''approve'', ''reject''}" by (simp_all add: example_rejection_def example_approval_def)
  have "rj_edit j1 \<noteq> Keep" "rj_edit j2 \<noteq> Keep" using e(1,2) by simp_all
  from overtaken [OF c inv call(3,4) this, of example_datahub] tables_reached [OF example_proposed_tables, of False True example_datahub]
  have "review_reachable False True example_datahub
    \<lparr>rs_db = finish_review 7 True j2 (finish_review 6 True j1 db2),
     rs_dh = apply_edit (example_datahub ''urn:b'') j1 (apply_edit (example_datahub ''urn:b'') j2 example_datahub), rs_jobs = []\<rparr>"
    unfolding review_reachable_def call(1,2) by (rule rtranclp_trans [rotated])
  with e(3,4) show ?thesis by (intro exI [of _ "\<lparr>rs_db = finish_review 7 True j2 (finish_review 6 True j1 db2),
     rs_dh = apply_edit (example_datahub ''urn:b'') j1 (apply_edit (example_datahub ''urn:b'') j2 example_datahub), rs_jobs = []\<rparr>"]) simp
qed

end
