(* ===== verification/Spec2Isabelle.thy ===== *)
theory Spec2Isabelle
  imports Filter_Format Dataset_Scope Auth_Properties Recipe_Matcher Ingestion_Sweep_Example Ingestion_Run Ingestion_Events Ontogen_Properties
    Metagen_Coverage Metagen_Properties Metagen_Interleaving
begin

text \<open>
  \<^bold>\<open>DataSpoke backend: verification development.\<close>

  DataSpoke is a service beside a DataHub metadata catalogue. Its Python backend registers
  ingestion sources, resolves their credentials, selects datasets with a small filter
  language, authenticates users and API clients, and runs validation, metric, ontology and
  metadata-generation jobs over the selected datasets. The sources are under \<open>src/src/\<close>:
  \<open>shared/\<close> holds the libraries every layer uses, \<open>backend/\<close> the services, \<open>api/\<close> the FastAPI
  routes and request models. Routes check privileges, call a service, and translate its
  exceptions to an HTTP answer; services work on a PostgreSQL session, on Redis and on remote
  systems (DataHub, Kubernetes, an LLM).

  \<^bold>\<open>Conventions.\<close> A Python function is a HOL function of the same name (a leading underscore
  dropped); an exception is the left summand of a result (\<open>Prelude\<close>, \<open>Exceptions\<close>), with a
  constructor for each class and its error code but without its message. A table is the list
  of its rows and a transaction a function from tables to tables; an operation that raises
  leaves the tables as they were. A string is a list of characters with code points below
  256. Time, random values, hashes, the SDKs and the stores of other systems are arguments.
  Definitions compute, so that the witnesses evaluate them.

  \<^bold>\<open>Components.\<close>

  \<^item> \<^emph>\<open>Dataset filter language\<close>, \<open>shared/dataset_filter.py\<close>. \<open>Filter_Parser\<close>: tokens, the
    recursive-descent parser with its depth, node and length caps, and the errors with their
    position and quoted fragment. The parser functions take fuel, the public one
    \<open>parser_fuel = 3 * length ts + 3\<close>, which \<open>Filter_Safety\<close> proves enough for every input:
    parsing always ends with a well-formed tree within the caps or with an error whose
    position lies in the input and whose fragment is scrubbed and bounded (C1).
    \<open>Filter_Format\<close>: the canonical formatter and its round trip (C2). \<open>Filter_Sql\<close>: the
    compiled clause under three-valued logic accepts what the two-valued reading of the
    filter selects (C3); the engine is the locale \<open>sql_engine\<close>.
  \<^item> \<^emph>\<open>Dataset scopes\<close>, \<open>backend/_dataset_filter.py\<close>, \<open>api/schemas/_dataset_filter.py\<close>.
    \<open>Dataset_Scope\<close>: what a filter resolves to (C4) and what validation accepts (C5).
  \<^item> \<^emph>\<open>Credentials and sessions\<close>, \<open>backend/auth/\<close> and \<open>api/routers/auth.py\<close>. \<open>Auth_Store\<close>:
    users, API tokens, reset tokens and their operations. \<open>Auth_Session\<close>: JWT claims, the
    epoch gate, refresh revocation, the request dependencies and the routes. \<open>Auth_Safety\<close>:
    every interleaving of these as the step relation \<open>auth_step\<close> with its invariants.
    \<open>Auth_Properties\<close>: a takeover by a Google identity is final (C6), reachable stores are
    sound (C7), tokens never escalate (C8), refresh tokens work once (C9), a login
    authenticates its owner (C10).
  \<^item> \<^emph>\<open>Secret references\<close>, \<open>shared/secrets/\<close>. \<open>Secret_Refs\<close>: the \<open>${name__key}\<close> grammar.
    \<open>Secret_Resolver\<close>: the cache and the public functions over a backend, with the outside
    world indexed by moments. \<open>Secret_K8s\<close>: the Kubernetes backend and the locale
    \<open>secret_store\<close> of its contract. \<open>Secret_Safety\<close>: the cache invariant and a small program
    logic. \<open>Secret_Properties\<close>: the cache is bounded (C11), a resolved recipe holds fresh
    answers (C12), the credential boundary (C13), listed references work (C14).
  \<^item> \<^emph>\<open>Ingestion sources\<close>, \<open>shared/models/ingestion.py\<close> and \<open>backend/ingestion/service.py\<close>.
    \<open>Json\<close>, \<open>Recipe\<close>: recipes, reference extraction, schedule tiers and the dataset-name
    matcher. \<open>Recipe_Matcher\<close>: what a caller of the matcher may rely on (C21).
    \<open>Ingestion_Sources\<close>: the source registry. \<open>Ingestion_Properties\<close>: the two reverse lookups
    agree (C15), the table invariant (C16), tier listings are exact (C17), the owner of a
    dataset (C18), an accepted source resolves (C19), masking (C20).
    \<open>Ingestion_Sweep\<close>: the sync sweep and the registry functions of \<open>shared/db/registry.py\<close>, where \<open>sweep_world\<close> is
    all that DataHub answers; a step that raises keeps what the steps before it committed. \<open>Ingestion_Mirror\<close>,
    \<open>Ingestion_Mirror_Step\<close>: what the mirroring of the sources leaves. \<open>Ingestion_Settled\<close>, \<open>Ingestion_Evidence\<close>: the same for
    the mapping, the links, the registry and the booked evidence, whose producers are instances of the locale \<open>recorder\<close>.
    \<open>Ingestion_Sweep_Properties\<close>: a second sweep changes nothing (C38). \<open>Ingestion_Sweep_Safety\<close>: what no sweep touches (C39).
    \<open>Ingestion_Sweep_Example\<close> runs one.

  \<^item> \<^emph>\<open>The LLM tool loop\<close>, \<open>shared/llm/client.py\<close>. \<open>LLM_Loop\<close>: \<open>complete_with_tools\<close>, which
    asks a model until it submits a candidate a validation tool accepts, at most
    \<open>max_iterations\<close> times. The contract of the tool is the locale \<open>validating_tool\<close>.
  \<^item> \<^emph>\<open>Ontology generation\<close>, \<open>backend/ontogen/\<close>. \<open>Ontogen_Slug\<close>: identifiers (C22; the search for
    a free one is a partial function, proved to return). \<open>Ontogen_Validator\<close>: the proposed output,
    its normalisation, the eight rules and the partition of clean rows (C23).
    \<open>Ontogen_Producer\<close>: the tool loop with this validator (C24). \<open>Debate\<close>: the
    producer/reviewer loop, whose turn budget \<open>max_turns\<close> bounds it (C25). \<open>Ontogen_Debate\<close>: what
    it samples for the reviewer (C26). \<open>Run_Lock\<close>: the Redis lock of a run with its time-to-live, for
    any number of workers (C27). \<open>Events\<close>, \<open>Ontogen_Store\<close>: the tables, configuration, seeds,
    reads, reviews. \<open>Ontogen_Run\<close>: the inference run, which resolves the rows of the debate
    against the tables and writes them in three transactions. \<open>Ontogen_Invariant\<close>: the
    invariant of the tables and what one run may change. \<open>Ontogen_Properties\<close>: the step relation
    \<open>onto_step\<close> over all operations; the tables are well formed (C28), triple identifiers are
    unambiguous (C29), a run overrides no review (C30), approval is gated (C31).

  \<^item> \<^emph>\<open>Metadata generation\<close>, \<open>backend/metagen/\<close>. \<open>Metagen_Validator\<close>: the rules on proposed
    descriptions and the producer loop (C32). \<open>Metagen_Debate\<close>: what it supplies to \<open>Debate\<close>; the loop in
    \<open>metagen/debate.py\<close> is the one of \<open>ontogen/debate.py\<close> without rebuttals. \<open>Metagen_Store\<close>: the tables with
    their constraints, configurations, boundaries, items. \<open>Metagen_Coverage\<close>: which configuration
    selects which dataset, three ways (C36). \<open>Metagen_Review\<close>: reviews and the DataHub aspects they
    write, whose contract is the locale \<open>description_store\<close>. \<open>Metagen_Evidence\<close>, \<open>Metagen_Run\<close>: what a
    run reads, and the run with its per-item budget. \<open>Metagen_Invariant\<close>, \<open>Metagen_Safety\<close>,
    \<open>Metagen_Operations\<close>: the invariant of the tables, the frame of a run, every operation keeps both.
    \<open>Metagen_Properties\<close>: the step relation \<open>metagen_step\<close>; the tables are well formed and a review fails only
    in documented ways (C33), what a run may change (C34), DataHub shows what was approved (C35), what
    a review decides (C37).

  \<^bold>\<open>Shared structure.\<close> Every transition system is an instance of the locale \<open>step_invariant\<close> of
  \<open>Exceptions\<close>; tables use the keyed-row lemmas there.

  \<^bold>\<open>Not modelled, and the plan.\<close> In this order: the ingestion run pipeline; the metric measurers and the
  metric service; the validation service; rate limiting, redaction
  and the admin services. Left out for good: the DataHub, Airflow, Qdrant and LLM clients (calls
  to other systems), prompts, migrations, route declarations that only forward to a service,
  deployment scripts, and the TypeScript frontend.
\<close>

end
